(* ===== verification/Strings.thy ===== *)
theory Strings
  imports Prelude "HOL-Library.Sublist"
begin

text \<open>
  The \<open>str\<close> and slice methods of the Rust standard library the sources call, on byte strings:
  splitting and joining, prefixes and suffixes, ASCII classes, \<open>position\<close> and decimal numbers,
  with their round-trip laws.
\<close>

section \<open>Splitting and joining\<close>

text \<open>\<open>s.split(c)\<close>: always at least one piece.\<close>

fun split_on :: "byte \<Rightarrow> string \<Rightarrow> string list" where
  "split_on c [] = [[]]"
| "split_on c (x # xs) =
     (if x = c then [] # split_on c xs
      else (case split_on c xs of [] \<Rightarrow> [[x]] | w # ws \<Rightarrow> (x # w) # ws))"

text \<open>\<open>pieces.join(sep)\<close>.\<close>

fun join_with :: "string \<Rightarrow> string list \<Rightarrow> string" where
  "join_with sep [] = []"
| "join_with sep [w] = w"
| "join_with sep (w # v # ws) = w @ sep @ join_with sep (v # ws)"

lemma split_on_not_Nil [simp]: "split_on c s \<noteq> []"
  by (cases s) (auto split: list.splits)

lemma split_on_no_sep: "c \<notin> set s \<Longrightarrow> split_on c s = [s]"
  by (induction s) auto

lemma split_on_pieces: "w \<in> set (split_on c s) \<Longrightarrow> c \<notin> set w"
proof (induction s arbitrary: w)
  case Nil
  then show ?case by simp
next
  case (Cons x xs)
  then show ?case
    by (cases "split_on c xs") (auto split: if_splits)
qed

lemma split_on_append: "c \<notin> set w \<Longrightarrow> split_on c (w @ c # s) = w # split_on c s"
  by (induction w) auto

lemma join_Cons: "ws \<noteq> [] \<Longrightarrow> join_with sep (w # ws) = w @ sep @ join_with sep ws"
  by (cases ws) auto

lemma join_split: "join_with [c] (split_on c s) = s"
proof (induction s)
  case Nil
  then show ?case by simp
next
  case (Cons x xs)
  obtain w ws where eq: "split_on c xs = w # ws"
    by (cases "split_on c xs") auto
  show ?case
  proof (cases "x = c")
    case True
    with Cons show ?thesis by (simp add: join_Cons)
  next
    case False
    with Cons eq show ?thesis by (cases ws) auto
  qed
qed

lemma split_join:
  "ws \<noteq> [] \<Longrightarrow> (\<And>w. w \<in> set ws \<Longrightarrow> c \<notin> set w) \<Longrightarrow> split_on c (join_with [c] ws) = ws"
proof (induction ws)
  case Nil
  then show ?case by simp
next
  case (Cons w ws)
  then show ?case
    by (cases ws) (simp_all add: split_on_no_sep split_on_append)
qed

lemma split_on_glue:
  "split_on c (a @ b) = butlast (split_on c a) @ (last (split_on c a) @ hd (split_on c b)) # tl (split_on c b)"
proof (induction a)
  case Nil
  show ?case by (cases "split_on c b") simp_all
next
  case (Cons x a)
  then show ?case by (cases "split_on c a") (auto split: list.splits)
qed

lemma split_on_join: "split_on c (a @ c # b) = split_on c a @ split_on c b"
  by (simp add: split_on_glue[of c a "c # b"])

lemma set_split_on: "w \<in> set (split_on c s) \<Longrightarrow> set w \<subseteq> set s"
proof (induction s arbitrary: w)
  case (Cons x s)
  then show ?case by (cases "split_on c s") (auto split: if_splits, blast+)
qed simp

lemma set_join_with: "set (join_with sep ws) \<subseteq> set sep \<union> (\<Union>w \<in> set ws. set w)"
  by (induction sep ws rule: join_with.induct) auto

section \<open>Prefixes and suffixes\<close>

fun strip_prefix :: "string \<Rightarrow> string \<Rightarrow> string option" where
  "strip_prefix [] s = Some s"
| "strip_prefix (p # ps) [] = None"
| "strip_prefix (p # ps) (x # xs) = (if x = p then strip_prefix ps xs else None)"

definition strip_suffix :: "string \<Rightarrow> string \<Rightarrow> string option" where
  "strip_suffix p s = map_option rev (strip_prefix (rev p) (rev s))"

definition starts_with :: "string \<Rightarrow> string \<Rightarrow> bool" where
  "starts_with p s = (strip_prefix p s \<noteq> None)"

definition ends_with :: "string \<Rightarrow> string \<Rightarrow> bool" where
  "ends_with p s = (strip_suffix p s \<noteq> None)"

lemma strip_prefix_iff: "strip_prefix p s = Some r \<longleftrightarrow> s = p @ r"
  by (induction p s rule: strip_prefix.induct) auto

lemma strip_prefix_append [simp]: "strip_prefix p (p @ r) = Some r"
  by (simp add: strip_prefix_iff)

lemma strip_suffix_iff: "strip_suffix p s = Some r \<longleftrightarrow> s = r @ p"
proof -
  have "rev s = rev p @ rev r \<longleftrightarrow> s = r @ p"
    by (metis rev_append rev_rev_ident)
  then show ?thesis
    by (auto simp: strip_suffix_def strip_prefix_iff)
qed

lemma strip_suffix_append [simp]: "strip_suffix p (r @ p) = Some r"
  by (simp add: strip_suffix_iff)

lemma strip_suffix_None: "strip_suffix p s = None \<longleftrightarrow> (\<forall>r. s \<noteq> r @ p)"
  by (metis not_None_eq strip_suffix_iff)

lemma starts_with_iff: "starts_with p s \<longleftrightarrow> (\<exists>r. s = p @ r)"
  unfolding starts_with_def using strip_prefix_iff [of p s] by auto

lemma ends_with_iff: "ends_with p s \<longleftrightarrow> (\<exists>r. s = r @ p)"
  unfolding ends_with_def using strip_suffix_iff [of p s] by auto

text \<open>\<open>s.split_once(c)\<close>.\<close>

fun split_once :: "byte \<Rightarrow> string \<Rightarrow> (string \<times> string) option" where
  "split_once c [] = None"
| "split_once c (x # xs) =
     (if x = c then Some ([], xs) else map_option (\<lambda>(l, r). (x # l, r)) (split_once c xs))"

lemma split_once_SomeD: "split_once c s = Some (l, r) \<Longrightarrow> s = l @ c # r \<and> c \<notin> set l"
  by (induction s arbitrary: l) (fastforce split: if_splits)+

lemma split_once_append: "c \<notin> set l \<Longrightarrow> split_once c (l @ c # r) = Some (l, r)"
  by (induction l) auto

lemma split_once_None: "split_once c s = None \<longleftrightarrow> c \<notin> set s"
  by (induction s) auto

section \<open>ASCII classes\<close>

definition is_ascii_graphic :: "byte \<Rightarrow> bool" where
  "is_ascii_graphic b = (33 \<le> byte_code b \<and> byte_code b \<le> (126 :: nat))"

definition is_ascii_digit :: "byte \<Rightarrow> bool" where
  "is_ascii_digit b = (48 \<le> byte_code b \<and> byte_code b \<le> (57 :: nat))"

definition is_ascii_uppercase :: "byte \<Rightarrow> bool" where
  "is_ascii_uppercase b = (65 \<le> byte_code b \<and> byte_code b \<le> (90 :: nat))"

definition is_ascii_lowercase :: "byte \<Rightarrow> bool" where
  "is_ascii_lowercase b = (97 \<le> byte_code b \<and> byte_code b \<le> (122 :: nat))"

definition is_ascii_alphanumeric :: "byte \<Rightarrow> bool" where
  "is_ascii_alphanumeric b = (is_ascii_digit b \<or> is_ascii_uppercase b \<or> is_ascii_lowercase b)"

text \<open>\<open>u8::is_ascii_whitespace\<close>: space, tab, line feed, form feed, carriage return.\<close>

definition is_ascii_whitespace :: "byte \<Rightarrow> bool" where
  "is_ascii_whitespace b = (byte_code b \<in> {32, 9, 10, 12, 13 :: nat})"

lemma byte_code_less [simp]: "byte_code b < (256 :: nat)"
  using nat_of_char_less_256 [of b] by simp

lemma byte_less_iff: "(b :: byte) < c \<longleftrightarrow> byte_code b < (byte_code c :: nat)"
  by (simp add: less_char_def)

lemma byte_le_iff: "(b :: byte) \<le> c \<longleftrightarrow> byte_code b \<le> (byte_code c :: nat)"
  by (simp add: less_eq_char_def)

section \<open>Positions and selection\<close>

text \<open>\<open>iter().position(p)\<close>.\<close>

fun position :: "('a \<Rightarrow> bool) \<Rightarrow> 'a list \<Rightarrow> nat option" where
  "position p [] = None"
| "position p (x # xs) = (if p x then Some 0 else map_option Suc (position p xs))"

lemma position_Some:
  "position p xs = Some i \<longleftrightarrow> i < length xs \<and> p (xs ! i) \<and> (\<forall>j < i. \<not> p (xs ! j))"
proof (induction xs arbitrary: i)
  case Nil
  then show ?case by simp
next
  case (Cons x xs)
  then show ?case
    by (cases i) (auto simp: less_Suc_eq_0_disj)
qed

lemma position_None: "position p xs = None \<longleftrightarrow> (\<forall>x \<in> set xs. \<not> p x)"
  by (induction xs) auto

text \<open>\<open>iter().min_by_key(f)\<close>: the first of several minima, \<open>None\<close> on an empty iterator.\<close>

fun min_by_key :: "('a \<Rightarrow> 'k :: linorder) \<Rightarrow> 'a list \<Rightarrow> 'a option" where
  "min_by_key f [] = None"
| "min_by_key f (x # xs) =
     (case min_by_key f xs of None \<Rightarrow> Some x | Some y \<Rightarrow> Some (if f x \<le> f y then x else y))"

lemma min_by_key_None [simp]: "min_by_key f xs = None \<longleftrightarrow> xs = []"
  by (cases xs) (auto split: option.splits)

lemma min_by_key_SomeD:
  "min_by_key f xs = Some y \<Longrightarrow> y \<in> set xs \<and> (\<forall>x \<in> set xs. f y \<le> f x)"
  by (induction xs arbitrary: y) (force split: option.splits if_splits)+

section \<open>Decimal numbers\<close>

definition digit_byte :: "nat \<Rightarrow> byte" where
  "digit_byte d = char_of (48 + d)"

text \<open>\<open>format!("{n}")\<close> of an unsigned integer.\<close>

fun decimal :: "nat \<Rightarrow> string" where
  "decimal n = (if n < 10 then [digit_byte n] else decimal (n div 10) @ [digit_byte (n mod 10)])"

declare decimal.simps [simp del]

definition digit_of :: "byte \<Rightarrow> nat" where
  "digit_of b = byte_code b - 48"

text \<open>The value a string of ASCII digits spells, before any width is applied.\<close>

definition decimal_value :: "string \<Rightarrow> nat" where
  "decimal_value s = foldl (\<lambda>n b. 10 * n + digit_of b) 0 s"

lemma byte_code_digit_byte: "d < 10 \<Longrightarrow> byte_code (digit_byte d) = 48 + d"
  by (simp add: digit_byte_def)

lemma digit_of_digit_byte [simp]: "d < 10 \<Longrightarrow> digit_of (digit_byte d) = d"
  by (simp add: digit_of_def byte_code_digit_byte)

lemma digit_byte_is_digit: "d < 10 \<Longrightarrow> is_ascii_digit (digit_byte d)"
  by (simp add: is_ascii_digit_def byte_code_digit_byte)

lemma digit_byte_digit_of: "is_ascii_digit b \<Longrightarrow> digit_byte (digit_of b) = b"
  by (auto simp: is_ascii_digit_def digit_byte_def digit_of_def)

lemma decimal_not_Nil [simp]: "decimal n \<noteq> []"
  by (subst decimal.simps) simp

lemma decimal_digits: "b \<in> set (decimal n) \<Longrightarrow> is_ascii_digit b"
proof (induction n rule: decimal.induct)
  case (1 n)
  show ?case
  proof (cases "n < 10")
    case True
    with 1 show ?thesis by (simp add: decimal.simps [of n] digit_byte_is_digit)
  next
    case False
    with 1 show ?thesis by (auto simp: decimal.simps [of n] digit_byte_is_digit)
  qed
qed

lemma decimal_value_snoc: "decimal_value (s @ [b]) = 10 * decimal_value s + digit_of b"
  by (simp add: decimal_value_def)

lemma decimal_value_decimal [simp]: "decimal_value (decimal n) = n"
proof (induction n rule: decimal.induct)
  case (1 n)
  show ?case
  proof (cases "n < 10")
    case True
    then show ?thesis by (simp add: decimal.simps [of n] decimal_value_def)
  next
    case False
    with 1 have "decimal_value (decimal n) = 10 * (n div 10) + n mod 10"
      by (simp add: decimal.simps [of n] decimal_value_snoc)
    then show ?thesis by simp
  qed
qed

lemma digit_byte_0: "digit_byte 0 = CHR ''0''"
  by (simp add: digit_byte_def) code_simp

lemma hd_decimal: "0 < n \<Longrightarrow> hd (decimal n) \<noteq> CHR ''0''"
proof (induction n rule: decimal.induct)
  case (1 n)
  show ?case
  proof (cases "n < 10")
    case True
    then have "byte_code (digit_byte n) \<noteq> (48 :: nat)"
      using 1 by (simp add: byte_code_digit_byte)
    with True show ?thesis
      by (auto simp: decimal.simps [of n])
  next
    case False
    with 1 show ?thesis by (simp add: decimal.simps [of n])
  qed
qed

lemma decimal_0: "decimal 0 = ''0''"
  by (simp add: decimal.simps digit_byte_0)

lemma decimal_leading_zero: "decimal n = CHR ''0'' # s \<Longrightarrow> n = 0"
  using hd_decimal [of n] by (cases "n = 0") auto

lemma decimal_of_value:
  "s \<noteq> [] \<Longrightarrow> (\<forall>b \<in> set s. is_ascii_digit b) \<Longrightarrow> s = ''0'' \<or> hd s \<noteq> CHR ''0'' \<Longrightarrow>
     decimal (decimal_value s) = s"
proof (induction s rule: rev_induct)
  case Nil
  then show ?case by simp
next
  case (snoc b s)
  have d: "is_ascii_digit b" and lt: "digit_of b < 10"
    using snoc.prems by (auto simp: is_ascii_digit_def digit_of_def)
  show ?case
  proof (cases "s = []")
    case True
    with d lt show ?thesis
      by (simp add: decimal_value_def decimal.simps digit_byte_digit_of)
  next
    case False
    with snoc.prems have hd: "hd s \<noteq> CHR ''0''" by (auto simp: append_eq_Cons_conv)
    with False snoc have IH: "decimal (decimal_value s) = s" by simp
    have "decimal_value s \<noteq> 0"
      using IH hd by (metis decimal_0 list.sel(1))
    with lt have "\<not> decimal_value (s @ [b]) < 10"
      by (simp add: decimal_value_snoc)
    with lt d IH show ?thesis
      by (subst decimal.simps) (simp add: decimal_value_snoc digit_byte_digit_of)
  qed
qed

end
