(* ===== verification/Codec.thy ===== *)
theory Codec
  imports Strings
begin

text \<open>
  The two interfaces the manifest grammar relies on. An \<open>encoding\<close> spells every well-formed value
  so that its decoder reads it back; a \<open>canonical_codec\<close> in addition accepts nothing but those
  spellings. The field decoders of the manifest (hexadecimal, file modes, sizes, payload hashes)
  are canonical codecs; the path decoder is only an encoding, and the parser makes up for it by
  comparing re-serialised text.
\<close>

locale encoding =
  fixes enc :: "'a \<Rightarrow> string"
    and dec :: "string \<Rightarrow> 'a option"
    and wf :: "'a \<Rightarrow> bool"
  assumes dec_enc: "wf x \<Longrightarrow> dec (enc x) = Some x"
begin

lemma enc_inj: "wf x \<Longrightarrow> wf y \<Longrightarrow> enc x = enc y \<Longrightarrow> x = y"
  by (metis dec_enc option.inject)

lemma enc_inj_on: "inj_on enc (Collect wf)"
  by (auto intro!: inj_onI enc_inj)

lemma dec_enc_the: "wf x \<Longrightarrow> the (dec (enc x)) = x"
  by (simp add: dec_enc)

end

locale canonical_codec = encoding +
  assumes dec_sound: "dec s = Some x \<Longrightarrow> wf x \<and> enc x = s"
begin

lemma dec_iff: "dec s = Some x \<longleftrightarrow> wf x \<and> s = enc x"
  using dec_enc dec_sound by auto

lemma dec_inj: "dec s = Some x \<Longrightarrow> dec t = Some x \<Longrightarrow> s = t"
  using dec_sound by metis

lemma dec_None: "dec s = None \<longleftrightarrow> (\<forall>x. wf x \<longrightarrow> enc x \<noteq> s)"
  using dec_iff by (metis not_None_eq)

end

end
