(* ===== verification/Hex.thy ===== *)
theory Hex
  imports Codec
begin

text \<open>
  \<open>crates/tydence/src/hex.rs\<close>: hexadecimal text over one sixteen-spelling alphabet. A \<open>u8\<close> is read
  by \<open>byte_code\<close>; its nibbles are \<open>div 16\<close> and \<open>mod 16\<close>, and \<open>char_of\<close> reduces modulo 256 as a
  \<open>u8\<close> sum would.
\<close>

section \<open>The operations\<close>

definition LOWERCASE :: string where
  "LOWERCASE = ''0123456789abcdef''"

definition UPPERCASE :: string where
  "UPPERCASE = ''0123456789ABCDEF''"

definition digit_value :: "string \<Rightarrow> byte \<Rightarrow> nat option" where
  "digit_value alphabet hex_byte = position (\<lambda>spelling. spelling = hex_byte) alphabet"

definition hex_encode :: "string \<Rightarrow> bytes \<Rightarrow> string" where
  "hex_encode alphabet payload_bytes =
     concat (map (\<lambda>payload_byte.
       [alphabet ! (byte_code payload_byte div 16), alphabet ! (byte_code payload_byte mod 16)])
       payload_bytes)"

fun decode_pairs :: "string \<Rightarrow> string \<Rightarrow> bytes option" where
  "decode_pairs alphabet (h # l # rest) =
     (case digit_value alphabet h of None \<Rightarrow> None
      | Some high \<Rightarrow>
        (case digit_value alphabet l of None \<Rightarrow> None
         | Some low \<Rightarrow> map_option (\<lambda>bs. char_of (high * 16 + low) # bs) (decode_pairs alphabet rest)))"
| "decode_pairs alphabet _ = Some []"

definition hex_decode :: "nat \<Rightarrow> string \<Rightarrow> string \<Rightarrow> bytes option" where
  "hex_decode byte_count alphabet hex_text =
     (if length hex_text \<noteq> byte_count * 2 then None else decode_pairs alphabet hex_text)"

section \<open>An alphabet spells every nibble once\<close>

locale hex_alphabet =
  fixes alphabet :: string
  assumes sixteen: "length alphabet = 16"
    and spelled_once: "distinct alphabet"
begin

lemma digit_value_Some: "digit_value alphabet b = Some d \<longleftrightarrow> d < 16 \<and> b = alphabet ! d"
  using spelled_once sixteen
  by (auto simp: digit_value_def position_Some nth_eq_iff_index_eq)

lemma digit_value_nth: "d < 16 \<Longrightarrow> digit_value alphabet (alphabet ! d) = Some d"
  by (simp add: digit_value_Some)

lemma decode_pairs_encode: "decode_pairs alphabet (hex_encode alphabet bs) = Some bs"
proof (induction bs)
  case Nil
  then show ?case by (simp add: hex_encode_def)
next
  case (Cons b bs)
  have "byte_code b div 16 < (16 :: nat)"
    by (simp add: less_mult_imp_div_less)
  with Cons show ?case
    by (simp add: hex_encode_def digit_value_nth mult.commute)
qed

lemma length_encode [simp]: "length (hex_encode alphabet bs) = 2 * length bs"
  by (induction bs) (auto simp: hex_encode_def)

lemma encode_alphabet: "set (hex_encode alphabet bs) \<subseteq> set alphabet"
proof
  fix x
  assume "x \<in> set (hex_encode alphabet bs)"
  then obtain b where "x = alphabet ! (byte_code b div 16) \<or> x = alphabet ! (byte_code b mod 16)"
    by (auto simp: hex_encode_def)
  moreover have "byte_code b div 16 < (16 :: nat)" "byte_code b mod 16 < (16 :: nat)"
    by (simp_all add: less_mult_imp_div_less)
  ultimately show "x \<in> set alphabet"
    using sixteen by auto
qed

lemma decode_pairs_sound:
  "even (length s) \<Longrightarrow> decode_pairs alphabet s = Some bs \<Longrightarrow>
     length s = 2 * length bs \<and> hex_encode alphabet bs = s"
proof (induction s arbitrary: bs rule: induct_list012)
  case 1
  then show ?case by (simp add: hex_encode_def)
next
  case (2 x)
  then show ?case by simp
next
  case (3 h l rest)
  from "3.prems" obtain high low cs where digits:
    "digit_value alphabet h = Some high" "digit_value alphabet l = Some low"
    "decode_pairs alphabet rest = Some cs" "bs = char_of (high * 16 + low) # cs"
    by (auto split: option.splits)
  then have nibbles: "high < 16" "h = alphabet ! high" "low < 16" "l = alphabet ! low"
    by (simp_all add: digit_value_Some)
  then have "(high * 16 + low) mod 256 = high * 16 + low" by simp
  moreover have "length rest = 2 * length cs \<and> hex_encode alphabet cs = rest"
    using "3.IH" "3.prems" digits by simp
  ultimately show ?case
    using digits nibbles by (simp add: hex_encode_def)
qed

lemma hex_decode_encode: "length bs = n \<Longrightarrow> hex_decode n alphabet (hex_encode alphabet bs) = Some bs"
  by (simp add: hex_decode_def decode_pairs_encode)

lemma hex_decode_sound:
  "hex_decode n alphabet s = Some bs \<Longrightarrow> length bs = n \<and> hex_encode alphabet bs = s"
  using decode_pairs_sound [of s bs] by (auto simp: hex_decode_def split: if_splits)

end

lemma LOWERCASE_alphabet: "length LOWERCASE = 16" "distinct LOWERCASE"
  by (simp_all add: LOWERCASE_def)

lemma UPPERCASE_alphabet: "length UPPERCASE = 16" "distinct UPPERCASE"
  by (simp_all add: UPPERCASE_def)

interpretation lower: hex_alphabet LOWERCASE
  by unfold_locales (rule LOWERCASE_alphabet)+

interpretation upper: hex_alphabet UPPERCASE
  by unfold_locales (rule UPPERCASE_alphabet)+

text \<open>A payload hash of 32 bytes in lower case is a canonical codec.\<close>

interpretation hash_hex: canonical_codec
  "hex_encode LOWERCASE" "hex_decode 32 LOWERCASE" "\<lambda>bs. length bs = 32"
  by unfold_locales (simp_all add: lower.hex_decode_encode lower.hex_decode_sound)

lemma LOWERCASE_graphic: "b \<in> set LOWERCASE \<Longrightarrow> is_ascii_graphic b"
  by (auto simp: LOWERCASE_def is_ascii_graphic_def)

lemma hex_lower_graphic: "b \<in> set (hex_encode LOWERCASE bs) \<Longrightarrow> is_ascii_graphic b"
  using lower.encode_alphabet LOWERCASE_graphic by blast

lemma UPPERCASE_graphic: "b \<in> set UPPERCASE \<Longrightarrow> is_ascii_graphic b \<and> b \<noteq> CHR ''%''"
  by (auto simp: UPPERCASE_def is_ascii_graphic_def)

end
