(* ===== verification/Utf8.thy ===== *)
theory Utf8
  imports Strings
begin

text \<open>
  UTF-8 as the Rust standard library validates it: \<open>str::from_utf8\<close> with the \<open>valid_up_to\<close> and
  \<open>error_len\<close> of its error, the characters of a valid \<open>str\<close>, and the methods the sources build on
  them (\<open>trim\<close>, \<open>lines\<close>).
\<close>

section \<open>One character\<close>

datatype utf8_step =
    Scalar (scalar_value: nat) (scalar_len: nat)  \<comment> \<open>a character and its encoded length\<close>
  | Invalid nat  \<comment> \<open>\<open>error_len = Some n\<close>\<close>
  | Truncated  \<comment> \<open>\<open>error_len = None\<close>: the buffer ends inside a would-be sequence\<close>

definition utf8_width :: "byte \<Rightarrow> nat" where
  "utf8_width b = (let c = byte_code b in
     if c < 128 then 1
     else if 194 \<le> c \<and> c \<le> 223 then 2
     else if 224 \<le> c \<and> c \<le> 239 then 3
     else if 240 \<le> c \<and> c \<le> (244 :: nat) then 4
     else 0)"

definition is_continuation :: "byte \<Rightarrow> bool" where
  "is_continuation b = (128 \<le> byte_code b \<and> byte_code b \<le> (191 :: nat))"

text \<open>The second byte of a sequence: overlong forms, surrogates and values past U+10FFFF are out.\<close>

definition second_byte_ok :: "byte \<Rightarrow> byte \<Rightarrow> bool" where
  "second_byte_ok b1 b2 = (let c = byte_code b1; d = byte_code b2 in
     is_continuation b2 \<and>
     (c = 224 \<longrightarrow> 160 \<le> d) \<and> (c = 237 \<longrightarrow> d \<le> 159) \<and>
     (c = 240 \<longrightarrow> 144 \<le> d) \<and> (c = 244 \<longrightarrow> d \<le> (143 :: nat)))"

definition tail_bits :: "byte \<Rightarrow> nat" where
  "tail_bits b = byte_code b - 128"

definition utf8_next :: "byte \<Rightarrow> bytes \<Rightarrow> utf8_step" where
  "utf8_next b1 rest =
     (let w = utf8_width b1 in
      if w = 1 then Scalar (byte_code b1) 1
      else if w = 2 then
        (case rest of [] \<Rightarrow> Truncated
         | b2 # _ \<Rightarrow>
           if \<not> is_continuation b2 then Invalid 1
           else Scalar ((byte_code b1 - 192) * 64 + tail_bits b2) 2)
      else if w = 3 then
        (case rest of [] \<Rightarrow> Truncated
         | b2 # rest2 \<Rightarrow>
           if \<not> second_byte_ok b1 b2 then Invalid 1
           else (case rest2 of [] \<Rightarrow> Truncated
             | b3 # _ \<Rightarrow>
               if \<not> is_continuation b3 then Invalid 2
               else Scalar ((byte_code b1 - 224) * 4096 + tail_bits b2 * 64 + tail_bits b3) 3))
      else if w = 4 then
        (case rest of [] \<Rightarrow> Truncated
         | b2 # rest2 \<Rightarrow>
           if \<not> second_byte_ok b1 b2 then Invalid 1
           else (case rest2 of [] \<Rightarrow> Truncated
             | b3 # rest3 \<Rightarrow>
               if \<not> is_continuation b3 then Invalid 2
               else (case rest3 of [] \<Rightarrow> Truncated
                 | b4 # _ \<Rightarrow>
                   if \<not> is_continuation b4 then Invalid 3
                   else Scalar ((byte_code b1 - 240) * 262144 + tail_bits b2 * 4096
                          + tail_bits b3 * 64 + tail_bits b4) 4)))
      else Invalid 1)"

lemmas utf8_step_defs = utf8_next_def Let_def

lemma utf8_next_Scalar_len:
  "utf8_next b bs = Scalar cp n \<Longrightarrow> 0 < n \<and> n \<le> Suc (length bs)"
  by (auto simp: utf8_step_defs split: if_splits list.splits)

lemma utf8_next_Invalid_len:
  "utf8_next b bs = Invalid n \<Longrightarrow> 0 < n \<and> n \<le> Suc (length bs)"
  by (auto simp: utf8_step_defs split: if_splits list.splits)

lemma utf8_next_Scalar_disj:
  assumes "utf8_next b bs = Scalar cp n"
  shows "(n = 1 \<and> utf8_width b = 1 \<and> cp = byte_code b) \<or>
    (\<exists>b2 r. n = 2 \<and> utf8_width b = 2 \<and> bs = b2 # r \<and> is_continuation b2) \<or>
    (\<exists>b2 b3 r. n = 3 \<and> utf8_width b = 3 \<and> bs = b2 # b3 # r \<and> second_byte_ok b b2 \<and>
       is_continuation b3) \<or>
    (\<exists>b2 b3 b4 r. n = 4 \<and> utf8_width b = 4 \<and> bs = b2 # b3 # b4 # r \<and> second_byte_ok b b2 \<and>
       is_continuation b3 \<and> is_continuation b4)"
proof -
  consider "utf8_width b = 1" | "utf8_width b = 2" | "utf8_width b = 3" | "utf8_width b = 4"
    | "utf8_width b \<notin> {1, 2, 3, 4}" by auto
  then show ?thesis
    using assms by cases (simp_all add: utf8_step_defs split: if_splits list.splits)
qed

lemma utf8_next_ScalarE:
  assumes "utf8_next b bs = Scalar cp n"
  obtains (One) "n = 1" "utf8_width b = 1" "cp = byte_code b"
  | (Two) b2 r where "n = 2" "utf8_width b = 2" "bs = b2 # r" "is_continuation b2"
  | (Three) b2 b3 r where "n = 3" "utf8_width b = 3" "bs = b2 # b3 # r" "second_byte_ok b b2"
      "is_continuation b3"
  | (Four) b2 b3 b4 r where "n = 4" "utf8_width b = 4" "bs = b2 # b3 # b4 # r"
      "second_byte_ok b b2" "is_continuation b3" "is_continuation b4"
  using utf8_next_Scalar_disj [OF assms] by blast

lemma utf8_next_Scalar_local:
  assumes "utf8_next b bs = Scalar cp n"
  shows "utf8_next b (take (n - 1) bs @ ys) = Scalar cp n"
  using assms by (cases rule: utf8_next_ScalarE [OF assms]) (simp_all add: utf8_step_defs)

lemma utf8_next_ascii: "byte_code b < (128 :: nat) \<Longrightarrow> utf8_next b bs = Scalar (byte_code b) 1"
  by (simp add: utf8_step_defs utf8_width_def)

lemma width_multibyte: "1 < utf8_width b \<Longrightarrow> 128 \<le> (byte_code b :: nat)"
  by (simp add: utf8_width_def Let_def split: if_splits)

lemma continuation_multibyte: "is_continuation b \<Longrightarrow> 128 \<le> (byte_code b :: nat)"
  by (simp add: is_continuation_def)

lemma second_byte_continuation: "second_byte_ok b c \<Longrightarrow> is_continuation c"
  by (simp add: second_byte_ok_def Let_def)

lemma utf8_next_multibyte_tail:
  assumes step: "utf8_next b bs = Scalar cp n" and "1 < n" and "x \<in> set (b # take (n - 1) bs)"
  shows "128 \<le> (byte_code x :: nat)"
  using assms(2,3) width_multibyte [of b] continuation_multibyte [of x]
  by (cases rule: utf8_next_ScalarE [OF step])
    (auto simp: eval_nat_numeral dest: second_byte_continuation)

lemma utf8_next_Scalar_append:
  assumes "utf8_next b bs = Scalar cp n"
  shows "utf8_next b (bs @ t) = Scalar cp n"
  using assms by (cases rule: utf8_next_ScalarE [OF assms]) (simp_all add: utf8_step_defs)

lemma width_single: "utf8_width b = 1 \<Longrightarrow> byte_code b < (128 :: nat)"
  by (simp add: utf8_width_def Let_def split: if_splits)

lemma utf8_next_single:
  assumes step: "utf8_next b bs = Scalar cp n" and "n = 1"
  shows "cp = byte_code b \<and> cp < 128"
  using assms(2) width_single [of b] by (cases rule: utf8_next_ScalarE [OF step]) simp_all

lemma utf8_next_single_ascii: "utf8_next b bs = Scalar cp (Suc 0) \<Longrightarrow> cp = byte_code b \<and> cp < 128"
  by (rule utf8_next_single) simp_all

section \<open>\<open>str::from_utf8\<close>\<close>

record utf8_error =
  valid_up_to :: nat
  error_len :: "nat option"

fun utf8_scan :: "nat \<Rightarrow> bytes \<Rightarrow> (utf8_error, unit) result" where
  "utf8_scan i [] = Ok ()"
| "utf8_scan i (b # bs) =
     (case utf8_next b bs of
        Scalar cp n \<Rightarrow> utf8_scan (i + n) (drop (n - 1) bs)
      | Invalid n \<Rightarrow> Err \<lparr>valid_up_to = i, error_len = Some n\<rparr>
      | Truncated \<Rightarrow> Err \<lparr>valid_up_to = i, error_len = None\<rparr>)"

definition from_utf8 :: "bytes \<Rightarrow> (utf8_error, string) result" where
  "from_utf8 bs = and_then (utf8_scan 0 bs) (\<lambda>_. Ok bs)"

definition is_utf8 :: "bytes \<Rightarrow> bool" where
  "is_utf8 bs = is_ok (from_utf8 bs)"

text \<open>\<open>text.chars()\<close>: each character with its bytes; the scan stops at the first invalid byte.\<close>

fun chars_of :: "string \<Rightarrow> (nat \<times> bytes) list" where
  "chars_of [] = []"
| "chars_of (b # bs) =
     (case utf8_next b bs of
        Scalar cp n \<Rightarrow> (cp, b # take (n - 1) bs) # chars_of (drop (n - 1) bs)
      | _ \<Rightarrow> [])"

lemma utf8_scan_shift: "is_ok (utf8_scan i bs) \<longleftrightarrow> is_ok (utf8_scan j bs)"
proof (induction i bs arbitrary: j rule: utf8_scan.induct)
  case (1 i)
  then show ?case by simp
next
  case (2 i b bs)
  show ?case
  proof (cases "utf8_next b bs")
    case (Scalar cp n)
    with "2.IH" [OF Scalar, of "j + n"] show ?thesis by simp
  qed simp_all
qed

lemma is_utf8_scan: "is_utf8 bs \<longleftrightarrow> utf8_scan i bs = Ok ()"
proof -
  have "is_utf8 bs \<longleftrightarrow> is_ok (utf8_scan 0 bs)"
    by (auto simp: is_utf8_def from_utf8_def result_simps)
  also have "\<dots> \<longleftrightarrow> is_ok (utf8_scan i bs)" by (rule utf8_scan_shift)
  also have "\<dots> \<longleftrightarrow> utf8_scan i bs = Ok ()" by (simp add: result_simps)
  finally show ?thesis .
qed

lemma from_utf8_Ok: "from_utf8 bs = Ok t \<longleftrightarrow> is_utf8 bs \<and> t = bs"
  by (auto simp: is_utf8_def from_utf8_def result_simps)

lemma from_utf8_valid: "is_utf8 bs \<Longrightarrow> from_utf8 bs = Ok bs"
  by (simp add: from_utf8_Ok)

lemma is_utf8_Nil [simp]: "is_utf8 []"
  by (simp add: is_utf8_scan [of _ 0])

lemma is_utf8_Cons:
  "is_utf8 (b # bs) \<longleftrightarrow> (\<exists>cp n. utf8_next b bs = Scalar cp n \<and> is_utf8 (drop (n - 1) bs))"
proof (cases "utf8_next b bs")
  case (Scalar cp n)
  have "is_utf8 (b # bs) \<longleftrightarrow> utf8_scan (0 + n) (drop (n - 1) bs) = Ok ()"
    using Scalar by (simp add: is_utf8_scan [of _ 0])
  with Scalar show ?thesis by (simp add: is_utf8_scan [of _ "0 + n"])
qed (simp_all add: is_utf8_scan [of _ 0])

lemma is_utf8_induct [consumes 1, case_names Nil Char]:
  assumes "is_utf8 s" and "P []"
    and "\<And>b bs cp n. utf8_next b bs = Scalar cp n \<Longrightarrow> 0 < n \<Longrightarrow> n \<le> Suc (length bs) \<Longrightarrow>
      is_utf8 (drop (n - 1) bs) \<Longrightarrow> P (drop (n - 1) bs) \<Longrightarrow> P (b # bs)"
  shows "P s"
  using assms(1)
proof (induction "length s" arbitrary: s rule: less_induct)
  case less
  show ?case
  proof (cases s)
    case Nil
    with assms(2) show ?thesis by simp
  next
    case (Cons b bs)
    with less.prems obtain cp n where step: "utf8_next b bs = Scalar cp n" "is_utf8 (drop (n - 1) bs)"
      by (auto simp: is_utf8_Cons)
    moreover have "P (drop (n - 1) bs)"
      using less.hyps [of "drop (n - 1) bs"] step Cons by simp
    ultimately show ?thesis
      using assms(3) utf8_next_Scalar_len Cons by blast
  qed
qed

lemma concat_chars: "is_utf8 s \<Longrightarrow> concat (map snd (chars_of s)) = s"
  by (induction rule: is_utf8_induct) simp_all

lemma is_utf8_append: "is_utf8 s \<Longrightarrow> is_utf8 t \<Longrightarrow> is_utf8 (s @ t)"
proof (induction rule: is_utf8_induct)
  case Nil
  then show ?case by simp
next
  case (Char b bs cp n)
  have "utf8_next b (bs @ t) = Scalar cp n"
    using Char(1) by (rule utf8_next_Scalar_append)
  moreover have "drop (n - 1) (bs @ t) = drop (n - 1) bs @ t"
    using Char(3) by simp
  ultimately show ?case
    using Char by (simp add: is_utf8_Cons)
qed

lemma is_utf8_ascii: "(\<forall>b \<in> set s. byte_code b < (128 :: nat)) \<Longrightarrow> is_utf8 s"
  by (induction s) (auto simp: is_utf8_Cons utf8_next_ascii)

lemma chars_of_append: "is_utf8 s \<Longrightarrow> chars_of (s @ t) = chars_of s @ chars_of t"
proof (induction rule: is_utf8_induct)
  case Nil
  then show ?case by simp
next
  case (Char b bs cp n)
  then have "take (n - 1) (bs @ t) = take (n - 1) bs" "drop (n - 1) (bs @ t) = drop (n - 1) bs @ t"
    by simp_all
  with Char utf8_next_Scalar_append [OF Char(1), of t] show ?case
    by (simp del: take_append drop_append)
qed

lemma one_char:
  assumes "utf8_next b bs = Scalar cp n"
  shows "is_utf8 (b # take (n - 1) bs)" and "chars_of (b # take (n - 1) bs) = [(cp, b # take (n - 1) bs)]"
  using utf8_next_Scalar_local [OF assms, of "[]"] utf8_next_Scalar_len [OF assms]
  by (auto simp: is_utf8_Cons)

text \<open>An ASCII byte of a valid text is a character of its own.\<close>

lemma ascii_is_char:
  "is_utf8 s \<Longrightarrow> x \<in> set s \<Longrightarrow> byte_code x < (128 :: nat) \<Longrightarrow> (byte_code x, [x]) \<in> set (chars_of s)"
proof (induction rule: is_utf8_induct)
  case Nil
  then show ?case by simp
next
  case (Char b bs cp n)
  have "x \<in> set (b # take (n - 1) bs) \<or> x \<in> set (drop (n - 1) bs)"
    using Char.prems(1) by (metis Un_iff append_take_drop_id set_ConsD list.set_intros set_append)
  moreover have "n = 1 \<and> x = b \<and> cp = byte_code b" if "x \<in> set (b # take (n - 1) bs)"
  proof -
    have "\<not> 1 < n"
      using utf8_next_multibyte_tail [OF Char(1) _ that] Char.prems(2) by fastforce
    with Char(2) have "n = 1" by simp
    with that utf8_next_single [OF Char(1)] show ?thesis by simp
  qed
  ultimately show ?case
    using Char by auto
qed

text \<open>On ASCII text every byte is a character: the equation witnesses evaluate with.\<close>

lemma chars_of_ascii_Cons:
  "byte_code b < (128 :: nat) \<Longrightarrow> chars_of (b # bs) = (byte_code b, [b]) # chars_of bs"
  by (simp add: utf8_next_ascii)

text \<open>
  A failing scan: everything before \<open>valid_up_to\<close> is valid text and the next step is the one that
  failed.
\<close>

lemma utf8_scan_ErrD:
  "utf8_scan i bs = Err e \<Longrightarrow>
     \<exists>pre b rest. bs = pre @ b # rest \<and> valid_up_to e = i + length pre \<and> is_utf8 pre \<and>
       (case error_len e of Some n \<Rightarrow> utf8_next b rest = Invalid n | None \<Rightarrow> utf8_next b rest = Truncated)"
proof (induction i bs rule: utf8_scan.induct)
  case (1 i)
  then show ?case by simp
next
  case (2 i b bs)
  show ?case
  proof (cases "utf8_next b bs")
    case (Scalar cp n)
    with 2 obtain pre c rest where IH: "drop (n - 1) bs = pre @ c # rest"
      "valid_up_to e = i + n + length pre" "is_utf8 pre"
      "case error_len e of Some n \<Rightarrow> utf8_next c rest = Invalid n | None \<Rightarrow> utf8_next c rest = Truncated"
      by auto
    have n: "0 < n" "n \<le> Suc (length bs)"
      using utf8_next_Scalar_len [OF Scalar] by auto
    let ?pre = "b # take (n - 1) bs @ pre"
    have "bs = take (n - 1) bs @ pre @ c # rest"
      using IH(1) by (metis append_take_drop_id)
    then have "b # bs = ?pre @ c # rest" by simp
    moreover have "valid_up_to e = i + length ?pre"
      using IH(2) n by simp
    moreover have "is_utf8 ?pre"
      using utf8_next_Scalar_local [OF Scalar, of pre] IH(3) n by (auto simp: is_utf8_Cons)
    ultimately show ?thesis
      using IH(4) by (metis (lifting))
  next
    case (Invalid n)
    with 2 show ?thesis by (intro exI [of _ "[]"]) auto
  next
    case Truncated
    with 2 show ?thesis by (intro exI [of _ "[]"]) auto
  qed
qed

section \<open>\<open>trim\<close> and \<open>lines\<close>\<close>

text \<open>\<open>char::is_whitespace\<close>: the code points of the Unicode property White\_Space.\<close>

definition is_whitespace :: "nat \<Rightarrow> bool" where
  "is_whitespace cp =
     (9 \<le> cp \<and> cp \<le> 13 \<or> cp \<in> {32, 133, 160, 5760, 8232, 8233, 8239, 8287, 12288}
      \<or> 8192 \<le> cp \<and> cp \<le> 8202)"

definition str_trim_start :: "string \<Rightarrow> string" where
  "str_trim_start s = concat (map snd (dropWhile (\<lambda>(cp, _). is_whitespace cp) (chars_of s)))"

definition str_trim_end :: "string \<Rightarrow> string" where
  "str_trim_end s = concat (map snd (rev (dropWhile (\<lambda>(cp, _). is_whitespace cp) (rev (chars_of s)))))"

definition str_trim :: "string \<Rightarrow> string" where
  "str_trim s = concat (map snd (rev (dropWhile (\<lambda>(cp, _). is_whitespace cp)
     (rev (dropWhile (\<lambda>(cp, _). is_whitespace cp) (chars_of s))))))"

text \<open>
  \<open>s.lines()\<close>: pieces ended by a line feed lose it and one carriage return before it; a last piece
  without a line feed is kept as it is, and an empty one is no line.
\<close>

definition strip_cr :: "string \<Rightarrow> string" where
  "strip_cr l = (case strip_suffix [CHR 0x0D] l of None \<Rightarrow> l | Some l' \<Rightarrow> l')"

definition str_lines :: "string \<Rightarrow> string list" where
  "str_lines s =
     (let pieces = split_on (CHR 0x0A) s; final = last pieces
      in map strip_cr (butlast pieces) @ (if final = [] then [] else [final]))"

end
