(* ===== verification/Ucd.thy ===== *)
theory Ucd
  imports Utf8
begin

text \<open>
  \<open>crates/tydence-ucd\<close>: the code point ranges a macro invocation selects from a frozen Unicode
  Character Database file. A panic of the macro is an error value. The regular expression engine is
  a parameter: a pattern text compiles to a predicate on category names, or does not.
\<close>

section \<open>Parsing the source file (\<open>parse.rs\<close>)\<close>

record categorized_range =
  cr_first :: nat
  cr_last :: nat
  cr_category :: string

datatype ucd_panic =
    InvalidCodePoint string
  | MalformedCategory string
  | MalformedLine string
  | DoesNotTile nat
  | CodePointOverflow
  | StopsShort
  | InvalidPattern string
  | SelectsNoCategory string
  | UnsupportedVersion string

definition hex_digit :: "byte \<Rightarrow> nat option" where
  "hex_digit b =
     (if is_ascii_digit b then Some (byte_code b - 48)
      else if 65 \<le> byte_code b \<and> byte_code b \<le> (70 :: nat) then Some (byte_code b - 55)
      else if 97 \<le> byte_code b \<and> byte_code b \<le> (102 :: nat) then Some (byte_code b - 87)
      else None)"

fun hex_value :: "nat \<Rightarrow> string \<Rightarrow> nat option" where
  "hex_value n [] = Some n"
| "hex_value n (b # bs) =
     (case hex_digit b of None \<Rightarrow> None | Some d \<Rightarrow> hex_value (16 * n + d) bs)"

text \<open>\<open>u32::from_str_radix(s, 16)\<close>: an optional plus sign, at least one digit, no overflow.\<close>

definition u32_from_hex :: "string \<Rightarrow> nat option" where
  "u32_from_hex s =
     (let body = (case s of [] \<Rightarrow> [] | c # rest \<Rightarrow> if c = CHR ''+'' then rest else s)
      in if body = [] then None
         else (case hex_value 0 body of None \<Rightarrow> None | Some n \<Rightarrow> if n < 2 ^ 32 then Some n else None))"

definition parse_code_point :: "string \<Rightarrow> (ucd_panic, nat) result" where
  "parse_code_point hex_field = ok_or (InvalidCodePoint hex_field) (u32_from_hex hex_field)"

text \<open>\<open>s.split_once("..")\<close>.\<close>

fun split_once_dots :: "string \<Rightarrow> (string \<times> string) option" where
  "split_once_dots (x # y # rest) =
     (if x = CHR ''.'' \<and> y = CHR ''.'' then Some ([], rest)
      else map_option (\<lambda>(l, r). (x # l, r)) (split_once_dots (y # rest)))"
| "split_once_dots _ = None"

definition parse_code_point_range :: "string \<Rightarrow> (ucd_panic, nat \<times> nat) result" where
  "parse_code_point_range range_field =
     (case split_once_dots range_field of
        Some (first_field, last_field) \<Rightarrow>
          and_then (parse_code_point first_field) (\<lambda>first.
          and_then (parse_code_point last_field) (\<lambda>last. Ok (first, last)))
      | None \<Rightarrow> and_then (parse_code_point range_field) (\<lambda>cp. Ok (cp, cp)))"

definition parse_category :: "string \<Rightarrow> (ucd_panic, string) result" where
  "parse_category category_field =
     (if length category_field = 2 \<and> is_ascii_uppercase (category_field ! 0)
         \<and> is_ascii_lowercase (category_field ! 1)
      then Ok category_field else Err (MalformedCategory category_field))"

definition parse_data_line :: "string \<Rightarrow> (ucd_panic, categorized_range) result" where
  "parse_data_line data_line =
     (case split_once CHR '';'' data_line of
        None \<Rightarrow> Err (MalformedLine data_line)
      | Some (range_field, category_field) \<Rightarrow>
          and_then (parse_code_point_range (str_trim range_field)) (\<lambda>(first, last).
          and_then (parse_category (str_trim category_field)) (\<lambda>category.
          Ok \<lparr>cr_first = first, cr_last = last, cr_category = category\<rparr>)))"

text \<open>The loop of \<open>verify_partition\<close>; \<open>last + 1\<close> is a checked \<open>u32\<close> sum.\<close>

fun partition_from :: "nat \<Rightarrow> categorized_range list \<Rightarrow> (ucd_panic, nat) result" where
  "partition_from expected_first [] = Ok expected_first"
| "partition_from expected_first (r # rs) =
     (if \<not> (cr_first r = expected_first \<and> cr_first r \<le> cr_last r)
      then Err (DoesNotTile (cr_first r))
      else if cr_last r + 1 \<ge> 2 ^ 32 then Err CodePointOverflow
      else partition_from (cr_last r + 1) rs)"

definition verify_partition :: "categorized_range list \<Rightarrow> (ucd_panic, unit) result" where
  "verify_partition sorted_ranges =
     and_then (partition_from 0 sorted_ranges) (\<lambda>expected_first.
       ensure (expected_first = 1114112) StopsShort)"

definition data_part :: "string \<Rightarrow> string" where
  "data_part source_line =
     (case split_once CHR ''#'' source_line of
        Some (before_comment, _) \<Rightarrow> str_trim before_comment
      | None \<Rightarrow> str_trim source_line)"

definition data_lines :: "string \<Rightarrow> string list" where
  "data_lines ucd_source = filter (\<lambda>d. d \<noteq> []) (map data_part (str_lines ucd_source))"

definition ucd_parse :: "string \<Rightarrow> (ucd_panic, categorized_range list) result" where
  "ucd_parse ucd_source =
     and_then (traverse parse_data_line (data_lines ucd_source)) (\<lambda>categorized_ranges.
       let sorted_ranges = sort_key cr_first categorized_ranges
       in and_then (verify_partition sorted_ranges) (\<lambda>_. Ok sorted_ranges))"

section \<open>Selecting and merging (\<open>select.rs\<close>, \<open>expand.rs\<close>)\<close>

type_synonym ranges = "(nat \<times> nat) list"

fun merge_range :: "ranges \<Rightarrow> categorized_range \<Rightarrow> ranges" where
  "merge_range [] r = [(cr_first r, cr_last r)]"
| "merge_range merged r =
     (let (merged_first, merged_last) = last merged
      in if merged_last + 1 = cr_first r
         then butlast merged @ [(merged_first, cr_last r)]
         else merged @ [(cr_first r, cr_last r)])"

definition ucd_select ::
  "(string \<Rightarrow> (string \<Rightarrow> bool) option) \<Rightarrow> categorized_range list \<Rightarrow> string \<Rightarrow> (ucd_panic, ranges) result"
where
  "ucd_select compile_regex categorized_ranges pattern_text =
     and_then (ok_or (InvalidPattern pattern_text) (compile_regex pattern_text)) (\<lambda>is_match.
       let selected_ranges = filter (\<lambda>r. is_match (cr_category r)) categorized_ranges;
           merged_ranges = foldl merge_range [] selected_ranges
       in if merged_ranges = [] then Err (SelectsNoCategory pattern_text) else Ok merged_ranges)"

definition general_category_ranges ::
  "(string \<Rightarrow> (string \<Rightarrow> bool) option) \<Rightarrow> string \<Rightarrow> string \<Rightarrow> string \<Rightarrow> (ucd_panic, ranges) result"
where
  "general_category_ranges compile_regex ucd_17_0_0 ucd_version category_pattern =
     (if ucd_version \<noteq> ''17.0.0'' then Err (UnsupportedVersion ucd_version)
      else and_then (ucd_parse ucd_17_0_0) (\<lambda>categorized_ranges.
        ucd_select compile_regex categorized_ranges category_pattern))"

section \<open>The expansion (\<open>expand.rs\<close>, \<open>lib.rs\<close>)\<close>

text \<open>The token trees of \<open>proc_macro\<close>, as far as the macro reads or writes them. A literal carries its value, an integer
  literal of \<open>quote\<close> the type \<open>u32\<close>.\<close>

datatype token_tree =
    StringLiteral string
  | U32Literal nat
  | Punct char
  | Delimited char "token_tree list"

definition macro_arguments :: "token_tree list \<Rightarrow> (string \<times> string) option" where
  "macro_arguments input =
     (case input of
        [StringLiteral version, Punct separator, StringLiteral pattern] \<Rightarrow>
          if separator = CHR '','' then Some (version, pattern) else None
      | _ \<Rightarrow> None)"

definition range_tokens :: "nat \<times> nat \<Rightarrow> token_tree" where
  "range_tokens r = Delimited (CHR ''('') [U32Literal (fst r), Punct (CHR '',''), U32Literal (snd r)]"

fun comma_separated :: "token_tree list \<Rightarrow> token_tree list" where
  "comma_separated [] = []"
| "comma_separated [t] = [t]"
| "comma_separated (t # ts) = t # Punct (CHR '','') # comma_separated ts"

text \<open>What \<open>syn\<close> reports of arguments it cannot read becomes the tokens of a compile error.\<close>

definition expand_macro ::
  "(token_tree list \<Rightarrow> token_tree list) \<Rightarrow> (string \<Rightarrow> (string \<Rightarrow> bool) option) \<Rightarrow> string \<Rightarrow> token_tree list
    \<Rightarrow> (ucd_panic, token_tree list) result"
where
  "expand_macro compile_error compile_regex ucd_17_0_0 input =
     (case macro_arguments input of
        None \<Rightarrow> Ok (compile_error input)
      | Some (ucd_version, category_pattern) \<Rightarrow>
          and_then (general_category_ranges compile_regex ucd_17_0_0 ucd_version category_pattern) (\<lambda>selected_ranges.
          Ok [Punct (CHR ''&''), Delimited (CHR ''['') (comma_separated (map range_tokens selected_ranges))]))"

text \<open>The table an expression \<open>&[(a, b), ...]\<close> denotes.\<close>

fun elements_of :: "token_tree list \<Rightarrow> ranges option" where
  "elements_of [] = Some []"
| "elements_of (Delimited c [U32Literal low, Punct comma, U32Literal high] # ts) =
     (if c = CHR ''('' \<and> comma = CHR '','' then
        (case ts of
           [] \<Rightarrow> Some [(low, high)]
         | Punct separator # ts \<Rightarrow>
             if separator = CHR '','' then map_option ((#) (low, high)) (elements_of ts) else None
         | _ \<Rightarrow> None)
      else None)"
| "elements_of _ = None"

definition table_of :: "token_tree list \<Rightarrow> ranges option" where
  "table_of tokens =
     (case tokens of
        [Punct reference, Delimited bracket ts] \<Rightarrow> if reference = CHR ''&'' \<and> bracket = CHR ''['' then elements_of ts else None
      | _ \<Rightarrow> None)"

lemma elements_of_emitted: "elements_of (comma_separated (map range_tokens rs)) = Some rs"
proof (induction rs)
  case (Cons r rs)
  then show ?case by (cases rs) (simp_all add: range_tokens_def)
qed simp

section \<open>What the ranges hold\<close>

definition in_ranges :: "ranges \<Rightarrow> nat \<Rightarrow> bool" where
  "in_ranges rs cp = (\<exists>(first, last) \<in> set rs. first \<le> cp \<and> cp \<le> last)"

text \<open>Sorted, nonempty ranges with a gap between neighbours.\<close>

definition separated :: "ranges \<Rightarrow> bool" where
  "separated rs \<longleftrightarrow> sorted_wrt (\<lambda>a b. snd a + 1 < fst b) rs \<and> (\<forall>(f, l) \<in> set rs. f \<le> l)"

definition ascending :: "categorized_range list \<Rightarrow> bool" where
  "ascending rs \<longleftrightarrow> sorted_wrt (\<lambda>r q. cr_last r < cr_first q) rs \<and> (\<forall>r \<in> set rs. cr_first r \<le> cr_last r)"

definition covers :: "categorized_range \<Rightarrow> nat \<Rightarrow> bool" where
  "covers r cp \<longleftrightarrow> cr_first r \<le> cp \<and> cp \<le> cr_last r"

lemma partition_from_bounds:
  "partition_from n rs = Ok m \<Longrightarrow> r \<in> set rs \<Longrightarrow> n \<le> cr_first r \<and> cr_first r \<le> cr_last r \<and> cr_last r < m"
proof (induction n rs rule: partition_from.induct)
  case (2 n r' rs)
  then have "partition_from (cr_last r' + 1) rs = Ok m" and head: "cr_first r' = n" "n \<le> cr_last r'"
    by (auto split: if_splits)
  moreover from this have "cr_last r' < m"
    by (induction "cr_last r' + 1" rs arbitrary: r' n rule: partition_from.induct)
      (force split: if_splits)+
  ultimately show ?case
    using 2 by (force split: if_splits)
qed simp

lemma partition_from_covers:
  "partition_from n rs = Ok m \<Longrightarrow> n \<le> cp \<Longrightarrow> cp < m \<Longrightarrow>
     \<exists>!r. r \<in> set rs \<and> covers r cp"
proof (induction n rs rule: partition_from.induct)
  case (2 n r rs)
  then have tail: "partition_from (cr_last r + 1) rs = Ok m" and head: "cr_first r = n" "n \<le> cr_last r"
    by (auto split: if_splits)
  have later: "cr_last r < cr_first q" if "q \<in> set rs" for q
    using partition_from_bounds [OF tail that] by simp
  show ?case
  proof (cases "cp \<le> cr_last r")
    case True
    with head "2.prems" later show ?thesis
      by (intro ex1I [of _ r]) (fastforce simp: covers_def dest: later)+
  next
    case False
    with 2 head have "\<exists>!q. q \<in> set rs \<and> covers q cp"
      by (auto split: if_splits)
    with False show ?thesis by (auto simp: covers_def)
  qed
qed simp

lemma partition_from_ascending: "partition_from n rs = Ok m \<Longrightarrow> ascending rs"
proof (induction n rs rule: partition_from.induct)
  case (2 n r rs)
  then have tail: "partition_from (cr_last r + 1) rs = Ok m" and "cr_first r \<le> cr_last r"
    by (auto split: if_splits)
  moreover have "ascending rs" using 2 by (auto split: if_splits)
  ultimately show ?case
    using partition_from_bounds [OF tail] by (fastforce simp: ascending_def)
qed (simp add: ascending_def)

lemma ascending_filter: "ascending rs \<Longrightarrow> ascending (filter p rs)"
  by (auto simp: ascending_def sorted_wrt_filter)

lemma ascending_Cons:
  "ascending (r # rs) \<longleftrightarrow> cr_first r \<le> cr_last r \<and> (\<forall>q \<in> set rs. cr_last r < cr_first q) \<and> ascending rs"
  by (auto simp: ascending_def)

lemma merge_range_step:
  assumes "separated m" and "cr_first r \<le> cr_last r" and "\<forall>(f, l) \<in> set m. l < cr_first r"
  shows "separated (merge_range m r)"
    and "in_ranges (merge_range m r) cp \<longleftrightarrow> in_ranges m cp \<or> covers r cp"
    and "\<forall>(f, l) \<in> set (merge_range m r). l \<le> cr_last r"
    and "merge_range m r \<noteq> []"
proof -
  have "separated (merge_range m r) \<and> (in_ranges (merge_range m r) cp \<longleftrightarrow> in_ranges m cp \<or> covers r cp)
    \<and> (\<forall>(f, l) \<in> set (merge_range m r). l \<le> cr_last r) \<and> merge_range m r \<noteq> []"
  proof (cases m rule: rev_cases)
    case Nil
    with assms show ?thesis by (simp add: separated_def in_ranges_def covers_def)
  next
    case (snoc m' fl)
    obtain f l where fl: "fl = (f, l)" by (cases fl)
    have eq: "merge_range m r = (if l + 1 = cr_first r then m' @ [(f, cr_last r)]
        else m @ [(cr_first r, cr_last r)])"
      using snoc fl by (cases m') auto
    have l: "l < cr_first r" "f \<le> l" using assms snoc fl by (auto simp: separated_def)
    have last: "\<forall>(a, b) \<in> set m'. b + 1 < f" using assms(1) snoc fl
      by (auto simp: separated_def sorted_wrt_append)
    show ?thesis
    proof (cases "l + 1 = cr_first r")
      case True
      then have "(f \<le> cp \<and> cp \<le> cr_last r) \<longleftrightarrow> (f \<le> cp \<and> cp \<le> l) \<or> (cr_first r \<le> cp \<and> cp \<le> cr_last r)"
        using assms(2) l by auto
      with True eq snoc fl assms l last show ?thesis
        by (fastforce simp: separated_def sorted_wrt_append in_ranges_def covers_def)
    next
      case False
      with l last have "\<forall>(a, b) \<in> set m. b + 1 < cr_first r" using snoc fl by fastforce
      with False eq assms show ?thesis
        by (fastforce simp: separated_def sorted_wrt_append in_ranges_def covers_def)
    qed
  qed
  then show "separated (merge_range m r)"
    and "in_ranges (merge_range m r) cp \<longleftrightarrow> in_ranges m cp \<or> covers r cp"
    and "\<forall>(f, l) \<in> set (merge_range m r). l \<le> cr_last r"
    and "merge_range m r \<noteq> []" by blast+
qed

lemma merge_ranges:
  assumes "ascending rs" and "separated m" and "\<forall>r \<in> set rs. \<forall>(f, l) \<in> set m. l < cr_first r"
  shows "separated (foldl merge_range m rs)
    \<and> (in_ranges (foldl merge_range m rs) cp \<longleftrightarrow> in_ranges m cp \<or> (\<exists>r \<in> set rs. covers r cp))"
  using assms
proof (induction rs arbitrary: m)
  case Nil
  then show ?case by simp
next
  case (Cons r rs)
  have r: "cr_first r \<le> cr_last r" "\<forall>q \<in> set rs. cr_last r < cr_first q" "ascending rs"
    using Cons.prems(1) by (auto simp: ascending_Cons)
  have below: "\<forall>(f, l) \<in> set m. l < cr_first r" using Cons.prems(3) by simp
  note step = merge_range_step [OF Cons.prems(2) r(1) below]
  have "\<forall>q \<in> set rs. \<forall>(f, l) \<in> set (merge_range m r). l < cr_first q"
    using step(3) r(2) by fastforce
  from Cons.IH [OF r(3) step(1) this] show ?case
    using step(2) by auto
qed

lemma partition_complete:
  assumes "verify_partition rs = Ok u"
  shows "ascending rs" and "cp < 1114112 \<Longrightarrow> \<exists>!r. r \<in> set rs \<and> covers r cp"
  using assms partition_from_ascending [of 0 rs] partition_from_covers [of 0 rs _ cp]
  by (auto simp: verify_partition_def result_simps)

lemma ucd_parse_partition:
  assumes "ucd_parse src = Ok sorted_ranges"
  obtains categorized where "traverse parse_data_line (data_lines src) = Ok categorized"
    and "set sorted_ranges = set categorized" and "ascending sorted_ranges"
    and "\<forall>cp < 1114112. \<exists>!r. r \<in> set categorized \<and> covers r cp"
  using assms partition_complete [of sorted_ranges]
  by (auto simp: ucd_parse_def result_simps Let_def)

lemma general_category_ranges_exact:
  assumes "general_category_ranges rx src version pattern_text = Ok rs"
  shows "\<exists>is_match categorized. rx pattern_text = Some is_match
    \<and> traverse parse_data_line (data_lines src) = Ok categorized
    \<and> (\<forall>cp < 1114112. \<exists>!r. r \<in> set categorized \<and> covers r cp)
    \<and> rs \<noteq> [] \<and> separated rs
    \<and> (\<forall>cp. in_ranges rs cp \<longleftrightarrow> (\<exists>r \<in> set categorized. covers r cp \<and> is_match (cr_category r)))"
proof -
  obtain sorted_ranges where parsed: "ucd_parse src = Ok sorted_ranges"
    and selected: "ucd_select rx sorted_ranges pattern_text = Ok rs"
    using assms by (auto simp: general_category_ranges_def result_simps split: if_splits)
  obtain categorized where cat: "traverse parse_data_line (data_lines src) = Ok categorized"
    "set sorted_ranges = set categorized" "ascending sorted_ranges"
    "\<forall>cp < 1114112. \<exists>!r. r \<in> set categorized \<and> covers r cp"
    by (rule ucd_parse_partition [OF parsed])
  obtain is_match where m: "rx pattern_text = Some is_match" "rs \<noteq> []"
    "rs = foldl merge_range [] (filter (\<lambda>r. is_match (cr_category r)) sorted_ranges)"
    using selected by (auto simp: ucd_select_def result_simps Let_def split: if_splits)
  have merged: "separated rs \<and> (in_ranges rs cp \<longleftrightarrow> in_ranges [] cp \<or>
      (\<exists>r \<in> set (filter (\<lambda>r. is_match (cr_category r)) sorted_ranges). covers r cp))" for cp
    unfolding m(3)
    by (rule merge_ranges [OF ascending_filter [OF cat(3)]]) (simp_all add: separated_def)
  have sep: "separated rs" using merged by blast
  have exact: "in_ranges rs cp \<longleftrightarrow> (\<exists>r \<in> set categorized. covers r cp \<and> is_match (cr_category r))" for cp
  proof -
    have "in_ranges rs cp \<longleftrightarrow> (\<exists>r \<in> set sorted_ranges. covers r cp \<and> is_match (cr_category r))"
      using merged [of cp] by (auto simp: in_ranges_def)
    then show ?thesis unfolding cat(2) .
  qed
  show ?thesis
  proof (intro exI conjI allI impI)
    show "rx pattern_text = Some is_match" by (rule m(1))
    show "traverse parse_data_line (data_lines src) = Ok categorized" by (rule cat(1))
    show "\<exists>!r. r \<in> set categorized \<and> covers r cp" if "cp < 1114112" for cp
      using cat(4) that by blast
    show "rs \<noteq> []" by (rule m(2))
    show "separated rs" by (rule sep)
    show "in_ranges rs cp \<longleftrightarrow> (\<exists>r \<in> set categorized. covers r cp \<and> is_match (cr_category r))" for cp
      by (rule exact)
  qed
qed

text \<open>
  C34: the macro either panics or expands to the literal of a table that is exact: every code point lies in exactly one
  range of the source file, the table's ranges are nonempty, sorted and strictly separated (adjacent
  ranges merged), and a code point lies in the table exactly when the pattern matches the category of
  its range.
\<close>

theorem expanded_table_exact:
  assumes "expand_macro compile_error rx src [StringLiteral version, Punct (CHR '',''), StringLiteral pattern_text] = Ok tokens"
  shows "\<exists>rs is_match categorized. table_of tokens = Some rs \<and> rx pattern_text = Some is_match
    \<and> traverse parse_data_line (data_lines src) = Ok categorized
    \<and> (\<forall>cp < 1114112. \<exists>!r. r \<in> set categorized \<and> covers r cp)
    \<and> rs \<noteq> [] \<and> separated rs
    \<and> (\<forall>cp. in_ranges rs cp \<longleftrightarrow> (\<exists>r \<in> set categorized. covers r cp \<and> is_match (cr_category r)))"
proof -
  obtain rs where ranges: "general_category_ranges rx src version pattern_text = Ok rs"
    and tokens: "tokens = [Punct (CHR ''&''), Delimited (CHR ''['') (comma_separated (map range_tokens rs))]"
    using assms by (auto simp: expand_macro_def macro_arguments_def result_simps)
  have "table_of tokens = Some rs" by (simp add: tokens table_of_def elements_of_emitted)
  with general_category_ranges_exact[OF ranges] show ?thesis by blast
qed

text \<open>The definitions a concrete source text is evaluated with.\<close>

lemmas ucd_eval = data_lines_def data_part_def str_lines_def strip_cr_def strip_suffix_def str_trim_def
  chars_of_ascii_Cons is_whitespace_def parse_data_line_def parse_code_point_range_def
  parse_code_point_def u32_from_hex_def hex_digit_def is_ascii_digit_def parse_category_def
  is_ascii_uppercase_def is_ascii_lowercase_def verify_partition_def ucd_parse_def ucd_select_def
  general_category_ranges_def

theorem expanded_table_exact_witness:
  "\<exists>tokens rs. expand_macro (\<lambda>_. []) (\<lambda>_. Some (\<lambda>c. c ! 0 = CHR ''C'')) ''0000..0020; Cc # x\<newline>0021..10FFFF; Lo''
       [StringLiteral ''17.0.0'', Punct (CHR '',''), StringLiteral ''^C''] = Ok tokens \<and> table_of tokens = Some rs \<and> separated rs"
proof -
  have "general_category_ranges (\<lambda>_. Some (\<lambda>c. c ! 0 = CHR ''C''))
      ''0000..0020; Cc # x\<newline>0021..10FFFF; Lo'' ''17.0.0'' ''^C'' = Ok [(0, 32)]"
    by (simp add: ucd_eval del: chars_of.simps(2))
  then obtain tokens where run: "expand_macro (\<lambda>_. []) (\<lambda>_. Some (\<lambda>c. c ! 0 = CHR ''C''))
      ''0000..0020; Cc # x\<newline>0021..10FFFF; Lo'' [StringLiteral ''17.0.0'', Punct (CHR '',''), StringLiteral ''^C''] = Ok tokens"
    by (simp add: expand_macro_def macro_arguments_def)
  from expanded_table_exact[OF run] run show ?thesis by blast
qed

end
