(* ===== verification/Path_Encoding.thy ===== *)
theory Path_Encoding
  imports Hex Ucd
begin

text \<open>
  \<open>crates/tydence/src/manifest/path.rs\<close>: the printable form of a path. The table of control and
  separator characters is the expansion of \<open>general_category_ranges!("17.0.0", "^[CZ]")\<close> and arrives
  as the parameter \<open>table\<close>; theory \<open>Ucd\<close> models the macro that produces it.
\<close>

section \<open>The character table\<close>

datatype ordering = Less | Equal | Greater

definition compare_range :: "nat \<Rightarrow> nat \<times> nat \<Rightarrow> ordering" where
  "compare_range code_point r =
     (if code_point < fst r then Greater else if snd r < code_point then Less else Equal)"

text \<open>\<open>slice::binary_search_by\<close>: the halving loop of the standard library over \<open>size\<close> entries.\<close>

function search_base :: "ranges \<Rightarrow> nat \<Rightarrow> nat \<Rightarrow> nat \<Rightarrow> nat" where
  "search_base table cp base len =
     (if 1 < len then
        let half = len div 2; mid = base + half
        in search_base table cp (if compare_range cp (table ! mid) = Greater then base else mid) (len - half)
      else base)"
  by pat_completeness auto
termination by (relation "measure (\<lambda>(table, cp, base, len). len)") auto

declare search_base.simps [simp del]

definition is_control_or_separator :: "ranges \<Rightarrow> nat \<Rightarrow> bool" where
  "is_control_or_separator table code_point =
     (if table = [] then False
      else compare_range code_point (table ! search_base table code_point 0 (length table)) = Equal)"

lemma separated_nth:
  assumes "separated table"
  shows "i < j \<Longrightarrow> j < length table \<Longrightarrow> snd (table ! i) + 1 < fst (table ! j)"
    and "i < length table \<Longrightarrow> fst (table ! i) \<le> snd (table ! i)"
  using assms nth_mem [of i table]
  by (auto simp: separated_def sorted_wrt_iff_nth_less split: prod.splits simp del: nth_mem)

lemma separated_fst_mono:
  assumes "separated table" "i \<le> j" "j < length table"
  shows "fst (table ! i) \<le> fst (table ! j)"
  using separated_nth(1) [OF assms(1), of i j] separated_nth(2) [OF assms(1), of i] assms
  by (cases "i = j") auto

lemma search_base_finds:
  assumes sep: "separated table" and hit: "fst (table ! i) \<le> cp" "cp \<le> snd (table ! i)"
  shows "base + len \<le> length table \<Longrightarrow> base \<le> i \<Longrightarrow> i < base + len \<Longrightarrow>
    search_base table cp base len = i"
  using sep hit
proof (induction table cp base len rule: search_base.induct)
  case (1 table cp base len)
  show ?case
  proof (cases "1 < len")
    case False
    with 1 show ?thesis by (subst search_base.simps) auto
  next
    case True
    define mid where "mid = base + len div 2"
    have mid: "mid < length table" using True "1.prems" by (simp add: mid_def)
    define base' where "base' = (if compare_range cp (table ! mid) = Greater then base else mid)"
    have "base' \<le> i \<and> i < base' + (len - len div 2)"
    proof (cases "compare_range cp (table ! mid) = Greater")
      case True
      then have "cp < fst (table ! mid)" by (auto simp: compare_range_def split: if_splits)
      then have "i < mid"
        using separated_fst_mono [OF "1.prems"(4), of mid i] "1.prems" by fastforce
      with True "1.prems" show ?thesis by (auto simp: base'_def mid_def)
    next
      case False
      then have "fst (table ! mid) \<le> cp" by (auto simp: compare_range_def split: if_splits)
      then have "mid \<le> i"
        using separated_nth(1) [OF "1.prems"(4), of i mid] mid "1.prems"(6) by fastforce
      with False "1.prems" show ?thesis by (auto simp: base'_def mid_def)
    qed
    moreover have "base' + (len - len div 2) \<le> length table"
      using "1.prems"(1) by (auto simp: base'_def mid_def)
    ultimately have "search_base table cp base' (len - len div 2) = i"
      using "1.IH" [OF True refl refl, folded mid_def, folded base'_def] "1.prems" by blast
    moreover have "search_base table cp base len = search_base table cp base' (len - len div 2)"
      using True by (subst search_base.simps) (simp add: Let_def base'_def mid_def)
    ultimately show ?thesis by simp
  qed
qed

lemma search_base_less: "base + len \<le> n \<Longrightarrow> 0 < len \<Longrightarrow> search_base table cp base len < n"
proof (induction table cp base len rule: search_base.induct)
  case (1 table cp base len)
  then show ?case
    by (subst search_base.simps) (auto simp: Let_def)
qed

lemma is_control_or_separator_iff:
  assumes "separated table"
  shows "is_control_or_separator table cp \<longleftrightarrow> in_ranges table cp"
proof
  assume "in_ranges table cp"
  then obtain i where "i < length table" "fst (table ! i) \<le> cp" "cp \<le> snd (table ! i)"
    by (fastforce simp: in_ranges_def in_set_conv_nth)
  with search_base_finds [OF assms, of i cp 0 "length table"]
  show "is_control_or_separator table cp"
    by (auto simp: is_control_or_separator_def compare_range_def)
next
  assume "is_control_or_separator table cp"
  then have "table \<noteq> []" "compare_range cp (table ! search_base table cp 0 (length table)) = Equal"
    by (auto simp: is_control_or_separator_def split: if_splits)
  with search_base_less [of 0 "length table" "length table" table cp]
  show "in_ranges table cp"
    by (force simp: in_ranges_def compare_range_def split: if_splits prod.splits intro!: bexI [OF _ nth_mem])
qed

section \<open>Encoding\<close>

definition push_escaped :: "string \<Rightarrow> bytes \<Rightarrow> string" where
  "push_escaped encoded source_bytes =
     encoded @ concat (map (\<lambda>source_byte. CHR ''%'' # hex_encode UPPERCASE [source_byte]) source_bytes)"

definition keeps_raw :: "ranges \<Rightarrow> nat \<Rightarrow> bool" where
  "keeps_raw table character = (character \<noteq> 37 \<and> \<not> is_control_or_separator table character)"

definition push_encoded_text :: "ranges \<Rightarrow> string \<Rightarrow> string \<Rightarrow> string" where
  "push_encoded_text table encoded valid_text =
     foldl (\<lambda>encoded (character, character_bytes).
       if keeps_raw table character then encoded @ character_bytes
       else push_escaped encoded character_bytes) encoded (chars_of valid_text)"

definition invalid_len :: "utf8_error \<Rightarrow> bytes \<Rightarrow> nat" where
  "invalid_len err invalid_start =
     (case error_len err of None \<Rightarrow> length invalid_start | Some n \<Rightarrow> n)"

lemma from_utf8_ErrD:
  assumes "from_utf8 bs = Err err"
  obtains pre b rest where "bs = pre @ b # rest" "valid_up_to err = length pre" "is_utf8 pre"
    "case error_len err of Some n \<Rightarrow> utf8_next b rest = Invalid n | None \<Rightarrow> utf8_next b rest = Truncated"
proof -
  from assms have "utf8_scan 0 bs = Err err"
    by (auto simp: from_utf8_def result_simps)
  from utf8_scan_ErrD [OF this] that show ?thesis by fastforce
qed

lemma invalid_len_progress:
  assumes "from_utf8 bs = Err err"
  shows "length (drop (invalid_len err (drop (valid_up_to err) bs)) (drop (valid_up_to err) bs)) < length bs"
  using assms
proof (rule from_utf8_ErrD)
  fix pre b rest
  assume "bs = pre @ b # rest" "valid_up_to err = length pre"
    "case error_len err of Some n \<Rightarrow> utf8_next b rest = Invalid n | None \<Rightarrow> utf8_next b rest = Truncated"
  then show ?thesis
    by (auto simp: invalid_len_def dest: utf8_next_Invalid_len split: option.splits)
qed

text \<open>The loop of \<open>encode_path\<close>; \<open>None\<close> is the panic of its \<open>expect\<close>.\<close>

function encode_path_loop :: "ranges \<Rightarrow> string \<Rightarrow> bytes \<Rightarrow> string option" where
  "encode_path_loop table encoded remaining =
     (if remaining = [] then Some encoded
      else (case from_utf8 remaining of
        Inr valid_text \<Rightarrow> Some (push_encoded_text table encoded valid_text)
      | Inl utf8_error \<Rightarrow>
          let valid_bytes = take (valid_up_to utf8_error) remaining;
              invalid_start = drop (valid_up_to utf8_error) remaining
          in (case from_utf8 valid_bytes of
                Inl _ \<Rightarrow> None
              | Inr valid_text \<Rightarrow>
                  let n = invalid_len utf8_error invalid_start
                  in encode_path_loop table
                       (push_escaped (push_encoded_text table encoded valid_text) (take n invalid_start))
                       (drop n invalid_start))))"
  by pat_completeness auto
termination
  by (relation "measure (\<lambda>(table, encoded, remaining). length remaining)")
    (use invalid_len_progress in \<open>auto simp del: length_drop\<close>)

declare encode_path_loop.simps [simp del]

definition encode_path :: "ranges \<Rightarrow> bytes \<Rightarrow> string" where
  "encode_path table path_bytes = the (encode_path_loop table [] path_bytes)"

section \<open>Decoding\<close>

fun decode_bytes :: "string \<Rightarrow> bytes option" where
  "decode_bytes [] = Some []"
| "decode_bytes (encoded_byte # rest) =
     (if encoded_byte = CHR ''%'' then
        (case rest of
           h # l # rest' \<Rightarrow>
             (case digit_value UPPERCASE h of None \<Rightarrow> None
              | Some high \<Rightarrow>
                (case digit_value UPPERCASE l of None \<Rightarrow> None
                 | Some low \<Rightarrow> map_option (\<lambda>bs. char_of (high * 16 + low) # bs) (decode_bytes rest')))
         | _ \<Rightarrow> None)
      else map_option (\<lambda>bs. encoded_byte # bs) (decode_bytes rest))"

definition decode_path :: "string \<Rightarrow> bytes option" where
  "decode_path encoded_text =
     (case decode_bytes encoded_text of
        None \<Rightarrow> None
      | Some decoded \<Rightarrow> if decoded = [] then None else Some decoded)"

section \<open>The reference encoding, one character at a time\<close>

definition escape :: "bytes \<Rightarrow> string" where
  "escape bs = push_escaped [] bs"

fun encode_chars :: "ranges \<Rightarrow> bytes \<Rightarrow> string" where
  "encode_chars table [] = []"
| "encode_chars table (b # bs) =
     (case utf8_next b bs of
        Scalar cp n \<Rightarrow>
          (if keeps_raw table cp then b # take (n - 1) bs else escape (b # take (n - 1) bs))
          @ encode_chars table (drop (n - 1) bs)
      | Invalid n \<Rightarrow> escape (b # take (n - 1) bs) @ encode_chars table (drop (n - 1) bs)
      | Truncated \<Rightarrow> escape (b # bs))"

lemma push_escaped_escape: "push_escaped encoded bs = encoded @ escape bs"
  by (simp add: push_escaped_def escape_def)

lemma encode_chars_valid:
  "is_utf8 pre \<Longrightarrow> encoded @ encode_chars table (pre @ rest) = push_encoded_text table encoded pre @ encode_chars table rest"
proof (induction arbitrary: encoded rule: is_utf8_induct)
  case Nil
  then show ?case by (simp add: push_encoded_text_def)
next
  case (Char b bs cp n)
  let ?c = "b # take (n - 1) bs"
  let ?e = "if keeps_raw table cp then encoded @ ?c else push_escaped encoded ?c"
  have "drop (n - 1) (bs @ rest) = drop (n - 1) bs @ rest" "take (n - 1) (bs @ rest) = take (n - 1) bs"
    using Char(3) by simp_all
  then have "encoded @ encode_chars table ((b # bs) @ rest) = ?e @ encode_chars table (drop (n - 1) bs @ rest)"
    using utf8_next_Scalar_append [OF Char(1), of rest]
    by (simp add: push_escaped_escape del: take_append drop_append)
  also have "\<dots> = push_encoded_text table ?e (drop (n - 1) bs) @ encode_chars table rest"
    by (rule Char(5))
  finally show ?case
    using Char(1) by (simp add: push_encoded_text_def)
qed

lemma encode_path_loop_correct:
  "encode_path_loop table encoded bs = Some (encoded @ encode_chars table bs)"
proof (induction table encoded bs rule: encode_path_loop.induct)
  case (1 table encoded bs)
  show ?case
  proof (cases "from_utf8 bs")
    case (Inr t)
    then have "is_utf8 bs" "t = bs" by (auto simp: from_utf8_Ok)
    with Inr encode_chars_valid [of bs encoded table "[]"] show ?thesis
      by (subst encode_path_loop.simps) auto
  next
    case (Inl err)
    then obtain pre b rest where split: "bs = pre @ b # rest" "valid_up_to err = length pre" "is_utf8 pre"
      and bad: "case error_len err of Some n \<Rightarrow> utf8_next b rest = Invalid n | None \<Rightarrow> utf8_next b rest = Truncated"
      by (rule from_utf8_ErrD)
    define n where "n = invalid_len err (b # rest)"
    have n: "0 < n" "encode_chars table (b # rest) = escape (take n (b # rest)) @ encode_chars table (drop n (b # rest))"
      using bad utf8_next_Invalid_len [of b rest]
      by (auto simp: n_def invalid_len_def take_Cons' drop_Cons' split: option.splits)
    have "encode_path_loop table encoded bs = encode_path_loop table
        (push_escaped (push_encoded_text table encoded pre) (take n (b # rest))) (drop n (b # rest))"
      using Inl split by (subst encode_path_loop.simps) (simp add: from_utf8_valid Let_def n_def)
    also have "\<dots> = Some (push_escaped (push_encoded_text table encoded pre) (take n (b # rest))
        @ encode_chars table (drop n (b # rest)))"
      using "1.IH" [of err, OF _ Inl refl refl, of pre n] split
      by (auto simp: from_utf8_valid n_def)
    also have "\<dots> = Some (encoded @ encode_chars table bs)"
      using encode_chars_valid [OF split(3), of encoded table "b # rest"] n split(1)
      by (simp add: push_escaped_escape)
    finally show ?thesis .
  qed
qed

lemma encode_path_chars: "encode_path table bs = encode_chars table bs"
  by (simp add: encode_path_def encode_path_loop_correct)

section \<open>Decoding inverts encoding\<close>

lemma escape_Cons: "escape (b # bs) = CHR ''%'' # UPPERCASE ! (byte_code b div 16) # UPPERCASE ! (byte_code b mod 16) # escape bs"
  by (simp add: escape_def push_escaped_def hex_encode_def)

lemma escape_Nil [simp]: "escape [] = []"
  by (simp add: escape_def push_escaped_def)

lemma decode_bytes_escape: "decode_bytes (escape bs @ t) = map_option ((@) bs) (decode_bytes t)"
proof (induction bs)
  case Nil
  show ?case by (cases "decode_bytes t") simp_all
next
  case (Cons b bs)
  have "byte_code b div 16 < (16 :: nat)" by (simp add: less_mult_imp_div_less)
  with Cons show ?case
    by (cases "decode_bytes t") (simp_all add: escape_Cons upper.digit_value_nth mult.commute)
qed

lemma decode_bytes_raw: "CHR ''%'' \<notin> set cs \<Longrightarrow> decode_bytes (cs @ t) = map_option ((@) cs) (decode_bytes t)"
proof (induction cs)
  case Nil
  show ?case by (cases "decode_bytes t") simp_all
next
  case (Cons b bs)
  then show ?case by (cases "decode_bytes t") auto
qed

lemma raw_character_no_escape:
  assumes "utf8_next b bs = Scalar cp n" and "keeps_raw table cp"
  shows "CHR ''%'' \<notin> set (b # take (n - 1) bs)"
proof
  assume mem: "CHR ''%'' \<in> set (b # take (n - 1) bs)"
  show False
  proof (cases "1 < n")
    case True
    from utf8_next_multibyte_tail [OF assms(1) True mem] show False by simp
  next
    case False
    then have "n = 1" using utf8_next_Scalar_len [OF assms(1)] by simp
    with mem utf8_next_single [OF assms(1)] assms(2) show False
      by (auto simp: keeps_raw_def)
  qed
qed

lemma decode_encode_chars: "decode_bytes (encode_chars table bs) = Some bs"
proof (induction table bs rule: encode_chars.induct)
  case (1 table)
  then show ?case by simp
next
  case (2 table b bs)
  show ?case
  proof (cases "utf8_next b bs")
    case (Scalar cp n)
    then have IH: "decode_bytes (encode_chars table (drop (n - 1) bs)) = Some (drop (n - 1) bs)"
      by (rule "2.IH"(1))
    show ?thesis
    proof (cases "keeps_raw table cp")
      case True
      with Scalar decode_bytes_raw [OF raw_character_no_escape [OF Scalar True]] IH show ?thesis
        by simp
    next
      case False
      with Scalar decode_bytes_escape [of "b # take (n - 1) bs"] IH show ?thesis by simp
    qed
  next
    case (Invalid n)
    with 2 show ?thesis by (simp add: decode_bytes_escape)
  next
    case Truncated
    with decode_bytes_escape [of "b # bs" "[]"] show ?thesis by simp
  qed
qed

interpretation path_encoding: encoding "encode_path table" decode_path "\<lambda>bs. bs \<noteq> []" for table
  by unfold_locales (simp add: decode_path_def encode_path_chars decode_encode_chars)

lemma encode_path_not_Nil: "bs \<noteq> [] \<Longrightarrow> encode_path table bs \<noteq> []"
  using path_encoding.dec_enc [of bs table] by (auto simp: decode_path_def)

section \<open>An encoded path is visible text\<close>

text \<open>
  What the pinned table says of ASCII: C0 controls and the space are in it, the escape character and
  the digits of an escape are not.
\<close>

definition ascii_table :: "ranges \<Rightarrow> bool" where
  "ascii_table table \<longleftrightarrow> separated table \<and> (\<forall>cp \<le> 32. in_ranges table cp) \<and>
     (\<forall>c \<in> set (CHR ''%'' # UPPERCASE). \<not> in_ranges table (byte_code c))"

lemma escape_alphabet: "set (escape bs) \<subseteq> set (CHR ''%'' # UPPERCASE)"
proof (induction bs)
  case (Cons b bs)
  have "byte_code b div 16 < length UPPERCASE" "byte_code b mod 16 < length UPPERCASE"
    by (simp_all add: upper.sixteen less_mult_imp_div_less)
  with Cons show ?case by (auto simp: escape_Cons)
qed simp

lemma escape_digits_ascii: "c \<in> set (CHR ''%'' # UPPERCASE) \<Longrightarrow> byte_code c < (128 :: nat)"
  by (auto simp: UPPERCASE_def)

lemma chars_of_ascii: "(\<forall>b \<in> set s. byte_code b < (128 :: nat)) \<Longrightarrow> chars_of s = map (\<lambda>b. (byte_code b, [b])) s"
  by (induction s) (auto simp: utf8_next_ascii)

lemma escape_visible:
  assumes "ascii_table table"
  shows "is_utf8 (escape cs)" and "\<forall>(cp, _) \<in> set (chars_of (escape cs)). \<not> in_ranges table cp"
proof -
  have ascii: "\<forall>c \<in> set (escape cs). byte_code c < (128 :: nat)"
    using escape_alphabet [of cs] escape_digits_ascii by blast
  then show "is_utf8 (escape cs)" by (rule is_utf8_ascii)
  show "\<forall>(cp, _) \<in> set (chars_of (escape cs)). \<not> in_ranges table cp"
    using escape_alphabet [of cs] assms unfolding chars_of_ascii [OF ascii] ascii_table_def by auto
qed

lemma encode_chars_visible:
  "ascii_table table \<Longrightarrow> is_utf8 (encode_chars table bs) \<and>
    (\<forall>(cp, _) \<in> set (chars_of (encode_chars table bs)). \<not> in_ranges table cp)"
proof (induction table bs rule: encode_chars.induct)
  case (1 table)
  then show ?case by simp
next
  case (2 table b bs)
  note esc = escape_visible [OF "2.prems"]
  show ?case
  proof (cases "utf8_next b bs")
    case (Scalar cp n)
    let ?c = "b # take (n - 1) bs"
    define head where "head = (if keeps_raw table cp then ?c else escape ?c)"
    have "is_utf8 head \<and> (\<forall>(cp, _) \<in> set (chars_of head). \<not> in_ranges table cp)"
    proof (cases "keeps_raw table cp")
      case True
      with one_char [OF Scalar] is_control_or_separator_iff "2.prems" show ?thesis
        by (simp add: head_def keeps_raw_def ascii_table_def)
    next
      case False
      with esc show ?thesis by (simp add: head_def)
    qed
    moreover have "encode_chars table (b # bs) = head @ encode_chars table (drop (n - 1) bs)"
      using Scalar by (simp add: head_def)
    ultimately show ?thesis
      using "2.IH"(1) [OF Scalar "2.prems"] by (auto simp: chars_of_append is_utf8_append)
  next
    case (Invalid n)
    with "2.IH"(2) [OF Invalid "2.prems"] esc [of "b # take (n - 1) bs"] show ?thesis
      by (auto simp: chars_of_append is_utf8_append)
  next
    case Truncated
    with esc show ?thesis by simp
  qed
qed

lemma encode_path_utf8: "ascii_table table \<Longrightarrow> is_utf8 (encode_path table bs)"
  by (simp add: encode_path_chars encode_chars_visible)

lemma encode_path_visible:
  assumes "ascii_table table" and "(cp, cs) \<in> set (chars_of (encode_path table bs))"
  shows "\<not> in_ranges table cp"
  using encode_chars_visible [OF assms(1), of bs] assms(2) by (auto simp: encode_path_chars)

text \<open>In particular no byte of it sorts at or below the space that ends the field.\<close>

lemma encode_path_above_space:
  assumes "ascii_table table" and "b \<in> set (encode_path table bs)"
  shows "32 < (byte_code b :: nat)"
proof (rule ccontr)
  assume small: "\<not> 32 < (byte_code b :: nat)"
  then have "(byte_code b, [b]) \<in> set (chars_of (encode_path table bs))"
    using ascii_is_char [OF encode_path_utf8 [OF assms(1)] assms(2)] by simp
  then have "\<not> in_ranges table (byte_code b)" by (rule encode_path_visible [OF assms(1)])
  with small assms(1) show False by (simp add: ascii_table_def)
qed

section \<open>Properties\<close>

text \<open>
  C33: decoding inverts encoding on every nonempty byte string, valid UTF-8 or not and whatever the
  character table, so no two paths print alike; and the loop of \<open>encode_path\<close> never reaches its
  \<open>expect\<close> panic.
\<close>

theorem path_roundtrip:
  assumes "path_bytes \<noteq> []"
  shows "decode_path (encode_path table path_bytes) = Some path_bytes
    \<and> encode_path_loop table [] path_bytes = Some (encode_path table path_bytes)"
  using path_encoding.dec_enc [OF assms] by (simp add: encode_path_loop_correct encode_path_chars)

theorem path_roundtrip_witness:
  "decode_path (encode_path [(0, 32)] [CHR ''a'', CHR 0xFF, CHR '' '', CHR ''%'', CHR 0xC3])
     = Some [CHR ''a'', CHR 0xFF, CHR '' '', CHR ''%'', CHR 0xC3]"
  using path_roundtrip [of "[CHR ''a'', CHR 0xFF, CHR '' '', CHR ''%'', CHR 0xC3]" "[(0, 32)]"] by simp

text \<open>With the pinned table, an encoded path is valid UTF-8 in which no character is a control or a
  separator, so it holds no space, no line feed and nothing invisible.
\<close>

theorem encoded_path_is_visible:
  assumes "ascii_table table"
  shows "is_utf8 (encode_path table path_bytes)
    \<and> (\<forall>(cp, _) \<in> set (chars_of (encode_path table path_bytes)). \<not> is_control_or_separator table cp)
    \<and> (\<forall>b \<in> set (encode_path table path_bytes). 32 < (byte_code b :: nat))"
  using encode_chars_visible [OF assms, of path_bytes] encode_path_above_space [OF assms]
    is_control_or_separator_iff assms
  by (auto simp: encode_path_chars ascii_table_def)

lemma in_ranges_single: "in_ranges [(f, l)] cp \<longleftrightarrow> f \<le> cp \<and> cp \<le> l"
  by (simp add: in_ranges_def)

lemma ascii_table_example: "ascii_table [(0, 32)]"
  by (simp add: ascii_table_def separated_def in_ranges_single UPPERCASE_def)

theorem encoded_path_is_visible_witness:
  "is_utf8 (encode_path [(0, 32)] ''a b'') \<and>
     list_all (\<lambda>b. 32 < (byte_code b :: nat)) (encode_path [(0, 32)] ''a b'')"
  using encoded_path_is_visible [OF ascii_table_example, of "''a b''"] by (simp add: list_all_iff)

end
