(* ===== verification/Manifest_Model.thy ===== *)
theory Manifest_Model
  imports Path_Encoding "HOL-Library.Product_Lexorder"
begin

text \<open>
  \<open>crates/tydence/src/manifest/hash.rs\<close> and \<open>model.rs\<close>: payload hashes, the records of a manifest
  and its canonical serialisation. The digest functions are third-party code and arrive as the
  record \<open>digests\<close>; a \<open>[u8; 32]\<close> is a byte list whose length the well-formedness predicates fix.
\<close>

section \<open>Hashing a payload (\<open>hash.rs\<close>)\<close>

record digests =
  sha256_digest :: "bytes \<Rightarrow> bytes"
  sha3_256_digest :: "bytes \<Rightarrow> bytes"

text \<open>The digests are 32 bytes long: the type of \<open>finalize\<close> in both crates.\<close>

definition digests_ok :: "digests \<Rightarrow> bool" where
  "digests_ok d \<longleftrightarrow> (\<forall>bs. length (sha256_digest d bs) = 32 \<and> length (sha3_256_digest d bs) = 32)"

record payload_hashes =
  sha256 :: bytes
  sha3_256 :: bytes

text \<open>
  \<open>PayloadHasher\<close>: each family's state is the bytes it was fed, the documented meaning of
  \<open>Digest::update\<close>.
\<close>

record payload_hasher =
  fed_sha256 :: bytes
  fed_sha3_256 :: bytes

definition payload_hasher_new :: payload_hasher where
  "payload_hasher_new = \<lparr>fed_sha256 = [], fed_sha3_256 = []\<rparr>"

definition payload_hasher_update :: "payload_hasher \<Rightarrow> bytes \<Rightarrow> payload_hasher" where
  "payload_hasher_update hasher payload_bytes =
     hasher\<lparr>fed_sha256 := fed_sha256 hasher @ payload_bytes,
            fed_sha3_256 := fed_sha3_256 hasher @ payload_bytes\<rparr>"

definition payload_hasher_finalize :: "digests \<Rightarrow> payload_hasher \<Rightarrow> payload_hashes" where
  "payload_hasher_finalize d hasher =
     \<lparr>sha256 = sha256_digest d (fed_sha256 hasher), sha3_256 = sha3_256_digest d (fed_sha3_256 hasher)\<rparr>"

definition hash_payload :: "digests \<Rightarrow> bytes \<Rightarrow> payload_hashes" where
  "hash_payload d payload_bytes =
     payload_hasher_finalize d (payload_hasher_update payload_hasher_new payload_bytes)"

lemma hash_payload_simp [simp]:
  "sha256 (hash_payload d bs) = sha256_digest d bs" "sha3_256 (hash_payload d bs) = sha3_256_digest d bs"
  by (simp_all add: hash_payload_def payload_hasher_finalize_def payload_hasher_update_def
      payload_hasher_new_def)

lemma incremental_hashing:
  "payload_hasher_finalize d (foldl payload_hasher_update payload_hasher_new chunks)
     = hash_payload d (concat chunks)"
proof -
  have "foldl payload_hasher_update h chunks =
      \<lparr>fed_sha256 = fed_sha256 h @ concat chunks, fed_sha3_256 = fed_sha3_256 h @ concat chunks\<rparr>" for h
    by (induction chunks arbitrary: h) (simp_all add: payload_hasher_update_def)
  then show ?thesis
    by (simp add: hash_payload_def payload_hasher_update_def payload_hasher_new_def)
qed

section \<open>Fields (\<open>model.rs\<close>)\<close>

definition is_bare_token :: "string \<Rightarrow> bool" where
  "is_bare_token field_value = (field_value \<noteq> [] \<and> list_all is_ascii_graphic field_value)"

record malformed_field =
  mf_field :: string
  mf_value :: string

definition parse_hash_field :: "nat \<Rightarrow> string \<Rightarrow> string \<Rightarrow> (malformed_field, bytes) result" where
  "parse_hash_field byte_count field_name hash_field =
     (let field_error = \<lparr>mf_field = field_name, mf_value = hash_field\<rparr>
      in and_then
           (ok_or field_error
             (case strip_prefix field_name hash_field of
                None \<Rightarrow> None | Some prefixed \<Rightarrow> strip_prefix '':'' prefixed))
           (\<lambda>hex_text. ok_or field_error (hex_decode byte_count LOWERCASE hex_text)))"

definition payload_hashes_display :: "payload_hashes \<Rightarrow> string" where
  "payload_hashes_display h =
     ''sha256:'' @ hex_encode LOWERCASE (sha256 h) @ '' sha3-256:'' @ hex_encode LOWERCASE (sha3_256 h)"

definition payload_hashes_try_from :: "string list \<Rightarrow> (malformed_field, payload_hashes) result" where
  "payload_hashes_try_from hash_fields =
     (case hash_fields of
        [sha256_field, sha3_field] \<Rightarrow>
          and_then (parse_hash_field 32 ''sha256'' sha256_field) (\<lambda>h1.
          and_then (parse_hash_field 32 ''sha3-256'' sha3_field) (\<lambda>h2.
          Ok \<lparr>sha256 = h1, sha3_256 = h2\<rparr>))
      | unexpected_fields \<Rightarrow>
          Err \<lparr>mf_field = ''hashes'', mf_value = join_with '' '' unexpected_fields\<rparr>)"

datatype file_mode = Regular | Executable | Symlink

fun file_mode_str :: "file_mode \<Rightarrow> string" where
  "file_mode_str Regular = ''100644''"
| "file_mode_str Executable = ''100755''"
| "file_mode_str Symlink = ''120000''"

definition FILE_MODES :: "file_mode list" where
  "FILE_MODES = [Regular, Executable, Symlink]"

definition file_mode_try_from :: "string \<Rightarrow> (malformed_field, file_mode) result" where
  "file_mode_try_from mode_field =
     ok_or \<lparr>mf_field = ''mode'', mf_value = mode_field\<rparr>
       (List.find (\<lambda>mode. file_mode_str mode = mode_field) FILE_MODES)"

record entry =
  entry_path :: bytes
  entry_mode :: file_mode
  entry_size :: nat  \<comment> \<open>a \<open>u64\<close>\<close>
  content_hashes :: payload_hashes

datatype anchor_spec = Rfc3161 | Unrecognized string

fun spec_label :: "anchor_spec \<Rightarrow> string" where
  "spec_label Rfc3161 = ''rfc3161''"
| "spec_label (Unrecognized label) = label"

definition anchor_spec_try_from :: "string \<Rightarrow> (malformed_field, anchor_spec) result" where
  "anchor_spec_try_from label =
     (if label = spec_label Rfc3161 then Ok Rfc3161
      else if is_bare_token label then Ok (Unrecognized label)
      else Err \<lparr>mf_field = ''spec'', mf_value = label\<rparr>)"

record past_token =
  pt_spec :: anchor_spec
  pt_site :: string
  token_hashes :: payload_hashes

record binding_group =
  bg_commit :: string
  predecessor_origin :: "bytes option"
  manifest_hashes :: payload_hashes
  bg_tokens :: "past_token list"

record unprintable_field =
  uf_field :: string
  uf_value :: string

definition bare_token :: "string \<Rightarrow> string \<Rightarrow> (unprintable_field, unit) result" where
  "bare_token field_value field_name =
     (if is_bare_token field_value then Ok ()
      else Err \<lparr>uf_field = field_name, uf_value = field_value\<rparr>)"

section \<open>Serialisation\<close>

definition entry_line :: "ranges \<Rightarrow> entry \<Rightarrow> string" where
  "entry_line table e =
     ''entry --path '' @ encode_path table (entry_path e) @ '' --mode '' @ file_mode_str (entry_mode e)
     @ '' --size '' @ decimal (entry_size e) @ '' -- '' @ payload_hashes_display (content_hashes e)"

definition token_key :: "past_token \<Rightarrow> string \<times> string" where
  "token_key t = (spec_label (pt_spec t), pt_site t)"

definition ordered_tokens :: "past_token list \<Rightarrow> past_token list" where
  "ordered_tokens ts = sort_key token_key ts"

definition push_token_line :: "binding_group \<Rightarrow> string \<Rightarrow> past_token \<Rightarrow> (unprintable_field, string) result" where
  "push_token_line grp out token =
     and_then (bare_token (spec_label (pt_spec token)) ''spec'') (\<lambda>_.
     and_then (bare_token (pt_site token) ''site'') (\<lambda>_.
     Ok (out @ ''past-token --commit '' @ bg_commit grp @ '' --spec '' @ spec_label (pt_spec token)
       @ '' --site '' @ pt_site token @ '' -- '' @ payload_hashes_display (token_hashes token) @ [CHR 0x0A])))"

definition push_group_lines :: "ranges \<Rightarrow> string \<Rightarrow> binding_group \<Rightarrow> (unprintable_field, string) result" where
  "push_group_lines table out grp =
     and_then (bare_token (bg_commit grp) ''commit'') (\<lambda>_.
       let with_predecessor =
             (case predecessor_origin grp of
                None \<Rightarrow> out
              | Some origin \<Rightarrow> out @ ''predecessor --commit '' @ bg_commit grp @ '' -- ''
                  @ encode_path table origin @ [CHR 0x0A]);
           with_manifest =
             with_predecessor @ ''past-manifest --commit '' @ bg_commit grp @ '' -- ''
               @ payload_hashes_display (manifest_hashes grp) @ [CHR 0x0A]
       in try_fold (push_token_line grp) with_manifest (ordered_tokens (bg_tokens grp)))"

record manifest =
  parents :: "string list"
  binding_groups :: "binding_group list"
  entries :: "entry list"

definition push_parent :: "string \<Rightarrow> string \<Rightarrow> (unprintable_field, string) result" where
  "push_parent out parent =
     and_then (bare_token parent ''parent commit'') (\<lambda>_. Ok (out @ '' '' @ parent))"

definition serialize :: "ranges \<Rightarrow> manifest \<Rightarrow> (unprintable_field, string) result" where
  "serialize table m =
     (let header = ''tydence-manifest/v1'' @ [CHR 0x0A] in
      and_then
        (if parents m = [] then Ok header
         else and_then (try_fold push_parent (header @ ''parents --'') (parents m))
                (\<lambda>out. Ok (out @ [CHR 0x0A])))
        (\<lambda>out.
      and_then (try_fold (push_group_lines table) out (binding_groups m)) (\<lambda>out.
        let entry_lines = sort (map (entry_line table) (entries m))
        in Ok (foldl (\<lambda>out line. out @ line @ [CHR 0x0A]) out entry_lines))))"

section \<open>Field codecs\<close>

definition hashes_ok :: "payload_hashes \<Rightarrow> bool" where
  "hashes_ok h \<longleftrightarrow> length (sha256 h) = 32 \<and> length (sha3_256 h) = 32"

fun spec_ok :: "anchor_spec \<Rightarrow> bool" where
  "spec_ok Rfc3161 = True"
| "spec_ok (Unrecognized label) = (is_bare_token label \<and> label \<noteq> ''rfc3161'')"

lemma hash_payload_ok: "digests_ok d \<Longrightarrow> hashes_ok (hash_payload d bs)"
  by (simp add: digests_ok_def hashes_ok_def)

lemma graphic_not_space: "is_ascii_graphic b \<Longrightarrow> b \<noteq> CHR '' ''" "is_ascii_graphic b \<Longrightarrow> b \<noteq> CHR 0x0A"
  by (auto simp: is_ascii_graphic_def)

lemma bare_no_separator:
  assumes "is_bare_token s"
  shows "CHR '' '' \<notin> set s" "CHR 0x0A \<notin> set s" "s \<noteq> []"
  using assms graphic_not_space by (auto simp: is_bare_token_def list_all_iff)

lemma hex_no_separator [simp]:
  "CHR '' '' \<notin> set (hex_encode LOWERCASE bs)" "CHR 0x0A \<notin> set (hex_encode LOWERCASE bs)"
  using hex_lower_graphic graphic_not_space by blast+

lemma parse_hash_field_Ok:
  "parse_hash_field 32 field_name s = Ok bs \<longleftrightarrow>
     length bs = 32 \<and> s = field_name @ '':'' @ hex_encode LOWERCASE bs"
  by (cases "strip_prefix field_name s")
    (auto simp: parse_hash_field_def Let_def result_simps strip_prefix_iff hash_hex.dec_iff
      dest: strip_prefix_iff [THEN iffD1])

definition hash_fields_of :: "payload_hashes \<Rightarrow> string list" where
  "hash_fields_of h = [''sha256:'' @ hex_encode LOWERCASE (sha256 h), ''sha3-256:'' @ hex_encode LOWERCASE (sha3_256 h)]"

lemma payload_hashes_try_from_Ok:
  "payload_hashes_try_from fs = Ok h \<longleftrightarrow> hashes_ok h \<and> fs = hash_fields_of h"
  unfolding payload_hashes_try_from_def hash_fields_of_def hashes_ok_def
  by (cases h) (auto simp: result_simps parse_hash_field_Ok split: list.splits)

lemma payload_hashes_try_from_fields: "hashes_ok h \<Longrightarrow> payload_hashes_try_from (hash_fields_of h) = Ok h"
  by (simp add: payload_hashes_try_from_Ok)

lemma display_fields: "payload_hashes_display h = join_with '' '' (hash_fields_of h)"
  by (simp add: payload_hashes_display_def hash_fields_of_def)

lemma hash_fields_no_separator: "s \<in> set (hash_fields_of h) \<Longrightarrow> CHR '' '' \<notin> set s \<and> CHR 0x0A \<notin> set s"
  by (auto simp: hash_fields_of_def)

lemma split_display: "split_on (CHR '' '') (payload_hashes_display h) = hash_fields_of h"
  unfolding display_fields
  by (rule split_join) (use hash_fields_no_separator in \<open>auto simp: hash_fields_of_def\<close>)

interpretation payload_hashes_codec: canonical_codec
  payload_hashes_display "\<lambda>s. ok (payload_hashes_try_from (split_on (CHR '' '') s))" hashes_ok
proof unfold_locales
  fix h assume "hashes_ok h"
  then show "ok (payload_hashes_try_from (split_on (CHR '' '') (payload_hashes_display h))) = Some h"
    by (simp add: split_display payload_hashes_try_from_fields)
next
  fix s h assume "ok (payload_hashes_try_from (split_on (CHR '' '') s)) = Some h"
  then have *: "hashes_ok h" "split_on (CHR '' '') s = hash_fields_of h"
    by (simp_all add: result_simps payload_hashes_try_from_Ok)
  from join_split [of "CHR '' ''" s] show "hashes_ok h \<and> payload_hashes_display h = s"
    unfolding * display_fields using *(1) by simp
qed

lemma file_mode_str_eq: "file_mode_str m = file_mode_str n \<longleftrightarrow> m = n"
  by (cases m; cases n) simp_all

lemma file_mode_try_from_Ok: "file_mode_try_from s = Ok m \<longleftrightarrow> s = file_mode_str m"
  unfolding file_mode_try_from_def FILE_MODES_def
  by (cases m) (auto simp: result_simps)

interpretation file_mode_codec: canonical_codec file_mode_str "\<lambda>s. ok (file_mode_try_from s)" "\<lambda>_. True"
  by unfold_locales (simp_all add: result_simps file_mode_try_from_Ok)

lemma anchor_spec_try_from_Ok: "anchor_spec_try_from s = Ok spec \<longleftrightarrow> spec_ok spec \<and> s = spec_label spec"
  by (cases spec) (auto simp: anchor_spec_try_from_def split: if_splits)

interpretation anchor_spec_codec: canonical_codec spec_label "\<lambda>s. ok (anchor_spec_try_from s)" spec_ok
  by unfold_locales (auto simp: result_simps anchor_spec_try_from_Ok)

lemma mode_no_separator [simp]: "CHR '' '' \<notin> set (file_mode_str m)" "CHR 0x0A \<notin> set (file_mode_str m)"
  by (cases m; simp)+

lemma decimal_no_separator [simp]: "CHR '' '' \<notin> set (decimal n)" "CHR 0x0A \<notin> set (decimal n)"
  by (auto dest!: decimal_digits simp: is_ascii_digit_def)

section \<open>A manifest as lines\<close>

definition text_of :: "string list \<Rightarrow> string" where
  "text_of lines = concat (map (\<lambda>line. line @ [CHR 0x0A]) lines)"

abbreviation spaced :: "string list \<Rightarrow> string" where
  "spaced \<equiv> join_with '' ''"

definition predecessor_tokens :: "ranges \<Rightarrow> string \<Rightarrow> bytes \<Rightarrow> string list" where
  "predecessor_tokens table commit origin =
     [''predecessor'', ''--commit'', commit, ''--'', encode_path table origin]"

definition past_manifest_tokens :: "binding_group \<Rightarrow> string list" where
  "past_manifest_tokens g = [''past-manifest'', ''--commit'', bg_commit g, ''--''] @ hash_fields_of (manifest_hashes g)"

definition past_token_tokens :: "string \<Rightarrow> past_token \<Rightarrow> string list" where
  "past_token_tokens commit t =
     [''past-token'', ''--commit'', commit, ''--spec'', spec_label (pt_spec t), ''--site'', pt_site t, ''--'']
     @ hash_fields_of (token_hashes t)"

definition entry_tokens :: "ranges \<Rightarrow> entry \<Rightarrow> string list" where
  "entry_tokens table e =
     [''entry'', ''--path'', encode_path table (entry_path e), ''--mode'', file_mode_str (entry_mode e),
      ''--size'', decimal (entry_size e), ''--''] @ hash_fields_of (content_hashes e)"

definition parents_lines :: "string list \<Rightarrow> string list" where
  "parents_lines ps = (if ps = [] then [] else [spaced (''parents'' # ''--'' # ps)])"

definition group_lines :: "ranges \<Rightarrow> binding_group \<Rightarrow> string list" where
  "group_lines table g =
     (case predecessor_origin g of None \<Rightarrow> []
      | Some origin \<Rightarrow> [spaced (predecessor_tokens table (bg_commit g) origin)])
     @ spaced (past_manifest_tokens g)
     # map (\<lambda>t. spaced (past_token_tokens (bg_commit g) t)) (ordered_tokens (bg_tokens g))"

definition record_lines :: "ranges \<Rightarrow> manifest \<Rightarrow> string list" where
  "record_lines table m =
     parents_lines (parents m) @ concat (map (group_lines table) (binding_groups m))
     @ sort (map (entry_line table) (entries m))"

definition printable_group :: "binding_group \<Rightarrow> bool" where
  "printable_group g \<longleftrightarrow> is_bare_token (bg_commit g) \<and>
     (\<forall>t \<in> set (bg_tokens g). is_bare_token (spec_label (pt_spec t)) \<and> is_bare_token (pt_site t))"

definition printable :: "manifest \<Rightarrow> bool" where
  "printable m \<longleftrightarrow> list_all is_bare_token (parents m) \<and> list_all printable_group (binding_groups m)"

lemma text_of_simps [simp]:
  "text_of [] = []" "text_of (l # ls) = l @ CHR 0x0A # text_of ls" "text_of (ls @ ks) = text_of ls @ text_of ks"
  by (simp_all add: text_of_def)

lemma entry_line_tokens: "entry_line table e = spaced (entry_tokens table e)"
  by (simp add: entry_line_def entry_tokens_def hash_fields_of_def payload_hashes_display_def)

lemma set_ordered_tokens [simp]: "set (ordered_tokens ts) = set ts"
  by (simp add: ordered_tokens_def)

lemma foldl_push_lines: "foldl (\<lambda>out line. out @ line @ [CHR 0x0A]) out lines = out @ text_of lines"
  by (induction lines arbitrary: out) simp_all

lemma bare_token_Ok: "bare_token v n = Ok u \<longleftrightarrow> is_bare_token v"
  by (auto simp: bare_token_def)

lemma push_token_lines_Ok:
  "try_fold (push_token_line g) out ts = Ok text \<longleftrightarrow>
     (\<forall>t \<in> set ts. is_bare_token (spec_label (pt_spec t)) \<and> is_bare_token (pt_site t)) \<and>
     text = out @ text_of (map (\<lambda>t. spaced (past_token_tokens (bg_commit g) t)) ts)"
proof (induction ts arbitrary: out)
  case Nil
  then show ?case by auto
next
  case (Cons t ts)
  then show ?case
    by (auto simp: push_token_line_def result_simps bare_token_Ok past_token_tokens_def display_fields
        hash_fields_of_def)
qed

lemma push_group_lines_Ok:
  "push_group_lines table out g = Ok text \<longleftrightarrow>
     printable_group g \<and> text = out @ text_of (group_lines table g)"
  by (auto simp: push_group_lines_def Let_def result_simps bare_token_Ok push_token_lines_Ok printable_group_def
      group_lines_def predecessor_tokens_def past_manifest_tokens_def display_fields hash_fields_of_def
      split: option.splits)

lemma push_groups_Ok:
  "try_fold (push_group_lines table) out gs = Ok text \<longleftrightarrow>
     list_all printable_group gs \<and> text = out @ text_of (concat (map (group_lines table) gs))"
  by (induction gs arbitrary: out) (auto simp: result_simps push_group_lines_Ok)

lemma push_parents_Ok:
  "try_fold push_parent out ps = Ok text \<longleftrightarrow>
     list_all is_bare_token ps \<and> text = out @ concat (map (\<lambda>p. CHR '' '' # p) ps)"
  by (induction ps arbitrary: out) (auto simp: push_parent_def result_simps bare_token_Ok)

lemma spaced_Cons: "spaced (w # ws) = w @ concat (map (\<lambda>p. CHR '' '' # p) ws)"
  by (induction ws arbitrary: w) simp_all

lemma serialize_Ok:
  "serialize table m = Ok text \<longleftrightarrow>
     printable m \<and> text = text_of (''tydence-manifest/v1'' # record_lines table m)"
  by (auto simp: serialize_def Let_def result_simps push_parents_Ok push_groups_Ok foldl_push_lines
      printable_def record_lines_def parents_lines_def spaced_Cons)

section \<open>No field holds a separator\<close>

definition separator_free :: "string list \<Rightarrow> bool" where
  "separator_free ws \<longleftrightarrow> ws \<noteq> [] \<and> (\<forall>w \<in> set ws. CHR '' '' \<notin> set w \<and> CHR 0x0A \<notin> set w)"

lemma split_spaced: "separator_free ws \<Longrightarrow> split_on (CHR '' '') (spaced ws) = ws"
  by (rule split_join) (auto simp: separator_free_def)

lemma spaced_no_newline: "separator_free ws \<Longrightarrow> CHR 0x0A \<notin> set (spaced ws)"
  using set_join_with [of "'' ''" ws] by (auto simp: separator_free_def)

lemma encode_path_no_separator:
  assumes "ascii_table table"
  shows "CHR '' '' \<notin> set (encode_path table bs)" "CHR 0x0A \<notin> set (encode_path table bs)"
  using encode_path_above_space [OF assms] by fastforce+

lemma separator_free_tokens:
  "ascii_table table \<Longrightarrow> separator_free (entry_tokens table e)"
  "ascii_table table \<Longrightarrow> is_bare_token commit \<Longrightarrow> separator_free (predecessor_tokens table commit origin)"
  "is_bare_token (bg_commit g) \<Longrightarrow> separator_free (past_manifest_tokens g)"
  "is_bare_token commit \<Longrightarrow> is_bare_token (spec_label (pt_spec t)) \<Longrightarrow> is_bare_token (pt_site t) \<Longrightarrow>
     separator_free (past_token_tokens commit t)"
  "list_all is_bare_token ps \<Longrightarrow> separator_free (''parents'' # ''--'' # ps)"
  using bare_no_separator encode_path_no_separator
  by (auto simp: separator_free_def entry_tokens_def predecessor_tokens_def past_manifest_tokens_def
      past_token_tokens_def hash_fields_of_def list_all_iff)

lemma text_of_lines:
  "(\<And>l. l \<in> set ls \<Longrightarrow> CHR 0x0A \<notin> set l) \<Longrightarrow> split_on (CHR 0x0A) (text_of ls) = ls @ [[]]"
  by (induction ls) (simp_all add: split_on_append)

lemma record_lines_no_newline:
  assumes table: "ascii_table table" and p: "printable m" and l: "l \<in> set (record_lines table m)"
  shows "CHR 0x0A \<notin> set l"
proof -
  have "\<exists>ws. separator_free ws \<and> l = spaced ws"
    using l p separator_free_tokens(1,2) [OF table] separator_free_tokens(3-5)
    unfolding record_lines_def parents_lines_def group_lines_def printable_def printable_group_def
    by (fastforce simp: list_all_iff entry_line_tokens split: if_splits option.splits)
  then show ?thesis using spaced_no_newline by blast
qed

end
