(* ===== verification/Manifest_Parse.thy ===== *)
theory Manifest_Parse
  imports Manifest_Model
begin

text \<open>
  \<open>crates/tydence/src/manifest/parse.rs\<close>: the fail-closed reader of manifest text, as a builder that
  one record line after another is fed to, and the re-serialisation check that ends it.
\<close>

section \<open>Errors and fields\<close>

text \<open>
  \<open>ExpectPanic\<close> is no value of the Rust enum: it stands for the panics of the two \<open>expect\<close> calls a
  record line meets, which the properties show unreachable.
\<close>

datatype manifest_error =
  UnsupportedFormat
  | MissingFinalNewline
  | UnknownRecord nat
  | MalformedRecord nat
  | MisplacedRecord nat
  | DuplicateRecord nat
  | NonCanonicalSerialization
  | ExpectPanic

fun manifest_error_display :: "manifest_error \<Rightarrow> string" where
  "manifest_error_display UnsupportedFormat = ''not a supported manifest format version''"
| "manifest_error_display MissingFinalNewline = ''the manifest does not end with a newline''"
| "manifest_error_display (UnknownRecord line_number) = ''line '' @ decimal line_number @ '': unknown record name''"
| "manifest_error_display (MalformedRecord line_number) = ''line '' @ decimal line_number @ '': malformed record''"
| "manifest_error_display (MisplacedRecord line_number) = ''line '' @ decimal line_number @ '': record out of order''"
| "manifest_error_display (DuplicateRecord line_number) = ''line '' @ decimal line_number @ '': duplicate coverage''"
| "manifest_error_display NonCanonicalSerialization = ''not the canonical serialization''"
| "manifest_error_display ExpectPanic = []"

definition bare_field :: "string \<Rightarrow> string option" where
  "bare_field field_value = (if is_bare_token field_value then Some field_value else None)"

text \<open>\<open>str::parse::<u64>\<close> of digits fails exactly on a value past 64 bits.\<close>

definition parse_u64_digits :: "string \<Rightarrow> nat option" where
  "parse_u64_digits s = (if decimal_value s < 2 ^ 64 then Some (decimal_value s) else None)"

definition is_canonical_decimal :: "string \<Rightarrow> bool" where
  "is_canonical_decimal size_field =
     (size_field \<noteq> [] \<and> list_all is_ascii_digit size_field
      \<and> (size_field = ''0'' \<or> \<not> starts_with ''0'' size_field))"

definition entry_size_from :: "string \<Rightarrow> nat option" where
  "entry_size_from size_field =
     (if is_canonical_decimal size_field then parse_u64_digits size_field else None)"

section \<open>The record grammar\<close>

datatype record_kind = KParents | KPredecessor | KPastManifest | KPastToken | KEntry

definition RECORDS :: "(string \<times> record_kind) list" where
  "RECORDS =
     [(''parents'', KParents), (''predecessor'', KPredecessor), (''past-manifest'', KPastManifest),
      (''past-token'', KPastToken), (''entry'', KEntry)]"

definition record_kind_of :: "string \<Rightarrow> record_kind option" where
  "record_kind_of record_name =
     map_option snd (List.find (\<lambda>(known_name, _). known_name = record_name) RECORDS)"

datatype section_state = SStart | SParents | SGroupAnnounced | SGroup | SEntries

definition SECTION_ARROWS :: "(section_state \<times> record_kind \<times> section_state) list" where
  "SECTION_ARROWS =
     [(SStart, KParents, SParents),
      (SStart, KPredecessor, SGroupAnnounced),
      (SStart, KPastManifest, SGroup),
      (SStart, KEntry, SEntries),
      (SParents, KPredecessor, SGroupAnnounced),
      (SParents, KPastManifest, SGroup),
      (SParents, KEntry, SEntries),
      (SGroupAnnounced, KPastManifest, SGroup),
      (SGroup, KPredecessor, SGroupAnnounced),
      (SGroup, KPastManifest, SGroup),
      (SGroup, KPastToken, SGroup),
      (SGroup, KEntry, SEntries),
      (SEntries, KEntry, SEntries)]"

definition section_after :: "section_state \<Rightarrow> record_kind \<Rightarrow> section_state option" where
  "section_after current incoming =
     map_option (\<lambda>(_, _, to). to)
       (List.find (\<lambda>(from, on, _). (from, on) = (current, incoming)) SECTION_ARROWS)"

section \<open>The builder\<close>

record pending_predecessor =
  pp_line_number :: nat
  pp_commit :: string
  pp_origin :: bytes

record token_record =
  tr_commit :: string
  tr_token :: past_token

record builder =
  b_section :: section_state
  b_parents :: "string list"
  b_pending :: "pending_predecessor option"
  b_groups :: "binding_group list"
  b_entries :: "entry list"

definition read_parents :: "builder \<Rightarrow> string list \<Rightarrow> nat \<Rightarrow> (manifest_error, builder) result" where
  "read_parents b parent_hashes line_number =
     (if parent_hashes = [] then Err (MalformedRecord line_number)
      else try_fold
             (\<lambda>b parent. and_then (ok_or (MalformedRecord line_number) (bare_field parent))
                (\<lambda>p. Ok (b\<lparr>b_parents := b_parents b @ [p]\<rparr>)))
             b parent_hashes)"

definition read_past_manifest :: "builder \<Rightarrow> binding_group \<Rightarrow> nat \<Rightarrow> (manifest_error, builder) result" where
  "read_past_manifest b grp line_number =
     (if list_ex (\<lambda>bound. sha256 (manifest_hashes bound) = sha256 (manifest_hashes grp)) (b_groups b)
      then Err (DuplicateRecord line_number)
      else (case b_pending b of
          None \<Rightarrow> Ok (b\<lparr>b_groups := b_groups b @ [grp]\<rparr>)
        | Some announcement \<Rightarrow>
            (if pp_commit announcement \<noteq> bg_commit grp then Err (MisplacedRecord line_number)
             else Ok (b\<lparr>b_pending := None,
                       b_groups := b_groups b @ [grp\<lparr>predecessor_origin := Some (pp_origin announcement)\<rparr>]\<rparr>))))"

definition read_past_token :: "builder \<Rightarrow> token_record \<Rightarrow> nat \<Rightarrow> (manifest_error, builder) result" where
  "read_past_token b rec line_number =
     (if b_groups b = [] then Err ExpectPanic
      else
        let current_group = last (b_groups b) in
        if tr_commit rec \<noteq> bg_commit current_group then Err (MisplacedRecord line_number)
        else if list_ex (\<lambda>bound. spec_label (pt_spec bound) = spec_label (pt_spec (tr_token rec))
               \<and> pt_site bound = pt_site (tr_token rec)) (bg_tokens current_group)
        then Err (DuplicateRecord line_number)
        else Ok (b\<lparr>b_groups := butlast (b_groups b)
               @ [current_group\<lparr>bg_tokens := bg_tokens current_group @ [tr_token rec]\<rparr>]\<rparr>))"

definition read_entry :: "builder \<Rightarrow> entry \<Rightarrow> nat \<Rightarrow> (manifest_error, builder) result" where
  "read_entry b e line_number =
     (if b_entries b \<noteq> [] \<and> entry_path (last (b_entries b)) = entry_path e
      then Err (DuplicateRecord line_number)
      else Ok (b\<lparr>b_entries := b_entries b @ [e]\<rparr>))"

definition read_kind :: "builder \<Rightarrow> record_kind \<Rightarrow> string list \<Rightarrow> nat \<Rightarrow> (manifest_error, builder) result" where
  "read_kind b kind tokens line_number =
     (let malformed = MalformedRecord line_number;
          try_hashes = (\<lambda>fields. map_err (\<lambda>_. malformed) (payload_hashes_try_from fields))
      in (case kind of
        KParents \<Rightarrow>
          (case tokens of _ # s1 # parent_hashes \<Rightarrow>
             if s1 = ''--'' then read_parents b parent_hashes line_number else Err malformed
           | _ \<Rightarrow> Err malformed)
      | KPredecessor \<Rightarrow>
          (case tokens of [_, s1, commit, s2, origin] \<Rightarrow>
             if s1 = ''--commit'' \<and> s2 = ''--'' then
               and_then (ok_or malformed (bare_field commit)) (\<lambda>commit.
               and_then (ok_or malformed (decode_path origin)) (\<lambda>origin.
               Ok (b\<lparr>b_pending := Some \<lparr>pp_line_number = line_number, pp_commit = commit, pp_origin = origin\<rparr>\<rparr>)))
             else Err malformed
           | _ \<Rightarrow> Err malformed)
      | KPastManifest \<Rightarrow>
          (case tokens of _ # s1 # commit # s2 # hash_fields \<Rightarrow>
             if s1 = ''--commit'' \<and> s2 = ''--'' then
               and_then (ok_or malformed (bare_field commit)) (\<lambda>commit.
               and_then (try_hashes hash_fields) (\<lambda>hashes.
               read_past_manifest b
                 \<lparr>bg_commit = commit, predecessor_origin = None, manifest_hashes = hashes, bg_tokens = []\<rparr>
                 line_number))
             else Err malformed
           | _ \<Rightarrow> Err malformed)
      | KPastToken \<Rightarrow>
          (case tokens of _ # s1 # commit # s2 # label # s3 # site # s4 # hash_fields \<Rightarrow>
             if s1 = ''--commit'' \<and> s2 = ''--spec'' \<and> s3 = ''--site'' \<and> s4 = ''--'' then
               and_then (ok_or malformed (bare_field commit)) (\<lambda>commit.
               and_then (map_err (\<lambda>_. malformed) (anchor_spec_try_from label)) (\<lambda>spec.
               and_then (ok_or malformed (bare_field site)) (\<lambda>site.
               and_then (try_hashes hash_fields) (\<lambda>hashes.
               read_past_token b
                 \<lparr>tr_commit = commit, tr_token = \<lparr>pt_spec = spec, pt_site = site, token_hashes = hashes\<rparr>\<rparr>
                 line_number))))
             else Err malformed
           | _ \<Rightarrow> Err malformed)
      | KEntry \<Rightarrow>
          (case tokens of _ # s1 # path_field # s2 # mode_field # s3 # size_field # s4 # hash_fields \<Rightarrow>
             if s1 = ''--path'' \<and> s2 = ''--mode'' \<and> s3 = ''--size'' \<and> s4 = ''--'' then
               and_then (ok_or malformed (decode_path path_field)) (\<lambda>path.
               and_then (map_err (\<lambda>_. malformed) (file_mode_try_from mode_field)) (\<lambda>mode.
               and_then (ok_or malformed (entry_size_from size_field)) (\<lambda>size_value.
               and_then (try_hashes hash_fields) (\<lambda>hashes.
               read_entry b
                 \<lparr>entry_path = path, entry_mode = mode, entry_size = size_value, content_hashes = hashes\<rparr>
                 line_number))))
             else Err malformed
           | _ \<Rightarrow> Err malformed)))"

definition read_record :: "builder \<Rightarrow> string \<Rightarrow> nat \<Rightarrow> (manifest_error, builder) result" where
  "read_record b record_line line_number =
     (let tokens = split_on (CHR '' '') record_line in
      case tokens of [] \<Rightarrow> Err ExpectPanic
      | record_name # _ \<Rightarrow>
        and_then (ok_or (UnknownRecord line_number) (record_kind_of record_name)) (\<lambda>kind.
        and_then (ok_or (MisplacedRecord line_number) (section_after (b_section b) kind)) (\<lambda>entered_section.
        and_then (read_kind b kind tokens line_number) (\<lambda>b.
        Ok (b\<lparr>b_section := entered_section\<rparr>)))))"

definition finish :: "builder \<Rightarrow> (manifest_error, manifest) result" where
  "finish b =
     (case b_pending b of
        Some announcement \<Rightarrow> Err (MisplacedRecord (pp_line_number announcement))
      | None \<Rightarrow> Ok \<lparr>parents = b_parents b, binding_groups = b_groups b, entries = b_entries b\<rparr>)"

definition empty_builder :: builder where
  "empty_builder = \<lparr>b_section = SStart, b_parents = [], b_pending = None, b_groups = [], b_entries = []\<rparr>"

text \<open>The loop of \<open>run\<close> over the numbered lines; the header is line 1, so records start at 2.\<close>

definition read_numbered :: "builder \<Rightarrow> nat \<times> string \<Rightarrow> (manifest_error, builder) result" where
  "read_numbered b numbered_line = read_record b (snd numbered_line) (fst numbered_line + 2)"

definition parse_manifest :: "ranges \<Rightarrow> string \<Rightarrow> (manifest_error, manifest) result" where
  "parse_manifest table manifest_text =
     and_then (ok_or MissingFinalNewline (strip_suffix [CHR 0x0A] manifest_text)) (\<lambda>record_text.
       case split_on (CHR 0x0A) record_text of [] \<Rightarrow> Err ExpectPanic
       | header # lines \<Rightarrow>
         if header \<noteq> ''tydence-manifest/v1'' then Err UnsupportedFormat
         else
           and_then (try_fold read_numbered empty_builder (List.enumerate 0 lines)) (\<lambda>b.
           and_then (finish b) (\<lambda>m.
           and_then (map_err (\<lambda>_. NonCanonicalSerialization) (serialize table m)) (\<lambda>canonical_text.
           if canonical_text = manifest_text then Ok m else Err NonCanonicalSerialization))))"

section \<open>The builder invariant\<close>

definition token_ok :: "past_token \<Rightarrow> bool" where
  "token_ok t \<longleftrightarrow> spec_ok (pt_spec t) \<and> is_bare_token (pt_site t) \<and> hashes_ok (token_hashes t)"

definition group_fields_ok :: "binding_group \<Rightarrow> bool" where
  "group_fields_ok g \<longleftrightarrow> is_bare_token (bg_commit g) \<and> predecessor_origin g \<noteq> Some [] \<and>
     hashes_ok (manifest_hashes g) \<and> list_all token_ok (bg_tokens g)"

definition entry_ok :: "entry \<Rightarrow> bool" where
  "entry_ok e \<longleftrightarrow> entry_path e \<noteq> [] \<and> entry_size e < 2 ^ 64 \<and> hashes_ok (content_hashes e)"

definition group_key :: "binding_group \<Rightarrow> bytes" where
  "group_key g = sha256 (manifest_hashes g)"

definition one_token_per_site :: "binding_group \<Rightarrow> bool" where
  "one_token_per_site g \<longleftrightarrow> distinct (map token_key (bg_tokens g))"

definition paths_step :: "entry list \<Rightarrow> bool" where
  "paths_step es \<longleftrightarrow> successively (\<lambda>e f. entry_path e \<noteq> entry_path f) es"

definition fields_ok :: "manifest \<Rightarrow> bool" where
  "fields_ok m \<longleftrightarrow> list_all is_bare_token (parents m) \<and> list_all group_fields_ok (binding_groups m)
     \<and> list_all entry_ok (entries m)"

definition manifest_of :: "builder \<Rightarrow> manifest" where
  "manifest_of b = \<lparr>parents = b_parents b, binding_groups = b_groups b, entries = b_entries b\<rparr>"

definition builder_ok :: "builder \<Rightarrow> bool" where
  "builder_ok b \<longleftrightarrow> fields_ok (manifest_of b)
     \<and> distinct (map group_key (b_groups b)) \<and> list_all one_token_per_site (b_groups b)
     \<and> paths_step (b_entries b)
     \<and> (b_pending b \<noteq> None \<longleftrightarrow> b_section b = SGroupAnnounced)
     \<and> (\<forall>p. b_pending b = Some p \<longrightarrow> is_bare_token (pp_commit p) \<and> pp_origin p \<noteq> [])
     \<and> (b_section b = SGroup \<longrightarrow> b_groups b \<noteq> [])
     \<and> (b_section b = SStart \<longrightarrow> b_parents b = [])
     \<and> (b_section b \<in> {SStart, SParents} \<longrightarrow> b_groups b = [])
     \<and> (b_section b \<noteq> SEntries \<longrightarrow> b_entries b = [])"

lemma bare_field_Some: "bare_field s = Some t \<longleftrightarrow> is_bare_token s \<and> t = s"
  by (auto simp: bare_field_def)

lemma canonical_decimal_iff:
  "is_canonical_decimal s \<longleftrightarrow> s \<noteq> [] \<and> (\<forall>b \<in> set s. is_ascii_digit b) \<and> (s = ''0'' \<or> hd s \<noteq> CHR ''0'')"
  by (cases s) (auto simp: is_canonical_decimal_def list_all_iff starts_with_iff)

lemma is_canonical_decimal_decimal: "is_canonical_decimal (decimal n)"
  using decimal_digits [of _ n] hd_decimal [of n]
  by (cases "n = 0") (auto simp: canonical_decimal_iff decimal_0)

lemma entry_size_from_Some: "entry_size_from s = Some n \<longleftrightarrow> n < 2 ^ 64 \<and> s = decimal n"
proof
  assume "entry_size_from s = Some n"
  then have c: "is_canonical_decimal s" and v: "decimal_value s = n" "n < 2 ^ 64"
    by (auto simp: entry_size_from_def parse_u64_digits_def split: if_splits)
  from c have "decimal (decimal_value s) = s"
    by (intro decimal_of_value) (simp_all add: canonical_decimal_iff)
  with v show "n < 2 ^ 64 \<and> s = decimal n" by simp
next
  assume "n < 2 ^ 64 \<and> s = decimal n"
  then show "entry_size_from s = Some n"
    by (simp add: entry_size_from_def parse_u64_digits_def is_canonical_decimal_decimal)
qed

interpretation size_codec: canonical_codec decimal entry_size_from "\<lambda>n. n < 2 ^ 64"
  by unfold_locales (simp_all add: entry_size_from_Some)

lemma section_after_cases:
  "section_after from on = Some to \<longleftrightarrow> (from, on, to) \<in> set SECTION_ARROWS"
  by (cases "from"; cases "on"; cases "to") (simp_all add: section_after_def SECTION_ARROWS_def)

lemmas section_simps = section_after_def SECTION_ARROWS_def
lemmas kind_simps = record_kind_of_def RECORDS_def

lemma read_parents_Ok:
  "read_parents b ps n = Ok b' \<longleftrightarrow>
     ps \<noteq> [] \<and> list_all is_bare_token ps \<and> b' = b\<lparr>b_parents := b_parents b @ ps\<rparr>"
proof -
  have "try_fold (\<lambda>b parent. and_then (ok_or (MalformedRecord n) (bare_field parent))
      (\<lambda>p. Ok (b\<lparr>b_parents := b_parents b @ [p]\<rparr>))) b ps = Ok b'
    \<longleftrightarrow> list_all is_bare_token ps \<and> b' = b\<lparr>b_parents := b_parents b @ ps\<rparr>"
    by (induction ps arbitrary: b) (auto simp: result_simps bare_field_Some)
  then show ?thesis by (simp add: read_parents_def)
qed

lemma read_past_manifest_Ok:
  "read_past_manifest b g n = Ok b' \<longleftrightarrow>
     group_key g \<notin> set (map group_key (b_groups b)) \<and>
     (case b_pending b of
        None \<Rightarrow> b' = b\<lparr>b_groups := b_groups b @ [g]\<rparr>
      | Some p \<Rightarrow> pp_commit p = bg_commit g \<and>
          b' = b\<lparr>b_pending := None, b_groups := b_groups b @ [g\<lparr>predecessor_origin := Some (pp_origin p)\<rparr>]\<rparr>)"
  by (force simp: read_past_manifest_def group_key_def list_ex_iff image_iff split: option.splits)

lemma repeats_a_token:
  "list_ex (\<lambda>bound. spec_label (pt_spec bound) = spec_label (pt_spec t) \<and> pt_site bound = pt_site t) ts
     \<longleftrightarrow> token_key t \<in> set (map token_key ts)"
  by (induction ts) (auto simp: token_key_def)

lemma read_past_token_Ok:
  "read_past_token b r n = Ok b' \<longleftrightarrow>
     b_groups b \<noteq> [] \<and> tr_commit r = bg_commit (last (b_groups b)) \<and>
     token_key (tr_token r) \<notin> set (map token_key (bg_tokens (last (b_groups b)))) \<and>
     b' = b\<lparr>b_groups := butlast (b_groups b)
       @ [last (b_groups b)\<lparr>bg_tokens := bg_tokens (last (b_groups b)) @ [tr_token r]\<rparr>]\<rparr>"
  unfolding read_past_token_def Let_def repeats_a_token by auto

lemma read_entry_Ok:
  "read_entry b e n = Ok b' \<longleftrightarrow>
     (b_entries b \<noteq> [] \<longrightarrow> entry_path (last (b_entries b)) \<noteq> entry_path e) \<and>
     b' = b\<lparr>b_entries := b_entries b @ [e]\<rparr>"
  by (auto simp: read_entry_def)

lemma decode_path_not_Nil: "decode_path s = Some bs \<Longrightarrow> bs \<noteq> []"
  by (auto simp: decode_path_def split: option.splits if_splits)

lemma read_kind_OkD:
  assumes "read_kind b kind tokens n = Ok b'"
  shows "case kind of
      KParents \<Rightarrow> \<exists>ps. read_parents b ps n = Ok b'
    | KPredecessor \<Rightarrow> \<exists>commit origin. is_bare_token commit \<and> origin \<noteq> [] \<and>
        b' = b\<lparr>b_pending := Some \<lparr>pp_line_number = n, pp_commit = commit, pp_origin = origin\<rparr>\<rparr>
    | KPastManifest \<Rightarrow> \<exists>commit hashes. is_bare_token commit \<and> hashes_ok hashes \<and>
        read_past_manifest b \<lparr>bg_commit = commit, predecessor_origin = None, manifest_hashes = hashes,
          bg_tokens = []\<rparr> n = Ok b'
    | KPastToken \<Rightarrow> \<exists>commit spec site hashes. spec_ok spec \<and> is_bare_token site \<and> hashes_ok hashes \<and>
        read_past_token b \<lparr>tr_commit = commit, tr_token = \<lparr>pt_spec = spec, pt_site = site, token_hashes = hashes\<rparr>\<rparr> n
          = Ok b'
    | KEntry \<Rightarrow> \<exists>path mode size_value hashes. path \<noteq> [] \<and> size_value < 2 ^ 64 \<and> hashes_ok hashes \<and>
        read_entry b \<lparr>entry_path = path, entry_mode = mode, entry_size = size_value, content_hashes = hashes\<rparr> n
          = Ok b'"
  using assms decode_path_not_Nil
  by (cases kind)
    (auto simp: read_kind_def Let_def result_simps bare_field_Some payload_hashes_try_from_Ok
      anchor_spec_try_from_Ok file_mode_try_from_Ok entry_size_from_Some split: list.splits if_splits)

lemma paths_step_snoc:
  "paths_step (es @ [e]) \<longleftrightarrow> paths_step es \<and> (es \<noteq> [] \<longrightarrow> entry_path (last es) \<noteq> entry_path e)"
  by (auto simp: paths_step_def successively_append_iff)

lemma group_key_update [simp]:
  "group_key (g\<lparr>predecessor_origin := o'\<rparr>) = group_key g" "group_key (g\<lparr>bg_tokens := ts\<rparr>) = group_key g"
  by (simp_all add: group_key_def)

lemma group_key_make [simp]:
  "group_key \<lparr>bg_commit = c, predecessor_origin = p, manifest_hashes = h, bg_tokens = ts\<rparr> = sha256 h"
  by (simp add: group_key_def)

lemma read_past_token_ok:
  assumes inv: "builder_ok b" and t: "token_ok (tr_token r)" and step: "read_past_token b r n = Ok b'"
    and sec: "b_section b = SGroup"
  shows "builder_ok b'"
proof -
  from step have ne: "b_groups b \<noteq> []" by (simp add: read_past_token_Ok)
  define gs g where "gs = butlast (b_groups b)" and "g = last (b_groups b)"
  with ne have gs: "b_groups b = gs @ [g]" by simp
  with step have b': "b' = b\<lparr>b_groups := gs @ [g\<lparr>bg_tokens := bg_tokens g @ [tr_token r]\<rparr>]\<rparr>"
    and new: "token_key (tr_token r) \<notin> token_key ` set (bg_tokens g)"
    by (simp_all add: read_past_token_Ok)
  from inv t new sec show ?thesis
    unfolding b' builder_ok_def
    by (auto simp: gs fields_ok_def manifest_of_def group_fields_ok_def one_token_per_site_def)
qed

lemma read_record_ok:
  assumes inv: "builder_ok b" and step: "read_record b line n = Ok b'"
  shows "builder_ok b'"
proof -
  from step obtain kind sec c where
    kind: "section_after (b_section b) kind = Some sec"
    and c: "read_kind b kind (split_on (CHR '' '') line) n = Ok c" and b': "b' = c\<lparr>b_section := sec\<rparr>"
    by (auto simp: read_record_def Let_def result_simps split: list.splits)
  note shape = read_kind_OkD [OF c]
  note arrows = kind [unfolded section_after_cases SECTION_ARROWS_def]
  show ?thesis
  proof (cases kind)
    case KParents
    with shape arrows inv show ?thesis
      unfolding b' builder_ok_def
      by (auto simp: read_parents_Ok fields_ok_def manifest_of_def)
  next
    case KPredecessor
    with shape arrows inv show ?thesis
      unfolding b' builder_ok_def by (auto simp: fields_ok_def manifest_of_def)
  next
    case KPastManifest
    with shape obtain commit hashes where g: "is_bare_token commit" "hashes_ok hashes"
      "read_past_manifest b \<lparr>bg_commit = commit, predecessor_origin = None, manifest_hashes = hashes,
          bg_tokens = []\<rparr> n = Ok c"
      by auto
    with KPastManifest arrows inv show ?thesis
      unfolding b' builder_ok_def
      by (auto simp: read_past_manifest_Ok fields_ok_def manifest_of_def group_fields_ok_def
          one_token_per_site_def split: option.splits)
  next
    case KPastToken
    with arrows have "b_section b = SGroup" "sec = SGroup" by auto
    moreover from KPastToken shape obtain r where r: "tr_token r = \<lparr>pt_spec = pt_spec (tr_token r),
        pt_site = pt_site (tr_token r), token_hashes = token_hashes (tr_token r)\<rparr> \<and> token_ok (tr_token r)"
      and step: "read_past_token b r n = Ok c"
      unfolding token_ok_def
      by simp (metis past_token.select_convs token_record.select_convs(2))
    ultimately have "builder_ok c" "b_section c = SGroup"
      using read_past_token_ok [OF inv _ step] step by (simp_all add: read_past_token_Ok)
    moreover from \<open>b_section c = SGroup\<close> have same: "c\<lparr>b_section := SGroup\<rparr> = c" by (cases c) simp
    ultimately show ?thesis unfolding b' \<open>sec = SGroup\<close> same by simp
  next
    case KEntry
    with shape obtain path mode size_value hashes where
      "entry_ok \<lparr>entry_path = path, entry_mode = mode, entry_size = size_value, content_hashes = hashes\<rparr>"
      "read_entry b \<lparr>entry_path = path, entry_mode = mode, entry_size = size_value, content_hashes = hashes\<rparr> n = Ok c"
      by (auto simp: entry_ok_def)
    then obtain e where e: "entry_ok e" "read_entry b e n = Ok c" by blast
    from KEntry arrows have sec: "sec = SEntries" "b_section b \<noteq> SGroupAnnounced" by auto
    from e have "c = b\<lparr>b_entries := b_entries b @ [e]\<rparr>" "paths_step (b_entries b) \<Longrightarrow> paths_step (b_entries b @ [e])"
      by (simp_all add: read_entry_Ok paths_step_snoc)
    with inv e sec show ?thesis
      by (simp add: b' builder_ok_def fields_ok_def manifest_of_def)
  qed
qed

lemma read_record_no_panic:
  assumes "builder_ok b"
  shows "read_record b line n \<noteq> Err ExpectPanic"
proof
  assume panic: "read_record b line n = Err ExpectPanic"
  then obtain kind where kind: "section_after (b_section b) kind \<noteq> None"
    and k: "read_kind b kind (split_on (CHR '' '') line) n = Err ExpectPanic"
    by (auto simp: read_record_def Let_def result_simps split: list.splits)
  have parents: "read_parents b ps n \<noteq> Err ExpectPanic" for ps b
  proof -
    have "try_fold (\<lambda>b parent. and_then (ok_or (MalformedRecord n) (bare_field parent))
      (\<lambda>p. Ok (b\<lparr>b_parents := b_parents b @ [p]\<rparr>))) b ps \<noteq> Err ExpectPanic"
      by (induction ps arbitrary: b) (auto simp: result_simps)
    then show ?thesis by (simp add: read_parents_def)
  qed
  show False
  proof (cases kind)
    case KPastToken
    with kind have "b_section b = SGroup"
      by (auto simp: section_after_cases SECTION_ARROWS_def)
    with assms have "b_groups b \<noteq> []" by (simp add: builder_ok_def)
    with KPastToken k show False
      by (auto simp: read_kind_def Let_def result_simps read_past_token_def split: list.splits if_splits)
  qed (use k parents in \<open>auto simp: read_kind_def Let_def result_simps read_past_manifest_def read_entry_def
      split: list.splits if_splits option.splits\<close>)
qed

interpretation reader: fallible_loop read_numbered builder_ok
  by unfold_locales (auto simp: read_numbered_def intro: read_record_ok)

lemma empty_builder_ok: "builder_ok empty_builder"
  by (simp add: builder_ok_def empty_builder_def fields_ok_def manifest_of_def paths_step_def)

end
