(* ===== verification/Manifest_Canonical.thy ===== *)
theory Manifest_Canonical
  imports Manifest_Parse "HOL-Library.Multiset"
begin

text \<open>
  What the reader of \<open>parse.rs\<close> accepts: the lines of a manifest are read back field by field, so
  the accepted texts are exactly the serialisations of canonical manifests.
\<close>

section \<open>Reading the lines of a manifest back\<close>

lemma field_decoders [simp]:
  "file_mode_try_from (file_mode_str mode) = Ok mode"
  "n < 2 ^ 64 \<Longrightarrow> entry_size_from (decimal n) = Some n"
  "spec_ok spec \<Longrightarrow> anchor_spec_try_from (spec_label spec) = Ok spec"
  "hashes_ok h \<Longrightarrow> payload_hashes_try_from (hash_fields_of h) = Ok h"
  "bs \<noteq> [] \<Longrightarrow> decode_path (encode_path table bs) = Some bs"
  "is_bare_token s \<Longrightarrow> bare_field s = Some s"
  by (simp_all add: file_mode_try_from_Ok entry_size_from_Some anchor_spec_try_from_Ok
      payload_hashes_try_from_Ok path_encoding.dec_enc bare_field_def del: One_nat_def)

lemma read_record_spaced:
  assumes "separator_free (name # ws)" and "record_kind_of name = Some kind"
  shows "read_record b (spaced (name # ws)) n = Ok b' \<longleftrightarrow>
     (\<exists>sec c. section_after (b_section b) kind = Some sec \<and> read_kind b kind (name # ws) n = Ok c \<and>
        b' = c\<lparr>b_section := sec\<rparr>)"
  using assms(2) by (auto simp: read_record_def split_spaced [OF assms(1)] result_simps)

lemma read_entry_line:
  assumes "ascii_table table" and "entry_ok e"
  shows "read_record b (entry_line table e) n = Ok b' \<longleftrightarrow>
    b_section b \<noteq> SGroupAnnounced \<and> (b_entries b \<noteq> [] \<longrightarrow> entry_path (last (b_entries b)) \<noteq> entry_path e) \<and>
    b' = b\<lparr>b_section := SEntries, b_entries := b_entries b @ [e]\<rparr>"
proof -
  have kind: "record_kind_of ''entry'' = Some KEntry" by (simp add: kind_simps)
  have sec: "section_after s KEntry = Some s' \<longleftrightarrow> s \<noteq> SGroupAnnounced \<and> s' = SEntries" for s s'
    by (cases s; cases s') (simp_all add: section_simps)
  have "read_kind b KEntry (entry_tokens table e) n = read_entry b e n" for b
    using assms(2) by (cases e) (simp add: read_kind_def entry_tokens_def entry_ok_def)
  then show ?thesis
    unfolding entry_line_tokens entry_tokens_def append_Cons
      read_record_spaced [OF separator_free_tokens(1) [OF assms(1), of e, unfolded entry_tokens_def append_Cons] kind]
    by (auto simp: sec read_entry_Ok)
qed

lemma read_token_line:
  assumes "token_ok t" and "is_bare_token commit" and "b_section b = SGroup" and "b_groups b = gs @ [g]"
    and "commit = bg_commit g"
  shows "read_record b (spaced (past_token_tokens commit t)) n = Ok b' \<longleftrightarrow>
    token_key t \<notin> token_key ` set (bg_tokens g) \<and>
    b' = b\<lparr>b_groups := gs @ [g\<lparr>bg_tokens := bg_tokens g @ [t]\<rparr>]\<rparr>"
proof -
  have kind: "record_kind_of ''past-token'' = Some KPastToken" by (simp add: kind_simps)
  have sec: "section_after SGroup KPastToken = Some s' \<longleftrightarrow> s' = SGroup" for s'
    by (cases s') (simp_all add: section_simps)
  have "is_bare_token (spec_label (pt_spec t))"
    using assms(1) by (cases "pt_spec t") (auto simp: token_ok_def is_bare_token_def is_ascii_graphic_def)
  then have free: "separator_free (past_token_tokens commit t)"
    using assms(1,2) separator_free_tokens(4) by (simp add: token_ok_def)
  have "read_kind b KPastToken (past_token_tokens commit t) n = read_past_token b \<lparr>tr_commit = commit, tr_token = t\<rparr> n"
    using assms(1,2) by (cases t) (simp add: read_kind_def past_token_tokens_def token_ok_def)
  moreover have "b\<lparr>b_groups := x\<rparr> = b\<lparr>b_groups := x, b_section := SGroup\<rparr>" for x
    using assms(3) by (cases b) simp
  ultimately show ?thesis
    using assms(3-5)
    unfolding past_token_tokens_def append_Cons
      read_record_spaced [OF free [unfolded past_token_tokens_def append_Cons] kind]
    by (auto simp: sec read_past_token_Ok)
qed

lemma read_predecessor_line:
  assumes "ascii_table table" and "is_bare_token commit" and "origin \<noteq> []"
  shows "read_record b (spaced (predecessor_tokens table commit origin)) n = Ok b' \<longleftrightarrow>
    b_section b \<in> {SStart, SParents, SGroup} \<and>
    b' = b\<lparr>b_section := SGroupAnnounced,
      b_pending := Some \<lparr>pp_line_number = n, pp_commit = commit, pp_origin = origin\<rparr>\<rparr>"
proof -
  have kind: "record_kind_of ''predecessor'' = Some KPredecessor" by (simp add: kind_simps)
  have sec: "section_after s KPredecessor = Some s' \<longleftrightarrow> s \<in> {SStart, SParents, SGroup} \<and> s' = SGroupAnnounced"
    for s s' by (cases s; cases s') (simp_all add: section_simps)
  have "read_kind b KPredecessor (predecessor_tokens table commit origin) n
    = Ok (b\<lparr>b_pending := Some \<lparr>pp_line_number = n, pp_commit = commit, pp_origin = origin\<rparr>\<rparr>)"
    using assms(2,3) by (simp add: read_kind_def predecessor_tokens_def)
  then show ?thesis
    unfolding predecessor_tokens_def
      read_record_spaced [OF separator_free_tokens(2) [OF assms(1,2), of origin, unfolded predecessor_tokens_def] kind]
    by (auto simp: sec)
qed

lemma read_past_manifest_line:
  assumes "is_bare_token (bg_commit g)" and "hashes_ok (manifest_hashes g)"
  shows "read_record b (spaced (past_manifest_tokens g)) n = Ok b' \<longleftrightarrow>
    b_section b \<noteq> SEntries \<and>
    (\<exists>c. read_past_manifest b (g\<lparr>predecessor_origin := None, bg_tokens := []\<rparr>) n = Ok c \<and> b' = c\<lparr>b_section := SGroup\<rparr>)"
proof -
  have kind: "record_kind_of ''past-manifest'' = Some KPastManifest" by (simp add: kind_simps)
  have sec: "section_after s KPastManifest = Some s' \<longleftrightarrow> s \<noteq> SEntries \<and> s' = SGroup" for s s'
    by (cases s; cases s') (simp_all add: section_simps)
  have "read_kind b KPastManifest (past_manifest_tokens g) n
    = read_past_manifest b (g\<lparr>predecessor_origin := None, bg_tokens := []\<rparr>) n"
    using assms by (cases g) (simp add: read_kind_def past_manifest_tokens_def)
  then show ?thesis
    unfolding past_manifest_tokens_def append_Cons
      read_record_spaced [OF separator_free_tokens(3) [OF assms(1), unfolded past_manifest_tokens_def append_Cons] kind]
    by (auto simp: sec)
qed

lemma read_parents_line:
  assumes "ps \<noteq> []" and "list_all is_bare_token ps"
  shows "read_record b (spaced (''parents'' # ''--'' # ps)) n = Ok b' \<longleftrightarrow>
    b_section b = SStart \<and> b' = b\<lparr>b_section := SParents, b_parents := b_parents b @ ps\<rparr>"
proof -
  have kind: "record_kind_of ''parents'' = Some KParents" by (simp add: kind_simps)
  have sec: "section_after s KParents = Some s' \<longleftrightarrow> s = SStart \<and> s' = SParents" for s s'
    by (cases s; cases s') (simp_all add: section_simps)
  have "read_kind b KParents (''parents'' # ''--'' # ps) n = read_parents b ps n"
    by (simp add: read_kind_def)
  with assms show ?thesis
    unfolding read_record_spaced [OF separator_free_tokens(5) [OF assms(2)] kind]
    by (auto simp: sec read_parents_Ok)
qed

lemma enumerate_append [simp]:
  "List.enumerate n (xs @ ys) = List.enumerate n xs @ List.enumerate (n + length xs) ys"
  by (induction xs arbitrary: n) simp_all

lemma read_entry_lines:
  assumes "ascii_table table"
  shows "list_all entry_ok es \<Longrightarrow> b_section b \<noteq> SGroupAnnounced \<Longrightarrow> paths_step (b_entries b) \<Longrightarrow>
    try_fold read_numbered b (List.enumerate n (map (entry_line table) es)) = Ok b' \<longleftrightarrow>
      paths_step (b_entries b @ es) \<and>
      b' = b\<lparr>b_section := (if es = [] then b_section b else SEntries), b_entries := b_entries b @ es\<rparr>"
proof (induction es arbitrary: b n)
  case Nil
  then show ?case by (cases b) auto
next
  case (Cons e es)
  let ?c = "b\<lparr>b_section := SEntries, b_entries := b_entries b @ [e]\<rparr>"
  have step: "read_numbered b (n, entry_line table e) = Ok c \<longleftrightarrow> paths_step (b_entries b @ [e]) \<and> c = ?c" for c
    using Cons.prems read_entry_line [OF assms, of e b]
    by (auto simp: read_numbered_def paths_step_snoc)
  have weaker: "paths_step (b_entries b @ e # es) \<Longrightarrow> paths_step (b_entries b @ [e])"
    by (auto simp: paths_step_def successively_append_iff)
  show ?case
  proof (cases "paths_step (b_entries b @ [e])")
    case True
    with Cons.prems Cons.IH [of ?c "Suc n"] step show ?thesis
      by (simp add: result_simps)
  next
    case False
    with step weaker show ?thesis by (auto simp: result_simps)
  qed
qed

lemma read_token_lines:
  assumes "is_bare_token (bg_commit g)"
  shows "list_all token_ok ts \<Longrightarrow> b_section b = SGroup \<Longrightarrow>
    b_groups b = gs @ [g\<lparr>bg_tokens := ts0\<rparr>] \<Longrightarrow> distinct (map token_key ts0) \<Longrightarrow>
    try_fold read_numbered b (List.enumerate n (map (\<lambda>t. spaced (past_token_tokens (bg_commit g) t)) ts)) = Ok b' \<longleftrightarrow>
      distinct (map token_key (ts0 @ ts)) \<and> b' = b\<lparr>b_groups := gs @ [g\<lparr>bg_tokens := ts0 @ ts\<rparr>]\<rparr>"
proof (induction ts arbitrary: b n ts0)
  case Nil
  then show ?case by (cases b) auto
next
  case (Cons t ts)
  let ?c = "b\<lparr>b_groups := gs @ [g\<lparr>bg_tokens := ts0 @ [t]\<rparr>]\<rparr>"
  have step: "read_numbered b (n, spaced (past_token_tokens (bg_commit g) t)) = Ok c \<longleftrightarrow>
      token_key t \<notin> token_key ` set ts0 \<and> c = ?c" for c
    using read_token_line [OF _ assms Cons.prems(2,3), of t "n + 2" c] Cons.prems(1)
    by (simp add: read_numbered_def)
  show ?case
  proof (cases "token_key t \<in> token_key ` set ts0")
    case True
    with step show ?thesis by (auto simp: result_simps)
  next
    case False
    with Cons.prems Cons.IH [of ?c "ts0 @ [t]" "Suc n"] step show ?thesis
      by (simp add: result_simps)
  qed
qed

lemma read_group_head:
  assumes "ascii_table table" and g: "group_fields_ok g" and b: "b_pending b = None" "b_section b \<in> {SStart, SParents, SGroup}"
  shows "\<exists>k. \<forall>c. (try_fold read_numbered b (List.enumerate n (take k (group_lines table g))) = Ok c \<longleftrightarrow>
      group_key g \<notin> group_key ` set (b_groups b) \<and>
      c = b\<lparr>b_section := SGroup, b_groups := b_groups b @ [g\<lparr>bg_tokens := []\<rparr>]\<rparr>) \<and>
    drop k (group_lines table g) =
      map (\<lambda>t. spaced (past_token_tokens (bg_commit g) t)) (ordered_tokens (bg_tokens g)) \<and>
    k \<le> length (group_lines table g)"
proof -
  have bare: "is_bare_token (bg_commit g)" and hashes: "hashes_ok (manifest_hashes g)"
    using g by (simp_all add: group_fields_ok_def)
  have pend: "b\<lparr>b_pending := None\<rparr> = b" using b(1) by (cases b) simp
  show ?thesis
  proof (cases "predecessor_origin g")
    case None
    then have same: "g\<lparr>predecessor_origin := None, bg_tokens := []\<rparr> = g\<lparr>bg_tokens := []\<rparr>" by (cases g) simp
    have "try_fold read_numbered b (List.enumerate n (take 1 (group_lines table g))) = Ok c \<longleftrightarrow>
        group_key g \<notin> group_key ` set (b_groups b) \<and>
        c = b\<lparr>b_section := SGroup, b_groups := b_groups b @ [g\<lparr>bg_tokens := []\<rparr>]\<rparr>" for c
      using None b read_past_manifest_line [OF bare hashes, of b "n + 2"]
      unfolding same
      by (auto simp: group_lines_def read_numbered_def result_simps read_past_manifest_Ok)
    with None show ?thesis by (intro exI [of _ 1]) (simp add: group_lines_def)
  next
    case (Some origin)
    then have origin: "origin \<noteq> []" using g by (auto simp: group_fields_ok_def)
    have same: "g\<lparr>predecessor_origin := Some origin, bg_tokens := []\<rparr> = g\<lparr>bg_tokens := []\<rparr>"
      using Some by (cases g) simp
    define b1 where "b1 = b\<lparr>b_section := SGroupAnnounced,
      b_pending := Some \<lparr>pp_line_number = n + 2, pp_commit = bg_commit g, pp_origin = origin\<rparr>\<rparr>"
    have first: "read_numbered b (n, spaced (predecessor_tokens table (bg_commit g) origin)) = Ok c \<longleftrightarrow> c = b1" for c
      using read_predecessor_line [OF assms(1) bare origin, of b "n + 2" c] b(2) by (simp add: read_numbered_def b1_def)
    have second: "read_numbered b1 (Suc n, spaced (past_manifest_tokens g)) = Ok c \<longleftrightarrow>
        group_key g \<notin> group_key ` set (b_groups b) \<and>
        c = b\<lparr>b_section := SGroup, b_groups := b_groups b @ [g\<lparr>bg_tokens := []\<rparr>]\<rparr>" for c
    proof -
      obtain sec ps gs es where b_eq:
        "b = \<lparr>b_section = sec, b_parents = ps, b_pending = None, b_groups = gs, b_entries = es\<rparr>"
        using b(1) by (cases b) simp
      obtain commit h ts where g_eq:
        "g = \<lparr>bg_commit = commit, predecessor_origin = Some origin, manifest_hashes = h, bg_tokens = ts\<rparr>"
        using Some by (cases g) simp
      have "read_numbered b1 (Suc n, spaced (past_manifest_tokens g)) = Ok c \<longleftrightarrow> b_section b1 \<noteq> SEntries \<and>
          (\<exists>c'. read_past_manifest b1 (g\<lparr>predecessor_origin := None, bg_tokens := []\<rparr>) (Suc n + 2) = Ok c' \<and>
            c = c'\<lparr>b_section := SGroup\<rparr>)"
        using read_past_manifest_line [OF bare hashes, of b1 "Suc n + 2" c] by (simp add: read_numbered_def)
      then show ?thesis
        unfolding read_past_manifest_Ok by (simp add: b_eq g_eq b1_def)
    qed
    have "try_fold read_numbered b (List.enumerate n (take 2 (group_lines table g))) = Ok c \<longleftrightarrow>
        group_key g \<notin> group_key ` set (b_groups b) \<and>
        c = b\<lparr>b_section := SGroup, b_groups := b_groups b @ [g\<lparr>bg_tokens := []\<rparr>]\<rparr>" for c
      using Some by (simp add: group_lines_def numeral_2_eq_2 result_simps first second)
    with Some show ?thesis by (intro exI [of _ 2]) (simp add: group_lines_def numeral_2_eq_2)
  qed
qed

lemma read_group_lines:
  assumes "ascii_table table" and g: "group_fields_ok g" and b: "b_pending b = None" "b_section b \<in> {SStart, SParents, SGroup}"
    and sorted: "ordered_tokens (bg_tokens g) = bg_tokens g"
  shows "try_fold read_numbered b (List.enumerate n (group_lines table g)) = Ok b' \<longleftrightarrow>
    group_key g \<notin> group_key ` set (b_groups b) \<and> one_token_per_site g \<and>
    b' = b\<lparr>b_section := SGroup, b_groups := b_groups b @ [g]\<rparr>"
proof -
  obtain k where head: "\<And>c. try_fold read_numbered b (List.enumerate n (take k (group_lines table g))) = Ok c \<longleftrightarrow>
      group_key g \<notin> group_key ` set (b_groups b) \<and>
      c = b\<lparr>b_section := SGroup, b_groups := b_groups b @ [g\<lparr>bg_tokens := []\<rparr>]\<rparr>"
    and rest: "drop k (group_lines table g) =
      map (\<lambda>t. spaced (past_token_tokens (bg_commit g) t)) (bg_tokens g)"
    and k: "k \<le> length (group_lines table g)"
    using read_group_head [OF assms(1-4), of n] sorted by (metis (no_types, lifting))
  let ?c = "b\<lparr>b_section := SGroup, b_groups := b_groups b @ [g\<lparr>bg_tokens := []\<rparr>]\<rparr>"
  have tokens: "try_fold read_numbered ?c (List.enumerate (n + k) (drop k (group_lines table g))) = Ok b' \<longleftrightarrow>
      one_token_per_site g \<and> b' = b\<lparr>b_section := SGroup, b_groups := b_groups b @ [g]\<rparr>"
    using read_token_lines [of g "bg_tokens g" ?c "b_groups b" "[]" "n + k" b'] g
    unfolding rest by (simp add: group_fields_ok_def one_token_per_site_def)
  have "List.enumerate n (group_lines table g) = List.enumerate n (take k (group_lines table g))
      @ List.enumerate (n + k) (drop k (group_lines table g))"
    using k enumerate_append [of n "take k (group_lines table g)" "drop k (group_lines table g)"] by simp
  then show ?thesis
    by (auto simp: try_fold_append result_simps head tokens)
qed

lemma read_groups_lines:
  assumes "ascii_table table"
  shows "list_all group_fields_ok gs \<Longrightarrow> \<forall>g \<in> set gs. ordered_tokens (bg_tokens g) = bg_tokens g \<Longrightarrow>
    b_pending b = None \<Longrightarrow> b_section b \<in> {SStart, SParents, SGroup} \<Longrightarrow> distinct (map group_key (b_groups b)) \<Longrightarrow>
    try_fold read_numbered b (List.enumerate n (concat (map (group_lines table) gs))) = Ok b' \<longleftrightarrow>
      distinct (map group_key (b_groups b @ gs)) \<and> list_all one_token_per_site gs \<and>
      b' = b\<lparr>b_section := (if gs = [] then b_section b else SGroup), b_groups := b_groups b @ gs\<rparr>"
proof (induction gs arbitrary: b n)
  case Nil
  then show ?case by (cases b) auto
next
  case (Cons g gs)
  let ?c = "b\<lparr>b_section := SGroup, b_groups := b_groups b @ [g]\<rparr>"
  have step: "try_fold read_numbered b (List.enumerate n (group_lines table g)) = Ok c \<longleftrightarrow>
    group_key g \<notin> group_key ` set (b_groups b) \<and> one_token_per_site g \<and> c = ?c" for c
    using Cons.prems by (intro read_group_lines [OF assms]) simp_all
  show ?case
  proof (cases "group_key g \<in> group_key ` set (b_groups b)")
    case True
    with step show ?thesis by (auto simp: result_simps try_fold_append)
  next
    case False
    with Cons.prems Cons.IH [of ?c "n + length (group_lines table g)"] step show ?thesis
      by (auto simp: result_simps try_fold_append)
  qed
qed

section \<open>Canonical manifests\<close>

definition canonical_form :: "ranges \<Rightarrow> manifest \<Rightarrow> manifest" where
  "canonical_form table m =
     m\<lparr>binding_groups := map (\<lambda>g. g\<lparr>bg_tokens := ordered_tokens (bg_tokens g)\<rparr>) (binding_groups m),
       entries := sort_key (entry_line table) (entries m)\<rparr>"

definition lines_sorted :: "ranges \<Rightarrow> manifest \<Rightarrow> bool" where
  "lines_sorted table m \<longleftrightarrow> (\<forall>g \<in> set (binding_groups m). sorted (map token_key (bg_tokens g)))
     \<and> sorted (map (entry_line table) (entries m))"

definition covers_once :: "manifest \<Rightarrow> bool" where
  "covers_once m \<longleftrightarrow> distinct (map group_key (binding_groups m)) \<and> list_all one_token_per_site (binding_groups m)
     \<and> distinct (map entry_path (entries m))"

definition canonical_manifest :: "ranges \<Rightarrow> manifest \<Rightarrow> bool" where
  "canonical_manifest table m \<longleftrightarrow> fields_ok m \<and> lines_sorted table m \<and> covers_once m"

lemma ordered_tokens_sorted: "sorted (map token_key ts) \<longleftrightarrow> ordered_tokens ts = ts"
  unfolding ordered_tokens_def by (metis sort_key_id_if_sorted sorted_sort_key)

lemma sort_map_sort_key: "sort (map f xs) = map f (sort_key f xs)" for f :: "'a \<Rightarrow> 'k :: linorder"
  by (intro properties_for_sort) simp_all

lemma canonical_form_id: "lines_sorted table m \<longleftrightarrow> canonical_form table m = m"
proof
  assume "lines_sorted table m"
  then have "map (\<lambda>g. g\<lparr>bg_tokens := ordered_tokens (bg_tokens g)\<rparr>) (binding_groups m) = binding_groups m"
    and "sort_key (entry_line table) (entries m) = entries m"
    by (auto simp: lines_sorted_def ordered_tokens_sorted sort_key_id_if_sorted intro!: map_idI)
  then show "canonical_form table m = m"
    by (cases m) (simp add: canonical_form_def)
next
  assume c: "canonical_form table m = m"
  have "lines_sorted table (canonical_form table m)"
    by (auto simp: lines_sorted_def canonical_form_def ordered_tokens_def)
  with c show "lines_sorted table m" by simp
qed

lemma record_lines_canonical_form: "record_lines table (canonical_form table m) = record_lines table m"
proof -
  have "group_lines table (g\<lparr>bg_tokens := ordered_tokens (bg_tokens g)\<rparr>) = group_lines table g" for g
    by (simp add: group_lines_def past_manifest_tokens_def ordered_tokens_def sort_key_id_if_sorted
        split: option.split)
  then show ?thesis
    by (simp add: record_lines_def canonical_form_def o_def sort_map_sort_key sort_key_id_if_sorted)
qed

lemma fields_ok_canonical_form: "fields_ok m \<Longrightarrow> fields_ok (canonical_form table m)"
  by (auto simp: fields_ok_def canonical_form_def list_all_iff group_fields_ok_def)

lemma fields_ok_printable:
  assumes "fields_ok m"
  shows "printable m"
proof -
  have "is_bare_token (spec_label s)" if "spec_ok s" for s
    using that by (cases s) (auto simp: is_bare_token_def is_ascii_graphic_def)
  with assms show ?thesis
    by (auto simp: fields_ok_def printable_def printable_group_def list_all_iff group_fields_ok_def token_ok_def)
qed

lemma read_record_lines:
  assumes table: "ascii_table table" and f: "fields_ok m" and sorted: "lines_sorted table m"
  shows "try_fold read_numbered empty_builder (List.enumerate 0 (record_lines table m)) = Ok b \<longleftrightarrow>
    distinct (map group_key (binding_groups m)) \<and> list_all one_token_per_site (binding_groups m) \<and>
    paths_step (entries m) \<and>
    b = \<lparr>b_section = (if entries m \<noteq> [] then SEntries else if binding_groups m \<noteq> [] then SGroup
          else if parents m \<noteq> [] then SParents else SStart),
      b_parents = parents m, b_pending = None, b_groups = binding_groups m, b_entries = entries m\<rparr>"
proof -
  define b1 where "b1 = \<lparr>b_section = (if parents m = [] then SStart else SParents), b_parents = parents m,
    b_pending = None, b_groups = [], b_entries = []\<rparr>"
  define b2 where "b2 = b1\<lparr>b_section := (if binding_groups m = [] then b_section b1 else SGroup),
    b_groups := binding_groups m\<rparr>"
  define b3 where "b3 = b2\<lparr>b_section := (if entries m = [] then b_section b2 else SEntries), b_entries := entries m\<rparr>"
  define n1 where "n1 = length (parents_lines (parents m))"
  define n2 where "n2 = n1 + length (concat (map (group_lines table) (binding_groups m)))"
  have lines: "record_lines table m = parents_lines (parents m) @ concat (map (group_lines table) (binding_groups m))
      @ map (entry_line table) (entries m)"
    using sorted by (simp add: record_lines_def lines_sorted_def sort_map_sort_key sort_key_id_if_sorted)
  have p: "try_fold read_numbered empty_builder (List.enumerate 0 (parents_lines (parents m))) = Ok c \<longleftrightarrow> c = b1" for c
    using f read_parents_line [of "parents m" empty_builder 2]
    by (auto simp: parents_lines_def read_numbered_def result_simps fields_ok_def numeral_2_eq_2 empty_builder_def b1_def)
  have g: "try_fold read_numbered b1 (List.enumerate n1 (concat (map (group_lines table) (binding_groups m)))) = Ok c
      \<longleftrightarrow> distinct (map group_key (binding_groups m)) \<and> list_all one_token_per_site (binding_groups m) \<and> c = b2" for c
    using read_groups_lines [OF table, of "binding_groups m" b1 n1 c] f sorted
    by (simp add: fields_ok_def lines_sorted_def ordered_tokens_sorted b1_def b2_def)
  have e: "try_fold read_numbered b2 (List.enumerate n2 (map (entry_line table) (entries m))) = Ok c \<longleftrightarrow>
      paths_step (entries m) \<and> c = b3" for c
    using read_entry_lines [OF table, of "entries m" b2 n2 c] f
    by (simp add: fields_ok_def paths_step_def b1_def b2_def b3_def)
  have "try_fold read_numbered empty_builder (List.enumerate 0 (record_lines table m)) = Ok b \<longleftrightarrow>
    distinct (map group_key (binding_groups m)) \<and> list_all one_token_per_site (binding_groups m) \<and>
    paths_step (entries m) \<and> b = b3"
    unfolding lines enumerate_append try_fold_append add_0 n1_def [symmetric] n2_def [symmetric]
    by (auto simp: result_simps p g e)
  then show ?thesis
    by (simp add: b1_def b2_def b3_def)
qed

section \<open>Entries of one path are neighbours\<close>

lemma between_prefix:
  fixes p :: "'a :: linorder list"
  shows "p @ x \<le> z \<Longrightarrow> z \<le> p @ y \<Longrightarrow> \<exists>w. z = p @ w"
proof (induction p arbitrary: z)
  case (Cons a p)
  then show ?case by (cases z) (auto dest: order.antisym)
qed simp

lemma same_field:
  "c \<notin> set p \<Longrightarrow> c \<notin> set q \<Longrightarrow> p @ c # x = q @ c # y \<Longrightarrow> p = q"
proof (induction p arbitrary: q)
  case Nil
  then show ?case by (cases q) auto
next
  case (Cons a p)
  then show ?case by (cases q) auto
qed

lemma entry_line_path:
  "\<exists>r. entry_line table e = (''entry --path '' @ encode_path table (entry_path e) @ '' '') @ r"
  by (simp add: entry_line_def)

lemma sorted_lines_distinct_paths:
  assumes table: "ascii_table table" and ok: "list_all entry_ok es"
    and sorted: "sorted (map (entry_line table) es)" and step: "paths_step es"
  shows "distinct (map entry_path es)"
  unfolding distinct_conv_nth
proof (intro allI impI)
  fix i j
  assume "i < length (map entry_path es)" "j < length (map entry_path es)" "i \<noteq> j"
  moreover have False
    if ij: "i < j" "j < length es" and same: "entry_path (es ! i) = entry_path (es ! j)" for i j
  proof -
    let ?p = "''entry --path '' @ encode_path table (entry_path (es ! i)) @ '' ''"
    let ?l = "\<lambda>k. entry_line table (es ! k)"
    obtain x where x: "?l i = ?p @ x"
      using entry_line_path [of table "es ! i"] by blast
    obtain y where "?l j = (''entry --path '' @ encode_path table (entry_path (es ! j)) @ '' '') @ y"
      using entry_line_path [of table "es ! j"] by blast
    then have y: "?l j = ?p @ y" by (simp only: same)
    have "?l i \<le> ?l (Suc i)" "?l (Suc i) \<le> ?l j"
      using sorted_nth_mono [OF sorted, of i "Suc i"] sorted_nth_mono [OF sorted, of "Suc i" j] ij by simp_all
    then obtain w where w: "?l (Suc i) = ?p @ w"
      using between_prefix [of ?p x "?l (Suc i)" y] unfolding x y by blast
    obtain r where r: "?l (Suc i) = (''entry --path '' @ encode_path table (entry_path (es ! Suc i)) @ '' '') @ r"
      using entry_line_path [of table "es ! Suc i"] by blast
    have "encode_path table (entry_path (es ! i)) = encode_path table (entry_path (es ! Suc i))"
      using w r same_field [OF encode_path_no_separator(1) [OF table] encode_path_no_separator(1) [OF table], of _ w _ r]
      by simp
    moreover have "entry_path (es ! i) \<noteq> []" "entry_path (es ! Suc i) \<noteq> []"
      using ok ij by (simp_all add: list_all_iff entry_ok_def)
    ultimately have "entry_path (es ! i) = entry_path (es ! Suc i)"
      by (rule path_encoding.enc_inj [rotated 2])
    with step ij show False
      by (simp add: paths_step_def successively_conv_nth)
  qed
  ultimately show "map entry_path es ! i \<noteq> map entry_path es ! j"
    by (metis length_map linorder_neqE_nat nth_map)
qed

lemma distinct_paths_step: "distinct (map entry_path es) \<Longrightarrow> paths_step es"
proof (induction es)
  case (Cons e es)
  then show ?case by (cases es) (auto simp: paths_step_def)
qed (simp add: paths_step_def)

section \<open>The accepted texts\<close>

lemma text_of_join: "ls \<noteq> [] \<Longrightarrow> text_of ls = join_with [CHR 0x0A] ls @ [CHR 0x0A]"
  by (induction ls rule: induct_list012) simp_all

lemma strip_newline:
  assumes "ls \<noteq> []" and "\<forall>l \<in> set ls. CHR 0x0A \<notin> set l"
  shows "strip_suffix [CHR 0x0A] (text_of ls) = Some (join_with [CHR 0x0A] ls)"
    and "split_on (CHR 0x0A) (join_with [CHR 0x0A] ls) = ls"
  using assms by (simp_all add: text_of_join strip_suffix_iff split_join)

lemma parse_text_of:
  assumes table: "ascii_table table" and p: "printable m"
  shows "parse_manifest table (text_of (''tydence-manifest/v1'' # record_lines table m)) =
    and_then (try_fold read_numbered empty_builder (List.enumerate 0 (record_lines table m))) (\<lambda>b.
    and_then (finish b) (\<lambda>m'.
    and_then (map_err (\<lambda>_. NonCanonicalSerialization) (serialize table m')) (\<lambda>canonical_text.
    if canonical_text = text_of (''tydence-manifest/v1'' # record_lines table m) then Ok m'
    else Err NonCanonicalSerialization)))"
proof -
  have "\<forall>l \<in> set (''tydence-manifest/v1'' # record_lines table m). CHR 0x0A \<notin> set l"
    using record_lines_no_newline [OF table p] by auto
  from strip_newline [OF _ this] show ?thesis
    by (simp add: parse_manifest_def del: text_of_simps(2))
qed

lemma accepts_canonical:
  assumes "ascii_table table" and "canonical_manifest table m"
  shows "parse_manifest table (text_of (''tydence-manifest/v1'' # record_lines table m)) = Ok m"
proof -
  have c: "fields_ok m" "lines_sorted table m" "printable m" "covers_once m"
    using assms(2) fields_ok_printable by (auto simp: canonical_manifest_def)
  then have "serialize table m = Ok (text_of (''tydence-manifest/v1'' # record_lines table m))"
    by (simp add: serialize_Ok)
  moreover obtain b where "try_fold read_numbered empty_builder (List.enumerate 0 (record_lines table m)) = Ok b"
      "finish b = Ok m"
    using read_record_lines [OF assms(1) c(1,2)] c(4) distinct_paths_step
    by (auto simp: finish_def covers_once_def)
  ultimately show ?thesis
    unfolding parse_text_of [OF assms(1) c(3)] by simp
qed

lemma accepted_is_canonical:
  assumes table: "ascii_table table" and parsed: "parse_manifest table text = Ok m"
  shows "canonical_manifest table m" "serialize table m = Ok text"
proof -
  from parsed obtain b lines where b: "try_fold read_numbered empty_builder (List.enumerate 0 lines) = Ok b"
    and fin: "finish b = Ok m" and ser: "serialize table m = Ok text"
    unfolding parse_manifest_def result_simps
    by (elim exE conjE) (auto simp: result_simps split: list.split_asm if_split_asm)
  show "serialize table m = Ok text" by (rule ser)
  have "builder_ok b" using reader.loop_inv [OF empty_builder_ok b] .
  moreover have m: "m = manifest_of b" "b_pending b = None"
    using fin by (auto simp: finish_def manifest_of_def split: option.splits)
  ultimately have f: "fields_ok m" by (simp add: builder_ok_def)
  let ?c = "canonical_form table m"
  have spelled: "text = text_of (''tydence-manifest/v1'' # record_lines table ?c)"
    using ser by (simp add: serialize_Ok record_lines_canonical_form)
  have c: "fields_ok ?c" "lines_sorted table ?c" "printable ?c"
    using fields_ok_canonical_form [OF f] fields_ok_printable
    by (auto simp: lines_sorted_def canonical_form_def ordered_tokens_def)
  from parsed [unfolded spelled parse_text_of [OF table c(3)]] obtain b' where
    b': "try_fold read_numbered empty_builder (List.enumerate 0 (record_lines table ?c)) = Ok b'" "finish b' = Ok m"
    by (auto simp: result_simps split: if_split_asm)
  from b'(1) [unfolded read_record_lines [OF table c(1,2)]] have
    once: "distinct (map group_key (binding_groups ?c))" "list_all one_token_per_site (binding_groups ?c)"
      "paths_step (entries ?c)" and "manifest_of b' = ?c"
    by (auto simp: manifest_of_def)
  with b'(2) have "?c = m"
    by (auto simp: finish_def manifest_of_def split: option.splits)
  with once c f sorted_lines_distinct_paths [OF table] show "canonical_manifest table m"
    by (auto simp: canonical_manifest_def covers_once_def lines_sorted_def fields_ok_def)
qed

section \<open>Properties\<close>

definition sample_hashes :: payload_hashes where
  "sample_hashes = \<lparr>sha256 = replicate 32 (CHR ''a''), sha3_256 = replicate 32 (CHR 0x00)\<rparr>"

definition sample_manifest :: manifest where
  "sample_manifest =
     \<lparr>parents = [''1f'', ''2e''],
      binding_groups =
        [\<lparr>bg_commit = ''1f'', predecessor_origin = Some ''old repo'', manifest_hashes = sample_hashes,
          bg_tokens = [\<lparr>pt_spec = Rfc3161, pt_site = ''example'', token_hashes = sample_hashes\<rparr>]\<rparr>],
      entries = [\<lparr>entry_path = ''a b'', entry_mode = Executable, entry_size = 12, content_hashes = sample_hashes\<rparr>]\<rparr>"

lemma sample_manifest_canonical: "canonical_manifest [(0, 32)] sample_manifest"
  by (simp add: canonical_manifest_def sample_manifest_def sample_hashes_def fields_ok_def group_fields_ok_def
      token_ok_def entry_ok_def hashes_ok_def is_bare_token_def is_ascii_graphic_def lines_sorted_def covers_once_def
      one_token_per_site_def)

text \<open>
  C31: the parser accepts exactly the canonical serialisations: a text is accepted as a manifest iff
  the manifest is canonical (well-formed fields, sorted lines, nothing covered twice) and the text is
  what it serialises to.
\<close>

theorem parse_accepts_exactly_canonical:
  assumes "ascii_table table"
  shows "parse_manifest table manifest_text = Ok m \<longleftrightarrow>
    canonical_manifest table m \<and> serialize table m = Ok manifest_text"
  using accepted_is_canonical [OF assms, of manifest_text m] accepts_canonical [OF assms, of m]
  by (auto simp: serialize_Ok)

theorem parse_accepts_exactly_canonical_witness:
  "\<exists>manifest_text. serialize [(0, 32)] sample_manifest = Ok manifest_text
     \<and> parse_manifest [(0, 32)] manifest_text = Ok sample_manifest"
proof -
  have "serialize [(0, 32)] sample_manifest
      = Ok (text_of (''tydence-manifest/v1'' # record_lines [(0, 32)] sample_manifest))"
    using sample_manifest_canonical fields_ok_printable by (simp add: serialize_Ok canonical_manifest_def)
  with parse_accepts_exactly_canonical [OF ascii_table_example, of _ sample_manifest] sample_manifest_canonical
  show ?thesis by blast
qed

text \<open>An accepted manifest covers nothing twice: its entries have distinct paths (although the reader
  only compares neighbours), its groups bind distinct SHA-256 payloads, a group has one token per site
  and specification, and every size fits in 64 bits.
\<close>

theorem accepted_manifest_covers_once:
  assumes "ascii_table table" and "parse_manifest table manifest_text = Ok m"
  shows "distinct (map entry_path (entries m))
    \<and> distinct (map (\<lambda>g. sha256 (manifest_hashes g)) (binding_groups m))
    \<and> (\<forall>g \<in> set (binding_groups m). distinct (map (\<lambda>t. (spec_label (pt_spec t), pt_site t)) (bg_tokens g)))
    \<and> (\<forall>e \<in> set (entries m). entry_path e \<noteq> [] \<and> entry_size e < 2 ^ 64)"
proof -
  have key: "token_key = (\<lambda>t. (spec_label (pt_spec t), pt_site t))" "group_key = (\<lambda>g. sha256 (manifest_hashes g))"
    by (auto simp: token_key_def group_key_def)
  show ?thesis
    using accepted_is_canonical(1) [OF assms]
    by (auto simp: canonical_manifest_def covers_once_def one_token_per_site_def list_all_iff fields_ok_def
        entry_ok_def key)
qed

theorem accepted_manifest_covers_once_witness:
  "\<exists>manifest_text. parse_manifest [(0, 32)] manifest_text = Ok sample_manifest
     \<and> distinct (map entry_path (entries sample_manifest))"
  using accepted_manifest_covers_once [OF ascii_table_example]
    accepts_canonical [OF ascii_table_example sample_manifest_canonical] by blast

text \<open>Whatever the text, reading a manifest never reaches one of the reader's \<open>expect\<close> panics.
\<close>

theorem parse_manifest_no_panic: "parse_manifest table manifest_text \<noteq> Err ExpectPanic"
proof
  assume panic: "parse_manifest table manifest_text = Err ExpectPanic"
  obtain record_text header lines where "split_on (CHR 0x0A) record_text = header # lines"
    "strip_suffix [CHR 0x0A] manifest_text = Some record_text"
    using panic by (cases "strip_suffix [CHR 0x0A] manifest_text"; cases "split_on (CHR 0x0A) (the (strip_suffix [CHR 0x0A] manifest_text))")
      (simp_all add: parse_manifest_def)
  with panic have "try_fold read_numbered empty_builder (List.enumerate 0 lines) = Err ExpectPanic"
    by (auto simp: parse_manifest_def result_simps finish_def split: if_split_asm option.split_asm)
  from reader.loop_error [OF empty_builder_ok this] obtain b line where
    "builder_ok b" "read_numbered b line = Err ExpectPanic" by blast
  then show False
    using read_record_no_panic by (simp add: read_numbered_def)
qed

definition same_coverage :: "manifest \<Rightarrow> manifest \<Rightarrow> bool" where
  "same_coverage m m' \<longleftrightarrow> parents m = parents m' \<and> mset (entries m) = mset (entries m')
     \<and> list_all2 (\<lambda>g g'. g = g'\<lparr>bg_tokens := bg_tokens g\<rparr> \<and> mset (bg_tokens g) = mset (bg_tokens g')
         \<and> distinct (map token_key (bg_tokens g))) (binding_groups m) (binding_groups m')"

lemma ordered_tokens_mset:
  assumes "mset ts = mset ts'" and "distinct (map token_key ts)"
  shows "ordered_tokens ts = ordered_tokens ts'"
  using assms unfolding ordered_tokens_def by (intro sort_key_eq_sort_key) (simp_all add: distinct_map)

lemma push_group_lines_mset:
  assumes "g = g'\<lparr>bg_tokens := bg_tokens g\<rparr>" "mset (bg_tokens g) = mset (bg_tokens g')"
    "distinct (map token_key (bg_tokens g))"
  shows "push_group_lines table out g = push_group_lines table out g'"
proof -
  obtain ts where g: "g = g'\<lparr>bg_tokens := ts\<rparr>" "ts = bg_tokens g" using assms(1) by blast
  have "ordered_tokens ts = ordered_tokens (bg_tokens g')"
    using ordered_tokens_mset assms(2,3) g(2) by blast
  moreover have "push_token_line (g'\<lparr>bg_tokens := ts\<rparr>) = push_token_line g'"
    by (intro ext) (simp add: push_token_line_def)
  ultimately show ?thesis
    by (simp add: g(1) push_group_lines_def cong: option.case_cong)
qed

text \<open>Serialisation is a function of what is covered, not of the order it was collected in: listing
  the entries, or the tokens of a group that has one per site, in any order writes the same manifest.
\<close>

theorem serialize_order_independent:
  assumes "same_coverage m m'"
  shows "serialize table m = serialize table m'"
proof -
  have groups: "list_all2 (\<lambda>g g'. g = g'\<lparr>bg_tokens := bg_tokens g\<rparr> \<and> mset (bg_tokens g) = mset (bg_tokens g')
      \<and> distinct (map token_key (bg_tokens g))) (binding_groups m) (binding_groups m')"
    using assms by (simp add: same_coverage_def)
  have "try_fold (push_group_lines table) out (binding_groups m) =
      try_fold (push_group_lines table) out (binding_groups m')" for out
    using groups
  proof (induction arbitrary: out rule: list_all2_induct)
    case (Cons g gs g' gs')
    have "push_group_lines table out g = push_group_lines table out g'"
      using Cons.hyps(1) by (elim conjE) (rule push_group_lines_mset)
    with Cons.IH show ?case by (simp only: try_fold.simps)
  qed simp
  moreover have "sort (map (entry_line table) (entries m)) = sort (map (entry_line table) (entries m'))"
    by (rule sort_key_eq_sort_key) (use assms in \<open>simp_all add: same_coverage_def\<close>)
  moreover have "parents m = parents m'"
    using assms by (simp add: same_coverage_def)
  ultimately show ?thesis
    by (simp only: serialize_def)
qed

theorem serialize_order_independent_witness:
  "serialize [(0, 32)]
     (sample_manifest\<lparr>entries := [\<lparr>entry_path = ''b'', entry_mode = Regular, entry_size = 0, content_hashes = sample_hashes\<rparr>,
        \<lparr>entry_path = ''a'', entry_mode = Symlink, entry_size = 1, content_hashes = sample_hashes\<rparr>]\<rparr>) =
   serialize [(0, 32)]
     (sample_manifest\<lparr>entries := [\<lparr>entry_path = ''a'', entry_mode = Symlink, entry_size = 1, content_hashes = sample_hashes\<rparr>,
        \<lparr>entry_path = ''b'', entry_mode = Regular, entry_size = 0, content_hashes = sample_hashes\<rparr>]\<rparr>)"
  by (rule serialize_order_independent) (simp add: same_coverage_def sample_manifest_def)

end
