(* ===== verification/Binding_Order.thy ===== *)
theory Binding_Order
  imports Manifest_Model
begin

text \<open>
  \<open>crates/tydence/src/manifest/order.rs\<close>: the canonical order of binding groups. The reference notion
  is a permutation of the group indices in which every binding group precedes what it binds; the greedy loop
  finds the one whose payload hashes are lexicographically smallest.
\<close>

section \<open>The operation\<close>

record binding_edge =
  edge_binder :: nat
  edge_bound :: nat

datatype order_error = InvalidEdge binding_edge | Cycle

text \<open>\<open>Display\<close>, with the derived \<open>Debug\<close> form of an edge.\<close>

definition binding_edge_debug :: "binding_edge \<Rightarrow> string" where
  "binding_edge_debug edge =
     ''BindingEdge { binder: '' @ decimal (edge_binder edge) @ '', bound: '' @ decimal (edge_bound edge) @ '' }''"

fun order_error_display :: "order_error \<Rightarrow> string" where
  "order_error_display (InvalidEdge edge) =
     ''binding edge '' @ binding_edge_debug edge @ '' does not name two distinct groups''"
| "order_error_display Cycle = ''the binding relation contains a cycle''"

definition names_two_distinct_groups :: "nat \<Rightarrow> binding_edge \<Rightarrow> bool" where
  "names_two_distinct_groups group_count edge =
     (edge_binder edge < group_count \<and> edge_bound edge < group_count \<and> edge_binder edge \<noteq> edge_bound edge)"

fun check_edges :: "nat \<Rightarrow> binding_edge list \<Rightarrow> (order_error, unit) result" where
  "check_edges group_count [] = Ok ()"
| "check_edges group_count (edge # edges) =
     (if \<not> names_two_distinct_groups group_count edge then Err (InvalidEdge edge)
      else check_edges group_count edges)"

definition emittable_slots :: "binding_edge list \<Rightarrow> binding_group option list \<Rightarrow> nat list" where
  "emittable_slots edges group_slots =
     filter (\<lambda>slot_index. list_all (\<lambda>edge. edge_bound edge \<noteq> slot_index \<or> group_slots ! edge_binder edge = None) edges)
       (filter (\<lambda>slot_index. group_slots ! slot_index \<noteq> None) [0..<length group_slots])"

definition slot_key :: "binding_group option list \<Rightarrow> nat \<Rightarrow> bytes" where
  "slot_key group_slots slot_index = sha256 (manifest_hashes (the (group_slots ! slot_index)))"

function order_loop ::
  "binding_edge list \<Rightarrow> binding_group option list \<Rightarrow> binding_group list \<Rightarrow> (order_error, binding_group list) result"
where
  "order_loop edges group_slots ordered =
     (if length ordered < length group_slots then
        (case min_by_key (slot_key group_slots) (emittable_slots edges group_slots) of
           None \<Rightarrow> Err Cycle
         | Some next_index \<Rightarrow>
             order_loop edges (group_slots[next_index := None]) (ordered @ [the (group_slots ! next_index)]))
      else Ok ordered)"
  by pat_completeness auto
termination
  by (relation "measure (\<lambda>(edges, group_slots, ordered). length group_slots - length ordered)") auto

declare order_loop.simps [simp del]

definition order_binding_groups ::
  "binding_group list \<Rightarrow> binding_edge list \<Rightarrow> (order_error, binding_group list) result" where
  "order_binding_groups groups edges =
     and_then (check_edges (length groups) edges) (\<lambda>_. order_loop edges (map Some groups) [])"

section \<open>The reference: orders that respect the edges\<close>

definition edge_relation :: "binding_edge list \<Rightarrow> (nat \<times> nat) set" where
  "edge_relation edges = (\<lambda>edge. (edge_binder edge, edge_bound edge)) ` set edges"

definition available :: "binding_edge list \<Rightarrow> nat \<Rightarrow> nat list \<Rightarrow> nat \<Rightarrow> bool" where
  "available edges n emitted i \<longleftrightarrow>
     i < n \<and> i \<notin> set emitted \<and> (\<forall>b. (b, i) \<in> edge_relation edges \<longrightarrow> b \<in> set emitted)"

fun respects_from :: "binding_edge list \<Rightarrow> nat \<Rightarrow> nat list \<Rightarrow> nat list \<Rightarrow> bool" where
  "respects_from edges n emitted [] = True"
| "respects_from edges n emitted (i # rest) =
     (available edges n emitted i \<and> respects_from edges n (emitted @ [i]) rest)"

fun greedy_from :: "binding_edge list \<Rightarrow> nat \<Rightarrow> (nat \<Rightarrow> 'k :: linorder) \<Rightarrow> nat list \<Rightarrow> nat list \<Rightarrow> bool" where
  "greedy_from edges n key emitted [] = True"
| "greedy_from edges n key emitted (i # rest) =
     (available edges n emitted i \<and> (\<forall>j. available edges n emitted j \<longrightarrow> key i \<le> key j) \<and>
      greedy_from edges n key (emitted @ [i]) rest)"

text \<open>A valid order: every index once, every group before what it binds.\<close>

definition valid_order :: "binding_edge list \<Rightarrow> nat \<Rightarrow> nat list \<Rightarrow> bool" where
  "valid_order edges n order \<longleftrightarrow> distinct order \<and> set order = {..<n} \<and>
     (\<forall>b d. (b, d) \<in> edge_relation edges \<longrightarrow> (\<exists>ys zs. order = ys @ d # zs \<and> b \<in> set ys))"

lemma greedy_respects: "greedy_from edges n key emitted rest \<Longrightarrow> respects_from edges n emitted rest"
  by (induction rest arbitrary: emitted) auto

lemma respects_distinct:
  "respects_from edges n emitted rest \<Longrightarrow> distinct emitted \<Longrightarrow> distinct (emitted @ rest)"
proof (induction rest arbitrary: emitted)
  case (Cons i rest)
  then have "distinct (emitted @ [i])" "respects_from edges n (emitted @ [i]) rest" by (auto simp: available_def)
  with Cons.IH [of "emitted @ [i]"] show ?case by simp
qed simp

lemma respects_bound: "respects_from edges n emitted rest \<Longrightarrow> set rest \<subseteq> {..<n}"
  by (induction rest arbitrary: emitted) (auto simp: available_def)

lemma respects_binder:
  "respects_from edges n emitted rest \<Longrightarrow> rest = ys @ d # zs \<Longrightarrow> (b, d) \<in> edge_relation edges \<Longrightarrow>
     b \<in> set (emitted @ ys)"
proof (induction ys arbitrary: emitted rest)
  case Nil
  then show ?case by (auto simp: available_def)
next
  case (Cons y ys)
  then show ?case using Cons.IH [of "emitted @ [y]" "ys @ d # zs"] by auto
qed

lemma valid_order_split:
  assumes "valid_order edges n order" "order = ys @ d # zs" "(b, d) \<in> edge_relation edges"
  shows "b \<in> set ys"
proof -
  have "\<exists>ys zs. order = ys @ d # zs \<and> b \<in> set ys" and d: "distinct order"
    using assms(1,3) by (simp_all add: valid_order_def)
  then obtain ys' zs' where *: "order = ys' @ d # zs'" "b \<in> set ys'" by blast
  from d have "d \<notin> set ys" "d \<notin> set ys'" unfolding assms(2) using d [unfolded *(1)] by simp_all
  with assms(2) have "ys = ys'"
    using *(1) d by (metis append_Cons_eq_iff distinct.simps(2) distinct_append assms(2))
  with * show ?thesis by simp
qed

lemma valid_order_respects_from:
  "valid_order edges n order \<Longrightarrow> order = emitted @ rest \<Longrightarrow> respects_from edges n emitted rest"
proof (induction rest arbitrary: emitted)
  case (Cons i rest)
  then have "i < n" "i \<notin> set emitted" by (auto simp: valid_order_def)
  moreover have "\<forall>b. (b, i) \<in> edge_relation edges \<longrightarrow> b \<in> set emitted"
    using valid_order_split [OF Cons.prems] by blast
  ultimately show ?case
    using Cons.IH [of "emitted @ [i]"] Cons.prems by (simp add: available_def)
qed simp

lemma valid_order_iff:
  assumes edges: "\<forall>(b, d) \<in> edge_relation edges. d < n"
  shows "valid_order edges n order \<longleftrightarrow> respects_from edges n [] order \<and> length order = n"
proof
  assume v: "valid_order edges n order"
  then have "distinct order" "set order = {..<n}" by (simp_all add: valid_order_def)
  then have "length order = n" by (metis card_lessThan distinct_card)
  with valid_order_respects_from [OF v, of "[]" order] show "respects_from edges n [] order \<and> length order = n"
    by simp
next
  assume r: "respects_from edges n [] order \<and> length order = n"
  then have d: "distinct order" "set order \<subseteq> {..<n}" "length order = n"
    using respects_distinct [of edges n "[]" order] respects_bound [of edges n "[]" order] by auto
  then have s: "set order = {..<n}"
    by (metis card_lessThan card_subset_eq distinct_card finite_lessThan)
  have "\<exists>ys zs. order = ys @ d # zs \<and> b \<in> set ys" if e: "(b, d) \<in> edge_relation edges" for b d
  proof -
    have "d \<in> set order" using s e edges by auto
    then obtain ys zs where o: "order = ys @ d # zs" by (auto simp: in_set_conv_decomp)
    with respects_binder [of edges n "[]" order ys d zs b] r e show ?thesis by auto
  qed
  with d s show "valid_order edges n order" by (simp add: valid_order_def)
qed

lemma greedy_smallest:
  fixes key :: "nat \<Rightarrow> 'k :: linorder"
  assumes inj: "inj_on key {..<n}"
  shows "greedy_from edges n key emitted rest \<Longrightarrow> respects_from edges n emitted rest' \<Longrightarrow>
    length rest = length rest' \<Longrightarrow> map key rest \<le> map key rest'"
proof (induction rest arbitrary: emitted rest')
  case (Cons i rest)
  then obtain j rest'' where r: "rest' = j # rest''" by (cases rest') auto
  with Cons.prems have i: "available edges n emitted i" and j: "available edges n emitted j" and le: "key i \<le> key j"
    by auto
  show ?case
  proof (cases "key i = key j")
    case True
    with i j inj have "i = j" by (auto simp: available_def dest: inj_onD)
    with Cons r show ?thesis by auto
  next
    case False
    with le r show ?thesis by auto
  qed
qed simp

section \<open>The loop is the greedy order\<close>

definition slots_after :: "binding_group list \<Rightarrow> nat list \<Rightarrow> binding_group option list" where
  "slots_after groups emitted = map (\<lambda>i. if i \<in> set emitted then None else Some (groups ! i)) [0..<length groups]"

definition index_key :: "binding_group list \<Rightarrow> nat \<Rightarrow> bytes" where
  "index_key groups i = sha256 (manifest_hashes (groups ! i))"

lemma length_slots_after [simp]: "length (slots_after groups emitted) = length groups"
  by (simp add: slots_after_def)

lemma nth_slots_after [simp]:
  "i < length groups \<Longrightarrow> slots_after groups emitted ! i = (if i \<in> set emitted then None else Some (groups ! i))"
  by (simp add: slots_after_def)

lemma slots_after_update:
  "i < length groups \<Longrightarrow> (slots_after groups emitted)[i := None] = slots_after groups (emitted @ [i])"
  by (rule nth_equalityI) (auto simp: nth_list_update)

lemma slots_after_Nil: "slots_after groups [] = map Some groups"
  by (rule nth_equalityI) auto

lemma set_emittable_slots:
  assumes "\<forall>(b, d) \<in> edge_relation edges. b < length groups"
  shows "set (emittable_slots edges (slots_after groups emitted)) = {i. available edges (length groups) emitted i}"
  using assms
  by (fastforce simp: emittable_slots_def available_def edge_relation_def list_all_iff split: if_splits)

lemma min_by_key_cong:
  "(\<And>x. x \<in> set xs \<Longrightarrow> f x = g x) \<Longrightarrow> min_by_key f xs = min_by_key g xs"
proof (induction xs)
  case (Cons x xs)
  then have "min_by_key f xs = min_by_key g xs" by simp
  moreover have "y \<in> set xs" if "min_by_key g xs = Some y" for y using min_by_key_SomeD [OF that] by simp
  ultimately show ?case using Cons.prems by (auto split: option.split)
qed simp

lemma no_available_cycle:
  assumes edges: "\<forall>(b, d) \<in> edge_relation edges. b < n \<and> d < n" and left: "length emitted < n"
    and none: "\<forall>i. \<not> available edges n emitted i"
  shows "\<not> acyclic (edge_relation edges)"
proof
  assume "acyclic (edge_relation edges)"
  then have "wf (edge_relation edges)"
    by (simp add: finite_acyclic_wf edge_relation_def)
  moreover have "card (set emitted) < card {..<n}"
    using card_length [of emitted] left by simp
  then obtain i where "i < n" "i \<notin> set emitted"
    by (metis card_mono finite_set lessThan_iff not_less subsetI)
  ultimately obtain z where z: "z < n" "z \<notin> set emitted"
    and least: "\<And>y. (y, z) \<in> edge_relation edges \<Longrightarrow> \<not> (y < n \<and> y \<notin> set emitted)"
    using wfE_min [of "edge_relation edges" i "{i. i < n \<and> i \<notin> set emitted}"] by (metis (no_types, lifting) mem_Collect_eq)
  with edges have "available edges n emitted z" by (fastforce simp: available_def)
  with none show False by simp
qed

lemma valid_order_acyclic:
  assumes "valid_order edges n order"
  shows "acyclic (edge_relation edges)"
proof -
  define pos where "pos i = length (takeWhile (\<lambda>j. j \<noteq> i) order)" for i
  have "pos b < pos d" if e: "(b, d) \<in> edge_relation edges" for b d
  proof -
    obtain ys zs where o: "order = ys @ d # zs" "b \<in> set ys" and "distinct order"
      using assms e unfolding valid_order_def by blast
    then have "d \<notin> set ys" by auto
    then have "pos d = length ys"
      unfolding pos_def o(1) by (subst takeWhile_append2) auto
    moreover have "pos b = length (takeWhile (\<lambda>j. j \<noteq> b) ys)"
      unfolding pos_def o(1) using o(2) by (subst takeWhile_append1) auto
    moreover have "length (takeWhile (\<lambda>j. j \<noteq> b) ys) < length ys"
      using o(2) by (induction ys) auto
    ultimately show ?thesis by simp
  qed
  then have "acyclic ((edge_relation edges)\<inverse>)"
    by (intro acyclicI_order [where f = pos]) auto
  then show ?thesis by simp
qed

lemma order_loop_result:
  assumes edges: "\<forall>(b, d) \<in> edge_relation edges. b < length groups \<and> d < length groups"
  shows "length emitted \<le> length groups \<Longrightarrow>
    (case order_loop edges (slots_after groups emitted) (map ((!) groups) emitted) of
       Inl e \<Rightarrow> e = Cycle \<and> \<not> acyclic (edge_relation edges)
     | Inr r \<Rightarrow> \<exists>rest. greedy_from edges (length groups) (index_key groups) emitted rest \<and>
         length (emitted @ rest) = length groups \<and> r = map ((!) groups) (emitted @ rest))"
proof (induction "length groups - length emitted" arbitrary: emitted)
  case 0
  then show ?case
    by (subst order_loop.simps) (auto intro!: exI [of _ "[]"])
next
  case (Suc k)
  let ?slots = "slots_after groups emitted"
  let ?n = "length groups"
  have left: "length emitted < ?n" using Suc.hyps(2) by simp
  have avail: "set (emittable_slots edges ?slots) = {i. available edges ?n emitted i}"
    using edges by (intro set_emittable_slots) auto
  have key: "slot_key ?slots i = index_key groups i" if "i \<in> set (emittable_slots edges ?slots)" for i
    using that unfolding avail by (simp add: slot_key_def index_key_def available_def)
  show ?case
  proof (cases "min_by_key (slot_key ?slots) (emittable_slots edges ?slots)")
    case None
    then have "\<forall>i. \<not> available edges ?n emitted i" using avail by auto
    from no_available_cycle [OF edges left this] None left show ?thesis
      by (subst order_loop.simps) simp
  next
    case (Some i)
    from min_by_key_SomeD [OF Some] have i: "i \<in> set (emittable_slots edges ?slots)"
      and least: "\<forall>j \<in> set (emittable_slots edges ?slots). slot_key ?slots i \<le> slot_key ?slots j" by simp_all
    then have greedy: "available edges ?n emitted i" "\<forall>j. available edges ?n emitted j \<longrightarrow> index_key groups i \<le> index_key groups j"
      using key avail by auto
    then have step: "order_loop edges ?slots (map ((!) groups) emitted)
        = order_loop edges (slots_after groups (emitted @ [i])) (map ((!) groups) (emitted @ [i]))"
      using left Some by (subst order_loop.simps) (simp add: slots_after_update available_def)
    note IH = Suc.hyps(1) [of "emitted @ [i]"]
    show ?thesis
    proof (cases "order_loop edges ?slots (map ((!) groups) emitted)")
      case (Inl e)
      show ?thesis
        using IH Suc.hyps(2) left unfolding Inl step [unfolded Inl, symmetric] sum.case by simp
    next
      case (Inr r)
      have "k = ?n - length (emitted @ [i])" "length (emitted @ [i]) \<le> ?n" using Suc.hyps(2) left by auto
      from IH [OF this, unfolded step [unfolded Inr, symmetric] sum.case] obtain rest where
        "greedy_from edges ?n (index_key groups) (emitted @ [i]) rest"
        "length ((emitted @ [i]) @ rest) = ?n" "r = map ((!) groups) ((emitted @ [i]) @ rest)"
        by blast
      then have "greedy_from edges ?n (index_key groups) emitted (i # rest) \<and>
          length (emitted @ i # rest) = ?n \<and> r = map ((!) groups) (emitted @ i # rest)"
        using greedy by simp
      then show ?thesis unfolding Inr sum.case by (rule exI)
    qed
  qed
qed

lemma check_edges_Ok: "check_edges n edges = Ok u \<longleftrightarrow> (\<forall>e \<in> set edges. names_two_distinct_groups n e)"
  by (induction edges) auto

lemma check_edges_Err:
  "check_edges n edges = Err x \<Longrightarrow> \<exists>e \<in> set edges. x = InvalidEdge e \<and> \<not> names_two_distinct_groups n e"
  by (induction edges) (auto split: if_splits)

lemma valid_edges_bounded:
  "\<forall>e \<in> set edges. names_two_distinct_groups n e \<Longrightarrow> \<forall>(b, d) \<in> edge_relation edges. b < n \<and> d < n"
  by (auto simp: edge_relation_def names_two_distinct_groups_def)

lemma order_binding_groups_Ok:
  assumes "order_binding_groups groups edges = Ok ordered"
  obtains order where "valid_order edges (length groups) order" "ordered = map ((!) groups) order"
    "greedy_from edges (length groups) (index_key groups) [] order"
proof -
  from assms have valid: "\<forall>e \<in> set edges. names_two_distinct_groups (length groups) e"
    and loop: "order_loop edges (slots_after groups []) (map ((!) groups) []) = Ok ordered"
    by (auto simp: order_binding_groups_def result_simps check_edges_Ok slots_after_Nil)
  note bounded = valid_edges_bounded [OF valid]
  from order_loop_result [OF bounded, of "[]"] loop obtain order where
    o: "greedy_from edges (length groups) (index_key groups) [] order" "length order = length groups"
      "ordered = map ((!) groups) order" by auto
  with greedy_respects [OF o(1)] bounded have "valid_order edges (length groups) order"
    by (subst valid_order_iff) auto
  with o that show ?thesis by blast
qed

lemma order_binding_groups_Err:
  "order_binding_groups groups edges = Err Cycle \<longleftrightarrow>
     (\<forall>e \<in> set edges. names_two_distinct_groups (length groups) e) \<and> \<not> acyclic (edge_relation edges)"
proof (cases "\<forall>e \<in> set edges. names_two_distinct_groups (length groups) e")
  case True
  then have run: "order_binding_groups groups edges = order_loop edges (slots_after groups []) (map ((!) groups) [])"
    using check_edges_Ok [of "length groups" edges "()"]
    by (simp add: order_binding_groups_def slots_after_Nil)
  show ?thesis
  proof (cases "order_binding_groups groups edges")
    case (Inl e)
    then have loop: "order_loop edges (slots_after groups []) (map ((!) groups) []) = Inl e" using run by simp
    from order_loop_result [OF valid_edges_bounded [OF True], of "[]"] have "e = Cycle \<and> \<not> acyclic (edge_relation edges)"
      unfolding loop by simp
    with Inl True show ?thesis by simp
  next
    case (Inr r)
    from order_binding_groups_Ok [OF this] valid_order_acyclic have "acyclic (edge_relation edges)" by metis
    with Inr show ?thesis by simp
  qed
next
  case False
  then have "check_edges (length groups) edges \<noteq> Ok ()" by (simp add: check_edges_Ok)
  then obtain x where x: "check_edges (length groups) edges = Err x"
    by (cases "check_edges (length groups) edges") auto
  with check_edges_Err [OF x] False show ?thesis by (auto simp: order_binding_groups_def)
qed

lemma order_binding_groups_InvalidEdge:
  "(\<exists>e. order_binding_groups groups edges = Err (InvalidEdge e)) \<longleftrightarrow>
     (\<exists>e \<in> set edges. \<not> names_two_distinct_groups (length groups) e)"
proof (cases "check_edges (length groups) edges")
  case (Inl x)
  then have "\<not> (\<forall>e \<in> set edges. names_two_distinct_groups (length groups) e)"
    using check_edges_Ok [of "length groups" edges "()"] by auto
  moreover obtain e where "x = InvalidEdge e" using check_edges_Err [OF Inl] by blast
  ultimately show ?thesis using Inl by (auto simp: order_binding_groups_def)
next
  case (Inr u)
  then have v: "\<forall>e \<in> set edges. names_two_distinct_groups (length groups) e" by (simp add: check_edges_Ok)
  have "e = Cycle" if "order_loop edges (slots_after groups []) (map ((!) groups) []) = Inl e" for e
    using order_loop_result [OF valid_edges_bounded [OF v], of "[]"] unfolding that by simp
  with Inr v show ?thesis by (auto simp: order_binding_groups_def slots_after_Nil)
qed

section \<open>Properties\<close>

text \<open>
  C32: ordering returns the given groups, each once, with every group before the groups it binds, and
  when the payload hashes are distinct, as the reader guarantees, the result is the lexicographically
  smallest of all such orders.
\<close>

theorem order_is_smallest_valid:
  assumes "order_binding_groups groups edges = Ok ordered"
  shows "\<exists>order. ordered = map ((!) groups) order \<and> valid_order edges (length groups) order \<and>
    (distinct (map (\<lambda>g. sha256 (manifest_hashes g)) groups) \<longrightarrow>
       (\<forall>other. valid_order edges (length groups) other \<longrightarrow>
          map (\<lambda>g. sha256 (manifest_hashes g)) ordered \<le> map (\<lambda>i. sha256 (manifest_hashes (groups ! i))) other))"
proof -
  obtain order where o: "valid_order edges (length groups) order" "ordered = map ((!) groups) order"
    "greedy_from edges (length groups) (index_key groups) [] order"
    using order_binding_groups_Ok [OF assms] .
  have key: "index_key groups = (\<lambda>i. sha256 (manifest_hashes (groups ! i)))"
    by (simp add: index_key_def fun_eq_iff)
  have "map (index_key groups) order \<le> map (index_key groups) other"
    if d: "distinct (map (\<lambda>g. sha256 (manifest_hashes g)) groups)" and v: "valid_order edges (length groups) other" for other
  proof (rule greedy_smallest [OF _ o(3)])
    show "inj_on (index_key groups) {..<length groups}"
      using d by (auto simp: inj_on_def index_key_def distinct_conv_nth)
    show "respects_from edges (length groups) [] other"
      using valid_order_respects_from [OF v, of "[]"] by simp
    show "length order = length other"
      using o(1) v by (metis distinct_card valid_order_def)
  qed
  with o(1,2) show ?thesis by (intro exI [of _ order]) (simp add: key o_def)
qed

definition sample_group :: "char \<Rightarrow> binding_group" where
  "sample_group c = \<lparr>bg_commit = [c], predecessor_origin = None,
     manifest_hashes = \<lparr>sha256 = [c], sha3_256 = []\<rparr>, bg_tokens = []\<rparr>"

lemmas order_eval = order_binding_groups_def names_two_distinct_groups_def order_loop.simps emittable_slots_def
  slot_key_def sample_group_def upt_rec

lemma sample_order:
  "order_binding_groups [sample_group (CHR ''b''), sample_group (CHR ''a''), sample_group (CHR ''c'')]
      [\<lparr>edge_binder = 2, edge_bound = 1\<rparr>]
     = Ok [sample_group (CHR ''b''), sample_group (CHR ''c''), sample_group (CHR ''a'')]"
  by (simp add: order_eval)

theorem order_is_smallest_valid_witness:
  "\<exists>order. [sample_group (CHR ''b''), sample_group (CHR ''c''), sample_group (CHR ''a'')]
       = map ((!) [sample_group (CHR ''b''), sample_group (CHR ''a''), sample_group (CHR ''c'')]) order
     \<and> valid_order [\<lparr>edge_binder = 2, edge_bound = 1\<rparr>]
          (length [sample_group (CHR ''b''), sample_group (CHR ''a''), sample_group (CHR ''c'')]) order"
  using order_is_smallest_valid [OF sample_order] by (elim ex_forward) (elim conjE, intro conjI)

text \<open>Ordering fails exactly when it should: with \<open>InvalidEdge\<close> iff some edge does not name two
  distinct groups, with \<open>Cycle\<close> iff all do and the binding relation is cyclic.
\<close>

theorem order_fails_iff:
  "(order_binding_groups groups edges = Err Cycle \<longleftrightarrow>
      (\<forall>e \<in> set edges. names_two_distinct_groups (length groups) e) \<and> \<not> acyclic (edge_relation edges))
   \<and> ((\<exists>e. order_binding_groups groups edges = Err (InvalidEdge e)) \<longleftrightarrow>
      (\<exists>e \<in> set edges. \<not> names_two_distinct_groups (length groups) e))"
proof
  let ?valid = "\<forall>e \<in> set edges. names_two_distinct_groups (length groups) e"
  show "order_binding_groups groups edges = Err Cycle \<longleftrightarrow> ?valid \<and> \<not> acyclic (edge_relation edges)"
    by (rule order_binding_groups_Err)
  show "(\<exists>e. order_binding_groups groups edges = Err (InvalidEdge e)) \<longleftrightarrow>
      (\<exists>e \<in> set edges. \<not> names_two_distinct_groups (length groups) e)"
    by (rule order_binding_groups_InvalidEdge)
qed

theorem order_fails_iff_witness:
  "order_binding_groups [sample_group (CHR ''a''), sample_group (CHR ''b'')]
     [\<lparr>edge_binder = 0, edge_bound = 1\<rparr>, \<lparr>edge_binder = 1, edge_bound = 0\<rparr>] = Err Cycle"
proof -
  have "(0, 1) \<in> edge_relation [\<lparr>edge_binder = 0, edge_bound = 1\<rparr>, \<lparr>edge_binder = 1, edge_bound = 0\<rparr>]"
    "(1, 0) \<in> edge_relation [\<lparr>edge_binder = 0, edge_bound = 1\<rparr>, \<lparr>edge_binder = 1, edge_bound = 0\<rparr>]"
    by (simp_all add: edge_relation_def)
  then have "\<not> acyclic (edge_relation [\<lparr>edge_binder = 0, edge_bound = 1\<rparr>, \<lparr>edge_binder = 1, edge_bound = 0\<rparr>])"
    unfolding acyclic_def by (meson trancl.r_into_trancl trancl.trancl_into_trancl)
  with order_fails_iff [of "[sample_group (CHR ''a''), sample_group (CHR ''b'')]"] show ?thesis
    by (simp add: names_two_distinct_groups_def)
qed

lemma valid_order_trancl:
  assumes same: "(edge_relation edges)\<^sup>+ = (edge_relation edges')\<^sup>+" and v: "valid_order edges n order"
  shows "valid_order edges' n order"
proof -
  have "b \<in> set ys" if "(b, d) \<in> (edge_relation edges)\<^sup>+" "order = ys @ d # zs" for b d ys zs
    using that
  proof (induction arbitrary: ys zs rule: trancl_induct)
    case (base d)
    then show ?case using valid_order_split [OF v] by blast
  next
    case (step c d)
    then have "c \<in> set ys" using valid_order_split [OF v] by blast
    then obtain us vs where "ys = us @ c # vs" by (auto simp: in_set_conv_decomp)
    with step.IH [of us "vs @ d # zs"] step.prems show ?case by simp
  qed
  moreover have "\<exists>ys zs. order = ys @ d # zs" if "(b, d) \<in> (edge_relation edges)\<^sup>+" for b d
    using that v unfolding valid_order_def by (metis tranclD2)
  moreover have "(b, d) \<in> (edge_relation edges)\<^sup>+" if "(b, d) \<in> edge_relation edges'" for b d
    using that same by (metis r_into_trancl)
  ultimately show ?thesis using v unfolding valid_order_def by metis
qed

text \<open>Listing the binding edges directly or transitively closed makes no difference to the order of
  groups with distinct payload hashes.
\<close>

theorem order_closure_invariant:
  assumes closure: "(edge_relation edges)\<^sup>+ = (edge_relation edges')\<^sup>+"
    and distinct: "distinct (map (\<lambda>g. sha256 (manifest_hashes g)) groups)"
    and valid: "\<forall>e \<in> set edges \<union> set edges'. names_two_distinct_groups (length groups) e"
  shows "order_binding_groups groups edges = order_binding_groups groups edges'"
proof -
  have cyclic: "acyclic (edge_relation edges) \<longleftrightarrow> acyclic (edge_relation edges')"
    using closure by (simp add: acyclic_def)
  have inj: "inj_on (index_key groups) {..<length groups}"
    using distinct by (auto simp: inj_on_def index_key_def distinct_conv_nth)
  have result: "order_binding_groups groups es = Err Cycle \<or> (\<exists>r. order_binding_groups groups es = Ok r)"
    if "es = edges \<or> es = edges'" for es
  proof (cases "order_binding_groups groups es")
    case (Inl e)
    have "e \<noteq> InvalidEdge x" for x
      using order_binding_groups_InvalidEdge [of groups es] valid that Inl by auto
    with Inl show ?thesis by (cases e) auto
  qed auto
  have le: "map (index_key groups) a \<le> map (index_key groups) b"
    if "valid_order es (length groups) a" "greedy_from es (length groups) (index_key groups) [] a"
      "valid_order es (length groups) b" for es a b
    using that valid_order_respects_from [OF that(3), of "[]" b]
    by (intro greedy_smallest [OF inj that(2)]) (auto simp: valid_order_def dest!: distinct_card)
  show ?thesis
  proof (cases "acyclic (edge_relation edges)")
    case False
    with order_binding_groups_Err [of groups edges] order_binding_groups_Err [of groups edges'] cyclic valid
    show ?thesis by simp
  next
    case True
    then obtain r r' where r: "order_binding_groups groups edges = Ok r" "order_binding_groups groups edges' = Ok r'"
      using result order_binding_groups_Err [of groups edges] order_binding_groups_Err [of groups edges'] cyclic
      by (metis (no_types, lifting))
    obtain a where a: "valid_order edges (length groups) a" "r = map ((!) groups) a"
      "greedy_from edges (length groups) (index_key groups) [] a" using order_binding_groups_Ok [OF r(1)] .
    obtain b where b: "valid_order edges' (length groups) b" "r' = map ((!) groups) b"
      "greedy_from edges' (length groups) (index_key groups) [] b" using order_binding_groups_Ok [OF r(2)] .
    have "map (index_key groups) a = map (index_key groups) b"
      using le [OF a(1,3) valid_order_trancl [OF closure [symmetric] b(1)]]
        le [OF b(1,3) valid_order_trancl [OF closure a(1)]] by (rule order.antisym)
    moreover have "set a = {..<length groups}" "set b = {..<length groups}"
      using a(1) b(1) by (simp_all add: valid_order_def)
    ultimately have "a = b" using inj by (metis inj_on_map_eq_map sup.idem)
    with a b r show ?thesis by simp
  qed
qed

theorem order_closure_invariant_witness:
  "order_binding_groups (map sample_group ''cba'')
     [\<lparr>edge_binder = 0, edge_bound = 1\<rparr>, \<lparr>edge_binder = 1, edge_bound = 2\<rparr>] =
   order_binding_groups (map sample_group ''cba'')
     [\<lparr>edge_binder = 0, edge_bound = 1\<rparr>, \<lparr>edge_binder = 1, edge_bound = 2\<rparr>, \<lparr>edge_binder = 0, edge_bound = 2\<rparr>]"
proof (rule order_closure_invariant)
  let ?r = "{(0, 1), (1, 2)} :: (nat \<times> nat) set"
  have "(0, 2) \<in> ?r\<^sup>+" by (rule trancl_into_trancl [of 0 1]) auto
  then have "insert (0, 2) ?r \<subseteq> ?r\<^sup>+" by (auto intro: r_into_trancl)
  then have "(insert (0, 2) ?r)\<^sup>+ \<subseteq> (?r\<^sup>+)\<^sup>+" by (rule trancl_mono_subset)
  moreover have "?r\<^sup>+ \<subseteq> (insert (0, 2) ?r)\<^sup>+" by (rule trancl_mono_subset) auto
  ultimately have "(insert (0, 2) ?r)\<^sup>+ = ?r\<^sup>+" by simp
  then show "(edge_relation [\<lparr>edge_binder = 0, edge_bound = 1\<rparr>, \<lparr>edge_binder = 1, edge_bound = 2\<rparr>])\<^sup>+ =
    (edge_relation [\<lparr>edge_binder = 0, edge_bound = 1\<rparr>, \<lparr>edge_binder = 1, edge_bound = 2\<rparr>, \<lparr>edge_binder = 0, edge_bound = 2\<rparr>])\<^sup>+"
    by (simp add: edge_relation_def insert_commute)
qed (simp_all add: sample_group_def names_two_distinct_groups_def)

end
