(* ===== verification/Config.thy ===== *)
theory Config
  imports Strings
begin

text \<open>
  \<open>crates/tydence/src/config.rs\<close>: the reader of \<open>.tydence/config\<close>, a builder fed one directive line
  at a time. A \<open>HashMap\<close> is a HOL map; line numbers count from 1.
\<close>

section \<open>The data\<close>

datatype imprint_algorithm = Sha256 | Sha384 | Sha512

datatype config_error =
  UnknownDirective nat
  | MalformedDirective nat
  | MisplacedDirective nat
  | DuplicateDirective nat
  | InvalidName nat
  | UnknownSite nat
  | IncompleteSite nat
  | EmptyProfile nat

fun config_error_display :: "config_error \<Rightarrow> string" where
  "config_error_display (UnknownDirective n) = ''line '' @ decimal n @ '': unknown directive''"
| "config_error_display (MalformedDirective n) = ''line '' @ decimal n @ '': malformed directive''"
| "config_error_display (MisplacedDirective n) = ''line '' @ decimal n @ '': directive out of place''"
| "config_error_display (DuplicateDirective n) = ''line '' @ decimal n @ '': duplicate directive''"
| "config_error_display (InvalidName n) = ''line '' @ decimal n @ '': invalid site or profile name''"
| "config_error_display (UnknownSite n) = ''line '' @ decimal n @ '': selection of an undefined site''"
| "config_error_display (IncompleteSite n) = ''line '' @ decimal n @ '': site block missing URL or Imprint''"
| "config_error_display (EmptyProfile n) = ''line '' @ decimal n @ '': profile with no site selections''"

record site =
  site_url :: string
  site_imprint :: imprint_algorithm

record use_site =
  us_site_name :: string
  continues_on_error :: bool

record profile =
  selections :: "use_site list"

record config =
  sites :: "string \<rightharpoonup> site"
  profiles :: "string \<rightharpoonup> profile"

definition MAX_NAME_LENGTH :: nat where
  "MAX_NAME_LENGTH = 64"

definition is_valid_name :: "string \<Rightarrow> bool" where
  "is_valid_name name =
     (length name \<le> MAX_NAME_LENGTH
      \<and> (name \<noteq> [] \<and> is_ascii_alphanumeric (hd name) \<and> is_ascii_alphanumeric (last name))
      \<and> list_all (\<lambda>b. is_ascii_alphanumeric b \<or> b = CHR ''-'' \<or> b = CHR ''_'') name)"

definition is_https_url :: "string \<Rightarrow> bool" where
  "is_https_url url =
     ((case strip_prefix ''https://'' url of None \<Rightarrow> False | Some after_scheme \<Rightarrow> after_scheme \<noteq> [])
      \<and> list_all is_ascii_graphic url)"

definition IMPRINTS :: "(string \<times> imprint_algorithm) list" where
  "IMPRINTS = [(''sha256'', Sha256), (''sha384'', Sha384), (''sha512'', Sha512)]"

definition imprint_algorithm_of :: "string \<Rightarrow> imprint_algorithm option" where
  "imprint_algorithm_of family_name =
     map_option snd (List.find (\<lambda>(known_family, _). known_family = family_name) IMPRINTS)"

section \<open>The builder\<close>

record pending_site =
  ps_line_number :: nat
  ps_name :: string
  ps_url :: "string option"
  ps_imprint :: "imprint_algorithm option"

record pending_profile =
  pp_line :: nat
  pp_name :: string
  pp_selections :: "use_site list"

record site_reference =
  sr_site_name :: string
  sr_line_number :: nat

datatype scope = TopLevel | SiteBlock pending_site | ProfileBlock pending_profile

record config_builder =
  cb_scope :: scope
  cb_sites :: "string \<rightharpoonup> site"
  cb_profiles :: "string \<rightharpoonup> profile"
  unresolved_references :: "site_reference list"

definition close_scope :: "config_builder \<Rightarrow> (config_error, config_builder) result" where
  "close_scope b =
     (case cb_scope b of
        TopLevel \<Rightarrow> Ok b
      | SiteBlock pending \<Rightarrow>
          (case (ps_url pending, ps_imprint pending) of
             (Some url, Some algorithm) \<Rightarrow>
               Ok (b\<lparr>cb_scope := TopLevel,
                     cb_sites := (cb_sites b)(ps_name pending \<mapsto> \<lparr>site_url = url, site_imprint = algorithm\<rparr>)\<rparr>)
           | _ \<Rightarrow> Err (IncompleteSite (ps_line_number pending)))
      | ProfileBlock pending \<Rightarrow>
          (if pp_selections pending = [] then Err (EmptyProfile (pp_line pending))
           else Ok (b\<lparr>cb_scope := TopLevel,
                     cb_profiles := (cb_profiles b)(pp_name pending \<mapsto> \<lparr>selections = pp_selections pending\<rparr>)\<rparr>)))"

definition open_site :: "config_builder \<Rightarrow> string list \<Rightarrow> nat \<Rightarrow> (config_error, config_builder) result" where
  "open_site b arguments line_number =
     (case arguments of
        [name] \<Rightarrow>
          (if \<not> is_valid_name name then Err (InvalidName line_number)
           else and_then (close_scope b) (\<lambda>b.
             if cb_sites b name \<noteq> None then Err (DuplicateDirective line_number)
             else Ok (b\<lparr>cb_scope := SiteBlock
                    \<lparr>ps_line_number = line_number, ps_name = name, ps_url = None, ps_imprint = None\<rparr>\<rparr>)))
      | _ \<Rightarrow> Err (MalformedDirective line_number))"

definition open_profile :: "config_builder \<Rightarrow> string list \<Rightarrow> nat \<Rightarrow> (config_error, config_builder) result" where
  "open_profile b arguments line_number =
     (case arguments of
        [name] \<Rightarrow>
          (if \<not> is_valid_name name then Err (InvalidName line_number)
           else and_then (close_scope b) (\<lambda>b.
             if cb_profiles b name \<noteq> None then Err (DuplicateDirective line_number)
             else Ok (b\<lparr>cb_scope := ProfileBlock
                    \<lparr>pp_line = line_number, pp_name = name, pp_selections = []\<rparr>\<rparr>)))
      | _ \<Rightarrow> Err (MalformedDirective line_number))"

definition selection_arguments :: "string list \<Rightarrow> (string \<times> bool) option" where
  "selection_arguments arguments =
     (case arguments of
        [site_name] \<Rightarrow> Some (site_name, False)
      | [site_name, modifier] \<Rightarrow> if modifier = ''ContinueOnError'' then Some (site_name, True) else None
      | _ \<Rightarrow> None)"

definition read_selection :: "config_builder \<Rightarrow> string list \<Rightarrow> nat \<Rightarrow> (config_error, config_builder) result" where
  "read_selection b arguments line_number =
     (case cb_scope b of
        ProfileBlock pending \<Rightarrow>
          (case selection_arguments arguments of
             None \<Rightarrow> Err (MalformedDirective line_number)
           | Some (site_name, continues) \<Rightarrow>
               (if list_ex (\<lambda>selection. us_site_name selection = site_name) (pp_selections pending)
                then Err (DuplicateDirective line_number)
                else Ok (b\<lparr>cb_scope := ProfileBlock (pending\<lparr>pp_selections := pp_selections pending
                          @ [\<lparr>us_site_name = site_name, continues_on_error = continues\<rparr>]\<rparr>),
                        unresolved_references := unresolved_references b
                          @ [\<lparr>sr_site_name = site_name, sr_line_number = line_number\<rparr>]\<rparr>)))
      | _ \<Rightarrow> Err (MisplacedDirective line_number))"

definition read_url :: "config_builder \<Rightarrow> string list \<Rightarrow> nat \<Rightarrow> (config_error, config_builder) result" where
  "read_url b arguments line_number =
     (case cb_scope b of
        SiteBlock pending \<Rightarrow>
          (case arguments of
             [url] \<Rightarrow>
               (if \<not> is_https_url url then Err (MalformedDirective line_number)
                else if ps_url pending \<noteq> None then Err (DuplicateDirective line_number)
                else Ok (b\<lparr>cb_scope := SiteBlock (pending\<lparr>ps_url := Some url\<rparr>)\<rparr>))
           | _ \<Rightarrow> Err (MalformedDirective line_number))
      | _ \<Rightarrow> Err (MisplacedDirective line_number))"

definition read_imprint :: "config_builder \<Rightarrow> string list \<Rightarrow> nat \<Rightarrow> (config_error, config_builder) result" where
  "read_imprint b arguments line_number =
     (case cb_scope b of
        SiteBlock pending \<Rightarrow>
          (case arguments of
             [family_name] \<Rightarrow>
               and_then (ok_or (MalformedDirective line_number) (imprint_algorithm_of family_name)) (\<lambda>algorithm.
               if ps_imprint pending \<noteq> None then Err (DuplicateDirective line_number)
               else Ok (b\<lparr>cb_scope := SiteBlock (pending\<lparr>ps_imprint := Some algorithm\<rparr>)\<rparr>))
           | _ \<Rightarrow> Err (MalformedDirective line_number))
      | _ \<Rightarrow> Err (MisplacedDirective line_number))"

definition read_directive ::
  "config_builder \<Rightarrow> string \<Rightarrow> string list \<Rightarrow> nat \<Rightarrow> (config_error, config_builder) result" where
  "read_directive b directive_name arguments line_number =
     (if list_ex (starts_with ''#'') arguments then Err (MalformedDirective line_number)
      else if directive_name = ''Site'' then open_site b arguments line_number
      else if directive_name = ''URL'' then read_url b arguments line_number
      else if directive_name = ''Imprint'' then read_imprint b arguments line_number
      else if directive_name = ''Profile'' then open_profile b arguments line_number
      else if directive_name = ''UseSite'' then read_selection b arguments line_number
      else Err (UnknownDirective line_number))"

fun resolve_references :: "(string \<rightharpoonup> site) \<Rightarrow> site_reference list \<Rightarrow> (config_error, unit) result" where
  "resolve_references defined [] = Ok ()"
| "resolve_references defined (reference # references) =
     (if defined (sr_site_name reference) = None then Err (UnknownSite (sr_line_number reference))
      else resolve_references defined references)"

definition finish_config :: "config_builder \<Rightarrow> (config_error, config) result" where
  "finish_config b =
     and_then (close_scope b) (\<lambda>b.
     and_then (resolve_references (cb_sites b) (unresolved_references b)) (\<lambda>_.
     Ok \<lparr>sites = cb_sites b, profiles = cb_profiles b\<rparr>))"

definition empty_config_builder :: config_builder where
  "empty_config_builder =
     \<lparr>cb_scope = TopLevel, cb_sites = Map.empty, cb_profiles = Map.empty, unresolved_references = []\<rparr>"

section \<open>The lines\<close>

definition is_blank :: "byte \<Rightarrow> bool" where
  "is_blank b = (b = CHR '' '' \<or> b = CHR 0x09)"

text \<open>\<open>s.split([' ', '\t'])\<close>.\<close>

fun split_blanks :: "string \<Rightarrow> string list" where
  "split_blanks [] = [[]]"
| "split_blanks (x # xs) =
     (if is_blank x then [] # split_blanks xs
      else (case split_blanks xs of [] \<Rightarrow> [[x]] | w # ws \<Rightarrow> (x # w) # ws))"

definition read_config_line :: "config_builder \<Rightarrow> nat \<times> string \<Rightarrow> (config_error, config_builder) result" where
  "read_config_line b numbered_line =
     (let line_index = fst numbered_line;
          raw_line = snd numbered_line;
          line = (case strip_suffix [CHR 0x0D] raw_line of None \<Rightarrow> raw_line | Some l \<Rightarrow> l)
      in if starts_with ''#'' (dropWhile is_blank line) then Ok b
         else (case filter (\<lambda>token. token \<noteq> []) (split_blanks line) of
                 [] \<Rightarrow> Ok b
               | directive_name # arguments \<Rightarrow> read_directive b directive_name arguments (line_index + 1)))"

definition parse_config :: "string \<Rightarrow> (config_error, config) result" where
  "parse_config config_text =
     and_then (try_fold read_config_line empty_config_builder
       (List.enumerate 0 (split_on (CHR 0x0A) config_text))) finish_config"

section \<open>The builder invariant\<close>

definition site_ok :: "string \<Rightarrow> site \<Rightarrow> bool" where
  "site_ok name s \<longleftrightarrow> is_valid_name name \<and> is_https_url (site_url s)"

definition selections_ok :: "string set \<Rightarrow> use_site list \<Rightarrow> bool" where
  "selections_ok referenced us \<longleftrightarrow> distinct (map us_site_name us) \<and> us_site_name ` set us \<subseteq> referenced"

definition profile_ok :: "string set \<Rightarrow> string \<Rightarrow> profile \<Rightarrow> bool" where
  "profile_ok referenced name p \<longleftrightarrow>
     is_valid_name name \<and> selections p \<noteq> [] \<and> selections_ok referenced (selections p)"

fun scope_ok :: "string set \<Rightarrow> scope \<Rightarrow> bool" where
  "scope_ok referenced TopLevel = True"
| "scope_ok referenced (SiteBlock pending) =
     (is_valid_name (ps_name pending) \<and> pred_option is_https_url (ps_url pending))"
| "scope_ok referenced (ProfileBlock pending) =
     (is_valid_name (pp_name pending) \<and> selections_ok referenced (pp_selections pending))"

definition referenced_sites :: "config_builder \<Rightarrow> string set" where
  "referenced_sites b = sr_site_name ` set (unresolved_references b)"

definition config_builder_ok :: "config_builder \<Rightarrow> bool" where
  "config_builder_ok b \<longleftrightarrow> scope_ok (referenced_sites b) (cb_scope b)
     \<and> (\<forall>n s. cb_sites b n = Some s \<longrightarrow> site_ok n s)
     \<and> (\<forall>n p. cb_profiles b n = Some p \<longrightarrow> profile_ok (referenced_sites b) n p)"

definition config_ok :: "config \<Rightarrow> bool" where
  "config_ok c \<longleftrightarrow> (\<forall>n s. sites c n = Some s \<longrightarrow> site_ok n s)
     \<and> (\<forall>n p. profiles c n = Some p \<longrightarrow> profile_ok (dom (sites c)) n p)"

lemma selections_ok_mono: "A \<subseteq> B \<Longrightarrow> selections_ok A us \<Longrightarrow> selections_ok B us"
  by (auto simp: selections_ok_def)

lemma profile_ok_mono: "A \<subseteq> B \<Longrightarrow> profile_ok A n p \<Longrightarrow> profile_ok B n p"
  by (auto simp: profile_ok_def intro: selections_ok_mono)

lemma close_scope_ok:
  assumes "config_builder_ok b" and "close_scope b = Ok b'"
  shows "config_builder_ok b'" "cb_scope b' = TopLevel" "referenced_sites b' = referenced_sites b"
  using assms
  by (auto simp: close_scope_def config_builder_ok_def referenced_sites_def site_ok_def profile_ok_def
      split: scope.splits option.splits if_splits)

lemma open_block_ok:
  assumes "config_builder_ok b"
  shows "open_site b arguments n = Ok b' \<Longrightarrow> config_builder_ok b'"
    and "open_profile b arguments n = Ok b' \<Longrightarrow> config_builder_ok b'"
  using close_scope_ok [OF assms]
  by (fastforce simp: open_site_def open_profile_def result_simps config_builder_ok_def referenced_sites_def
      selections_ok_def split: list.splits if_splits)+

lemma read_site_ok:
  assumes "config_builder_ok b"
  shows "read_url b arguments n = Ok b' \<Longrightarrow> config_builder_ok b'"
    and "read_imprint b arguments n = Ok b' \<Longrightarrow> config_builder_ok b'"
  using assms
  by (auto simp: read_url_def read_imprint_def result_simps config_builder_ok_def referenced_sites_def
      split: scope.splits list.splits if_splits)

lemma read_selection_ok:
  assumes inv: "config_builder_ok b" and step: "read_selection b arguments n = Ok b'"
  shows "config_builder_ok b'"
proof -
  from step obtain pending where b: "cb_scope b = ProfileBlock pending"
    by (auto simp: read_selection_def split: scope.splits)
  with step obtain arg where arg: "selection_arguments arguments = Some arg"
    by (auto simp: read_selection_def split: option.splits)
  obtain name continues where "arg = (name, continues)" by (cases arg)
  with step b arg have new: "\<forall>s \<in> set (pp_selections pending). us_site_name s \<noteq> name"
    and b': "b' = b\<lparr>cb_scope := ProfileBlock (pending\<lparr>pp_selections := pp_selections pending
        @ [\<lparr>us_site_name = name, continues_on_error = continues\<rparr>]\<rparr>),
      unresolved_references := unresolved_references b @ [\<lparr>sr_site_name = name, sr_line_number = n\<rparr>]\<rparr>"
    by (auto simp: read_selection_def list_ex_iff split: if_splits)
  have refs: "referenced_sites b' = insert name (referenced_sites b)"
    by (simp add: b' referenced_sites_def)
  then have "profile_ok (referenced_sites b') m p" if "cb_profiles b m = Some p" for m p
    using inv that profile_ok_mono [OF subset_insertI [of "referenced_sites b" name], of m p]
    by (simp add: config_builder_ok_def refs)
  moreover have "scope_ok (referenced_sites b') (cb_scope b')"
    using inv b new by (auto simp: config_builder_ok_def refs) (auto simp: b' selections_ok_def)
  ultimately show ?thesis
    using inv by (simp add: config_builder_ok_def) (simp add: b')
qed

lemma read_directive_ok:
  assumes inv: "config_builder_ok b" and step: "read_directive b name arguments n = Ok b'"
  shows "config_builder_ok b'"
  using step open_block_ok [OF inv, of arguments n b'] read_site_ok [OF inv, of arguments n b']
    read_selection_ok [OF inv, of arguments n b']
  unfolding read_directive_def by (simp split: if_splits)

lemma read_config_line_ok:
  assumes "config_builder_ok b" and "read_config_line b line = Ok b'"
  shows "config_builder_ok b'"
  using assms(2) read_directive_ok [OF assms(1)] assms(1)
  by (auto simp: read_config_line_def Let_def simp del: split_blanks.simps split: if_split_asm list.split_asm)

interpretation config_reader: fallible_loop read_config_line config_builder_ok
  by unfold_locales (rule read_config_line_ok)

lemma empty_config_builder_ok: "config_builder_ok empty_config_builder"
  by (simp add: config_builder_ok_def empty_config_builder_def)

lemma resolve_references_Ok:
  "resolve_references defined refs = Ok u \<longleftrightarrow> (\<forall>r \<in> set refs. sr_site_name r \<in> dom defined)"
  by (induction refs) auto

lemma finish_config_ok:
  assumes "config_builder_ok b" and "finish_config b = Ok c"
  shows "config_ok c"
proof -
  from assms(2) obtain b' where close: "close_scope b = Ok b'"
    and refs: "\<forall>r \<in> set (unresolved_references b'). sr_site_name r \<in> dom (cb_sites b')"
    and c: "c = \<lparr>sites = cb_sites b', profiles = cb_profiles b'\<rparr>"
    by (auto simp: finish_config_def result_simps resolve_references_Ok)
  from refs have "referenced_sites b' \<subseteq> dom (cb_sites b')" by (auto simp: referenced_sites_def)
  with close_scope_ok(1) [OF assms(1) close] show ?thesis
    by (auto simp: c config_ok_def config_builder_ok_def intro: profile_ok_mono)
qed

section \<open>Line numbers of errors\<close>

fun config_error_line :: "config_error \<Rightarrow> nat" where
  "config_error_line (UnknownDirective n) = n"
| "config_error_line (MalformedDirective n) = n"
| "config_error_line (MisplacedDirective n) = n"
| "config_error_line (DuplicateDirective n) = n"
| "config_error_line (InvalidName n) = n"
| "config_error_line (UnknownSite n) = n"
| "config_error_line (IncompleteSite n) = n"
| "config_error_line (EmptyProfile n) = n"

text \<open>Every line number the builder remembers is one it has read.\<close>

fun scope_lines :: "scope \<Rightarrow> nat set" where
  "scope_lines TopLevel = {}"
| "scope_lines (SiteBlock pending) = {ps_line_number pending}"
| "scope_lines (ProfileBlock pending) = {pp_line pending}"

definition remembered_lines :: "config_builder \<Rightarrow> nat set" where
  "remembered_lines b = scope_lines (cb_scope b) \<union> sr_line_number ` set (unresolved_references b)"

lemma close_scope_lines:
  "close_scope b = Ok b' \<Longrightarrow> remembered_lines b' \<subseteq> remembered_lines b"
  "close_scope b = Err e \<Longrightarrow> config_error_line e \<in> remembered_lines b"
  by (auto simp: close_scope_def remembered_lines_def split: scope.splits option.splits if_splits)

lemma open_block_lines:
  "open_site b arguments n = Ok b' \<Longrightarrow> remembered_lines b' \<subseteq> insert n (remembered_lines b)"
  "open_site b arguments n = Err e \<Longrightarrow> config_error_line e \<in> insert n (remembered_lines b)"
  "open_profile b arguments n = Ok b' \<Longrightarrow> remembered_lines b' \<subseteq> insert n (remembered_lines b)"
  "open_profile b arguments n = Err e \<Longrightarrow> config_error_line e \<in> insert n (remembered_lines b)"
  using close_scope_lines [of b] unfolding open_site_def open_profile_def
  by (auto simp: result_simps remembered_lines_def dest!: meta_spec split: list.splits if_splits; blast)+

lemma read_block_lines:
  "read_url b arguments n = Ok b' \<Longrightarrow> remembered_lines b' \<subseteq> insert n (remembered_lines b)"
  "read_url b arguments n = Err e \<Longrightarrow> config_error_line e \<in> insert n (remembered_lines b)"
  "read_imprint b arguments n = Ok b' \<Longrightarrow> remembered_lines b' \<subseteq> insert n (remembered_lines b)"
  "read_imprint b arguments n = Err e \<Longrightarrow> config_error_line e \<in> insert n (remembered_lines b)"
  "read_selection b arguments n = Ok b' \<Longrightarrow> remembered_lines b' \<subseteq> insert n (remembered_lines b)"
  "read_selection b arguments n = Err e \<Longrightarrow> config_error_line e \<in> insert n (remembered_lines b)"
  unfolding read_url_def read_imprint_def read_selection_def
  by (auto simp: result_simps remembered_lines_def split: list.splits if_splits scope.splits option.splits)

lemma read_directive_lines:
  "read_directive b name arguments n = Ok b' \<Longrightarrow> remembered_lines b' \<subseteq> insert n (remembered_lines b)"
  "read_directive b name arguments n = Err e \<Longrightarrow> config_error_line e \<in> insert n (remembered_lines b)"
  unfolding read_directive_def using open_block_lines [of b arguments n] read_block_lines [of b arguments n]
  by (auto split: if_splits)

lemma read_config_line_lines:
  "read_config_line b (k, l) = Ok b' \<Longrightarrow> remembered_lines b' \<subseteq> insert (Suc k) (remembered_lines b)"
  "read_config_line b (k, l) = Err e \<Longrightarrow> config_error_line e \<in> insert (Suc k) (remembered_lines b)"
  using read_directive_lines [of b _ _ "Suc k"]
  by (auto simp: read_config_line_def Let_def simp del: split_blanks.simps split: if_split_asm list.split_asm; blast)+

lemma read_config_lines:
  "remembered_lines b \<subseteq> {1..k} \<Longrightarrow>
     (case try_fold read_config_line b (List.enumerate k ls) of
        Inl e \<Rightarrow> config_error_line e \<in> {1..k + length ls}
      | Inr b' \<Rightarrow> remembered_lines b' \<subseteq> {1..k + length ls})"
proof (induction ls arbitrary: b k)
  case Nil
  then show ?case by simp
next
  case (Cons l ls)
  show ?case
  proof (cases "read_config_line b (k, l)")
    case (Inl e)
    with read_config_line_lines(2) [OF Inl] Cons.prems show ?thesis by auto
  next
    case (Inr c)
    have "insert (Suc k) (remembered_lines b) \<subseteq> {1..Suc k}" using Cons.prems by force
    with read_config_line_lines(1) [OF Inr] have "remembered_lines c \<subseteq> {1..Suc k}" by (rule order.trans)
    from Cons.IH [OF this] Inr show ?thesis by (auto split: sum.splits)
  qed
qed

lemma resolve_references_Err:
  "resolve_references defined refs = Err e \<Longrightarrow> config_error_line e \<in> sr_line_number ` set refs"
  by (induction refs) (auto split: if_splits)

lemma finish_config_Err:
  assumes "finish_config b = Err e"
  shows "config_error_line e \<in> remembered_lines b"
proof (cases "close_scope b")
  case (Inl e')
  with assms close_scope_lines(2) [OF Inl] show ?thesis by (simp add: finish_config_def)
next
  case (Inr b')
  with assms have "config_error_line e \<in> sr_line_number ` set (unresolved_references b')"
    by (auto simp: finish_config_def result_simps intro: resolve_references_Err)
  with close_scope_lines(1) [OF Inr] show ?thesis by (auto simp: remembered_lines_def)
qed

section \<open>A reference printer\<close>

fun imprint_name :: "imprint_algorithm \<Rightarrow> string" where
  "imprint_name Sha256 = ''sha256''"
| "imprint_name Sha384 = ''sha384''"
| "imprint_name Sha512 = ''sha512''"

definition site_lines :: "string \<times> site \<Rightarrow> string list" where
  "site_lines named =
     [''Site '' @ fst named, ''URL '' @ site_url (snd named), ''Imprint '' @ imprint_name (site_imprint (snd named))]"

definition use_site_line :: "use_site \<Rightarrow> string" where
  "use_site_line u = ''UseSite '' @ us_site_name u @ (if continues_on_error u then '' ContinueOnError'' else [])"

definition profile_lines :: "string \<times> profile \<Rightarrow> string list" where
  "profile_lines named = (''Profile '' @ fst named) # map use_site_line (selections (snd named))"

definition config_text :: "(string \<times> site) list \<Rightarrow> (string \<times> profile) list \<Rightarrow> string" where
  "config_text ss ps = join_with [CHR 0x0A] (concat (map site_lines ss) @ concat (map profile_lines ps))"

lemma imprint_algorithm_of_name: "imprint_algorithm_of s = Some a \<longleftrightarrow> s = imprint_name a"
  by (cases a) (auto simp: imprint_algorithm_of_def IMPRINTS_def)

definition plain_token :: "string \<Rightarrow> bool" where
  "plain_token w \<longleftrightarrow> w \<noteq> [] \<and> (\<forall>b \<in> set w. is_ascii_graphic b)"

lemma plain_not_blank: "is_ascii_graphic b \<Longrightarrow> \<not> is_blank b \<and> b \<noteq> CHR 0x0A \<and> b \<noteq> CHR 0x0D"
  by (auto simp: is_ascii_graphic_def is_blank_def)

lemma split_blanks_plain: "\<forall>b \<in> set w. \<not> is_blank b \<Longrightarrow> split_blanks w = [w]"
  by (induction w) auto

lemma split_blanks_append: "\<forall>b \<in> set w. \<not> is_blank b \<Longrightarrow> split_blanks (w @ CHR '' '' # s) = w # split_blanks s"
  by (induction w) (auto simp: is_blank_def)

lemma split_blanks_join:
  "ws \<noteq> [] \<Longrightarrow> list_all plain_token ws \<Longrightarrow> split_blanks (join_with '' '' ws) = ws"
  by (induction ws rule: induct_list012)
    (auto simp: plain_token_def split_blanks_plain split_blanks_append plain_not_blank)

lemma join_with_last:
  "ws \<noteq> [] \<Longrightarrow> list_all plain_token ws \<Longrightarrow> join_with '' '' ws \<noteq> [] \<and> last (join_with '' '' ws) = last (last ws)"
  by (induction ws rule: induct_list012) (auto simp: plain_token_def)

lemma read_plain_line:
  assumes ws: "list_all plain_token (name # arguments)" and "hd name \<noteq> CHR ''#''"
  shows "read_config_line b (k, join_with '' '' (name # arguments)) = read_directive b name arguments (Suc k)"
proof -
  let ?l = "join_with '' '' (name # arguments)"
  have name: "name \<noteq> []" "\<not> is_blank (hd name)"
    using ws plain_not_blank by (auto simp: plain_token_def)
  have "last ?l \<noteq> CHR 0x0D" "?l \<noteq> []"
    using join_with_last [OF _ ws] ws plain_not_blank
    by (auto simp: plain_token_def list_all_iff split: if_splits) (metis last_in_set)
  then have cr: "strip_suffix [CHR 0x0D] ?l = None"
    by (auto simp: strip_suffix_None)
  have "hd ?l = hd name"
    using name by (cases arguments) auto
  then have comment: "\<not> starts_with ''#'' (dropWhile is_blank ?l)"
    using name assms(2) \<open>?l \<noteq> []\<close> by (cases ?l) (auto simp: starts_with_iff)
  have "filter (\<lambda>token. token \<noteq> []) (split_blanks ?l) = name # arguments"
    using split_blanks_join [OF _ ws] ws by (auto simp: plain_token_def list_all_iff filter_id_conv)
  with cr comment show ?thesis
    by (simp add: read_config_line_def)
qed

lemma alphanumeric_graphic: "is_ascii_alphanumeric b \<Longrightarrow> is_ascii_graphic b \<and> b \<noteq> CHR ''#''"
  by (auto simp: is_ascii_alphanumeric_def is_ascii_digit_def is_ascii_uppercase_def is_ascii_lowercase_def
      is_ascii_graphic_def)

lemma valid_name_plain:
  assumes "is_valid_name n"
  shows "plain_token n" "\<not> starts_with ''#'' n"
proof -
  have "is_ascii_graphic b" if "b \<in> set n" for b
    using assms that alphanumeric_graphic [of b] by (auto simp: is_valid_name_def list_all_iff is_ascii_graphic_def)
  then show "plain_token n" using assms by (simp add: plain_token_def is_valid_name_def)
  show "\<not> starts_with ''#'' n"
    using assms alphanumeric_graphic [of "hd n"] by (auto simp: is_valid_name_def starts_with_iff)
qed

lemma https_plain:
  assumes "is_https_url u"
  shows "plain_token u" "\<not> starts_with ''#'' u"
  using assms by (auto simp: is_https_url_def plain_token_def list_all_iff starts_with_iff strip_prefix_iff split: option.splits)

lemma plain_literals:
  "plain_token ''Site''" "plain_token ''URL''" "plain_token ''Imprint''" "plain_token ''Profile''"
  "plain_token ''UseSite''" "plain_token ''ContinueOnError''" "plain_token (imprint_name a)"
  "\<not> starts_with ''#'' (imprint_name a)"
  by (cases a; simp add: plain_token_def is_ascii_graphic_def starts_with_def)+

lemma read_printed_site:
  assumes close: "close_scope b = Ok c" and new: "cb_sites c n = None" and ok: "site_ok n s"
  shows "\<exists>b'. try_fold read_config_line b (List.enumerate k (site_lines (n, s))) = Ok b' \<and>
    close_scope b' = Ok (c\<lparr>cb_sites := (cb_sites c)(n \<mapsto> s)\<rparr>)"
proof -
  have name: "is_valid_name n" and url: "is_https_url (site_url s)" using ok by (simp_all add: site_ok_def)
  note plain = valid_name_plain [OF name] https_plain [OF url] plain_literals
  have lines: "''Site '' @ n = join_with '' '' [''Site'', n]" "''URL '' @ u = join_with '' '' [''URL'', u]"
    "''Imprint '' @ i = join_with '' '' [''Imprint'', i]" for u i by simp_all
  have top: "cb_scope c = TopLevel"
    using close by (auto simp: close_scope_def split: scope.splits option.splits if_splits)
  have restore: "c\<lparr>cb_scope := TopLevel, cb_sites := m\<rparr> = c\<lparr>cb_sites := m\<rparr>" for m
    using top by (cases c) simp
  let ?b = "\<lambda>u i. c\<lparr>cb_scope := SiteBlock \<lparr>ps_line_number = Suc k, ps_name = n, ps_url = u, ps_imprint = i\<rparr>\<rparr>"
  have 1: "read_config_line b (k, ''Site '' @ n) = Ok (?b None None)"
    unfolding lines using plain name new close
    by (subst read_plain_line) (simp_all add: read_directive_def open_site_def)
  have 2: "read_config_line (?b None None) (Suc k, ''URL '' @ site_url s) = Ok (?b (Some (site_url s)) None)"
    unfolding lines using plain url
    by (subst read_plain_line) (simp_all add: read_directive_def read_url_def)
  have 3: "read_config_line (?b (Some (site_url s)) None) (Suc (Suc k), ''Imprint '' @ imprint_name (site_imprint s))
      = Ok (?b (Some (site_url s)) (Some (site_imprint s)))"
    unfolding lines using plain imprint_algorithm_of_name [of "imprint_name (site_imprint s)" "site_imprint s"]
    by (subst read_plain_line) (simp_all add: read_directive_def read_imprint_def)
  have "try_fold read_config_line b (List.enumerate k (site_lines (n, s))) = Ok (?b (Some (site_url s)) (Some (site_imprint s)))"
    unfolding site_lines_def by (simp only: fst_conv snd_conv enumerate_simps try_fold.simps 1 2 3 and_then_Inr)
  moreover have "close_scope (?b (Some (site_url s)) (Some (site_imprint s))) = Ok (c\<lparr>cb_sites := (cb_sites c)(n \<mapsto> s)\<rparr>)"
    by (cases s) (simp add: close_scope_def restore)
  ultimately show ?thesis by blast
qed

lemma read_printed_sites:
  "close_scope b = Ok c \<Longrightarrow> distinct (map fst ss) \<Longrightarrow> \<forall>(n, s) \<in> set ss. cb_sites c n = None \<and> site_ok n s \<Longrightarrow>
    \<exists>b'. try_fold read_config_line b (List.enumerate k (concat (map site_lines ss))) = Ok b' \<and>
      close_scope b' = Ok (c\<lparr>cb_sites := cb_sites c ++ map_of ss\<rparr>)"
proof (induction ss arbitrary: b c k)
  case Nil
  then show ?case by (cases c) simp
next
  case (Cons x ss)
  obtain n s where x: "x = (n, s)" by (cases x)
  define f where "f = (cb_sites c)(n \<mapsto> s)"
  obtain b1 where b1: "try_fold read_config_line b (List.enumerate k (site_lines (n, s))) = Ok b1"
    "close_scope b1 = Ok (c\<lparr>cb_sites := f\<rparr>)"
    using read_printed_site [OF Cons.prems(1), of n s k] Cons.prems(3) by (auto simp: x f_def)
  have "\<forall>(m, t) \<in> set ss. cb_sites (c\<lparr>cb_sites := f\<rparr>) m = None \<and> site_ok m t"
    using Cons.prems(2,3) by (force simp: x f_def)
  from Cons.IH [OF b1(2) _ this, of "k + length (site_lines (n, s))"] Cons.prems(2) obtain b2 where
    b2: "try_fold read_config_line b1 (List.enumerate (k + length (site_lines (n, s))) (concat (map site_lines ss))) = Ok b2"
    "close_scope b2 = Ok (c\<lparr>cb_sites := f ++ map_of ss\<rparr>)"
    by (auto simp: x)
  have "n \<notin> dom (map_of ss)" using Cons.prems(2) by (simp add: x dom_map_of_conv_image_fst)
  then have all: "f ++ map_of ss = cb_sites c ++ map_of (x # ss)"
    by (auto simp: x f_def fun_eq_iff map_add_def split: option.splits)
  have "try_fold read_config_line b (List.enumerate k (concat (map site_lines (x # ss)))) = Ok b2"
    using b1(1) b2(1) by (simp add: x enumerate_append_eq try_fold_append)
  with b2(2) show ?case unfolding all by blast
qed

lemma read_printed_selections:
  "cb_scope b = ProfileBlock pending \<Longrightarrow> distinct (map us_site_name (pp_selections pending @ us)) \<Longrightarrow>
    \<forall>u \<in> set us. is_valid_name (us_site_name u) \<Longrightarrow>
    \<exists>refs. map sr_site_name refs = map us_site_name us \<and>
      try_fold read_config_line b (List.enumerate k (map use_site_line us)) =
        Ok (b\<lparr>cb_scope := ProfileBlock (pending\<lparr>pp_selections := pp_selections pending @ us\<rparr>),
             unresolved_references := unresolved_references b @ refs\<rparr>)"
proof (induction us arbitrary: b pending k)
  case Nil
  have "b\<lparr>cb_scope := ProfileBlock pending\<rparr> = b" using Nil(1) by (cases b) simp
  then show ?case by (intro exI [of _ "[]"]) simp
next
  case (Cons u us)
  let ?r = "\<lparr>sr_site_name = us_site_name u, sr_line_number = Suc k\<rparr>"
  let ?pending = "pending\<lparr>pp_selections := pp_selections pending @ [u]\<rparr>"
  let ?b = "b\<lparr>cb_scope := ProfileBlock ?pending, unresolved_references := unresolved_references b @ [?r]\<rparr>"
  have valid: "is_valid_name (us_site_name u)" using Cons.prems(3) by simp
  have "us_site_name u \<notin> us_site_name ` set (pp_selections pending)" using Cons.prems(2) by simp
  then have fresh: "\<forall>s \<in> set (pp_selections pending). us_site_name s \<noteq> us_site_name u" by (metis imageI)
  define args where "args = us_site_name u # (if continues_on_error u then [''ContinueOnError''] else [])"
  have line: "use_site_line u = join_with '' '' (''UseSite'' # args)"
    by (simp add: use_site_line_def args_def)
  have plain: "list_all plain_token (''UseSite'' # args)"
    using valid_name_plain [OF valid] plain_literals by (simp add: args_def)
  have comment: "\<not> list_ex (starts_with ''#'') args"
    using valid_name_plain [OF valid] by (simp add: args_def) (simp add: starts_with_def)
  have select: "selection_arguments args = Some (us_site_name u, continues_on_error u)"
    by (simp add: args_def selection_arguments_def)
  have "read_config_line b (k, use_site_line u) = read_directive b ''UseSite'' args (Suc k)"
    unfolding line by (rule read_plain_line [OF plain]) simp
  also have "\<dots> = read_selection b args (Suc k)"
    using comment by (simp add: read_directive_def)
  also have "\<dots> = Ok ?b"
    using select fresh Cons.prems(1) by (simp add: read_selection_def list_ex_iff)
  finally have "read_config_line b (k, use_site_line u) = Ok ?b" .
  moreover obtain refs where "map sr_site_name refs = map us_site_name us"
    "try_fold read_config_line ?b (List.enumerate (Suc k) (map use_site_line us)) =
      Ok (?b\<lparr>cb_scope := ProfileBlock (?pending\<lparr>pp_selections := pp_selections ?pending @ us\<rparr>),
           unresolved_references := unresolved_references ?b @ refs\<rparr>)"
    using Cons.IH [of ?b ?pending "Suc k"] Cons.prems(2,3) by auto
  ultimately show ?case
    by (intro exI [of _ "?r # refs"]) simp
qed

lemma read_printed_profile:
  assumes close: "close_scope b = Ok c" and new: "cb_profiles c n = None" and ok: "profile_ok names n p"
    and valid: "\<forall>m \<in> names. is_valid_name m"
  shows "\<exists>b' refs. try_fold read_config_line b (List.enumerate k (profile_lines (n, p))) = Ok b' \<and>
    sr_site_name ` set refs \<subseteq> names \<and>
    close_scope b' = Ok (c\<lparr>cb_profiles := (cb_profiles c)(n \<mapsto> p), unresolved_references := unresolved_references c @ refs\<rparr>)"
proof -
  have name: "is_valid_name n" and us: "selections p \<noteq> []" "distinct (map us_site_name (selections p))"
    "us_site_name ` set (selections p) \<subseteq> names"
    using ok by (simp_all add: profile_ok_def selections_ok_def)
  have top: "cb_scope c = TopLevel"
    using close by (auto simp: close_scope_def split: scope.splits option.splits if_splits)
  let ?b = "c\<lparr>cb_scope := ProfileBlock \<lparr>pp_line = Suc k, pp_name = n, pp_selections = []\<rparr>\<rparr>"
  have line: "''Profile '' @ n = join_with '' '' [''Profile'', n]" by simp
  have 1: "read_config_line b (k, ''Profile '' @ n) = Ok ?b"
    unfolding line using valid_name_plain [OF name] plain_literals name new close
    by (subst read_plain_line) (simp_all add: read_directive_def open_profile_def)
  obtain refs where refs: "map sr_site_name refs = map us_site_name (selections p)"
    "try_fold read_config_line ?b (List.enumerate (Suc k) (map use_site_line (selections p))) =
      Ok (?b\<lparr>cb_scope := ProfileBlock \<lparr>pp_line = Suc k, pp_name = n, pp_selections = selections p\<rparr>,
        unresolved_references := unresolved_references c @ refs\<rparr>)"
    using read_printed_selections [of ?b _ "selections p" "Suc k"] us valid by auto
  have "sr_site_name ` set refs \<subseteq> names"
    using refs(1) us(3) by (metis list.set_map)
  moreover have "try_fold read_config_line b (List.enumerate k (profile_lines (n, p))) =
      Ok (?b\<lparr>cb_scope := ProfileBlock \<lparr>pp_line = Suc k, pp_name = n, pp_selections = selections p\<rparr>,
        unresolved_references := unresolved_references c @ refs\<rparr>)"
    unfolding profile_lines_def fst_conv snd_conv enumerate_simps try_fold.simps 1 and_then_Inr by (rule refs(2))
  moreover have "close_scope (?b\<lparr>cb_scope := ProfileBlock \<lparr>pp_line = Suc k, pp_name = n, pp_selections = selections p\<rparr>,
        unresolved_references := unresolved_references c @ refs\<rparr>)
      = Ok (c\<lparr>cb_profiles := (cb_profiles c)(n \<mapsto> p), unresolved_references := unresolved_references c @ refs\<rparr>)"
    using us(1) top by (cases c; cases p) (simp add: close_scope_def)
  ultimately show ?thesis by blast
qed

lemma read_printed_profiles:
  "close_scope b = Ok c \<Longrightarrow> distinct (map fst ps) \<Longrightarrow> \<forall>(n, p) \<in> set ps. cb_profiles c n = None \<and> profile_ok names n p \<Longrightarrow>
    \<forall>m \<in> names. is_valid_name m \<Longrightarrow>
    \<exists>b' refs. try_fold read_config_line b (List.enumerate k (concat (map profile_lines ps))) = Ok b' \<and>
      sr_site_name ` set refs \<subseteq> names \<and>
      close_scope b' = Ok (c\<lparr>cb_profiles := cb_profiles c ++ map_of ps,
        unresolved_references := unresolved_references c @ refs\<rparr>)"
proof (induction ps arbitrary: b c k)
  case Nil
  then show ?case by (cases c) (simp add: exI [of _ "[]"])
next
  case (Cons x ps)
  obtain n p where x: "x = (n, p)" by (cases x)
  define f where "f = (cb_profiles c)(n \<mapsto> p)"
  obtain b1 refs1 where b1: "try_fold read_config_line b (List.enumerate k (profile_lines (n, p))) = Ok b1"
    "sr_site_name ` set refs1 \<subseteq> names"
    "close_scope b1 = Ok (c\<lparr>cb_profiles := f, unresolved_references := unresolved_references c @ refs1\<rparr>)"
    using read_printed_profile [OF Cons.prems(1), of n names p k] Cons.prems(3,4) by (auto simp: x f_def)
  have "\<forall>(m, t) \<in> set ps. cb_profiles (c\<lparr>cb_profiles := f, unresolved_references := unresolved_references c @ refs1\<rparr>) m = None
      \<and> profile_ok names m t"
    using Cons.prems(2,3) by (force simp: x f_def)
  from Cons.IH [OF b1(3) _ this Cons.prems(4), of "k + length (profile_lines (n, p))"] Cons.prems(2) obtain b2 refs2 where
    b2: "try_fold read_config_line b1 (List.enumerate (k + length (profile_lines (n, p))) (concat (map profile_lines ps))) = Ok b2"
    "sr_site_name ` set refs2 \<subseteq> names"
    "close_scope b2 = Ok (c\<lparr>cb_profiles := f ++ map_of ps, unresolved_references := unresolved_references c @ refs1 @ refs2\<rparr>)"
    by (auto simp: x)
  have "n \<notin> dom (map_of ps)" using Cons.prems(2) by (simp add: x dom_map_of_conv_image_fst)
  then have all: "f ++ map_of ps = cb_profiles c ++ map_of (x # ps)"
    by (auto simp: x f_def fun_eq_iff map_add_def split: option.splits)
  have "try_fold read_config_line b (List.enumerate k (concat (map profile_lines (x # ps)))) = Ok b2"
    using b1(1) b2(1) by (simp add: x enumerate_append_eq try_fold_append)
  moreover have "sr_site_name ` set (refs1 @ refs2) \<subseteq> names" using b1(2) b2(2) by auto
  ultimately show ?case using b2(3) unfolding all by blast
qed

definition spoken :: "string \<Rightarrow> bool" where
  "spoken l \<longleftrightarrow> (\<exists>ws. list_all plain_token ws \<and> l = join_with '' '' ws)"

lemma spoken_join: "list_all plain_token ws \<Longrightarrow> spoken (join_with '' '' ws)"
  by (auto simp: spoken_def)

lemma spoken_no_newline: "spoken l \<Longrightarrow> CHR 0x0A \<notin> set l"
  using set_join_with [of "'' ''"] plain_not_blank by (fastforce simp: spoken_def plain_token_def list_all_iff)

lemma site_lines_spoken:
  assumes "site_ok n s" and "l \<in> set (site_lines (n, s))"
  shows "spoken l"
  using assms spoken_join [of "[''Site'', n]"] spoken_join [of "[''URL'', site_url s]"]
    spoken_join [of "[''Imprint'', imprint_name (site_imprint s)]"] valid_name_plain(1) [of n] https_plain(1) [of "site_url s"]
    plain_literals
  by (auto simp: site_lines_def site_ok_def)

lemma use_site_line_spoken: "is_valid_name (us_site_name u) \<Longrightarrow> spoken (use_site_line u)"
  using spoken_join [of "''UseSite'' # us_site_name u # (if continues_on_error u then [''ContinueOnError''] else [])"]
    valid_name_plain(1) [of "us_site_name u"] plain_literals
  by (auto simp: use_site_line_def)

lemma profile_lines_spoken:
  assumes "profile_ok names n p" and "\<forall>m \<in> names. is_valid_name m" and "l \<in> set (profile_lines (n, p))"
  shows "spoken l"
  using assms spoken_join [of "[''Profile'', n]"] valid_name_plain(1) [of n] plain_literals
  by (auto simp: profile_lines_def profile_ok_def selections_ok_def intro!: use_site_line_spoken)

lemma parse_printed:
  assumes "distinct (map fst ss)" and "distinct (map fst ps)"
    and ok: "\<forall>(n, s) \<in> set ss. site_ok n s" "\<forall>(n, p) \<in> set ps. profile_ok (fst ` set ss) n p"
  shows "parse_config (config_text ss ps) = Ok \<lparr>sites = map_of ss, profiles = map_of ps\<rparr>"
proof -
  let ?lines = "concat (map site_lines ss) @ concat (map profile_lines ps)"
  let ?k = "length (concat (map site_lines ss))"
  have names: "\<forall>m \<in> fst ` set ss. is_valid_name m" using ok(1) by (auto simp: site_ok_def)
  have top: "close_scope empty_config_builder = Ok empty_config_builder"
    by (simp add: close_scope_def empty_config_builder_def)
  obtain b1 where b1: "try_fold read_config_line empty_config_builder (List.enumerate 0 (concat (map site_lines ss))) = Ok b1"
    "close_scope b1 = Ok (empty_config_builder\<lparr>cb_sites := map_of ss\<rparr>)"
    using read_printed_sites [OF top assms(1), of 0] ok(1) by (auto simp: empty_config_builder_def)
  obtain b2 refs where b2: "try_fold read_config_line b1 (List.enumerate ?k (concat (map profile_lines ps))) = Ok b2"
    "sr_site_name ` set refs \<subseteq> fst ` set ss"
    "close_scope b2 = Ok \<lparr>cb_scope = TopLevel, cb_sites = map_of ss, cb_profiles = map_of ps, unresolved_references = refs\<rparr>"
    using read_printed_profiles [OF b1(2) assms(2) _ names, of ?k] ok(2) by (auto simp: empty_config_builder_def)
  have newline: "CHR 0x0A \<notin> set l" if "l \<in> set ?lines" for l
    using that ok names profile_lines_spoken [OF _ names, of _ _ l]
    by (fastforce intro!: spoken_no_newline dest: site_lines_spoken)
  have run: "try_fold read_config_line empty_config_builder (List.enumerate 0 ?lines) = Ok b2"
    using b1(1) b2(1) by (simp add: enumerate_append_eq try_fold_append)
  have finish: "finish_config b2 = Ok \<lparr>sites = map_of ss, profiles = map_of ps\<rparr>"
    using b2(2) by (auto simp: finish_config_def b2(3) result_simps resolve_references_Ok dom_map_of_conv_image_fst)
  show ?thesis
  proof (cases "?lines = []")
    case True
    then have "b2 = empty_config_builder" using run unfolding True by simp
    with finish show ?thesis
      unfolding parse_config_def config_text_def True
      by (simp add: read_config_line_def strip_suffix_def starts_with_def)
  next
    case False
    then have "split_on (CHR 0x0A) (config_text ss ps) = ?lines"
      unfolding config_text_def using newline by (intro split_join)
    with run finish show ?thesis by (simp add: parse_config_def)
  qed
qed

section \<open>Properties\<close>

definition sample_site :: site where
  "sample_site = \<lparr>site_url = ''https://t.example'', site_imprint = Sha256\<rparr>"

definition sample_profile :: profile where
  "sample_profile = \<lparr>selections = [\<lparr>us_site_name = ''one'', continues_on_error = True\<rparr>]\<rparr>"

lemma sample_config_ok:
  "site_ok ''one'' sample_site" "profile_ok {''one''} ''p'' sample_profile"
  by (simp_all add: site_ok_def profile_ok_def selections_ok_def is_valid_name_def MAX_NAME_LENGTH_def
      is_ascii_alphanumeric_def is_ascii_digit_def is_ascii_uppercase_def is_ascii_lowercase_def is_https_url_def
      is_ascii_graphic_def sample_site_def sample_profile_def)

lemma parse_config_ok:
  assumes "parse_config input = Ok c"
  shows "config_ok c"
proof -
  from assms obtain b where b: "try_fold read_config_line empty_config_builder
      (List.enumerate 0 (split_on (CHR 0x0A) input)) = Ok b" "finish_config b = Ok c"
    by (auto simp: parse_config_def result_simps)
  show ?thesis by (rule finish_config_ok [OF config_reader.loop_inv [OF empty_config_builder_ok b(1)] b(2)])
qed

text \<open>
  C35: an accepted configuration is well formed: every site and profile name is valid, every URL is an
  https URL, and every profile selects at least one site, each once and only defined ones.
\<close>

theorem accepted_config_ok:
  assumes "parse_config input = Ok c"
  shows "(\<forall>n s. sites c n = Some s \<longrightarrow> is_valid_name n \<and> is_https_url (site_url s))
    \<and> (\<forall>n p. profiles c n = Some p \<longrightarrow> is_valid_name n \<and> selections p \<noteq> []
        \<and> distinct (map us_site_name (selections p)) \<and> us_site_name ` set (selections p) \<subseteq> dom (sites c))"
  using parse_config_ok [OF assms] by (auto simp: config_ok_def site_ok_def profile_ok_def selections_ok_def)

text \<open>Whatever \<open>parse\<close> rejects, the line its error names is a line of the text.
\<close>

theorem config_error_names_a_line:
  assumes "parse_config input = Err e"
  shows "1 \<le> config_error_line e \<and> config_error_line e \<le> length (split_on (CHR 0x0A) input)"
proof (cases "try_fold read_config_line empty_config_builder (List.enumerate 0 (split_on (CHR 0x0A) input))")
  case (Inl e')
  with assms read_config_lines [of empty_config_builder 0 "split_on (CHR 0x0A) input"] show ?thesis
    by (simp add: parse_config_def remembered_lines_def empty_config_builder_def)
next
  case (Inr b)
  with assms have "finish_config b = Err e" by (simp add: parse_config_def)
  from finish_config_Err [OF this] Inr read_config_lines [of empty_config_builder 0 "split_on (CHR 0x0A) input"]
  show ?thesis by (auto simp: remembered_lines_def empty_config_builder_def)
qed

theorem config_error_names_a_line_witness:
  "parse_config ''Profile p'' = Err (EmptyProfile 1) \<and> (1 :: nat) \<le> length (split_on (CHR 0x0A) ''Profile p'')"
proof -
  have e: "parse_config ''Profile p'' = Err (EmptyProfile 1)"
    by (simp add: parse_config_def read_config_line_def strip_suffix_def is_blank_def starts_with_def
        read_directive_def open_profile_def is_valid_name_def MAX_NAME_LENGTH_def is_ascii_alphanumeric_def
        is_ascii_digit_def is_ascii_uppercase_def is_ascii_lowercase_def empty_config_builder_def
        close_scope_def finish_config_def)
  from config_error_names_a_line [OF e] e show ?thesis by simp
qed

text \<open>The reader inverts the reference printer: the text that lists well-formed sites and profiles
  parses to exactly those sites and profiles.
\<close>

theorem config_roundtrip:
  assumes "distinct (map fst ss)" and "distinct (map fst ps)"
    and "\<forall>(n, s) \<in> set ss. is_valid_name n \<and> is_https_url (site_url s)"
    and "\<forall>(n, p) \<in> set ps. is_valid_name n \<and> selections p \<noteq> [] \<and> distinct (map us_site_name (selections p))
      \<and> us_site_name ` set (selections p) \<subseteq> fst ` set ss"
  shows "parse_config (config_text ss ps) = Ok \<lparr>sites = map_of ss, profiles = map_of ps\<rparr>"
  using parse_printed [OF assms(1,2)] assms(3,4)
  by (auto simp: site_ok_def profile_ok_def selections_ok_def)

theorem config_roundtrip_witness:
  "parse_config (config_text [(''one'', sample_site)] [(''p'', sample_profile)])
     = Ok \<lparr>sites = [''one'' \<mapsto> sample_site], profiles = [''p'' \<mapsto> sample_profile]\<rparr>"
  using config_roundtrip [of "[(''one'', sample_site)]" "[(''p'', sample_profile)]"] sample_config_ok
  by (simp add: site_ok_def profile_ok_def selections_ok_def)

theorem accepted_config_ok_witness:
  "\<exists>input c. parse_config input = Ok c \<and> sites c ''one'' = Some sample_site \<and> is_https_url (site_url sample_site)
     \<and> us_site_name ` set (selections sample_profile) \<subseteq> dom (sites c)"
proof -
  let ?c = "\<lparr>sites = [''one'' \<mapsto> sample_site], profiles = [''p'' \<mapsto> sample_profile]\<rparr>"
  have c: "parse_config (config_text [(''one'', sample_site)] [(''p'', sample_profile)]) = Ok ?c"
    using parse_printed [of "[(''one'', sample_site)]" "[(''p'', sample_profile)]"] sample_config_ok by simp
  from accepted_config_ok [OF c]
  have "is_https_url (site_url sample_site)" "us_site_name ` set (selections sample_profile) \<subseteq> dom (sites ?c)"
    by auto
  with c show ?thesis by (metis config.select_convs(1) fun_upd_same)
qed

end
