(* ===== verification/Ordered_Map.thy ===== *)
theory Ordered_Map
  imports Prelude
begin

text \<open>
  The interface of \<open>BTreeMap\<close> the sources rely on - lookup, insertion, keys in ascending order - and
  its implementation as a strictly ascending association list, so that the definitions that use one
  evaluate. The loop that indexes a list by a key is proved once, over the interface.
\<close>

section \<open>The interface\<close>

locale ordered_map =
  fixes empty :: "'m"
    and get :: "'m \<Rightarrow> 'k :: linorder \<Rightarrow> 'v option"
    and put :: "'k \<Rightarrow> 'v \<Rightarrow> 'm \<Rightarrow> 'm"
    and keys :: "'m \<Rightarrow> 'k list"
    and wf :: "'m \<Rightarrow> bool"
  assumes wf_empty: "wf empty" and get_empty: "get empty = Map.empty"
    and wf_put: "wf m \<Longrightarrow> wf (put k v m)"
    and get_put: "wf m \<Longrightarrow> get (put k v m) = (get m)(k \<mapsto> v)"
    and keys_sorted: "wf m \<Longrightarrow> sorted_wrt (<) (keys m)"
    and set_keys: "wf m \<Longrightarrow> set (keys m) = dom (get m)"
begin

lemma index_loop:
  "wf m \<Longrightarrow>
    (case try_fold (\<lambda>m x. if get m (key x) \<noteq> None then Err (err x) else Ok (put (key x) x m)) m xs of
       Inl e \<Rightarrow> \<exists>x \<in> set xs. e = err x \<and> (key x \<in> dom (get m) \<or> \<not> distinct (map key xs))
     | Inr m' \<Rightarrow> wf m' \<and> distinct (map key xs) \<and> key ` set xs \<inter> dom (get m) = {} \<and>
         get m' = get m ++ map_of (map (\<lambda>x. (key x, x)) xs))"
proof (induction xs arbitrary: m)
  case Nil
  then show ?case by simp
next
  case (Cons x xs)
  show ?case
  proof (cases "get m (key x)")
    case (Some y)
    then show ?thesis by auto
  next
    case None
    let ?f = "\<lambda>m x. if get m (key x) \<noteq> None then Err (err x) else Ok (put (key x) x m)"
    have wf: "wf (put (key x) x m)" using Cons.prems by (rule wf_put)
    have get: "get (put (key x) x m) = (get m)(key x \<mapsto> x)" using Cons.prems by (rule get_put)
    have step: "try_fold ?f m (x # xs) = try_fold ?f (put (key x) x m) xs" using None by simp
    show ?thesis
    proof (cases "try_fold ?f (put (key x) x m) xs")
      case (Inl e)
      with Cons.IH [OF wf] obtain z where "z \<in> set xs" "e = err z"
        "key z \<in> dom (get (put (key x) x m)) \<or> \<not> distinct (map key xs)" by auto
      then show ?thesis unfolding step Inl sum.case
        by (intro bexI [of _ z]) (auto simp: get split: if_splits intro: rev_image_eqI)
    next
      case (Inr m')
      from Cons.IH [OF wf] have IH: "wf m'" "distinct (map key xs)"
        "key ` set xs \<inter> dom (get (put (key x) x m)) = {}"
        "get m' = get (put (key x) x m) ++ map_of (map (\<lambda>x. (key x, x)) xs)"
        unfolding Inr by simp_all
      from IH(3) have fresh: "key x \<notin> key ` set xs" "key ` set xs \<inter> dom (get m) = {}" by (auto simp: get)
      then have "key x \<notin> dom (map_of (map (\<lambda>x. (key x, x)) xs))"
        by (simp add: dom_map_of_conv_image_fst image_image)
      then have "(get m)(key x \<mapsto> x) ++ map_of (map (\<lambda>x. (key x, x)) xs)
          = get m ++ map_of (map (\<lambda>x. (key x, x)) (x # xs))"
        by (auto simp: map_add_def fun_eq_iff split: option.splits)
      with IH fresh None show ?thesis unfolding step Inr sum.case by (simp add: get) auto
    qed
  qed
qed

end

section \<open>Strictly ascending association lists\<close>

type_synonym ('k, 'v) btree = "('k \<times> 'v) list"

fun btree_insert :: "'k :: linorder \<Rightarrow> 'v \<Rightarrow> ('k, 'v) btree \<Rightarrow> ('k, 'v) btree" where
  "btree_insert k v [] = [(k, v)]"
| "btree_insert k v ((k', v') # m) =
     (if k < k' then (k, v) # (k', v') # m
      else if k = k' then (k, v) # m
      else (k', v') # btree_insert k v m)"

definition btree_keys :: "('k, 'v) btree \<Rightarrow> 'k list" where
  "btree_keys m = map fst m"

definition btree_ok :: "('k :: linorder, 'v) btree \<Rightarrow> bool" where
  "btree_ok m \<longleftrightarrow> sorted_wrt (<) (map fst m)"

lemma set_btree_insert: "fst ` set (btree_insert k v m) = insert k (fst ` set m)"
  by (induction k v m rule: btree_insert.induct) auto

lemma btree_ok_insert: "btree_ok m \<Longrightarrow> btree_ok (btree_insert k v m)"
proof (induction k v m rule: btree_insert.induct)
  case (2 k v k' v' m)
  then show ?case
    using set_btree_insert [of k v m] by (fastforce simp: btree_ok_def)
qed (simp add: btree_ok_def)

lemma map_of_btree_insert: "btree_ok m \<Longrightarrow> map_of (btree_insert k v m) = (map_of m)(k \<mapsto> v)"
proof (induction k v m rule: btree_insert.induct)
  case (2 k v k' v' m)
  then show ?case by (auto simp: btree_ok_def fun_eq_iff)
qed auto

lemma btree_interface:
  "btree_ok []" "map_of [] = Map.empty" "btree_ok m \<Longrightarrow> sorted_wrt (<) (btree_keys m)"
  "set (btree_keys m) = dom (map_of m)"
  by (simp_all add: btree_ok_def btree_keys_def dom_map_of_conv_image_fst)

interpretation btree: ordered_map "[]" map_of btree_insert btree_keys btree_ok
  by unfold_locales (simp_all only: btree_interface btree_ok_insert map_of_btree_insert)

lemma btree_mem: "btree_ok m \<Longrightarrow> (k, v) \<in> set m \<longleftrightarrow> map_of m k = Some v"
  by (auto simp: btree_ok_def strict_sorted_iff intro: map_of_SomeD)

end
