(* ===== verification/Tree_Agreement.thy ===== *)
theory Tree_Agreement
  imports Manifest_Model Ordered_Map
begin

text \<open>
  \<open>crates/tydence/src/verify/tree.rs\<close>: check 2 of verification, the bidirectional agreement of the
  manifest's entries with the tree's. The \<open>BTreeMap\<close> indexes are the ascending association lists of
  theory \<open>Ordered_Map\<close>; the loops over them keep their order.
\<close>

section \<open>The check\<close>

datatype disagreement =
  MissingFromTree bytes
  | MissingFromManifest bytes
  | ConflictingContent entry entry

fun disagreement_path :: "disagreement \<Rightarrow> bytes" where
  "disagreement_path (MissingFromTree path) = path"
| "disagreement_path (MissingFromManifest path) = path"
| "disagreement_path (ConflictingContent manifest_entry _) = entry_path manifest_entry"

datatype tree_error =
  DuplicateManifestPath bytes
  | DuplicateTreePath bytes
  | Disagreements "disagreement list"

text \<open>\<open>Display\<close>; \<open>lossy\<close> is \<open>String::from_utf8_lossy\<close> of the standard library.\<close>

fun disagreement_display :: "(bytes \<Rightarrow> string) \<Rightarrow> disagreement \<Rightarrow> string" where
  "disagreement_display lossy (MissingFromTree path) = lossy path @ '' is not in the tree''"
| "disagreement_display lossy (MissingFromManifest path) = lossy path @ '' is not in the manifest''"
| "disagreement_display lossy (ConflictingContent manifest_entry _) =
     lossy (entry_path manifest_entry) @ '' differs between manifest and tree''"

fun tree_error_display :: "(bytes \<Rightarrow> string) \<Rightarrow> tree_error \<Rightarrow> string" where
  "tree_error_display lossy (DuplicateManifestPath path) = ''the manifest lists '' @ lossy path @ '' twice''"
| "tree_error_display lossy (DuplicateTreePath path) = ''the tree enumeration lists '' @ lossy path @ '' twice''"
| "tree_error_display lossy (Disagreements disagreements) =
     ''manifest and tree disagree on '' @ decimal (length disagreements) @ '' path(s):''
     @ concat (map (\<lambda>d. '' ['' @ disagreement_display lossy d @ '']'') disagreements)"

definition index_by_path :: "entry list \<Rightarrow> (bytes, (bytes, entry) btree) result" where
  "index_by_path es =
     try_fold (\<lambda>index e. if map_of index (entry_path e) \<noteq> None then Err (entry_path e)
       else Ok (btree_insert (entry_path e) e index)) [] es"

definition compare_manifest_entry ::
  "(bytes, entry) btree \<Rightarrow> disagreement list \<Rightarrow> bytes \<times> entry \<Rightarrow> disagreement list" where
  "compare_manifest_entry tree_index found listed =
     (case map_of tree_index (fst listed) of
        None \<Rightarrow> found @ [MissingFromTree (fst listed)]
      | Some tree_entry \<Rightarrow>
          if tree_entry \<noteq> snd listed then found @ [ConflictingContent (snd listed) tree_entry] else found)"

definition compare_tree_path ::
  "(bytes, entry) btree \<Rightarrow> disagreement list \<Rightarrow> bytes \<Rightarrow> disagreement list" where
  "compare_tree_path manifest_index found path =
     (if map_of manifest_index path = None then found @ [MissingFromManifest path] else found)"

definition verify_tree :: "entry list \<Rightarrow> entry list \<Rightarrow> (tree_error, unit) result" where
  "verify_tree manifest_entries tree_entries =
     and_then (map_err DuplicateManifestPath (index_by_path manifest_entries)) (\<lambda>manifest_index.
     and_then (map_err DuplicateTreePath (index_by_path tree_entries)) (\<lambda>tree_index.
       let missing_or_conflicting = foldl (compare_manifest_entry tree_index) [] manifest_index;
           disagreements = foldl (compare_tree_path manifest_index) missing_or_conflicting (btree_keys tree_index)
       in if disagreements = [] then Ok () else Err (Disagreements disagreements)))"

section \<open>Indexes\<close>

lemma index_by_path_Ok:
  assumes "index_by_path es = Ok index"
  shows "btree_ok index" "distinct (map entry_path es)" "map_of index p = Some e \<longleftrightarrow> e \<in> set es \<and> entry_path e = p"
proof -
  have *: "btree_ok index \<and> distinct (map entry_path es) \<and> map_of index = map_of (map (\<lambda>e. (entry_path e, e)) es)"
    using btree.index_loop [where m = "[]" and key = entry_path and err = entry_path and xs = es] assms
    by (simp add: index_by_path_def btree_interface)
  then show "btree_ok index" "distinct (map entry_path es)" by simp_all
  have "distinct (map fst (map (\<lambda>e. (entry_path e, e)) es))" using * by (simp add: o_def)
  from map_of_eq_Some_iff [OF this] * show "map_of index p = Some e \<longleftrightarrow> e \<in> set es \<and> entry_path e = p"
    by auto
qed

lemma index_by_path_Err: "index_by_path es = Err p \<Longrightarrow> \<not> distinct (map entry_path es) \<and> p \<in> entry_path ` set es"
  using btree.index_loop [where m = "[]" and key = entry_path and err = entry_path and xs = es]
  by (auto simp: index_by_path_def btree_interface)

lemma index_by_path_cases:
  "(\<exists>index. index_by_path es = Ok index) \<longleftrightarrow> distinct (map entry_path es)"
  using index_by_path_Ok(2) index_by_path_Err by (cases "index_by_path es") blast+

section \<open>What the loops collect\<close>

definition manifest_side :: "(bytes, entry) btree \<Rightarrow> bytes \<times> entry \<Rightarrow> disagreement list" where
  "manifest_side tree_index listed = compare_manifest_entry tree_index [] listed"

definition tree_side :: "(bytes, entry) btree \<Rightarrow> bytes \<Rightarrow> disagreement list" where
  "tree_side manifest_index path = compare_tree_path manifest_index [] path"

lemma compare_manifest_fold:
  "foldl (compare_manifest_entry t) found m = found @ concat (map (manifest_side t) m)"
proof (induction m arbitrary: found)
  case (Cons x m)
  have "compare_manifest_entry t found x = found @ manifest_side t x" for found
    by (simp add: compare_manifest_entry_def manifest_side_def split: option.split)
  with Cons show ?case by simp
qed simp

lemma compare_tree_fold:
  "foldl (compare_tree_path m) found ps = found @ concat (map (tree_side m) ps)"
proof (induction ps arbitrary: found)
  case (Cons x ps)
  have "compare_tree_path m found x = found @ tree_side m x" for found
    by (simp add: compare_tree_path_def tree_side_def)
  with Cons show ?case by simp
qed simp

definition disagreements_of :: "(bytes, entry) btree \<Rightarrow> (bytes, entry) btree \<Rightarrow> disagreement list" where
  "disagreements_of m t = concat (map (manifest_side t) m) @ concat (map (tree_side m) (btree_keys t))"

lemma verify_tree_indexed:
  assumes "index_by_path ms = Ok m" and "index_by_path ts = Ok t"
  shows "verify_tree ms ts = (if disagreements_of m t = [] then Ok () else Err (Disagreements (disagreements_of m t)))"
  using assms by (simp add: verify_tree_def Let_def compare_manifest_fold compare_tree_fold disagreements_of_def)

lemma set_disagreements:
  assumes m: "index_by_path ms = Ok m" and t: "index_by_path ts = Ok t"
  shows "d \<in> set (disagreements_of m t) \<longleftrightarrow>
    (case d of
       MissingFromTree p \<Rightarrow> p \<in> entry_path ` set ms \<and> p \<notin> entry_path ` set ts
     | MissingFromManifest p \<Rightarrow> p \<in> entry_path ` set ts \<and> p \<notin> entry_path ` set ms
     | ConflictingContent e f \<Rightarrow> e \<in> set ms \<and> f \<in> set ts \<and> entry_path e = entry_path f \<and> e \<noteq> f)"
proof -
  have listed: "(p, e) \<in> set m \<longleftrightarrow> e \<in> set ms \<and> entry_path e = p" for p e
    using btree_mem [OF index_by_path_Ok(1) [OF m]] index_by_path_Ok(3) [OF m] by blast
  have none: "map_of m p = None \<longleftrightarrow> p \<notin> entry_path ` set ms" for p
    using index_by_path_Ok(3) [OF m, of p] by (metis (no_types, lifting) image_iff not_None_eq)
  have none': "map_of t p = None \<longleftrightarrow> p \<notin> entry_path ` set ts" for p
    using index_by_path_Ok(3) [OF t, of p] by (metis (no_types, lifting) image_iff not_None_eq)
  have keys: "set (btree_keys t) = entry_path ` set ts"
    unfolding btree_interface(4) by (rule set_eqI) (simp only: domIff none' not_not)
  have found: "map_of t p = Some f \<longleftrightarrow> f \<in> set ts \<and> entry_path f = p" for p f
    by (rule index_by_path_Ok(3) [OF t])
  have side: "d \<in> set (manifest_side t (p, e)) \<longleftrightarrow>
      (d = MissingFromTree p \<and> map_of t p = None) \<or> (\<exists>f. d = ConflictingContent e f \<and> map_of t p = Some f \<and> f \<noteq> e)"
    for p e by (auto simp: manifest_side_def compare_manifest_entry_def split: option.split)
  have "d \<in> set (disagreements_of m t) \<longleftrightarrow> (\<exists>p e. (p, e) \<in> set m \<and> d \<in> set (manifest_side t (p, e)))
      \<or> (\<exists>p \<in> set (btree_keys t). d = MissingFromManifest p \<and> map_of m p = None)"
    by (auto simp: disagreements_of_def tree_side_def compare_tree_path_def split: if_splits)
  then show ?thesis
    unfolding listed side none none' found keys by (cases d) auto
qed

section \<open>Properties\<close>

lemma verify_tree_Ok:
  "verify_tree manifest_entries tree_entries = Ok () \<longleftrightarrow>
     distinct (map entry_path manifest_entries) \<and> distinct (map entry_path tree_entries)
     \<and> set manifest_entries = set tree_entries"
proof (cases "\<exists>m t. index_by_path manifest_entries = Ok m \<and> index_by_path tree_entries = Ok t")
  case False
  then show ?thesis
    using index_by_path_cases by (auto simp: verify_tree_def result_simps)
next
  case True
  then obtain m t where m: "index_by_path manifest_entries = Ok m" and t: "index_by_path tree_entries = Ok t"
    by blast
  note d = set_disagreements [OF m t]
  have "disagreements_of m t = [] \<longleftrightarrow> set manifest_entries = set tree_entries"
  proof
    assume "disagreements_of m t = []"
    then have "\<not> d \<in> set (disagreements_of m t)" for d by simp
    note none = this [unfolded d]
    have "e \<in> set tree_entries" if "e \<in> set manifest_entries" for e
      using none [of "MissingFromTree (entry_path e)"] none [of "ConflictingContent e _"] that by auto
    moreover have "e \<in> set manifest_entries" if "e \<in> set tree_entries" for e
      using none [of "MissingFromManifest (entry_path e)"] none [of "ConflictingContent _ e"] that by force
    ultimately show "set manifest_entries = set tree_entries" by blast
  next
    assume eq: "set manifest_entries = set tree_entries"
    have "d \<notin> set (disagreements_of m t)" for d
      unfolding d eq using index_by_path_Ok(2) [OF t]
      by (auto simp: distinct_map dest: inj_onD split: disagreement.splits)
    then show "disagreements_of m t = []" by (cases "disagreements_of m t") auto
  qed
  with index_by_path_Ok(2) [OF m] index_by_path_Ok(2) [OF t] show ?thesis
    by (simp add: verify_tree_indexed [OF m t])
qed

text \<open>The check passes exactly when both sides list each path once and list the same entries: same
  paths, modes, sizes and hashes in both directions.
\<close>

theorem verify_tree_passes_iff:
  "verify_tree manifest_entries tree_entries = Ok () \<longleftrightarrow>
     distinct (map entry_path manifest_entries) \<and> distinct (map entry_path tree_entries)
     \<and> set manifest_entries = set tree_entries"
  by (rule verify_tree_Ok)

text \<open>
  C36: when the check reports disagreements, the report is exact: every path only one side lists,
  every pair of entries that differ under one path, and nothing else.
\<close>

theorem disagreements_exact:
  assumes "verify_tree manifest_entries tree_entries = Err (Disagreements ds)"
  shows "(MissingFromTree p \<in> set ds \<longleftrightarrow> p \<in> entry_path ` set manifest_entries - entry_path ` set tree_entries)
    \<and> (MissingFromManifest p \<in> set ds \<longleftrightarrow> p \<in> entry_path ` set tree_entries - entry_path ` set manifest_entries)
    \<and> (ConflictingContent e f \<in> set ds \<longleftrightarrow>
        e \<in> set manifest_entries \<and> f \<in> set tree_entries \<and> entry_path e = entry_path f \<and> e \<noteq> f)"
proof -
  from assms obtain m t where m: "index_by_path manifest_entries = Ok m" and t: "index_by_path tree_entries = Ok t"
    by (cases "index_by_path manifest_entries"; cases "index_by_path tree_entries") (auto simp: verify_tree_def)
  with assms have ds: "ds = disagreements_of m t"
    by (auto simp: verify_tree_indexed [OF m t] split: if_splits)
  show ?thesis unfolding ds set_disagreements [OF m t] by simp
qed

definition sample_entry :: "string \<Rightarrow> nat \<Rightarrow> entry" where
  "sample_entry p n = \<lparr>entry_path = p, entry_mode = Regular, entry_size = n,
     content_hashes = \<lparr>sha256 = [], sha3_256 = []\<rparr>\<rparr>"

lemma sample_disagreements:
  "verify_tree [sample_entry ''b'' 1, sample_entry ''a'' 1] [sample_entry ''c'' 1, sample_entry ''b'' 2]
     = Err (Disagreements [MissingFromTree ''a'', ConflictingContent (sample_entry ''b'' 1) (sample_entry ''b'' 2),
         MissingFromManifest ''c''])"
  by (simp add: verify_tree_def index_by_path_def sample_entry_def compare_manifest_entry_def compare_tree_path_def
      btree_keys_def)

theorem disagreements_exact_witness:
  "MissingFromManifest ''c'' \<in> set [MissingFromTree ''a'', ConflictingContent (sample_entry ''b'' 1) (sample_entry ''b'' 2),
     MissingFromManifest ''c''] \<and> ''c'' \<in> entry_path ` set [sample_entry ''c'' 1, sample_entry ''b'' 2]"
  using disagreements_exact [OF sample_disagreements, of "''c''"] by simp

end
