(* ===== verification/Binding_Verify.thy ===== *)
theory Binding_Verify
  imports Manifest_Canonical Binding_Order
begin

text \<open>
  \<open>crates/tydence/src/verify/binding.rs\<close>: check 4 of verification, that the resolved artifact bytes
  reproduce the recorded double hashes and that the groups stand in the canonical order of the
  binding relation read off the bound stamps' own manifests.
\<close>

section \<open>The checks\<close>

record bound_token =
  bt_spec :: anchor_spec
  bt_site :: string
  bt_bytes :: bytes

record bound_stamp =
  bs_manifest_bytes :: bytes
  bs_tokens :: "bound_token list"

datatype binding_error =
  StampCountMismatch nat nat
  | ManifestHashMismatch nat
  | TokenUnresolved nat anchor_spec string
  | TokenAmbiguous nat anchor_spec string
  | TokenHashMismatch nat anchor_spec string
  | BoundManifestUnreadable nat string
  | Unorderable order_error
  | NonCanonicalOrder nat

fun binding_error_display :: "binding_error \<Rightarrow> string" where
  "binding_error_display (StampCountMismatch claimed resolved) =
     ''the manifest binds '' @ decimal claimed @ '' stamp(s) but '' @ decimal resolved @ '' were resolved''"
| "binding_error_display (ManifestHashMismatch group_index) =
     ''binding group '' @ decimal group_index
     @ '': the resolved manifest bytes do not reproduce the past-manifest hashes''"
| "binding_error_display (TokenUnresolved group_index spec site_name) =
     ''binding group '' @ decimal group_index @ '': no bytes resolved for the '' @ spec_label spec
     @ '' token of site '' @ site_name"
| "binding_error_display (TokenAmbiguous group_index spec site_name) =
     ''binding group '' @ decimal group_index @ '': several resolved entries offer the '' @ spec_label spec
     @ '' token of site '' @ site_name"
| "binding_error_display (TokenHashMismatch group_index spec site_name) =
     ''binding group '' @ decimal group_index @ '': the resolved bytes for the '' @ spec_label spec
     @ '' token of site '' @ site_name @ '' do not reproduce the past-token hashes''"
| "binding_error_display (BoundManifestUnreadable group_index cause) =
     ''binding group '' @ decimal group_index @ '': the bound manifest does not parse ('' @ cause @ '')''"
| "binding_error_display (Unorderable cause) =
     ''the binding relation does not order the groups ('' @ order_error_display cause @ '')''"
| "binding_error_display (NonCanonicalOrder first_divergence) =
     ''the binding groups leave the canonical order at group '' @ decimal first_divergence"

definition ensure_stamp_counts_match ::
  "binding_group list \<Rightarrow> bound_stamp list \<Rightarrow> (binding_error, unit) result" where
  "ensure_stamp_counts_match groups resolved =
     (if length groups = length resolved then Ok ()
      else Err (StampCountMismatch (length groups) (length resolved)))"

definition matching_tokens :: "bound_stamp \<Rightarrow> past_token \<Rightarrow> bound_token list" where
  "matching_tokens stamp claimed =
     filter (\<lambda>offered. bt_spec offered = pt_spec claimed \<and> bt_site offered = pt_site claimed) (bs_tokens stamp)"

definition check_claimed_token ::
  "digests \<Rightarrow> nat \<Rightarrow> bound_stamp \<Rightarrow> past_token \<Rightarrow> (binding_error, unit) result" where
  "check_claimed_token d group_index stamp claimed =
     (case matching_tokens stamp claimed of
        [] \<Rightarrow> Err (TokenUnresolved group_index (pt_spec claimed) (pt_site claimed))
      | first_match # others \<Rightarrow>
          if others \<noteq> [] then Err (TokenAmbiguous group_index (pt_spec claimed) (pt_site claimed))
          else if hash_payload d (bt_bytes first_match) \<noteq> token_hashes claimed
          then Err (TokenHashMismatch group_index (pt_spec claimed) (pt_site claimed))
          else Ok ())"

definition check_bound_group ::
  "digests \<Rightarrow> nat \<times> binding_group \<times> bound_stamp \<Rightarrow> (binding_error, unit) result" where
  "check_bound_group d paired =
     (case paired of (group_index, grp, stamp) \<Rightarrow>
       if hash_payload d (bs_manifest_bytes stamp) \<noteq> manifest_hashes grp
       then Err (ManifestHashMismatch group_index)
       else try_each (check_claimed_token d group_index stamp) (bg_tokens grp))"

definition verify_binding_linkage ::
  "digests \<Rightarrow> binding_group list \<Rightarrow> bound_stamp list \<Rightarrow> (binding_error, unit) result" where
  "verify_binding_linkage d groups resolved =
     and_then (ensure_stamp_counts_match groups resolved) (\<lambda>_.
     try_each (check_bound_group d) (List.enumerate 0 (zip groups resolved)))"

text \<open>\<open>Display\<close> of \<open>std::str::Utf8Error\<close>.\<close>

definition utf8_error_display :: "utf8_error \<Rightarrow> string" where
  "utf8_error_display err =
     (case error_len err of
        Some n \<Rightarrow> ''invalid utf-8 sequence of '' @ decimal n @ '' bytes from index '' @ decimal (valid_up_to err)
      | None \<Rightarrow> ''incomplete utf-8 byte sequence from index '' @ decimal (valid_up_to err))"

definition parse_bound_manifest :: "ranges \<Rightarrow> nat \<Rightarrow> bytes \<Rightarrow> (binding_error, manifest) result" where
  "parse_bound_manifest table group_index manifest_bytes =
     and_then (map_err (\<lambda>utf8_error. BoundManifestUnreadable group_index (utf8_error_display utf8_error))
       (from_utf8 manifest_bytes)) (\<lambda>manifest_text.
     map_err (\<lambda>parse_error. BoundManifestUnreadable group_index (manifest_error_display parse_error))
       (parse_manifest table manifest_text))"

definition edges_of_stamp :: "binding_group list \<Rightarrow> nat \<Rightarrow> manifest \<Rightarrow> binding_edge list" where
  "edges_of_stamp groups binding bound_manifest =
     map (\<lambda>(bound, _). \<lparr>edge_binder = binding, edge_bound = bound\<rparr>)
       (filter (\<lambda>(bound, bound_group). binding \<noteq> bound \<and>
           list_ex (\<lambda>inner_group. manifest_hashes inner_group = manifest_hashes bound_group)
             (binding_groups bound_manifest))
         (List.enumerate 0 groups))"

definition derive_binding_edges ::
  "ranges \<Rightarrow> binding_group list \<Rightarrow> bound_stamp list \<Rightarrow> (binding_error, binding_edge list) result" where
  "derive_binding_edges table groups resolved =
     and_then (ensure_stamp_counts_match groups resolved) (\<lambda>_.
     try_fold (\<lambda>edges (binding, stamp).
         and_then (parse_bound_manifest table binding (bs_manifest_bytes stamp)) (\<lambda>bound_manifest.
         Ok (edges @ edges_of_stamp groups binding bound_manifest)))
       [] (List.enumerate 0 resolved))"

definition verify_binding_order ::
  "binding_group list \<Rightarrow> binding_edge list \<Rightarrow> (binding_error, unit) result" where
  "verify_binding_order groups edges =
     and_then (map_err Unorderable (order_binding_groups groups edges)) (\<lambda>canonical.
     case position (\<lambda>(actual, expected). manifest_hashes actual \<noteq> manifest_hashes expected) (zip groups canonical) of
       None \<Rightarrow> Ok ()
     | Some first_divergence \<Rightarrow> Err (NonCanonicalOrder first_divergence))"

section \<open>Checks that return nothing\<close>

lemma check_claimed_token_Ok:
  "check_claimed_token d i stamp claimed = Ok u \<longleftrightarrow>
     (\<exists>offered. matching_tokens stamp claimed = [offered] \<and> hash_payload d (bt_bytes offered) = token_hashes claimed)"
  by (auto simp: check_claimed_token_def split: list.splits)

lemma ball_enumerate: "(\<forall>x \<in> set (List.enumerate 0 xs). P x) \<longleftrightarrow> (\<forall>i < length xs. P (i, xs ! i))"
  by (auto simp: in_set_enumerate_eq)

lemma verify_binding_linkage_Ok:
  "verify_binding_linkage d groups resolved = Ok u \<longleftrightarrow> length groups = length resolved \<and>
     (\<forall>i < length groups. hash_payload d (bs_manifest_bytes (resolved ! i)) = manifest_hashes (groups ! i) \<and>
        (\<forall>claimed \<in> set (bg_tokens (groups ! i)). \<exists>offered. matching_tokens (resolved ! i) claimed = [offered] \<and>
           hash_payload d (bt_bytes offered) = token_hashes claimed))"
proof -
  have "check_bound_group d (i, g, s) = Ok () \<longleftrightarrow> hash_payload d (bs_manifest_bytes s) = manifest_hashes g \<and>
      (\<forall>claimed \<in> set (bg_tokens g). \<exists>offered. matching_tokens s claimed = [offered] \<and>
           hash_payload d (bt_bytes offered) = token_hashes claimed)" for i g s
    by (simp add: check_bound_group_def try_each_Ok check_claimed_token_Ok)
  then show ?thesis
    by (auto simp: verify_binding_linkage_def ensure_stamp_counts_match_def try_each_Ok ball_enumerate)
qed

lemma parse_bound_manifest_Ok:
  "parse_bound_manifest table i bs = Ok m \<longleftrightarrow> is_utf8 bs \<and> parse_manifest table bs = Ok m"
  by (auto simp: parse_bound_manifest_def result_simps from_utf8_Ok)

lemma set_edges_of_stamp:
  "e \<in> set (edges_of_stamp groups i m) \<longleftrightarrow> edge_binder e = i \<and> edge_bound e < length groups \<and> i \<noteq> edge_bound e \<and>
     (\<exists>inner \<in> set (binding_groups m). manifest_hashes inner = manifest_hashes (groups ! edge_bound e))"
  by (cases e) (auto simp: edges_of_stamp_def in_set_enumerate_eq list_ex_iff image_iff)

lemma derive_fold:
  "try_fold (\<lambda>edges (i, stamp). and_then (parse_bound_manifest table i (bs_manifest_bytes stamp))
      (\<lambda>m. Ok (edges @ edges_of_stamp groups i m))) es xs = Ok es' \<longleftrightarrow>
    (\<exists>ms. list_all2 (\<lambda>(i, stamp) m. parse_bound_manifest table i (bs_manifest_bytes stamp) = Ok m) xs ms \<and>
       es' = es @ concat (map2 (\<lambda>(i, _) m. edges_of_stamp groups i m) xs ms))"
proof (induction xs arbitrary: es)
  case Nil
  then show ?case by auto
next
  case (Cons x xs)
  obtain i stamp where x: "x = (i, stamp)" by (cases x)
  show ?case
    by (auto simp: x result_simps Cons.IH list_all2_Cons1) force
qed

lemma derive_binding_edges_Ok:
  assumes "derive_binding_edges table groups resolved = Ok edges"
  obtains ms where "length resolved = length groups" "length ms = length groups"
    "\<forall>i < length groups. parse_manifest table (bs_manifest_bytes (resolved ! i)) = Ok (ms ! i)"
    "\<forall>e. e \<in> set edges \<longleftrightarrow> (\<exists>i < length groups. e \<in> set (edges_of_stamp groups i (ms ! i)))"
proof -
  from assms have len: "length resolved = length groups"
    by (auto simp: derive_binding_edges_def ensure_stamp_counts_match_def result_simps split: if_splits)
  from assms obtain ms where
    ms: "list_all2 (\<lambda>(i, stamp) m. parse_bound_manifest table i (bs_manifest_bytes stamp) = Ok m)
        (List.enumerate 0 resolved) ms"
    and edges: "edges = concat (map2 (\<lambda>(i, _) m. edges_of_stamp groups i m) (List.enumerate 0 resolved) ms)"
    by (auto simp: derive_binding_edges_def result_simps derive_fold)
  from ms have n: "length ms = length groups" using len by (auto dest: list_all2_lengthD)
  have "parse_manifest table (bs_manifest_bytes (resolved ! i)) = Ok (ms ! i)" if "i < length groups" for i
    using list_all2_nthD [OF ms, of i] that len by (simp add: nth_enumerate_eq parse_bound_manifest_Ok)
  moreover have "e \<in> set edges \<longleftrightarrow> (\<exists>i < length groups. e \<in> set (edges_of_stamp groups i (ms ! i)))" for e
  proof -
    have "map2 (\<lambda>(i, _) m. edges_of_stamp groups i m) (List.enumerate 0 resolved) ms
        = map (\<lambda>i. edges_of_stamp groups i (ms ! i)) [0..<length groups]"
      using len n by (intro nth_equalityI) (auto simp: nth_enumerate_eq)
    then show ?thesis by (auto simp: edges)
  qed
  ultimately show ?thesis using that len n by blast
qed

lemma verify_binding_order_Ok:
  "verify_binding_order groups edges = Ok u \<longleftrightarrow>
     (\<exists>canonical. order_binding_groups groups edges = Ok canonical \<and>
        map manifest_hashes canonical = map manifest_hashes groups)"
proof -
  have "position (\<lambda>(actual, expected). manifest_hashes actual \<noteq> manifest_hashes expected) (zip groups canonical) = None
      \<longleftrightarrow> map manifest_hashes canonical = map manifest_hashes groups"
    if ordered: "order_binding_groups groups edges = Ok canonical" for canonical
  proof -
    obtain order where "valid_order edges (length groups) order" "canonical = map ((!) groups) order"
      using order_binding_groups_Ok [OF ordered] by metis
    then have "length canonical = length groups" by (metis card_lessThan distinct_card length_map valid_order_def)
    then show ?thesis
      by (auto simp: position_None set_zip list_eq_iff_nth_eq) metis
  qed
  then show ?thesis
    by (auto simp: verify_binding_order_def result_simps split: option.splits)
qed

section \<open>Properties\<close>

text \<open>Linkage holds exactly when one stamp is resolved per group, its manifest bytes reproduce the
  group's double hash, and every claimed token has exactly one resolved candidate, whose bytes
  reproduce the claimed double hash.
\<close>

theorem binding_linkage_iff:
  "verify_binding_linkage d groups resolved = Ok () \<longleftrightarrow> length groups = length resolved \<and>
     (\<forall>i < length groups.
        sha256_digest d (bs_manifest_bytes (resolved ! i)) = sha256 (manifest_hashes (groups ! i)) \<and>
        sha3_256_digest d (bs_manifest_bytes (resolved ! i)) = sha3_256 (manifest_hashes (groups ! i)) \<and>
        (\<forall>claimed \<in> set (bg_tokens (groups ! i)). \<exists>offered.
           [t \<leftarrow> bs_tokens (resolved ! i). bt_spec t = pt_spec claimed \<and> bt_site t = pt_site claimed] = [offered] \<and>
           hash_payload d (bt_bytes offered) = token_hashes claimed))"
proof -
  have "hash_payload d bs = h \<longleftrightarrow> sha256_digest d bs = sha256 h \<and> sha3_256_digest d bs = sha3_256 h" for bs h
    by (cases h) (auto simp: hash_payload_def payload_hasher_finalize_def payload_hasher_update_def
        payload_hasher_new_def)
  then show ?thesis by (simp add: verify_binding_linkage_Ok matching_tokens_def)
qed

definition toy_digests :: digests where
  "toy_digests = \<lparr>sha256_digest = \<lambda>bs. take 32 (bs @ replicate 32 (CHR 0x00)),
     sha3_256_digest = \<lambda>bs. take 32 (rev bs @ replicate 32 (CHR 0xFF))\<rparr>"

lemma toy_digests_ok: "digests_ok toy_digests"
  by (simp add: digests_ok_def toy_digests_def min_def)

theorem binding_linkage_iff_witness:
  "verify_binding_linkage toy_digests
     [\<lparr>bg_commit = ''1'', predecessor_origin = None, manifest_hashes = hash_payload toy_digests ''m'',
       bg_tokens = [\<lparr>pt_spec = Rfc3161, pt_site = ''s'', token_hashes = hash_payload toy_digests ''t''\<rparr>]\<rparr>]
     [\<lparr>bs_manifest_bytes = ''m'', bs_tokens =
        [\<lparr>bt_spec = Rfc3161, bt_site = ''s'', bt_bytes = ''t''\<rparr>, \<lparr>bt_spec = Rfc3161, bt_site = ''x'', bt_bytes = ''u''\<rparr>]\<rparr>]
     = Ok ()"
  by (subst binding_linkage_iff) simp

text \<open>The derived edges are exactly the bindings visible in the bound stamps' own manifests, each
  names two distinct groups, and so the order check after it never fails on an invalid edge.
\<close>

theorem derived_edges_exact:
  assumes "derive_binding_edges table groups resolved = Ok edges"
  shows "(\<lparr>edge_binder = i, edge_bound = j\<rparr> \<in> set edges \<longleftrightarrow> i \<noteq> j \<and> i < length groups \<and> j < length groups \<and>
      (\<exists>m. parse_manifest table (bs_manifest_bytes (resolved ! i)) = Ok m \<and>
         manifest_hashes (groups ! j) \<in> manifest_hashes ` set (binding_groups m)))
    \<and> verify_binding_order groups edges \<noteq> Err (Unorderable (InvalidEdge e))"
proof -
  obtain ms where ms: "length ms = length groups"
    "\<forall>i < length groups. parse_manifest table (bs_manifest_bytes (resolved ! i)) = Ok (ms ! i)"
    "\<forall>e. e \<in> set edges \<longleftrightarrow> (\<exists>i < length groups. e \<in> set (edges_of_stamp groups i (ms ! i)))"
    using derive_binding_edges_Ok [OF assms] by metis
  then have "\<forall>e \<in> set edges. names_two_distinct_groups (length groups) e"
    by (auto simp: set_edges_of_stamp names_two_distinct_groups_def)
  then have "order_binding_groups groups edges \<noteq> Err (InvalidEdge e)"
    using order_binding_groups_InvalidEdge by blast
  then have "verify_binding_order groups edges \<noteq> Err (Unorderable (InvalidEdge e))"
    by (auto simp: verify_binding_order_def result_simps split: option.splits)
  moreover have "\<lparr>edge_binder = i, edge_bound = j\<rparr> \<in> set edges \<longleftrightarrow> i \<noteq> j \<and> i < length groups \<and> j < length groups \<and>
      (\<exists>m. parse_manifest table (bs_manifest_bytes (resolved ! i)) = Ok m \<and>
         manifest_hashes (groups ! j) \<in> manifest_hashes ` set (binding_groups m))"
    using ms(2,3) by (auto simp: set_edges_of_stamp image_iff) metis+
  ultimately show ?thesis by blast
qed

lemma sample_serialized: "parse_manifest [(0, 32)] (text_of (''tydence-manifest/v1'' # record_lines [(0, 32)] sample_manifest))
    = Ok sample_manifest"
  by (rule accepts_canonical [OF ascii_table_example sample_manifest_canonical])

definition empty_manifest :: manifest where
  "empty_manifest = \<lparr>parents = [], binding_groups = [], entries = []\<rparr>"

lemma empty_manifest_text: "parse_manifest [(0, 32)] (''tydence-manifest/v1'' @ [CHR 0x0A]) = Ok empty_manifest"
  using accepts_canonical [OF ascii_table_example, of empty_manifest]
  by (simp add: empty_manifest_def canonical_manifest_def fields_ok_def lines_sorted_def covers_once_def
      record_lines_def parents_lines_def)

theorem derived_edges_exact_witness:
  "\<exists>edges. derive_binding_edges [(0, 32)] [sample_group (CHR ''a'')]
       [\<lparr>bs_manifest_bytes = ''tydence-manifest/v1'' @ [CHR 0x0A], bs_tokens = []\<rparr>] = Ok edges
     \<and> verify_binding_order [sample_group (CHR ''a'')] edges \<noteq> Err (Unorderable (InvalidEdge \<lparr>edge_binder = 0, edge_bound = 0\<rparr>))"
proof -
  have "is_utf8 (''tydence-manifest/v1'' @ [CHR 0x0A])" by (rule is_utf8_ascii) simp
  then have p: "parse_bound_manifest [(0, 32)] 0 (''tydence-manifest/v1'' @ [CHR 0x0A]) = Ok empty_manifest"
    using empty_manifest_text by (simp only: parse_bound_manifest_Ok)
  have d: "derive_binding_edges [(0, 32)] [sample_group (CHR ''a'')]
      [\<lparr>bs_manifest_bytes = ''tydence-manifest/v1'' @ [CHR 0x0A], bs_tokens = []\<rparr>] = Ok []"
    using p by (simp add: derive_binding_edges_def ensure_stamp_counts_match_def edges_of_stamp_def)
  from derived_edges_exact [OF d, of _ _ "\<lparr>edge_binder = 0, edge_bound = 0\<rparr>"] d show ?thesis by blast
qed

text \<open>When the groups bind distinct payloads, as in every accepted manifest, the order check passes
  exactly when the groups are listed in the canonical order of the supplied binding relation.
\<close>

theorem binding_order_check_iff:
  assumes "distinct (map (\<lambda>g. sha256 (manifest_hashes g)) groups)"
  shows "verify_binding_order groups edges = Ok () \<longleftrightarrow> order_binding_groups groups edges = Ok groups"
proof
  assume "order_binding_groups groups edges = Ok groups"
  then show "verify_binding_order groups edges = Ok ()" by (auto simp: verify_binding_order_Ok)
next
  assume "verify_binding_order groups edges = Ok ()"
  then obtain canonical where c: "order_binding_groups groups edges = Ok canonical"
    "map manifest_hashes canonical = map manifest_hashes groups" by (auto simp: verify_binding_order_Ok)
  obtain order where o: "valid_order edges (length groups) order" "canonical = map ((!) groups) order"
    using order_binding_groups_Ok [OF c(1)] by metis
  then have sub: "set canonical \<subseteq> set groups" by (auto simp: valid_order_def)
  have "canonical ! i = groups ! i" if i: "i < length groups" for i
  proof -
    have len: "length canonical = length groups" using c(2) by (metis length_map)
    then have "canonical ! i \<in> set groups" using sub i by auto
    moreover have "manifest_hashes (canonical ! i) = manifest_hashes (groups ! i)"
      using c(2) i len by (metis nth_map)
    moreover have "inj_on (\<lambda>g. sha256 (manifest_hashes g)) (set groups)" using assms by (simp add: distinct_map)
    ultimately show ?thesis using i by (metis (mono_tags, lifting) inj_onD nth_mem)
  qed
  with c show "order_binding_groups groups edges = Ok groups"
    by (metis length_map nth_equalityI)
qed

theorem binding_order_check_iff_witness:
  "verify_binding_order [sample_group (CHR ''b''), sample_group (CHR ''c''), sample_group (CHR ''a'')]
     [\<lparr>edge_binder = 1, edge_bound = 2\<rparr>] = Ok ()"
proof -
  let ?gs = "[sample_group (CHR ''b''), sample_group (CHR ''c''), sample_group (CHR ''a'')]"
  have "order_binding_groups ?gs [\<lparr>edge_binder = 1, edge_bound = 2\<rparr>] = Ok ?gs"
    by (simp add: order_eval)
  moreover have "distinct (map (\<lambda>g. sha256 (manifest_hashes g)) ?gs)" by (simp add: sample_group_def)
  ultimately show ?thesis using binding_order_check_iff by blast
qed

end
