(* ===== verification/X509.thy ===== *)
theory X509
  imports Strings
begin

text \<open>
  \<open>crates/tydence/src/oids.rs\<close> and \<open>verify/x509.rs\<close>: the certificate and CRL structures the checks
  read, extension lookup, validity windows, signature verification and the normalisation of CMS
  algorithm pairs. DER coding, public keys and signature mathematics are third-party code and arrive
  as the record \<open>pki\<close>; an OID is its dotted text, a distinguished name its DER, a \<open>SystemTime\<close> an
  integer of nanoseconds since the epoch.
\<close>

section \<open>Object identifiers (\<open>oids.rs\<close>)\<close>

type_synonym oid = string
type_synonym system_time = int
type_synonym name = bytes

definition ID_SHA_1 :: oid where "ID_SHA_1 = ''1.3.14.3.2.26''"
definition ID_SHA_256 :: oid where "ID_SHA_256 = ''2.16.840.1.101.3.4.2.1''"
definition ID_SHA_384 :: oid where "ID_SHA_384 = ''2.16.840.1.101.3.4.2.2''"
definition ID_SHA_512 :: oid where "ID_SHA_512 = ''2.16.840.1.101.3.4.2.3''"
definition ID_RSA_ENCRYPTION :: oid where "ID_RSA_ENCRYPTION = ''1.2.840.113549.1.1.1''"
definition ID_SHA_256_WITH_RSA_ENCRYPTION :: oid where "ID_SHA_256_WITH_RSA_ENCRYPTION = ''1.2.840.113549.1.1.11''"
definition ID_SHA_384_WITH_RSA_ENCRYPTION :: oid where "ID_SHA_384_WITH_RSA_ENCRYPTION = ''1.2.840.113549.1.1.12''"
definition ID_SHA_512_WITH_RSA_ENCRYPTION :: oid where "ID_SHA_512_WITH_RSA_ENCRYPTION = ''1.2.840.113549.1.1.13''"
definition ID_ECDSA_WITH_SHA_256 :: oid where "ID_ECDSA_WITH_SHA_256 = ''1.2.840.10045.4.3.2''"
definition ID_ECDSA_WITH_SHA_384 :: oid where "ID_ECDSA_WITH_SHA_384 = ''1.2.840.10045.4.3.3''"
definition ID_ECDSA_WITH_SHA_512 :: oid where "ID_ECDSA_WITH_SHA_512 = ''1.2.840.10045.4.3.4''"
definition ID_SIGNED_DATA :: oid where "ID_SIGNED_DATA = ''1.2.840.113549.1.7.2''"
definition ID_CT_TST_INFO :: oid where "ID_CT_TST_INFO = ''1.2.840.113549.1.9.16.1.4''"
definition ID_CONTENT_TYPE :: oid where "ID_CONTENT_TYPE = ''1.2.840.113549.1.9.3''"
definition ID_MESSAGE_DIGEST :: oid where "ID_MESSAGE_DIGEST = ''1.2.840.113549.1.9.4''"
definition ID_AA_SIGNING_CERTIFICATE :: oid where "ID_AA_SIGNING_CERTIFICATE = ''1.2.840.113549.1.9.16.2.12''"
definition ID_AA_SIGNING_CERTIFICATE_V2 :: oid where "ID_AA_SIGNING_CERTIFICATE_V2 = ''1.2.840.113549.1.9.16.2.47''"
definition ID_KP_TIME_STAMPING :: oid where "ID_KP_TIME_STAMPING = ''1.3.6.1.5.5.7.3.8''"

text \<open>\<open>AssociatedOid\<close> of the extension types of x509-cert (RFC 5280).\<close>

definition SUBJECT_KEY_IDENTIFIER :: oid where "SUBJECT_KEY_IDENTIFIER = ''2.5.29.14''"
definition KEY_USAGE :: oid where "KEY_USAGE = ''2.5.29.15''"
definition BASIC_CONSTRAINTS :: oid where "BASIC_CONSTRAINTS = ''2.5.29.19''"
definition CRL_REASON :: oid where "CRL_REASON = ''2.5.29.21''"
definition EXTENDED_KEY_USAGE :: oid where "EXTENDED_KEY_USAGE = ''2.5.29.37''"

lemmas oid_defs = ID_SHA_1_def ID_SHA_256_def ID_SHA_384_def ID_SHA_512_def ID_RSA_ENCRYPTION_def
  ID_SHA_256_WITH_RSA_ENCRYPTION_def ID_SHA_384_WITH_RSA_ENCRYPTION_def ID_SHA_512_WITH_RSA_ENCRYPTION_def
  ID_ECDSA_WITH_SHA_256_def ID_ECDSA_WITH_SHA_384_def ID_ECDSA_WITH_SHA_512_def ID_SIGNED_DATA_def
  ID_CT_TST_INFO_def ID_CONTENT_TYPE_def ID_MESSAGE_DIGEST_def ID_AA_SIGNING_CERTIFICATE_def
  ID_AA_SIGNING_CERTIFICATE_V2_def ID_KP_TIME_STAMPING_def SUBJECT_KEY_IDENTIFIER_def KEY_USAGE_def
  BASIC_CONSTRAINTS_def CRL_REASON_def EXTENDED_KEY_USAGE_def

section \<open>The decoded structures\<close>

record any =
  any_tag :: nat
  any_value :: bytes

definition any_null :: any where
  "any_null = \<lparr>any_tag = 5, any_value = []\<rparr>"

record algorithm_identifier =
  alg_oid :: oid
  alg_parameters :: "any option"

record extension =
  extn_id :: oid
  ext_critical :: bool
  extn_value :: bytes

record validity =
  not_before :: system_time
  not_after :: system_time

datatype cert_version = CertV1 | CertV2 | CertV3

text \<open>
  The fields the sources read; \<open>tbs_rest\<close> is what else takes part in the equality of certificates, and
  a signature is \<open>None\<close> when its BIT STRING has unused bits.
\<close>

record certificate =
  cert_version :: cert_version
  cert_serial :: bytes
  cert_issuer :: name
  cert_subject :: name
  cert_validity :: validity
  cert_public_key :: bytes
  cert_extensions :: "extension list option"
  tbs_rest :: bytes
  cert_signature_algorithm :: algorithm_identifier
  cert_signature :: "bytes option"

record revoked_cert =
  rc_serial :: bytes
  rc_revocation_date :: system_time
  rc_extensions :: "extension list option"

record certificate_list =
  crl_issuer :: name
  crl_tbs_signature :: algorithm_identifier
  crl_this_update :: system_time
  crl_next_update :: "system_time option"
  crl_revoked :: "revoked_cert list option"
  crl_extensions :: "extension list option"
  crl_rest :: bytes
  crl_signature_algorithm :: algorithm_identifier
  crl_signature :: "bytes option"

record key_usage =
  ku_digital_signature :: bool
  ku_non_repudiation :: bool
  ku_key_cert_sign :: bool
  ku_crl_sign :: bool

record basic_constraints =
  bc_ca :: bool
  bc_path_len :: "nat option"

datatype crl_reason_value =
  CRUnspecified | CRKeyCompromise | CRCaCompromise | CRAffiliationChanged | CRSuperseded
  | CRCessationOfOperation | CRCertificateHold | CRRemoveFromCRL | CRPrivilegeWithdrawn | CRAaCompromise

text \<open>\<open>x509_verify::Error\<close>, as far as \<open>map_verify_error\<close> tells its values apart.\<close>

datatype verify_error = Verification | UnknownOid oid | OtherVerifyError

record pki =
  tbs_to_der :: "certificate \<Rightarrow> bytes option"
  crl_to_der :: "certificate_list \<Rightarrow> bytes option"
  verifying_key :: "bytes \<Rightarrow> (verify_error, bytes) result"
  key_verify :: "bytes \<Rightarrow> bytes \<Rightarrow> algorithm_identifier \<Rightarrow> bytes \<Rightarrow> (verify_error, unit) result"
  key_usage_from_der :: "bytes \<Rightarrow> (string, key_usage) result"
  basic_constraints_from_der :: "bytes \<Rightarrow> (string, basic_constraints) result"
  extended_key_usage_from_der :: "bytes \<Rightarrow> (string, oid list) result"
  subject_key_from_der :: "bytes \<Rightarrow> (string, bytes) result"
  crl_reason_from_der :: "bytes \<Rightarrow> (string, crl_reason_value) result"
  name_to_string :: "name \<Rightarrow> string"

section \<open>Extensions (\<open>x509.rs\<close>)\<close>

datatype extension_error = Duplicate oid | Undecodable oid string

fun extension_error_display :: "extension_error \<Rightarrow> string" where
  "extension_error_display (Duplicate oid_text) = ''extension '' @ oid_text @ '' appears twice''"
| "extension_error_display (Undecodable oid_text source) =
     ''extension '' @ oid_text @ '' does not parse ('' @ source @ '')''"

record 'a decoded_extension =
  de_critical :: bool
  de_value :: 'a

definition decode_extension_step ::
  "oid \<Rightarrow> (bytes \<Rightarrow> (string, 'a) result) \<Rightarrow> 'a decoded_extension option \<Rightarrow> extension
    \<Rightarrow> (extension_error, 'a decoded_extension option) result" where
  "decode_extension_step oid_text from_der found ext =
     (if extn_id ext \<noteq> oid_text then Ok found
      else if found \<noteq> None then Err (Duplicate oid_text)
      else and_then (map_err (Undecodable oid_text) (from_der (extn_value ext))) (\<lambda>decoded.
        Ok (Some \<lparr>de_critical = ext_critical ext, de_value = decoded\<rparr>)))"

text \<open>\<open>extensions.into_iter().flatten()\<close>: an absent list is an empty one.\<close>

definition listed :: "'a list option \<Rightarrow> 'a list" where
  "listed xs = (case xs of None \<Rightarrow> [] | Some ys \<Rightarrow> ys)"

definition decode_extension ::
  "oid \<Rightarrow> (bytes \<Rightarrow> (string, 'a) result) \<Rightarrow> extension list option
    \<Rightarrow> (extension_error, 'a decoded_extension option) result" where
  "decode_extension oid_text from_der exts = try_fold (decode_extension_step oid_text from_der) None (listed exts)"

definition covers_moment :: "validity \<Rightarrow> system_time \<Rightarrow> bool" where
  "covers_moment v moment = (not_before v \<le> moment \<and> moment \<le> not_after v)"

section \<open>Signatures\<close>

datatype signature_error = MalformedSignature | Unsupported oid | InvalidSig

fun signature_error_display :: "signature_error \<Rightarrow> string" where
  "signature_error_display MalformedSignature = ''the signature bytes are malformed''"
| "signature_error_display (Unsupported oid_text) = ''signature or key algorithm '' @ oid_text @ '' is unsupported''"
| "signature_error_display InvalidSig = ''the signature does not verify''"

record raw_signature =
  rs_algorithm :: algorithm_identifier
  rs_bytes :: bytes

fun map_verify_error :: "verify_error \<Rightarrow> signature_error" where
  "map_verify_error Verification = InvalidSig"
| "map_verify_error (UnknownOid oid_text) = Unsupported oid_text"
| "map_verify_error _ = MalformedSignature"

definition verify_issued_signature ::
  "pki \<Rightarrow> bytes \<Rightarrow> raw_signature \<Rightarrow> certificate \<Rightarrow> (signature_error, unit) result" where
  "verify_issued_signature p message signature issuer =
     and_then (map_err map_verify_error (verifying_key p (cert_public_key issuer))) (\<lambda>key.
     map_err map_verify_error (key_verify p key message (rs_algorithm signature) (rs_bytes signature)))"

section \<open>CMS algorithm pairs\<close>

record algorithm_pairing =
  pair_digest :: oid
  pair_signature :: oid

definition RSA_PAIRINGS :: "algorithm_pairing list" where
  "RSA_PAIRINGS =
     [\<lparr>pair_digest = ID_SHA_256, pair_signature = ID_SHA_256_WITH_RSA_ENCRYPTION\<rparr>,
      \<lparr>pair_digest = ID_SHA_384, pair_signature = ID_SHA_384_WITH_RSA_ENCRYPTION\<rparr>,
      \<lparr>pair_digest = ID_SHA_512, pair_signature = ID_SHA_512_WITH_RSA_ENCRYPTION\<rparr>]"

definition ECDSA_PAIRINGS :: "algorithm_pairing list" where
  "ECDSA_PAIRINGS =
     [\<lparr>pair_digest = ID_SHA_256, pair_signature = ID_ECDSA_WITH_SHA_256\<rparr>,
      \<lparr>pair_digest = ID_SHA_384, pair_signature = ID_ECDSA_WITH_SHA_384\<rparr>,
      \<lparr>pair_digest = ID_SHA_512, pair_signature = ID_ECDSA_WITH_SHA_512\<rparr>]"

datatype normalize_error =
  UnsupportedSignatureAlgorithm oid
  | UnsupportedDigest oid
  | DigestSignatureMismatch oid oid
  | ForbiddenParameters oid

fun normalize_error_display :: "normalize_error \<Rightarrow> string" where
  "normalize_error_display (UnsupportedSignatureAlgorithm oid_text) = ''signature algorithm '' @ oid_text @ '' is unsupported''"
| "normalize_error_display (UnsupportedDigest oid_text) = ''digest algorithm '' @ oid_text @ '' is unsupported''"
| "normalize_error_display (DigestSignatureMismatch digest signature) =
     ''digest algorithm '' @ digest @ '' contradicts signature algorithm '' @ signature"
| "normalize_error_display (ForbiddenParameters oid_text) =
     ''signature algorithm '' @ oid_text @ '' carries forbidden parameters''"

definition folded_digest_of :: "oid \<Rightarrow> oid option" where
  "folded_digest_of signature_oid =
     map_option pair_digest
       (List.find (\<lambda>pairing. pair_signature pairing = signature_oid) (RSA_PAIRINGS @ ECDSA_PAIRINGS))"

text \<open>\<open>tsp::is_absent_or_null_parameter\<close>.\<close>

definition is_absent_or_null_parameter :: "any option \<Rightarrow> bool" where
  "is_absent_or_null_parameter maybe_parameters =
     (case maybe_parameters of None \<Rightarrow> True | Some parameters \<Rightarrow> parameters = any_null)"

definition normalize_cms_signature_algorithm ::
  "oid \<Rightarrow> algorithm_identifier \<Rightarrow> (normalize_error, algorithm_identifier) result" where
  "normalize_cms_signature_algorithm digest_oid algorithm =
     (if alg_oid algorithm = ID_RSA_ENCRYPTION then
        (if \<not> is_absent_or_null_parameter (alg_parameters algorithm)
         then Err (ForbiddenParameters (alg_oid algorithm))
         else and_then
           (ok_or (UnsupportedDigest digest_oid)
             (map_option pair_signature (List.find (\<lambda>pairing. pair_digest pairing = digest_oid) RSA_PAIRINGS)))
           (\<lambda>combined. Ok \<lparr>alg_oid = combined, alg_parameters = Some any_null\<rparr>))
      else
        and_then (ok_or (UnsupportedSignatureAlgorithm (alg_oid algorithm)) (folded_digest_of (alg_oid algorithm)))
          (\<lambda>folded_digest.
            if folded_digest \<noteq> digest_oid then Err (DigestSignatureMismatch digest_oid (alg_oid algorithm))
            else if list_ex (\<lambda>pairing. pair_signature pairing = alg_oid algorithm) RSA_PAIRINGS then
              (if \<not> is_absent_or_null_parameter (alg_parameters algorithm)
               then Err (ForbiddenParameters (alg_oid algorithm))
               else Ok \<lparr>alg_oid = alg_oid algorithm, alg_parameters = Some any_null\<rparr>)
            else if alg_parameters algorithm \<noteq> None then Err (ForbiddenParameters (alg_oid algorithm))
            else Ok \<lparr>alg_oid = alg_oid algorithm, alg_parameters = None\<rparr>))"

section \<open>Extension lookup decides\<close>

lemma decode_extension_step_simps [simp]:
  "extn_id ext \<noteq> oid_text \<Longrightarrow> decode_extension_step oid_text from_der found ext = Ok found"
  "extn_id ext = oid_text \<Longrightarrow> decode_extension_step oid_text from_der (Some d) ext = Err (Duplicate oid_text)"
  "extn_id ext = oid_text \<Longrightarrow> decode_extension_step oid_text from_der None ext =
     map_err (Undecodable oid_text)
       (and_then (from_der (extn_value ext)) (\<lambda>v. Ok (Some \<lparr>de_critical = ext_critical ext, de_value = v\<rparr>)))"
  by (auto simp: decode_extension_step_def) (cases "from_der (extn_value ext)"; simp)

lemma decode_extension_from:
  "try_fold (decode_extension_step oid_text from_der) (Some d) es = Ok r \<longleftrightarrow>
     (\<forall>e \<in> set es. extn_id e \<noteq> oid_text) \<and> r = Some d"
proof (induction es)
  case (Cons e es)
  then show ?case by (cases "extn_id e = oid_text") simp_all
qed auto

text \<open>The unique extension a certificate claims: exactly one entry of the type, which decodes.\<close>

definition claimed_extension ::
  "oid \<Rightarrow> (bytes \<Rightarrow> (string, 'a) result) \<Rightarrow> extension list \<Rightarrow> 'a decoded_extension option \<Rightarrow> bool" where
  "claimed_extension oid_text from_der es r =
     (case [e \<leftarrow> es. extn_id e = oid_text] of
        [] \<Rightarrow> r = None
      | [e] \<Rightarrow> (case from_der (extn_value e) of
                 Ok v \<Rightarrow> r = Some \<lparr>de_critical = ext_critical e, de_value = v\<rparr> | Err _ \<Rightarrow> False)
      | _ \<Rightarrow> False)"

lemma claimed_extension_Cons:
  "claimed_extension oid_text from_der (e # es) r =
     (if extn_id e = oid_text
      then (\<forall>x \<in> set es. extn_id x \<noteq> oid_text) \<and>
           (case from_der (extn_value e) of
              Ok v \<Rightarrow> r = Some \<lparr>de_critical = ext_critical e, de_value = v\<rparr> | Err _ \<Rightarrow> False)
      else claimed_extension oid_text from_der es r)"
proof -
  have "(\<forall>x \<in> set es. extn_id x \<noteq> oid_text) \<longleftrightarrow> [x \<leftarrow> es. extn_id x = oid_text] = []"
    by (simp add: filter_empty_conv)
  then show ?thesis
    by (cases "[x \<leftarrow> es. extn_id x = oid_text]") (simp_all add: claimed_extension_def)
qed

lemma decode_extension_Ok:
  "decode_extension oid_text from_der exts = Ok r \<longleftrightarrow> claimed_extension oid_text from_der (listed exts) r"
proof -
  have "try_fold (decode_extension_step oid_text from_der) None es = Ok r \<longleftrightarrow>
     claimed_extension oid_text from_der es r" for es
  proof (induction es)
    case Nil
    show ?case by (auto simp: claimed_extension_def)
  next
    case (Cons e es)
    show ?case
    proof (cases "extn_id e = oid_text")
      case True
      then show ?thesis
        by (cases "from_der (extn_value e)")
          (simp_all add: claimed_extension_Cons decode_extension_from)
    next
      case False
      with Cons show ?thesis by (simp add: claimed_extension_Cons)
    qed
  qed
  then show ?thesis by (simp add: decode_extension_def)
qed

lemma claimed_extension_unique:
  "claimed_extension oid_text from_der es r \<Longrightarrow> claimed_extension oid_text from_der es r' \<Longrightarrow> r = r'"
  by (auto simp: claimed_extension_def split: list.splits sum.splits)

text \<open>Looking an extension up yields exactly the certificate's claim: nothing when the type does
  not occur, the decoded value and its criticality when it occurs once and decodes, and an error whenever
  the type occurs twice or does not decode.\<close>

theorem decode_extension_exact:
  "decode_extension oid_text from_der exts = Ok r \<longleftrightarrow>
     (r = None \<and> filter (\<lambda>x. extn_id x = oid_text) (listed exts) = []) \<or>
     (\<exists>e v. filter (\<lambda>x. extn_id x = oid_text) (listed exts) = [e] \<and> from_der (extn_value e) = Ok v \<and>
        r = Some \<lparr>de_critical = ext_critical e, de_value = v\<rparr>)"
  unfolding decode_extension_Ok claimed_extension_def
  by (auto simp: filter_empty_conv split: list.splits sum.splits)

section \<open>Normalisation\<close>

text \<open>A listed pairing of a digest with the signature algorithm that folds it in.\<close>

definition pairs :: "algorithm_pairing list \<Rightarrow> oid \<Rightarrow> oid \<Rightarrow> bool" where
  "pairs ps d s = list_ex (\<lambda>pairing. pair_digest pairing = d \<and> pair_signature pairing = s) ps"

lemma find_pairing:
  "distinct (List.map key ps) \<Longrightarrow> List.find (\<lambda>x. key x = k) ps = Some x \<longleftrightarrow> x \<in> set ps \<and> key x = k"
  by (induction ps) (auto simp: image_iff)

lemma distinct_pairings:
  "distinct (List.map pair_digest RSA_PAIRINGS)"
  "distinct (List.map pair_signature (RSA_PAIRINGS @ ECDSA_PAIRINGS))"
  by (simp_all add: RSA_PAIRINGS_def ECDSA_PAIRINGS_def oid_defs)

lemma combined_digest:
  "map_option pair_signature (List.find (\<lambda>pairing. pair_digest pairing = d) RSA_PAIRINGS) = Some c \<longleftrightarrow>
     pairs RSA_PAIRINGS d c"
  unfolding map_option_eq_Some find_pairing[OF distinct_pairings(1)] by (auto simp: pairs_def list_ex_iff)

lemma folded_digest:
  "folded_digest_of s = Some d \<longleftrightarrow> pairs RSA_PAIRINGS d s \<or> pairs ECDSA_PAIRINGS d s"
  unfolding folded_digest_of_def map_option_eq_Some find_pairing[OF distinct_pairings(2)]
  by (auto simp: pairs_def list_ex_iff)

lemma pairings_apart:
  "\<not> pairs RSA_PAIRINGS d ID_RSA_ENCRYPTION"
  "\<not> pairs ECDSA_PAIRINGS d ID_RSA_ENCRYPTION"
  "pairs RSA_PAIRINGS d s \<Longrightarrow> \<not> pairs ECDSA_PAIRINGS d' s"
  by (auto simp: pairs_def RSA_PAIRINGS_def ECDSA_PAIRINGS_def oid_defs)

lemma folded_digest_unique:
  "pairs RSA_PAIRINGS d s \<or> pairs ECDSA_PAIRINGS d s \<Longrightarrow>
     folded_digest_of s = Some d \<and>
     (list_ex (\<lambda>pairing. pair_signature pairing = s) RSA_PAIRINGS \<longleftrightarrow> pairs RSA_PAIRINGS d s)"
  using folded_digest[of s d]
  by (auto simp: pairs_def RSA_PAIRINGS_def ECDSA_PAIRINGS_def oid_defs)

lemma algorithm_eq: "\<lparr>alg_oid = c, alg_parameters = q\<rparr> = a \<longleftrightarrow> alg_oid a = c \<and> alg_parameters a = q"
  by (cases a) auto

text \<open>Normalisation accepts exactly the declared pairs RFC 5754 allows and yields their normal form:
  the bare or the folded RSA identifier with absent or NULL parameters, and the ECDSA identifier without
  parameters, each agreeing with the declared digest.\<close>

theorem normalize_exact:
  "normalize_cms_signature_algorithm digest_oid algorithm = Ok normal \<longleftrightarrow>
     (pairs RSA_PAIRINGS digest_oid (alg_oid normal) \<and> alg_parameters normal = Some any_null \<and>
      is_absent_or_null_parameter (alg_parameters algorithm) \<and>
      alg_oid algorithm \<in> {ID_RSA_ENCRYPTION, alg_oid normal}) \<or>
     (pairs ECDSA_PAIRINGS digest_oid (alg_oid normal) \<and> alg_parameters normal = None \<and>
      algorithm = normal)"
proof (cases "alg_oid algorithm = ID_RSA_ENCRYPTION")
  case True
  then have "algorithm = normal \<Longrightarrow> \<not> pairs ECDSA_PAIRINGS digest_oid (alg_oid normal)"
    by (auto simp: pairings_apart)
  with True show ?thesis
    by (auto simp: normalize_cms_signature_algorithm_def and_then_eq_Inr ok_or_eq_Inr combined_digest algorithm_eq
        simp del: map_option_eq_Some)
next
  case other: False
  have wrong: "normalize_cms_signature_algorithm digest_oid algorithm \<noteq> Ok normal"
    if "folded_digest_of (alg_oid algorithm) \<noteq> Some digest_oid"
    using that other by (auto simp: normalize_cms_signature_algorithm_def and_then_eq_Inr ok_or_eq_Inr)
  show ?thesis
  proof (cases "pairs RSA_PAIRINGS digest_oid (alg_oid algorithm) \<or> pairs ECDSA_PAIRINGS digest_oid (alg_oid algorithm)")
    case True
    then show ?thesis
      using other folded_digest_unique[OF True] pairings_apart(3)[of digest_oid "alg_oid algorithm"]
      by (auto simp: normalize_cms_signature_algorithm_def algorithm_eq is_absent_or_null_parameter_def
          intro!: algorithm_identifier.equality)
  next
    case False
    then show ?thesis
      using other wrong folded_digest[of "alg_oid algorithm" digest_oid] by auto
  qed
qed

lemma normalize_exact_witness:
  "normalize_cms_signature_algorithm ID_SHA_512 \<lparr>alg_oid = ID_RSA_ENCRYPTION, alg_parameters = None\<rparr> =
     Ok \<lparr>alg_oid = ID_SHA_512_WITH_RSA_ENCRYPTION, alg_parameters = Some any_null\<rparr>"
  unfolding normalize_exact
  by (simp add: pairs_def RSA_PAIRINGS_def is_absent_or_null_parameter_def oid_defs)

section \<open>A concrete public key infrastructure\<close>

text \<open>Instances the properties are applied to: a signature is the issuer's key, DER is the serial.\<close>

definition toy_algorithm :: algorithm_identifier where
  "toy_algorithm = \<lparr>alg_oid = ID_ECDSA_WITH_SHA_256, alg_parameters = None\<rparr>"

definition toy_pki :: pki where
  "toy_pki =
     \<lparr>tbs_to_der = \<lambda>c. Some (cert_serial c), crl_to_der = \<lambda>c. Some (crl_issuer c), verifying_key = Ok,
      key_verify = \<lambda>key _ _ signature. if signature = key then Ok () else Err Verification,
      key_usage_from_der = \<lambda>_. Ok \<lparr>ku_digital_signature = True, ku_non_repudiation = False,
        ku_key_cert_sign = True, ku_crl_sign = True\<rparr>,
      basic_constraints_from_der = \<lambda>_. Ok \<lparr>bc_ca = True, bc_path_len = None\<rparr>,
      extended_key_usage_from_der = \<lambda>_. Ok [ID_KP_TIME_STAMPING], subject_key_from_der = Ok,
      crl_reason_from_der = \<lambda>_. Ok CRSuperseded, name_to_string = \<lambda>n. n\<rparr>"

definition toy_certificate :: "bytes \<Rightarrow> name \<Rightarrow> bytes \<Rightarrow> name \<Rightarrow> bytes \<Rightarrow> extension list option \<Rightarrow> certificate" where
  "toy_certificate serial issuer issuer_key subject key exts =
     \<lparr>cert_version = CertV3, cert_serial = serial, cert_issuer = issuer, cert_subject = subject,
      cert_validity = \<lparr>not_before = 0, not_after = 100\<rparr>, cert_public_key = key, cert_extensions = exts,
      tbs_rest = [], cert_signature_algorithm = toy_algorithm, cert_signature = Some issuer_key\<rparr>"

definition toy_authority :: "extension list option" where
  "toy_authority = Some [\<lparr>extn_id = BASIC_CONSTRAINTS, ext_critical = True, extn_value = []\<rparr>]"

definition toy_root :: certificate where
  "toy_root = toy_certificate ''1'' ''root'' ''R'' ''root'' ''R'' toy_authority"

definition toy_signer :: certificate where
  "toy_signer = toy_certificate ''2'' ''root'' ''R'' ''tsa'' ''K'' None"

definition toy_crl :: "name \<Rightarrow> bytes \<Rightarrow> certificate_list" where
  "toy_crl issuer key =
     \<lparr>crl_issuer = issuer, crl_tbs_signature = toy_algorithm, crl_this_update = 10, crl_next_update = Some 90,
      crl_revoked = None, crl_extensions = None, crl_rest = [], crl_signature_algorithm = toy_algorithm,
      crl_signature = Some key\<rparr>"

lemmas toy_defs = toy_pki_def toy_root_def toy_signer_def toy_certificate_def toy_authority_def toy_crl_def
  toy_algorithm_def

end
