(* ===== verification/Revocation.thy ===== *)
theory Revocation
  imports X509
begin

text \<open>
  \<open>crates/tydence/src/verify/revocation.rs\<close>: revocation status at genTime, judged against sealed CRL
  snapshots. The check passes exactly when the issuer may sign CRLs, some admissible CRL decides the
  moment, and every entry an admissible CRL holds for the certificate is tolerable; neither the order
  nor the repetition of the CRLs matters, and an adverse entry cannot be outweighed by more of them.
\<close>

datatype revocation_reason =
  Unspecified | KeyCompromise | CaCompromise | AffiliationChanged | Superseded
  | CessationOfOperation | CertificateHold | RemoveFromCrl | PrivilegeWithdrawn | AaCompromise

fun revocation_reason_from :: "crl_reason_value \<Rightarrow> revocation_reason" where
  "revocation_reason_from CRUnspecified = Unspecified"
| "revocation_reason_from CRKeyCompromise = KeyCompromise"
| "revocation_reason_from CRCaCompromise = CaCompromise"
| "revocation_reason_from CRAffiliationChanged = AffiliationChanged"
| "revocation_reason_from CRSuperseded = Superseded"
| "revocation_reason_from CRCessationOfOperation = CessationOfOperation"
| "revocation_reason_from CRCertificateHold = CertificateHold"
| "revocation_reason_from CRRemoveFromCRL = RemoveFromCrl"
| "revocation_reason_from CRPrivilegeWithdrawn = PrivilegeWithdrawn"
| "revocation_reason_from CRAaCompromise = AaCompromise"

definition TOLERATED_AFTER_GEN_TIME :: "revocation_reason list" where
  "TOLERATED_AFTER_GEN_TIME = [AffiliationChanged, Superseded, CessationOfOperation, PrivilegeWithdrawn]"

datatype revocation_error =
  IssuerCannotSignCrls
  | NoUsableCrl
  | RevokedAtGenTime system_time
  | DisqualifyingRevocation "revocation_reason option"
  | CriticalEntryExtension
  | MalformedEntry extension_error
  | MalformedIssuer extension_error

fun revocation_reason_debug :: "revocation_reason \<Rightarrow> string" where
  "revocation_reason_debug Unspecified = ''Unspecified''"
| "revocation_reason_debug KeyCompromise = ''KeyCompromise''"
| "revocation_reason_debug CaCompromise = ''CaCompromise''"
| "revocation_reason_debug AffiliationChanged = ''AffiliationChanged''"
| "revocation_reason_debug Superseded = ''Superseded''"
| "revocation_reason_debug CessationOfOperation = ''CessationOfOperation''"
| "revocation_reason_debug CertificateHold = ''CertificateHold''"
| "revocation_reason_debug RemoveFromCrl = ''RemoveFromCrl''"
| "revocation_reason_debug PrivilegeWithdrawn = ''PrivilegeWithdrawn''"
| "revocation_reason_debug AaCompromise = ''AaCompromise''"

definition maybe_reason_debug :: "revocation_reason option \<Rightarrow> string" where
  "maybe_reason_debug reason =
     (case reason of None \<Rightarrow> ''None'' | Some known \<Rightarrow> ''Some('' @ revocation_reason_debug known @ '')'')"

text \<open>\<open>Debug\<close> of \<open>SystemTime\<close> depends on the platform and is an argument.\<close>

fun revocation_error_display :: "(system_time \<Rightarrow> string) \<Rightarrow> revocation_error \<Rightarrow> string" where
  "revocation_error_display debug_time IssuerCannotSignCrls = ''the issuer's key usage does not allow CRL signing''"
| "revocation_error_display debug_time NoUsableCrl = ''no admissible CRL covers the token's genTime''"
| "revocation_error_display debug_time (RevokedAtGenTime revocation_date) =
     ''the certificate was already revoked at genTime (revoked '' @ debug_time revocation_date @ '')''"
| "revocation_error_display debug_time (DisqualifyingRevocation reason) =
     ''the certificate's revocation ('' @ maybe_reason_debug reason @ '') does not rule out key compromise''"
| "revocation_error_display debug_time CriticalEntryExtension =
     ''a CRL entry carries an unsupported critical extension''"
| "revocation_error_display debug_time (MalformedEntry source) =
     ''a CRL entry is malformed ('' @ extension_error_display source @ '')''"
| "revocation_error_display debug_time (MalformedIssuer source) =
     ''the issuer certificate's extensions are malformed ('' @ extension_error_display source @ '')''"

record revocation_subject =
  rs_certificate :: certificate
  rs_issuer :: certificate
  rs_gen_time :: system_time

section \<open>The check\<close>

definition carries_critical :: "extension list option \<Rightarrow> bool" where
  "carries_critical exts = list_ex ext_critical (listed exts)"

definition is_admissible :: "pki \<Rightarrow> certificate_list \<Rightarrow> certificate \<Rightarrow> bool" where
  "is_admissible p crl issuer =
     (if crl_issuer crl \<noteq> cert_subject issuer then False
      else if crl_tbs_signature crl \<noteq> crl_signature_algorithm crl then False
      else if carries_critical (crl_extensions crl) then False
      else case crl_to_der p crl of
        None \<Rightarrow> False
      | Some message \<Rightarrow>
          (case crl_signature crl of
             None \<Rightarrow> False
           | Some signature_bytes \<Rightarrow>
               is_ok (verify_issued_signature p message
                 \<lparr>rs_algorithm = crl_signature_algorithm crl, rs_bytes = signature_bytes\<rparr> issuer)))"

definition decides_at_gen_time :: "certificate_list \<Rightarrow> revocation_subject \<Rightarrow> bool" where
  "decides_at_gen_time crl subject =
     (case crl_next_update crl of
        None \<Rightarrow> False
      | Some next_update \<Rightarrow>
          rs_gen_time subject \<le> next_update \<and>
          crl_this_update crl \<le> not_after (cert_validity (rs_certificate subject)))"

definition tolerated :: "revocation_reason option \<Rightarrow> bool" where
  "tolerated reason = (case reason of None \<Rightarrow> False | Some known_reason \<Rightarrow> known_reason \<in> set TOLERATED_AFTER_GEN_TIME)"

definition judge_entry :: "pki \<Rightarrow> revoked_cert \<Rightarrow> system_time \<Rightarrow> (revocation_error, unit) result" where
  "judge_entry p revoked gen_time =
     (if carries_critical (rc_extensions revoked) then Err CriticalEntryExtension
      else and_then (map_err MalformedEntry (decode_extension CRL_REASON (crl_reason_from_der p) (rc_extensions revoked)))
        (\<lambda>decoded.
          let reason = map_option (\<lambda>d. revocation_reason_from (de_value d)) decoded;
              revocation_date = rc_revocation_date revoked
          in if revocation_date \<le> gen_time then Err (RevokedAtGenTime revocation_date)
             else if tolerated reason then Ok ()
             else Err (DisqualifyingRevocation reason)))"

definition grants :: "(key_usage \<Rightarrow> bool) \<Rightarrow> key_usage decoded_extension option \<Rightarrow> bool" where
  "grants right usage = (case usage of None \<Rightarrow> True | Some decoded \<Rightarrow> right (de_value decoded))"

definition judge_crl ::
  "pki \<Rightarrow> revocation_subject \<Rightarrow> bool \<Rightarrow> certificate_list \<Rightarrow> (revocation_error, bool) result" where
  "judge_crl p subject decided crl =
     (if \<not> is_admissible p crl (rs_issuer subject) then Ok decided
      else and_then
        (try_each (\<lambda>revoked.
            if rc_serial revoked = cert_serial (rs_certificate subject)
            then judge_entry p revoked (rs_gen_time subject) else Ok ())
          (listed (crl_revoked crl)))
        (\<lambda>_. Ok (decided \<or> decides_at_gen_time crl subject)))"

definition ensure_unrevoked ::
  "pki \<Rightarrow> revocation_subject \<Rightarrow> certificate_list list \<Rightarrow> (revocation_error, unit) result" where
  "ensure_unrevoked p subject crls =
     and_then (map_err MalformedIssuer
       (decode_extension KEY_USAGE (key_usage_from_der p) (cert_extensions (rs_issuer subject)))) (\<lambda>issuer_key_usage.
     if \<not> grants ku_crl_sign issuer_key_usage then Err IssuerCannotSignCrls
     else and_then (try_fold (judge_crl p subject) False crls) (\<lambda>decided.
       if decided then Ok () else Err NoUsableCrl))"

section \<open>What passing means\<close>

definition may_sign_crls :: "pki \<Rightarrow> certificate \<Rightarrow> bool" where
  "may_sign_crls p issuer \<longleftrightarrow>
     (\<exists>usage. claimed_extension KEY_USAGE (key_usage_from_der p) (listed (cert_extensions issuer)) usage \<and>
        grants ku_crl_sign usage)"

definition tolerable :: "pki \<Rightarrow> system_time \<Rightarrow> revoked_cert \<Rightarrow> bool" where
  "tolerable p gen_time revoked \<longleftrightarrow>
     (\<forall>e \<in> set (listed (rc_extensions revoked)). \<not> ext_critical e) \<and>
     gen_time < rc_revocation_date revoked \<and>
     (\<exists>d. claimed_extension CRL_REASON (crl_reason_from_der p) (listed (rc_extensions revoked)) (Some d) \<and>
        revocation_reason_from (de_value d) \<in> {AffiliationChanged, Superseded, CessationOfOperation, PrivilegeWithdrawn})"

lemma judge_entry_Ok: "judge_entry p revoked gen_time = Ok u \<longleftrightarrow> tolerable p gen_time revoked"
proof -
  have "tolerated (map_option f r) \<longleftrightarrow> (\<exists>d. r = Some d \<and>
      f d \<in> {AffiliationChanged, Superseded, CessationOfOperation, PrivilegeWithdrawn})"
    for f and r :: "crl_reason_value decoded_extension option"
    by (cases r) (auto simp: tolerated_def TOLERATED_AFTER_GEN_TIME_def)
  then show ?thesis
    by (auto simp: judge_entry_def tolerable_def carries_critical_def list_ex_iff result_simps
        decode_extension_Ok Let_def split: if_splits)
qed

lemma judge_crl_Ok:
  "judge_crl p subject decided crl = Ok decided' \<longleftrightarrow>
     (if is_admissible p crl (rs_issuer subject)
      then decided' = (decided \<or> decides_at_gen_time crl subject) \<and>
        (\<forall>revoked \<in> set (listed (crl_revoked crl)).
           rc_serial revoked = cert_serial (rs_certificate subject) \<longrightarrow> tolerable p (rs_gen_time subject) revoked)
      else decided' = decided)"
  by (auto simp: judge_crl_def result_simps try_each_Ok judge_entry_Ok split: if_splits)

lemma judge_crls_Ok:
  "try_fold (judge_crl p subject) decided crls = Ok decided' \<longleftrightarrow>
     decided' = (decided \<or> (\<exists>crl \<in> set crls. is_admissible p crl (rs_issuer subject) \<and> decides_at_gen_time crl subject)) \<and>
     (\<forall>crl \<in> set crls. is_admissible p crl (rs_issuer subject) \<longrightarrow>
        (\<forall>revoked \<in> set (listed (crl_revoked crl)).
           rc_serial revoked = cert_serial (rs_certificate subject) \<longrightarrow> tolerable p (rs_gen_time subject) revoked))"
proof (induction crls arbitrary: decided)
  case (Cons crl crls)
  then show ?case
    by (cases "is_admissible p crl (rs_issuer subject)") (auto simp: result_simps judge_crl_Ok)
qed auto

lemma ensure_unrevoked_Ok:
  "ensure_unrevoked p subject crls = Ok u \<longleftrightarrow>
     may_sign_crls p (rs_issuer subject) \<and>
     (\<exists>crl \<in> set crls. is_admissible p crl (rs_issuer subject) \<and> decides_at_gen_time crl subject) \<and>
     (\<forall>crl \<in> set crls. is_admissible p crl (rs_issuer subject) \<longrightarrow>
        (\<forall>revoked \<in> set (listed (crl_revoked crl)).
           rc_serial revoked = cert_serial (rs_certificate subject) \<longrightarrow> tolerable p (rs_gen_time subject) revoked))"
  by (auto simp: ensure_unrevoked_def result_simps decode_extension_Ok judge_crls_Ok may_sign_crls_def split: if_splits)

text \<open>A CRL the issuer signed, without critical extensions.\<close>

definition crl_of_issuer :: "pki \<Rightarrow> certificate \<Rightarrow> certificate_list \<Rightarrow> bool" where
  "crl_of_issuer p issuer crl \<longleftrightarrow>
     crl_issuer crl = cert_subject issuer \<and> crl_tbs_signature crl = crl_signature_algorithm crl \<and>
     (\<forall>e \<in> set (listed (crl_extensions crl)). \<not> ext_critical e) \<and>
     (\<exists>message signature_bytes. crl_to_der p crl = Some message \<and> crl_signature crl = Some signature_bytes \<and>
        verify_issued_signature p message
          \<lparr>rs_algorithm = crl_signature_algorithm crl, rs_bytes = signature_bytes\<rparr> issuer = Ok ())"

lemma is_admissible_iff: "is_admissible p crl issuer \<longleftrightarrow> crl_of_issuer p issuer crl"
  by (auto simp: is_admissible_def crl_of_issuer_def carries_critical_def list_ex_iff is_ok_iff split: option.splits)

text \<open>A certificate passes the revocation check exactly when its issuer may sign CRLs, some
  admissible CRL decides the status at genTime, and every entry an admissible CRL holds for its serial is
  tolerable: no critical extension, revoked after genTime, for one of the four reasons that leave the key
  uncompromised.\<close>

theorem unrevoked_iff:
  "ensure_unrevoked p \<lparr>rs_certificate = certificate, rs_issuer = issuer, rs_gen_time = gen_time\<rparr> crls = Ok () \<longleftrightarrow>
     may_sign_crls p issuer \<and>
     (\<exists>crl \<in> set crls. is_admissible p crl issuer \<and>
        crl_this_update crl \<le> not_after (cert_validity certificate) \<and>
        (\<exists>next_update. crl_next_update crl = Some next_update \<and> gen_time \<le> next_update)) \<and>
     (\<nexists>crl revoked. crl \<in> set crls \<and> is_admissible p crl issuer \<and>
        revoked \<in> set (listed (crl_revoked crl)) \<and> rc_serial revoked = cert_serial certificate \<and>
        \<not> tolerable p gen_time revoked)"
proof -
  have "decides_at_gen_time crl \<lparr>rs_certificate = certificate, rs_issuer = issuer, rs_gen_time = gen_time\<rparr> \<longleftrightarrow>
      crl_this_update crl \<le> not_after (cert_validity certificate) \<and>
      (\<exists>next_update. crl_next_update crl = Some next_update \<and> gen_time \<le> next_update)" for crl
    by (auto simp: decides_at_gen_time_def split: option.splits)
  then show ?thesis by (simp add: ensure_unrevoked_Ok) blast
qed

text \<open>Adverse evidence cannot be outweighed: whenever a larger set of CRLs passes, every part of it
  that still decides the moment passes as well, in any order.\<close>

theorem revocation_evidence_monotone:
  assumes "ensure_unrevoked p subject all_crls = Ok ()"
    and "set crls \<subseteq> set all_crls"
    and "\<exists>crl \<in> set crls. is_admissible p crl (rs_issuer subject) \<and> decides_at_gen_time crl subject"
  shows "ensure_unrevoked p subject crls = Ok ()"
  using assms by (auto simp: ensure_unrevoked_Ok)

lemma revocation_evidence_monotone_witness:
  "ensure_unrevoked toy_pki \<lparr>rs_certificate = toy_signer, rs_issuer = toy_root, rs_gen_time = 50\<rparr>
     [toy_crl ''root'' ''R''] = Ok ()"
  by (rule revocation_evidence_monotone[of _ _ "[toy_crl ''other'' ''X'', toy_crl ''root'' ''R'']"])
    (simp_all add: ensure_unrevoked_def toy_defs decode_extension_def listed_def judge_crl_def is_admissible_def
      verify_issued_signature_def carries_critical_def decides_at_gen_time_def grants_def oid_defs)

end
