(* ===== verification/Chain_Path.thy ===== *)
theory Chain_Path
  imports Revocation
begin

text \<open>
  \<open>crates/tydence/src/verify/path.rs\<close>: the walk from a signer to a trust anchor, judged at genTime. One
  pass of the loop is \<open>chain_pass\<close>, \<open>walk\<close> is the bounded loop around it, and the locale
  \<open>bounded_walk\<close> turns what one pass decides into what the whole walk decides: it succeeds exactly on a
  route of links of bounded length that ends in an anchor.
\<close>

definition MAX_CHAIN_LENGTH :: nat where
  "MAX_CHAIN_LENGTH = 8"

definition EVALUATED_EXTENSIONS :: "oid list" where
  "EVALUATED_EXTENSIONS = [BASIC_CONSTRAINTS, EXTENDED_KEY_USAGE, KEY_USAGE]"

datatype path_error =
  OutsideValidity string
  | UnsupportedVersion string
  | UnknownCriticalExtension string oid
  | MalformedExtension string extension_error
  | UnencodableCertificate string
  | NoTrustedIssuer string
  | ChainTooLong
  | IssuerNotAuthority string
  | IssuerCannotSignCertificates string
  | PathLengthExceeded string
  | RevocationFailure revocation_error

fun path_error_display :: "(system_time \<Rightarrow> string) \<Rightarrow> path_error \<Rightarrow> string" where
  "path_error_display debug_time (OutsideValidity subject) = subject @ '' is not valid at the token's genTime''"
| "path_error_display debug_time (UnsupportedVersion subject) = subject @ '' is not a v3 certificate''"
| "path_error_display debug_time (UnknownCriticalExtension subject oid_text) =
     subject @ '' carries unsupported critical extension '' @ oid_text"
| "path_error_display debug_time (MalformedExtension subject source) =
     subject @ '' carries a malformed extension ('' @ extension_error_display source @ '')''"
| "path_error_display debug_time (UnencodableCertificate subject) = subject @ '' does not re-encode''"
| "path_error_display debug_time (NoTrustedIssuer subject) = ''no trusted certificate validly issued '' @ subject"
| "path_error_display debug_time ChainTooLong = ''the chain exceeds '' @ decimal MAX_CHAIN_LENGTH @ '' certificates''"
| "path_error_display debug_time (IssuerNotAuthority issuer) =
     issuer @ '' is not marked as a certificate authority''"
| "path_error_display debug_time (IssuerCannotSignCertificates issuer) =
     issuer @ CHR 0x27 # ''s key usage does not allow certificate signing''"
| "path_error_display debug_time (PathLengthExceeded issuer) =
     issuer @ CHR 0x27 # ''s path length constraint forbids this chain''"
| "path_error_display debug_time (RevocationFailure cause) =
     ''revocation check failed: '' @ revocation_error_display debug_time cause"

record trust_pool =
  pool_anchors :: "certificate list"
  pool_companions :: "certificate list"
  pool_crls :: "certificate_list list"

definition name_of :: "pki \<Rightarrow> certificate \<Rightarrow> string" where
  "name_of p certificate = name_to_string p (cert_subject certificate)"

definition ensure_screened :: "pki \<Rightarrow> certificate \<Rightarrow> (path_error, unit) result" where
  "ensure_screened p certificate =
     (if cert_version certificate \<noteq> CertV3 then Err (UnsupportedVersion (name_of p certificate))
      else try_each (\<lambda>ext.
        if ext_critical ext \<and> extn_id ext \<notin> set EVALUATED_EXTENSIONS
        then Err (UnknownCriticalExtension (name_of p certificate) (extn_id ext)) else Ok ())
        (listed (cert_extensions certificate)))"

record step_subject =
  ss_certificate :: certificate
  ss_message :: bytes

definition is_signing_issuer :: "pki \<Rightarrow> step_subject \<Rightarrow> certificate \<Rightarrow> bool" where
  "is_signing_issuer p subject candidate =
     (case cert_signature (ss_certificate subject) of
        None \<Rightarrow> False
      | Some signature_bytes \<Rightarrow>
          cert_subject candidate = cert_issuer (ss_certificate subject) \<and>
          is_ok (verify_issued_signature p (ss_message subject)
            \<lparr>rs_algorithm = cert_signature_algorithm (ss_certificate subject), rs_bytes = signature_bytes\<rparr> candidate))"

definition within_length_limit :: "nat option \<Rightarrow> nat \<Rightarrow> bool" where
  "within_length_limit path_len intermediates_below =
     (case path_len of None \<Rightarrow> True | Some limit \<Rightarrow> intermediates_below \<le> limit)"

definition authority_of :: "basic_constraints decoded_extension option \<Rightarrow> basic_constraints option" where
  "authority_of constraints =
     (case constraints of None \<Rightarrow> None
      | Some decoded \<Rightarrow> if bc_ca (de_value decoded) then Some (de_value decoded) else None)"

definition ensure_issuer_fitness :: "pki \<Rightarrow> certificate \<Rightarrow> nat \<Rightarrow> (path_error, unit) result" where
  "ensure_issuer_fitness p issuer intermediates_below =
     and_then (map_err (MalformedExtension (name_of p issuer))
       (decode_extension BASIC_CONSTRAINTS (basic_constraints_from_der p) (cert_extensions issuer))) (\<lambda>constraints.
     and_then (ok_or (IssuerNotAuthority (name_of p issuer)) (authority_of constraints)) (\<lambda>authority.
     if \<not> within_length_limit (bc_path_len authority) intermediates_below
     then Err (PathLengthExceeded (name_of p issuer))
     else and_then (map_err (MalformedExtension (name_of p issuer))
       (decode_extension KEY_USAGE (key_usage_from_der p) (cert_extensions issuer))) (\<lambda>usage.
     if grants ku_key_cert_sign usage then Ok ()
     else Err (IssuerCannotSignCertificates (name_of p issuer)))))"

definition candidates :: "trust_pool \<Rightarrow> certificate \<Rightarrow> system_time \<Rightarrow> certificate list" where
  "candidates pool current gen_time =
     [candidate \<leftarrow> [candidate \<leftarrow> pool_anchors pool @ pool_companions pool. candidate \<noteq> current].
        covers_moment (cert_validity candidate) gen_time]"

text \<open>One pass of the loop: \<open>None\<close> is \<open>return Ok(())\<close>, \<open>Some\<close> the certificate the next pass starts from.\<close>

definition chain_pass ::
  "pki \<Rightarrow> trust_pool \<Rightarrow> system_time \<Rightarrow> nat \<Rightarrow> certificate \<Rightarrow> (path_error, certificate option) result" where
  "chain_pass p pool gen_time intermediates_below current =
     (if \<not> covers_moment (cert_validity current) gen_time then Err (OutsideValidity (name_of p current))
      else if current \<in> set (pool_anchors pool) then Ok None
      else
        and_then (ensure_screened p current) (\<lambda>_.
        and_then (ok_or (UnencodableCertificate (name_of p current)) (tbs_to_der p current)) (\<lambda>message.
        and_then (ok_or (NoTrustedIssuer (name_of p current))
          (List.find (is_signing_issuer p \<lparr>ss_certificate = current, ss_message = message\<rparr>)
            (candidates pool current gen_time))) (\<lambda>issuer.
        let issuer_is_anchor = issuer \<in> set (pool_anchors pool) in
        and_then (if \<not> issuer_is_anchor then ensure_issuer_fitness p issuer intermediates_below else Ok ()) (\<lambda>_.
        and_then (map_err RevocationFailure
          (ensure_unrevoked p \<lparr>rs_certificate = current, rs_issuer = issuer, rs_gen_time = gen_time\<rparr> (pool_crls pool))) (\<lambda>_.
        if issuer_is_anchor then Ok None else Ok (Some issuer)))))))"

fun walk :: "'e \<Rightarrow> (nat \<Rightarrow> 's \<Rightarrow> ('e, 's option) result) \<Rightarrow> nat list \<Rightarrow> 's \<Rightarrow> ('e, unit) result" where
  "walk exhausted pass [] current = Err exhausted"
| "walk exhausted pass (i # passes) current =
     and_then (pass i current) (\<lambda>following.
       case following of None \<Rightarrow> Ok () | Some subject \<Rightarrow> walk exhausted pass passes subject)"

definition validate_chain :: "pki \<Rightarrow> certificate \<Rightarrow> trust_pool \<Rightarrow> system_time \<Rightarrow> (path_error, unit) result" where
  "validate_chain p signer pool gen_time =
     walk ChainTooLong (chain_pass p pool gen_time) [0..<MAX_CHAIN_LENGTH] signer"

section \<open>Bounded walks\<close>

locale bounded_walk =
  fixes pass :: "nat \<Rightarrow> 's \<Rightarrow> ('e, 's option) result"
    and goal :: "'s \<Rightarrow> bool"
    and link :: "nat \<Rightarrow> 's \<Rightarrow> 's \<Rightarrow> bool"
  assumes pass_stops: "pass i s = Ok None \<longleftrightarrow> goal s \<or> (\<exists>t. link i s t \<and> goal t)"
    and pass_goes_on: "pass i s = Ok (Some t) \<longleftrightarrow> link i s t \<and> \<not> goal t"
    and link_before_goal: "link i s t \<Longrightarrow> \<not> goal s"
begin

fun route :: "nat \<Rightarrow> 's \<Rightarrow> 's list \<Rightarrow> bool" where
  "route i s [] = goal s"
| "route i s (t # ts) = (link i s t \<and> route (Suc i) t ts)"

lemma walk_iff_route:
  "walk exhausted pass [i..<i + n] s = Ok u \<longleftrightarrow> 0 < n \<and> (\<exists>ts. route i s ts \<and> length ts \<le> n)"
proof (induction n arbitrary: i s)
  case 0
  show ?case by simp
next
  case (Suc n)
  have range: "[i..<i + Suc n] = i # [Suc i..<Suc i + n]" by (simp add: upt_rec)
  have route_from: "(\<exists>ts. route i s ts \<and> length ts \<le> Suc n) \<longleftrightarrow>
      goal s \<or> (\<exists>t. link i s t \<and> (\<exists>ts. route (Suc i) t ts \<and> length ts \<le> n))"
  proof
    assume "\<exists>ts. route i s ts \<and> length ts \<le> Suc n"
    then obtain ts where "route i s ts" "length ts \<le> Suc n" by blast
    then show "goal s \<or> (\<exists>t. link i s t \<and> (\<exists>ts. route (Suc i) t ts \<and> length ts \<le> n))"
      by (cases ts) auto
  next
    assume "goal s \<or> (\<exists>t. link i s t \<and> (\<exists>ts. route (Suc i) t ts \<and> length ts \<le> n))"
    then show "\<exists>ts. route i s ts \<and> length ts \<le> Suc n"
    proof
      assume "goal s"
      then show ?thesis by (intro exI[of _ "[]"]) simp
    next
      assume "\<exists>t. link i s t \<and> (\<exists>ts. route (Suc i) t ts \<and> length ts \<le> n)"
      then obtain t ts where "link i s t" "route (Suc i) t ts" "length ts \<le> n" by blast
      then show ?thesis by (intro exI[of _ "t # ts"]) simp
    qed
  qed
  have at_goal: "goal t \<Longrightarrow> \<exists>ts. route (Suc i) t ts \<and> length ts \<le> n" for t
    by (intro exI[of _ "[]"]) simp
  have short: "n = 0 \<Longrightarrow> route (Suc i) t ts \<Longrightarrow> length ts \<le> n \<Longrightarrow> goal t" for t ts
    by auto
  show ?case
  proof (cases "pass i s")
    case (Inl e)
    then have "\<not> goal s" "\<not> link i s t" for t
      using pass_stops[of i s] pass_goes_on[of i s t] by auto
    then show ?thesis unfolding range route_from using Inl by simp
  next
    case (Inr following)
    show ?thesis
    proof (cases following)
      case None
      then have "goal s \<or> (\<exists>t. link i s t \<and> goal t)" using Inr pass_stops by simp
      then show ?thesis unfolding range route_from using Inr None at_goal by auto
    next
      case (Some t)
      then have next_link: "link i s t" "\<not> goal t" using Inr pass_goes_on by auto
      have others: "link i s t' \<Longrightarrow> t' = t" for t'
      proof -
        assume "link i s t'"
        have "\<not> goal t'" using pass_stops[of i s] Inr Some \<open>link i s t'\<close> by auto
        then show "t' = t" using pass_goes_on[of i s t'] \<open>link i s t'\<close> Inr Some by simp
      qed
      have only: "(\<exists>t'. link i s t' \<and> Q t') \<longleftrightarrow> Q t" for Q
        using next_link(1) others by blast
      have positive: "0 < n" if "route (Suc i) t ts" "length ts \<le> n" for ts
        using that next_link(2) short by (cases n) auto
      have "walk exhausted pass (i # [Suc i..<Suc i + n]) s = Ok u \<longleftrightarrow>
          (\<exists>ts. route (Suc i) t ts \<and> length ts \<le> n)"
        using Inr Some Suc.IH[of "Suc i" t] positive by auto
      moreover have "\<not> goal s" using next_link(1) by (rule link_before_goal)
      ultimately show ?thesis unfolding range route_from only by blast
    qed
  qed
qed

end

section \<open>Links of a chain\<close>

text \<open>\<open>issuer\<close> is what the walk chooses for \<open>current\<close>: the first signing candidate, fit unless trusted, with
  \<open>current\<close> screened and unrevoked.\<close>

definition fit_issuer :: "pki \<Rightarrow> certificate \<Rightarrow> nat \<Rightarrow> bool" where
  "fit_issuer p issuer intermediates_below \<longleftrightarrow>
     (\<exists>constraints usage.
        claimed_extension BASIC_CONSTRAINTS (basic_constraints_from_der p) (listed (cert_extensions issuer)) (Some constraints) \<and>
        bc_ca (de_value constraints) \<and>
        within_length_limit (bc_path_len (de_value constraints)) intermediates_below \<and>
        claimed_extension KEY_USAGE (key_usage_from_der p) (listed (cert_extensions issuer)) usage \<and>
        grants ku_key_cert_sign usage)"

definition screened :: "certificate \<Rightarrow> bool" where
  "screened certificate \<longleftrightarrow> cert_version certificate = CertV3 \<and>
     (\<forall>ext \<in> set (listed (cert_extensions certificate)). ext_critical ext \<longrightarrow> extn_id ext \<in> set EVALUATED_EXTENSIONS)"

definition chosen_issuer :: "pki \<Rightarrow> trust_pool \<Rightarrow> system_time \<Rightarrow> certificate \<Rightarrow> certificate option" where
  "chosen_issuer p pool gen_time current =
     (case tbs_to_der p current of None \<Rightarrow> None
      | Some message \<Rightarrow> List.find (is_signing_issuer p \<lparr>ss_certificate = current, ss_message = message\<rparr>)
          (candidates pool current gen_time))"

definition anchored :: "trust_pool \<Rightarrow> system_time \<Rightarrow> certificate \<Rightarrow> bool" where
  "anchored pool gen_time certificate \<longleftrightarrow>
     certificate \<in> set (pool_anchors pool) \<and> covers_moment (cert_validity certificate) gen_time"

definition chain_link ::
  "pki \<Rightarrow> trust_pool \<Rightarrow> system_time \<Rightarrow> nat \<Rightarrow> certificate \<Rightarrow> certificate \<Rightarrow> bool" where
  "chain_link p pool gen_time intermediates_below current issuer \<longleftrightarrow>
     covers_moment (cert_validity current) gen_time \<and> current \<notin> set (pool_anchors pool) \<and>
     screened current \<and> chosen_issuer p pool gen_time current = Some issuer \<and>
     (issuer \<in> set (pool_anchors pool) \<or> fit_issuer p issuer intermediates_below) \<and>
     ensure_unrevoked p \<lparr>rs_certificate = current, rs_issuer = issuer, rs_gen_time = gen_time\<rparr> (pool_crls pool) = Ok ()"

lemma ensure_screened_Ok: "ensure_screened p c = Ok u \<longleftrightarrow> screened c"
  by (auto simp: ensure_screened_def screened_def try_each_Ok)

lemma authority_of_Some: "authority_of r = Some a \<longleftrightarrow> (\<exists>d. r = Some d \<and> bc_ca (de_value d) \<and> a = de_value d)"
  by (auto simp: authority_of_def split: option.splits)

lemma ensure_issuer_fitness_Ok: "ensure_issuer_fitness p issuer n = Ok u \<longleftrightarrow> fit_issuer p issuer n"
  by (auto simp: ensure_issuer_fitness_def fit_issuer_def result_simps decode_extension_Ok authority_of_Some
      split: if_splits)

lemma find_in: "List.find P xs = Some x \<Longrightarrow> x \<in> set xs \<and> P x"
  by (induction xs) (auto split: if_splits)

lemma chosen_issuer_SomeD:
  assumes "chosen_issuer p pool gen_time c = Some issuer"
  shows "issuer \<in> set (pool_anchors pool) \<union> set (pool_companions pool)" and "issuer \<noteq> c"
    and "covers_moment (cert_validity issuer) gen_time"
    and "\<exists>message. tbs_to_der p c = Some message \<and>
      is_signing_issuer p \<lparr>ss_certificate = c, ss_message = message\<rparr> issuer"
  using assms by (auto simp: chosen_issuer_def candidates_def split: option.splits dest!: find_in)

lemma chain_pass_cases:
  assumes "covers_moment (cert_validity c) gen_time" and "c \<notin> set (pool_anchors pool)"
  shows "chain_pass p pool gen_time n c = Ok r \<longleftrightarrow>
    (\<exists>issuer. chain_link p pool gen_time n c issuer \<and>
       r = (if issuer \<in> set (pool_anchors pool) then None else Some issuer))"
  using assms
  by (auto simp: chain_pass_def chain_link_def chosen_issuer_def result_simps ensure_screened_Ok
      ensure_issuer_fitness_Ok Let_def split: option.splits if_splits)

interpretation chain: bounded_walk "chain_pass p pool gen_time" "anchored pool gen_time" "chain_link p pool gen_time"
  for p pool gen_time
proof
  fix i s t
  have link_anchored: "chain_link p pool gen_time i s t \<Longrightarrow> anchored pool gen_time t \<longleftrightarrow> t \<in> set (pool_anchors pool)" for t
    by (auto simp: chain_link_def anchored_def dest: chosen_issuer_SomeD(3))
  have outside: "\<not> covers_moment (cert_validity s) gen_time \<Longrightarrow>
      chain_pass p pool gen_time i s = Err (OutsideValidity (name_of p s)) \<and>
      \<not> anchored pool gen_time s \<and> \<not> chain_link p pool gen_time i s t" for t
    by (simp add: chain_pass_def anchored_def chain_link_def)
  have inside: "covers_moment (cert_validity s) gen_time \<Longrightarrow> s \<in> set (pool_anchors pool) \<Longrightarrow>
      chain_pass p pool gen_time i s = Ok None \<and> anchored pool gen_time s \<and> \<not> chain_link p pool gen_time i s t" for t
    by (simp add: chain_pass_def anchored_def chain_link_def)
  show "chain_pass p pool gen_time i s = Ok None \<longleftrightarrow>
      anchored pool gen_time s \<or> (\<exists>t. chain_link p pool gen_time i s t \<and> anchored pool gen_time t)"
    using outside inside link_anchored chain_pass_cases[of s gen_time pool p i None]
    by (cases "covers_moment (cert_validity s) gen_time"; cases "s \<in> set (pool_anchors pool)")
      (auto simp: anchored_def split: if_splits)
  show "chain_pass p pool gen_time i s = Ok (Some t) \<longleftrightarrow>
      chain_link p pool gen_time i s t \<and> \<not> anchored pool gen_time t"
    using outside inside link_anchored chain_pass_cases[of s gen_time pool p i "Some t"]
    by (cases "covers_moment (cert_validity s) gen_time"; cases "s \<in> set (pool_anchors pool)")
      (auto split: if_splits)
  show "chain_link p pool gen_time i s t \<Longrightarrow> \<not> anchored pool gen_time s"
    by (simp add: chain_link_def anchored_def)
qed

section \<open>What a validated chain is\<close>

text \<open>A chain: the signer first, each certificate linked to the next, the last one a trust anchor valid
  at genTime; \<open>below\<close> counts the intermediates under the first issuer.\<close>

fun trust_chain :: "pki \<Rightarrow> trust_pool \<Rightarrow> system_time \<Rightarrow> nat \<Rightarrow> certificate list \<Rightarrow> bool" where
  "trust_chain p pool gen_time below [] = False"
| "trust_chain p pool gen_time below [c] = anchored pool gen_time c"
| "trust_chain p pool gen_time below (c # issuer # cs) =
     (chain_link p pool gen_time below c issuer \<and> trust_chain p pool gen_time (Suc below) (issuer # cs))"

lemma route_trust_chain: "bounded_walk.route (anchored pool gen_time) (chain_link p pool gen_time) i c cs \<longleftrightarrow> trust_chain p pool gen_time i (c # cs)"
  by (induction cs arbitrary: i c) (auto simp: chain.route.simps)

lemma validate_chain_Ok:
  "validate_chain p signer pool gen_time = Ok () \<longleftrightarrow>
     (\<exists>cs. trust_chain p pool gen_time 0 (signer # cs) \<and> length cs \<le> 8)"
  using chain.walk_iff_route[where p = p and pool = pool and gen_time = gen_time and exhausted = ChainTooLong
      and i = 0 and n = 8 and s = signer]
  by (simp add: validate_chain_def MAX_CHAIN_LENGTH_def route_trust_chain)

text \<open>A signer's chain validates exactly when some chain of at most eight issuers leads from the
  signer to a trust anchor, every certificate below the anchor being valid at genTime, screened, signed
  by the first eligible candidate, issued by a fit authority or an anchor, and unrevoked.\<close>

theorem validate_chain_iff:
  "validate_chain p signer pool gen_time = Ok () \<longleftrightarrow>
     (\<exists>cs. trust_chain p pool gen_time 0 (signer # cs) \<and> length cs \<le> 8)"
  by (rule validate_chain_Ok)

lemma trust_chain_links:
  "trust_chain p pool gen_time n cs \<Longrightarrow> Suc i < length cs \<Longrightarrow> chain_link p pool gen_time (n + i) (cs ! i) (cs ! Suc i)"
proof (induction p pool gen_time n cs arbitrary: i rule: trust_chain.induct)
  case (3 p pool gen_time below c issuer cs)
  then show ?case by (cases i) auto
qed auto

text \<open>Every link of an accepted chain is cryptographically and structurally sound: the issuer comes
  from the pool, is another certificate, is valid at genTime, carries the issuer name and a key that
  verifies the signature.\<close>

theorem chain_links_sound:
  assumes "trust_chain p pool gen_time 0 cs" and "Suc i < length cs"
  shows "cs ! Suc i \<in> set (pool_anchors pool) \<union> set (pool_companions pool) \<and> cs ! Suc i \<noteq> cs ! i \<and>
    covers_moment (cert_validity (cs ! i)) gen_time \<and> covers_moment (cert_validity (cs ! Suc i)) gen_time \<and>
    (\<exists>message signature. tbs_to_der p (cs ! i) = Some message \<and> cert_signature (cs ! i) = Some signature \<and>
      cert_subject (cs ! Suc i) = cert_issuer (cs ! i) \<and>
      verify_issued_signature p message
        \<lparr>rs_algorithm = cert_signature_algorithm (cs ! i), rs_bytes = signature\<rparr> (cs ! Suc i) = Ok ())"
proof -
  from trust_chain_links[OF assms] have "chain_link p pool gen_time i (cs ! i) (cs ! Suc i)" by simp
  then have "covers_moment (cert_validity (cs ! i)) gen_time"
    and chosen: "chosen_issuer p pool gen_time (cs ! i) = Some (cs ! Suc i)"
    by (simp_all add: chain_link_def)
  with chosen_issuer_SomeD[OF chosen] show ?thesis
    by (auto simp: is_signing_issuer_def is_ok_iff split: option.splits)
qed

definition toy_pool :: trust_pool where
  "toy_pool = \<lparr>pool_anchors = [toy_root], pool_companions = [toy_signer],
     pool_crls = [toy_crl ''root'' ''R'']\<rparr>"

lemma toy_chain_link: "chain_link toy_pki toy_pool 50 0 toy_signer toy_root"
  unfolding chain_link_def
  by (simp add: toy_pool_def chosen_issuer_def candidates_def screened_def is_signing_issuer_def
      ensure_unrevoked_def toy_defs decode_extension_def listed_def judge_crl_def is_admissible_def
      verify_issued_signature_def carries_critical_def decides_at_gen_time_def grants_def oid_defs covers_moment_def)

lemma toy_trust_chain: "trust_chain toy_pki toy_pool 50 0 [toy_signer, toy_root]"
  using toy_chain_link by (simp add: anchored_def toy_pool_def toy_root_def toy_certificate_def covers_moment_def)

lemma chain_links_sound_witness:
  "verify_issued_signature toy_pki ''2'' \<lparr>rs_algorithm = toy_algorithm, rs_bytes = ''R''\<rparr> toy_root = Ok ()"
  using chain_links_sound[OF toy_trust_chain, of 0]
  by (simp add: toy_signer_def toy_certificate_def toy_pki_def)

lemma validate_chain_iff_witness: "validate_chain toy_pki toy_signer toy_pool 50 = Ok ()"
  unfolding validate_chain_iff using toy_trust_chain by (intro exI[of _ "[toy_root]"]) simp

end
