(* ===== verification/Tsp.thy ===== *)
theory Tsp
  imports X509 Config
begin

text \<open>
  \<open>crates/tydence/src/tsp.rs\<close>: the RFC 3161 client. A request is built from the payload's digest and a
  drawn nonce, one exchange is made, and the response is screened fail-closed. The CMS, TSP and DER
  crates are the record \<open>cms\<close>; the environment (nonce source, clock) and the transport are state threaded
  through the operations, as the two \<open>&mut\<close> traits are.
\<close>

section \<open>CMS and TSP structures\<close>

datatype certificate_choice = CertificateChoice certificate | OtherChoice bytes

datatype cms_version = CmsV0 | CmsV1 | CmsV2 | CmsV3 | CmsV4 | CmsV5

datatype signer_identifier = IssuerAndSerialNumber name bytes | SubjectKeyIdentifierSid bytes

record attribute =
  attr_oid :: oid
  attr_values :: "any list"

record signer_info =
  si_version :: cms_version
  si_sid :: signer_identifier
  si_digest_alg :: algorithm_identifier
  si_signed_attrs :: "attribute list option"
  si_signature_algorithm :: algorithm_identifier
  si_signature :: bytes

record signed_data =
  sd_econtent_type :: oid
  sd_econtent :: "any option"
  sd_certificates :: "certificate_choice list option"
  sd_signer_infos :: "signer_info list"

record content_info =
  ci_content_type :: oid
  ci_content :: any

record message_imprint =
  mi_hash_algorithm :: algorithm_identifier
  mi_hashed_message :: bytes

text \<open>A TSP version is its number; a nonce is the content octets of its DER INTEGER; a \<open>GeneralizedTime\<close>
  is the moment \<open>UNIX_EPOCH + to_unix_duration()\<close>.\<close>

definition TSP_V1 :: nat where "TSP_V1 = 1"

record tst_info =
  tst_version :: nat
  tst_imprint :: message_imprint
  tst_gen_time :: system_time
  tst_nonce :: "bytes option"
  tst_extensions :: "extension list option"

record time_stamp_req =
  req_version :: nat
  req_imprint :: message_imprint
  req_policy :: "oid option"
  req_nonce :: "bytes option"
  req_cert_req :: bool
  req_extensions :: "extension list option"

datatype pki_status =
  Accepted | GrantedWithMods | RejectionStatus | WaitingStatus | RevocationWarningStatus
  | RevocationNotificationStatus | KeyUpdateWarningStatus

record pki_status_info =
  psi_status :: pki_status
  psi_status_string :: "string list option"
  psi_fail_info :: "nat option"

record time_stamp_resp =
  resp_status :: pki_status_info
  resp_token :: "content_info option"

text \<open>RFC 5035 and RFC 2634 structures (\<open>ess.rs\<close>).\<close>

datatype general_name = DirectoryName name | OtherName bytes

record issuer_serial =
  is_issuer :: "general_name list"
  is_serial_number :: bytes

record ess_cert_id =
  ess_cert_hash :: bytes
  ess_issuer_serial :: "issuer_serial option"

record ess_cert_id_v2 =
  ess2_hash_algorithm :: "algorithm_identifier option"
  ess2_cert_hash :: bytes
  ess2_issuer_serial :: "issuer_serial option"

record signing_certificate =
  sc_certs :: "ess_cert_id list"
  sc_policies :: "any list option"

record signing_certificate_v2 =
  sc2_certs :: "ess_cert_id_v2 list"
  sc2_policies :: "any list option"

text \<open>The third-party crates: decoding and encoding (errors are their display text) and the digests.\<close>

record cms =
  content_info_from_der :: "bytes \<Rightarrow> (string, content_info) result"
  content_info_to_der :: "content_info \<Rightarrow> (string, bytes) result"
  signed_data_of :: "any \<Rightarrow> (string, signed_data) result"
  octets_of :: "any \<Rightarrow> (string, bytes) result"
  oid_of :: "any \<Rightarrow> (string, oid) result"
  signing_certificate_of :: "any \<Rightarrow> (string, signing_certificate) result"
  signing_certificate_v2_of :: "any \<Rightarrow> (string, signing_certificate_v2) result"
  tst_info_from_der :: "bytes \<Rightarrow> (string, tst_info) result"
  resp_from_der :: "bytes \<Rightarrow> (string, time_stamp_resp) result"
  req_to_der :: "time_stamp_req \<Rightarrow> (string, bytes) result"
  attributes_to_der :: "attribute list \<Rightarrow> (string, bytes) result"
  certificate_to_der :: "certificate \<Rightarrow> (string, bytes) result"
  certificate_from_der :: "bytes \<Rightarrow> (string, certificate) result"
  crl_from_der :: "bytes \<Rightarrow> (string, certificate_list) result"
  int_new :: "bytes \<Rightarrow> (string, bytes) result"
  octet_string_new :: "bytes \<Rightarrow> (string, bytes) result"
  failure_debug :: "nat \<Rightarrow> string"
  sha1_of :: "bytes \<Rightarrow> bytes"
  sha256_of :: "bytes \<Rightarrow> bytes"
  sha384_of :: "bytes \<Rightarrow> bytes"
  sha512_of :: "bytes \<Rightarrow> bytes"

section \<open>Imprints\<close>

fun digest_oid :: "imprint_algorithm \<Rightarrow> oid" where
  "digest_oid Sha256 = ID_SHA_256"
| "digest_oid Sha384 = ID_SHA_384"
| "digest_oid Sha512 = ID_SHA_512"

definition from_digest_oid :: "oid \<Rightarrow> imprint_algorithm option" where
  "from_digest_oid oid_text = List.find (\<lambda>algorithm. digest_oid algorithm = oid_text) [Sha256, Sha384, Sha512]"

fun digest_payload :: "cms \<Rightarrow> imprint_algorithm \<Rightarrow> bytes \<Rightarrow> bytes" where
  "digest_payload c Sha256 payload = sha256_of c payload"
| "digest_payload c Sha384 payload = sha384_of c payload"
| "digest_payload c Sha512 payload = sha512_of c payload"

lemma from_digest_oid_iff: "from_digest_oid oid_text = Some a \<longleftrightarrow> digest_oid a = oid_text"
  by (cases a) (auto simp: from_digest_oid_def oid_defs)

section \<open>Errors\<close>

datatype denial_status = Rejection | Waiting | RevocationWarning | RevocationNotification | KeyUpdateWarning

datatype tsp_error =
  RequestEncoding string
  | TransportError string
  | MalformedResponse string
  | TokenNotGranted denial_status "string option" "string option"
  | MissingToken
  | TspNotSignedData string
  | TspWrongSignerCount nat
  | TspMissingCertificates
  | TspNotTstInfo string
  | MissingTokenContent
  | TspUnexpectedExtensions
  | TspImprintMismatch
  | NonceMismatch
  | ImplausibleGenTime system_time system_time

fun denial_debug :: "denial_status \<Rightarrow> string" where
  "denial_debug Rejection = ''Rejection''"
| "denial_debug Waiting = ''Waiting''"
| "denial_debug RevocationWarning = ''RevocationWarning''"
| "denial_debug RevocationNotification = ''RevocationNotification''"
| "denial_debug KeyUpdateWarning = ''KeyUpdateWarning''"

definition with_comma :: "string option \<Rightarrow> string" where
  "with_comma part = (case part of None \<Rightarrow> '''' | Some t \<Rightarrow> '', '' @ t)"

text \<open>\<open>Debug\<close> of strings and moments is the standard library's and an argument.\<close>

fun tsp_error_display :: "(string \<Rightarrow> string) \<Rightarrow> (system_time \<Rightarrow> string) \<Rightarrow> tsp_error \<Rightarrow> string" where
  "tsp_error_display debug_str debug_time (RequestEncoding _) = ''the timestamp request failed to encode''"
| "tsp_error_display debug_str debug_time (TransportError _) = ''the TSA exchange failed''"
| "tsp_error_display debug_str debug_time (MalformedResponse _) = ''the TSA response failed to parse''"
| "tsp_error_display debug_str debug_time (TokenNotGranted status status_text failure_info) =
     ''the TSA did not grant a token (status '' @ denial_debug status @
     with_comma (map_option debug_str status_text) @ with_comma failure_info @ '')''"
| "tsp_error_display debug_str debug_time MissingToken = ''the TSA granted the request but returned no token''"
| "tsp_error_display debug_str debug_time (TspNotSignedData content_type) =
     ''the token is not a CMS SignedData (content type '' @ content_type @ '')''"
| "tsp_error_display debug_str debug_time (TspWrongSignerCount n) =
     ''the token carries '' @ decimal n @ '' signer infos where RFC 3161 requires exactly one''"
| "tsp_error_display debug_str debug_time TspMissingCertificates =
     ''the token carries no TSA certificates although certReq was set''"
| "tsp_error_display debug_str debug_time (TspNotTstInfo econtent_type) =
     ''the token's signed content is not a TSTInfo (content type '' @ econtent_type @ '')''"
| "tsp_error_display debug_str debug_time MissingTokenContent = ''the token's signed content is detached''"
| "tsp_error_display debug_str debug_time TspUnexpectedExtensions =
     ''the TSTInfo carries extensions, which tydence refuses to seal''"
| "tsp_error_display debug_str debug_time TspImprintMismatch =
     ''the token's message imprint differs from the one requested''"
| "tsp_error_display debug_str debug_time NonceMismatch = ''the token's nonce differs from the one requested''"
| "tsp_error_display debug_str debug_time (ImplausibleGenTime gen_time local_time) =
     ''the token's genTime ('' @ debug_time gen_time @ '') diverges from the local clock ('' @
     debug_time local_time @ '') beyond tolerance''"

section \<open>The request\<close>

text \<open>\<open>nonce_bytes\<close> has eight bytes; the slice from the first nonzero one, or \<open>[0]\<close>.\<close>

definition unsigned_part :: "bytes \<Rightarrow> bytes" where
  "unsigned_part nonce_bytes =
     (case position (\<lambda>b. b \<noteq> CHR 0x00) nonce_bytes of
        Some first_nonzero \<Rightarrow> drop first_nonzero nonce_bytes
      | None \<Rightarrow> [CHR 0x00])"

definition nonce_content :: "bytes \<Rightarrow> bytes" where
  "nonce_content nonce_bytes =
     (let unsigned = unsigned_part nonce_bytes
      in (if 128 \<le> (byte_code (hd unsigned) :: nat) then [CHR 0x00] else []) @ unsigned)"

definition encode_nonce :: "cms \<Rightarrow> bytes \<Rightarrow> (tsp_error, bytes) result" where
  "encode_nonce c nonce_bytes = map_err RequestEncoding (int_new c (nonce_content nonce_bytes))"

definition build_request :: "cms \<Rightarrow> imprint_algorithm \<Rightarrow> bytes \<Rightarrow> bytes \<Rightarrow> (tsp_error, time_stamp_req) result" where
  "build_request c algorithm payload nonce =
     and_then (map_err RequestEncoding (octet_string_new c (digest_payload c algorithm payload))) (\<lambda>hashed_message.
     Ok \<lparr>req_version = TSP_V1,
         req_imprint = \<lparr>mi_hash_algorithm = \<lparr>alg_oid = digest_oid algorithm, alg_parameters = Some any_null\<rparr>,
                        mi_hashed_message = hashed_message\<rparr>,
         req_policy = None, req_nonce = Some nonce, req_cert_req = True, req_extensions = None\<rparr>)"

section \<open>Screening a response\<close>

definition matches_sent_imprint :: "message_imprint \<Rightarrow> message_imprint \<Rightarrow> bool" where
  "matches_sent_imprint sent received =
     (alg_oid (mi_hash_algorithm received) = alg_oid (mi_hash_algorithm sent) \<and>
      is_absent_or_null_parameter (alg_parameters (mi_hash_algorithm received)) \<and>
      mi_hashed_message received = mi_hashed_message sent)"

definition join_status_text :: "pki_status_info \<Rightarrow> string option" where
  "join_status_text status = map_option (join_with ''; '') (psi_status_string status)"

fun denial_of :: "pki_status \<Rightarrow> denial_status option" where
  "denial_of Accepted = None"
| "denial_of GrantedWithMods = None"
| "denial_of RejectionStatus = Some Rejection"
| "denial_of WaitingStatus = Some Waiting"
| "denial_of RevocationWarningStatus = Some RevocationWarning"
| "denial_of RevocationNotificationStatus = Some RevocationNotification"
| "denial_of KeyUpdateWarningStatus = Some KeyUpdateWarning"

definition ensure_granted :: "cms \<Rightarrow> pki_status_info \<Rightarrow> (tsp_error, unit) result" where
  "ensure_granted c status =
     (case denial_of (psi_status status) of
        None \<Rightarrow> Ok ()
      | Some denial \<Rightarrow>
          Err (TokenNotGranted denial (join_status_text status) (map_option (failure_debug c) (psi_fail_info status))))"

text \<open>60 seconds, in nanoseconds; \<open>duration_since\<close> is the absolute difference on either side.\<close>

definition MAX_GEN_TIME_DIVERGENCE :: int where
  "MAX_GEN_TIME_DIVERGENCE = 60 * 1000000000"

definition ensure_plausible_gen_time :: "system_time \<Rightarrow> system_time \<Rightarrow> (tsp_error, unit) result" where
  "ensure_plausible_gen_time gen_time local_time =
     (let divergence = (if local_time \<le> gen_time then gen_time - local_time else local_time - gen_time)
      in if divergence > MAX_GEN_TIME_DIVERGENCE then Err (ImplausibleGenTime gen_time local_time) else Ok ())"

definition accept_response ::
  "cms \<Rightarrow> time_stamp_req \<Rightarrow> bytes \<Rightarrow> system_time \<Rightarrow> (tsp_error, bytes) result" where
  "accept_response c request response_bytes local_time =
     and_then (map_err MalformedResponse (resp_from_der c response_bytes)) (\<lambda>response.
     and_then (ensure_granted c (resp_status response)) (\<lambda>_.
     and_then (ok_or MissingToken (resp_token response)) (\<lambda>token.
     and_then (ensure (ci_content_type token = ID_SIGNED_DATA) (TspNotSignedData (ci_content_type token))) (\<lambda>_.
     and_then (map_err MalformedResponse (signed_data_of c (ci_content token))) (\<lambda>signed_data.
     and_then (ensure (length (sd_signer_infos signed_data) = 1)
       (TspWrongSignerCount (length (sd_signer_infos signed_data)))) (\<lambda>_.
     and_then (ensure (listed (sd_certificates signed_data) \<noteq> []) TspMissingCertificates) (\<lambda>_.
     and_then (ensure (sd_econtent_type signed_data = ID_CT_TST_INFO)
       (TspNotTstInfo (sd_econtent_type signed_data))) (\<lambda>_.
     and_then (ok_or MissingTokenContent (sd_econtent signed_data)) (\<lambda>econtent.
     and_then (map_err MalformedResponse (tst_info_from_der c (any_value econtent))) (\<lambda>tst.
     and_then (ensure (tst_extensions tst = None) TspUnexpectedExtensions) (\<lambda>_.
     and_then (ensure (matches_sent_imprint (req_imprint request) (tst_imprint tst)) TspImprintMismatch) (\<lambda>_.
     and_then (ensure (tst_nonce tst = req_nonce request) NonceMismatch) (\<lambda>_.
     and_then (ensure_plausible_gen_time (tst_gen_time tst) local_time) (\<lambda>_.
     map_err MalformedResponse (content_info_to_der c token)))))))))))))))"

section \<open>The anchor\<close>

record 'env stamp_environment =
  draw_nonce :: "'env \<Rightarrow> bytes \<times> 'env"
  now :: "'env \<Rightarrow> system_time"

record ('tr, 'env) rfc3161_anchor =
  anchor_transport :: 'tr
  anchor_environment :: 'env
  anchor_imprint :: imprint_algorithm

text \<open>The anchor's operations mutate it: each result comes with the anchor afterwards.\<close>

definition acquire_token ::
  "cms \<Rightarrow> 'env stamp_environment \<Rightarrow> ('tr \<Rightarrow> bytes \<Rightarrow> (string, bytes) result \<times> 'tr) \<Rightarrow> ('tr, 'env) rfc3161_anchor
    \<Rightarrow> bytes \<Rightarrow> (tsp_error, bytes) result \<times> ('tr, 'env) rfc3161_anchor" where
  "acquire_token c env exchange anchor payload =
     (let (nonce_bytes, environment) = draw_nonce env (anchor_environment anchor);
          anchor = anchor\<lparr>anchor_environment := environment\<rparr>
      in case and_then (encode_nonce c nonce_bytes) (\<lambda>nonce.
              and_then (build_request c (anchor_imprint anchor) payload nonce) (\<lambda>request.
              and_then (map_err RequestEncoding (req_to_der c request)) (\<lambda>request_bytes.
              Ok (request, request_bytes)))) of
           Err e \<Rightarrow> (Err e, anchor)
         | Ok (request, request_bytes) \<Rightarrow>
             (let (response, transport) = exchange (anchor_transport anchor) request_bytes;
                  anchor = anchor\<lparr>anchor_transport := transport\<rparr>
              in (and_then (map_err TransportError response) (\<lambda>response_bytes.
                    accept_response c request response_bytes (now env (anchor_environment anchor))),
                  anchor)))"

section \<open>The nonce as a DER integer\<close>

text \<open>The number eight random bytes spell, and the value of the content octets of a DER INTEGER (two's
  complement, X.690 8.3.3) with its minimality rule (8.3.2).\<close>

definition be_value :: "bytes \<Rightarrow> int" where
  "be_value bs = foldl (\<lambda>v b. 256 * v + int (byte_code b)) 0 bs"

definition der_integer :: "bytes \<Rightarrow> int" where
  "der_integer bs = (if 128 \<le> (byte_code (hd bs) :: nat) then be_value bs - 256 ^ length bs else be_value bs)"

definition der_minimal :: "bytes \<Rightarrow> bool" where
  "der_minimal bs =
     (case bs of [] \<Rightarrow> False | [b] \<Rightarrow> True
      | b # b' # _ \<Rightarrow> \<not> (b = CHR 0x00 \<and> byte_code b' < (128 :: nat)) \<and>
                      \<not> (b = CHR 0xFF \<and> 128 \<le> (byte_code b' :: nat)))"

lemma be_value_zero: "be_value (CHR 0x00 # bs) = be_value bs"
  by (simp add: be_value_def)

lemma drop_leading_zeros:
  "(\<forall>b \<in> set (take n bs). b = CHR 0x00) \<Longrightarrow> be_value (drop n bs) = be_value bs"
proof (induction n arbitrary: bs)
  case (Suc n)
  then show ?case by (cases bs) (auto simp: be_value_zero)
qed simp

lemma unsigned_part_value:
  assumes "bs \<noteq> []"
  shows "be_value (unsigned_part bs) = be_value bs \<and> unsigned_part bs \<noteq> [] \<and>
    length (unsigned_part bs) \<le> length bs \<and>
    (hd (unsigned_part bs) = CHR 0x00 \<longrightarrow> unsigned_part bs = [CHR 0x00])"
proof (cases "position (\<lambda>b. b \<noteq> CHR 0x00) bs")
  case None
  then have "\<forall>b \<in> set (take (length bs) bs). b = CHR 0x00" by (simp add: position_None)
  from drop_leading_zeros[OF this] have "be_value bs = be_value [CHR 0x00]" by (simp add: be_value_def)
  then show ?thesis using None assms by (cases bs) (simp_all add: unsigned_part_def)
next
  case (Some n)
  then have n: "n < length bs" "bs ! n \<noteq> CHR 0x00" "\<forall>j < n. bs ! j = CHR 0x00"
    by (simp_all add: position_Some)
  then have "\<forall>b \<in> set (take n bs). b = CHR 0x00" by (auto simp: in_set_conv_nth)
  from drop_leading_zeros[OF this] Some n show ?thesis
    by (simp add: unsigned_part_def hd_drop_conv_nth)
qed

lemma nonce_content_faithful:
  assumes "length nonce_bytes = 8"
  shows "der_integer (nonce_content nonce_bytes) = be_value nonce_bytes \<and>
    der_minimal (nonce_content nonce_bytes) \<and> length (nonce_content nonce_bytes) \<le> 9"
proof -
  define u where "u = unsigned_part nonce_bytes"
  have "nonce_bytes \<noteq> []" using assms by auto
  have content: "nonce_content nonce_bytes = (if 128 \<le> (byte_code (hd u) :: nat) then [CHR 0x00] else []) @ u"
    by (simp add: nonce_content_def Let_def u_def)
  have u: "be_value u = be_value nonce_bytes" "u \<noteq> []" "length u \<le> 8" "hd u = CHR 0x00 \<Longrightarrow> u = [CHR 0x00]"
    using unsigned_part_value[OF \<open>nonce_bytes \<noteq> []\<close>, folded u_def] assms by auto
  then obtain b bs where cons: "u = b # bs" by (cases u) auto
  show ?thesis
  proof (cases "128 \<le> (byte_code b :: nat)")
    case True
    then show ?thesis using u cons by (simp add: content der_integer_def be_value_zero der_minimal_def)
  next
    case False
    then have "b \<noteq> CHR 0xFF" by auto
    with False show ?thesis using u cons
      by (auto simp: content der_integer_def der_minimal_def split: list.splits)
  qed
qed

lemma nonce_content_minimal: "length nonce_bytes = 8 \<Longrightarrow> der_minimal (nonce_content nonce_bytes)"
  by (simp add: nonce_content_faithful)

text \<open>C37: the encoded nonce is the drawn number: whatever bytes are drawn, the content octets form a
  minimal DER integer, at most one byte longer than the draw, never negative, whose value is the drawn
  big-endian number.\<close>

theorem nonce_is_faithful:
  assumes "length nonce_bytes = 8"
  shows "der_integer (nonce_content nonce_bytes) = be_value nonce_bytes \<and>
    der_minimal (nonce_content nonce_bytes) \<and> length (nonce_content nonce_bytes) \<le> 9"
  using assms by (rule nonce_content_faithful)

lemma nonce_is_faithful_witness:
  "der_integer (nonce_content (replicate 7 (CHR 0x00) @ [CHR 0xFF])) = 255"
  using nonce_is_faithful[of "replicate 7 (CHR 0x00) @ [CHR 0xFF]"] by (simp add: be_value_def eval_nat_numeral)

section \<open>What an accepted response is\<close>

text \<open>A response worth sealing: it grants a token whose one signed, undetached TSTInfo answers this very
  request, close to the local clock.\<close>

definition answers ::
  "cms \<Rightarrow> time_stamp_req \<Rightarrow> system_time \<Rightarrow> time_stamp_resp \<Rightarrow> content_info \<Rightarrow> signed_data \<Rightarrow> tst_info \<Rightarrow> bool" where
  "answers c request local_time response token signed tst \<longleftrightarrow>
     psi_status (resp_status response) \<in> {Accepted, GrantedWithMods} \<and>
     resp_token response = Some token \<and> ci_content_type token = ID_SIGNED_DATA \<and>
     signed_data_of c (ci_content token) = Ok signed \<and>
     length (sd_signer_infos signed) = 1 \<and> listed (sd_certificates signed) \<noteq> [] \<and>
     sd_econtent_type signed = ID_CT_TST_INFO \<and>
     (\<exists>econtent. sd_econtent signed = Some econtent \<and> tst_info_from_der c (any_value econtent) = Ok tst) \<and>
     tst_extensions tst = None \<and> tst_nonce tst = req_nonce request \<and>
     matches_sent_imprint (req_imprint request) (tst_imprint tst) \<and>
     \<bar>tst_gen_time tst - local_time\<bar> \<le> 60 * 1000000000"

lemma ensure_granted_Ok: "ensure_granted c status = Ok u \<longleftrightarrow> psi_status status \<in> {Accepted, GrantedWithMods}"
  by (cases "psi_status status") (simp_all add: ensure_granted_def)

lemma ensure_plausible_Ok:
  "ensure_plausible_gen_time g l = Ok u \<longleftrightarrow> \<bar>g - l\<bar> \<le> 60 * 1000000000"
  by (auto simp: ensure_plausible_gen_time_def MAX_GEN_TIME_DIVERGENCE_def Let_def)

lemma accept_response_Ok:
  "accept_response c request response_bytes local_time = Ok token_bytes \<longleftrightarrow>
     (\<exists>response token signed tst. resp_from_der c response_bytes = Ok response \<and>
        answers c request local_time response token signed tst \<and> content_info_to_der c token = Ok token_bytes)"
  unfolding accept_response_def answers_def
  by (simp add: result_simps ensure_granted_Ok ensure_plausible_Ok) blast

text \<open>\<open>OctetString::new\<close> and \<open>Int::new\<close> keep the octets they accept (documented for minimal encodings).\<close>

definition holds_its_bytes :: "cms \<Rightarrow> bool" where
  "holds_its_bytes c \<longleftrightarrow>
     (\<forall>bs h. octet_string_new c bs = Ok h \<longrightarrow> h = bs) \<and>
     (\<forall>bs n. der_minimal bs \<longrightarrow> int_new c bs = Ok n \<longrightarrow> n = bs)"

text \<open>C30: an acquired token answers its own request: it was granted, has one signer and certificates, its
  imprint is the digest of the payload under the site's algorithm, its nonce is the one drawn for this
  request, its genTime is within a minute of the local clock, and the bytes returned are that token's;
  exactly one nonce was drawn and one exchange made.\<close>

theorem acquired_token_answers:
  assumes acquired: "acquire_token c env exchange anchor payload = (Ok token_bytes, anchor')"
    and draws: "\<And>e. length (fst (draw_nonce env e)) = 8"
    and faithful: "holds_its_bytes c"
  shows "\<exists>nonce_bytes environment' request_bytes response_bytes transport' response token signed tst.
    draw_nonce env (anchor_environment anchor) = (nonce_bytes, environment') \<and>
    exchange (anchor_transport anchor) request_bytes = (Ok response_bytes, transport') \<and>
    anchor' = anchor\<lparr>anchor_transport := transport', anchor_environment := environment'\<rparr> \<and>
    resp_from_der c response_bytes = Ok response \<and>
    psi_status (resp_status response) \<in> {Accepted, GrantedWithMods} \<and>
    resp_token response = Some token \<and> content_info_to_der c token = Ok token_bytes \<and>
    signed_data_of c (ci_content token) = Ok signed \<and> length (sd_signer_infos signed) = 1 \<and>
    listed (sd_certificates signed) \<noteq> [] \<and>
    (\<exists>econtent. sd_econtent signed = Some econtent \<and> tst_info_from_der c (any_value econtent) = Ok tst) \<and>
    mi_hashed_message (tst_imprint tst) = digest_payload c (anchor_imprint anchor) payload \<and>
    alg_oid (mi_hash_algorithm (tst_imprint tst)) = digest_oid (anchor_imprint anchor) \<and>
    tst_nonce tst = Some (nonce_content nonce_bytes) \<and>
    \<bar>tst_gen_time tst - now env environment'\<bar> \<le> 60 * 1000000000"
proof -
  obtain nonce_bytes environment' where drawn: "draw_nonce env (anchor_environment anchor) = (nonce_bytes, environment')"
    by fastforce
  with draws[of "anchor_environment anchor"] have eight: "length nonce_bytes = 8" by simp
  have minimal: "der_minimal (nonce_content nonce_bytes)" by (rule nonce_content_minimal[OF eight])
  obtain nonce request request_bytes where sent: "encode_nonce c nonce_bytes = Ok nonce"
    "build_request c (anchor_imprint anchor) payload nonce = Ok request" "req_to_der c request = Ok request_bytes"
    using acquired drawn
    by (auto simp: acquire_token_def Let_def result_simps split: sum.splits)
  then obtain response_bytes transport' where exchanged:
    "exchange (anchor_transport anchor) request_bytes = (Ok response_bytes, transport')"
    and anchor': "anchor' = anchor\<lparr>anchor_transport := transport', anchor_environment := environment'\<rparr>"
    and accepted: "accept_response c request response_bytes (now env environment') = Ok token_bytes"
    using acquired drawn
    by (auto simp: acquire_token_def Let_def result_simps split: prod.splits sum.splits)
  have request: "req_nonce request = Some (nonce_content nonce_bytes)"
    "mi_hashed_message (req_imprint request) = digest_payload c (anchor_imprint anchor) payload"
    "alg_oid (mi_hash_algorithm (req_imprint request)) = digest_oid (anchor_imprint anchor)"
    using sent faithful minimal
    by (auto simp: holds_its_bytes_def build_request_def encode_nonce_def result_simps)
  from accepted obtain response token signed tst where
    "resp_from_der c response_bytes = Ok response" "content_info_to_der c token = Ok token_bytes"
    "answers c request (now env environment') response token signed tst"
    by (auto simp: accept_response_Ok)
  with request drawn exchanged anchor' show ?thesis
    unfolding answers_def matches_sent_imprint_def
    by (intro exI[of _ nonce_bytes] exI[of _ environment'] exI[of _ request_bytes] exI[of _ response_bytes]
      exI[of _ transport'] exI[of _ response] exI[of _ token] exI[of _ signed] exI[of _ tst]) simp
qed

section \<open>A concrete authority\<close>

text \<open>Instances the properties are applied to: a digest is ''d'', a request its imprint and nonce, and the
  authority echoes the request in a token signed by \<open>toy_tsa\<close>, whose usage is dedicated to timestamping.\<close>

definition toy_tsa :: certificate where
  "toy_tsa = toy_certificate ''2'' ''root'' ''R'' ''tsa'' ''K''
     (Some [\<lparr>extn_id = EXTENDED_KEY_USAGE, ext_critical = True, extn_value = []\<rparr>])"

definition toy_any :: "bytes \<Rightarrow> any" where
  "toy_any bs = \<lparr>any_tag = 4, any_value = bs\<rparr>"

definition toy_attributes :: "attribute list" where
  "toy_attributes =
     [\<lparr>attr_oid = ID_CONTENT_TYPE, attr_values = [toy_any ID_CT_TST_INFO]\<rparr>,
      \<lparr>attr_oid = ID_MESSAGE_DIGEST, attr_values = [toy_any ''d'']\<rparr>,
      \<lparr>attr_oid = ID_AA_SIGNING_CERTIFICATE_V2, attr_values = [toy_any ''d'']\<rparr>]"

definition toy_signer_info :: signer_info where
  "toy_signer_info =
     \<lparr>si_version = CmsV1, si_sid = IssuerAndSerialNumber ''root'' ''2'',
      si_digest_alg = \<lparr>alg_oid = ID_SHA_256, alg_parameters = None\<rparr>, si_signed_attrs = Some toy_attributes,
      si_signature_algorithm = toy_algorithm, si_signature = ''K''\<rparr>"

definition toy_signed_data :: "bytes \<Rightarrow> signed_data" where
  "toy_signed_data content =
     \<lparr>sd_econtent_type = ID_CT_TST_INFO, sd_econtent = Some (toy_any content),
      sd_certificates = Some [CertificateChoice toy_tsa], sd_signer_infos = [toy_signer_info]\<rparr>"

definition toy_tst_info :: "bytes \<Rightarrow> tst_info" where
  "toy_tst_info content =
     \<lparr>tst_version = TSP_V1,
      tst_imprint = \<lparr>mi_hash_algorithm = \<lparr>alg_oid = ID_SHA_256, alg_parameters = None\<rparr>,
                     mi_hashed_message = take 1 content\<rparr>,
      tst_gen_time = 50, tst_nonce = Some (drop 1 content), tst_extensions = None\<rparr>"

definition toy_content_info :: "bytes \<Rightarrow> content_info" where
  "toy_content_info content = \<lparr>ci_content_type = ID_SIGNED_DATA, ci_content = toy_any content\<rparr>"

definition toy_cms :: cms where
  "toy_cms =
     \<lparr>content_info_from_der = \<lambda>bs. Ok (toy_content_info bs),
      content_info_to_der = \<lambda>ci. Ok (any_value (ci_content ci)),
      signed_data_of = \<lambda>a. Ok (toy_signed_data (any_value a)),
      octets_of = \<lambda>a. Ok (any_value a), oid_of = \<lambda>a. Ok (any_value a),
      signing_certificate_of = \<lambda>_. Err ''not a SigningCertificate'',
      signing_certificate_v2_of = \<lambda>a. Ok \<lparr>sc2_certs =
        [\<lparr>ess2_hash_algorithm = None, ess2_cert_hash = any_value a, ess2_issuer_serial = None\<rparr>], sc2_policies = None\<rparr>,
      tst_info_from_der = \<lambda>bs. Ok (toy_tst_info bs),
      resp_from_der = \<lambda>bs. Ok \<lparr>resp_status = \<lparr>psi_status = Accepted, psi_status_string = None, psi_fail_info = None\<rparr>,
        resp_token = Some (toy_content_info bs)\<rparr>,
      req_to_der = \<lambda>r. Ok (mi_hashed_message (req_imprint r) @ the (req_nonce r)),
      attributes_to_der = \<lambda>_. Ok ''attributes'',
      certificate_to_der = \<lambda>cert. Ok (cert_subject cert),
      certificate_from_der = \<lambda>bs. if bs = ''root'' then Ok toy_root else Err ''not a certificate'',
      crl_from_der = \<lambda>_. Ok (toy_crl ''root'' ''R''),
      int_new = Ok, octet_string_new = Ok, failure_debug = decimal,
      sha1_of = \<lambda>_. ''d'', sha256_of = \<lambda>_. ''d'', sha384_of = \<lambda>_. ''d'', sha512_of = \<lambda>_. ''d''\<rparr>"

definition toy_environment :: "nat stamp_environment" where
  "toy_environment = \<lparr>draw_nonce = \<lambda>n. (replicate 8 (CHR 0x01), Suc n), now = \<lambda>n. int n\<rparr>"

definition toy_anchor :: "(unit, nat) rfc3161_anchor" where
  "toy_anchor = \<lparr>anchor_transport = (), anchor_environment = 0, anchor_imprint = Sha256\<rparr>"

lemma toy_acquired:
  "acquire_token toy_cms toy_environment (\<lambda>_ bs. (Ok bs, ())) toy_anchor ''payload'' =
     (Ok (''d'' @ replicate 8 (CHR 0x01)), toy_anchor\<lparr>anchor_environment := 1\<rparr>)"
  by (simp add: acquire_token_def toy_environment_def toy_anchor_def encode_nonce_def build_request_def
      nonce_content_def unsigned_part_def toy_cms_def eval_nat_numeral accept_response_def ensure_granted_def
      toy_content_info_def toy_signed_data_def toy_tst_info_def toy_any_def ensure_plausible_gen_time_def
      MAX_GEN_TIME_DIVERGENCE_def matches_sent_imprint_def is_absent_or_null_parameter_def listed_def
      result_simps)

lemma toy_nonce: "nonce_content (replicate 8 (CHR 0x01)) = replicate 8 (CHR 0x01)"
  by (simp add: nonce_content_def unsigned_part_def eval_nat_numeral)

lemma toy_draws: "length (fst (draw_nonce toy_environment e)) = 8"
  by (simp add: toy_environment_def)

lemma toy_holds: "holds_its_bytes toy_cms"
  by (simp add: holds_its_bytes_def toy_cms_def)

lemma acquired_token_answers_witness:
  "\<exists>tst :: tst_info. mi_hashed_message (tst_imprint tst) = digest_payload toy_cms Sha256 ''payload'' \<and>
     tst_nonce tst = Some (replicate 8 (CHR 0x01)) \<and> \<bar>tst_gen_time tst - 1\<bar> \<le> 60 * 1000000000"
proof -
  note answered = acquired_token_answers[OF toy_acquired toy_draws toy_holds]
  from answered obtain nonce_bytes environment' and tst :: tst_info where
    "draw_nonce toy_environment (anchor_environment toy_anchor) = (nonce_bytes, environment')"
    "mi_hashed_message (tst_imprint tst) = digest_payload toy_cms (anchor_imprint toy_anchor) ''payload''"
    "tst_nonce tst = Some (nonce_content nonce_bytes)"
    "\<bar>tst_gen_time tst - now toy_environment environment'\<bar> \<le> 60 * 1000000000" by blast
  then show ?thesis
    by (intro exI[of _ tst]) (auto simp: toy_nonce toy_environment_def toy_anchor_def)
qed

end
