(* ===== verification/Token.thy ===== *)
theory Token
  imports Tsp Chain_Path
begin

text \<open>
  \<open>crates/tydence/src/verify/token.rs\<close>: the full verification of one token, every check in the order of
  the code. What acceptance means is \<open>accepted_token_iff\<close>; \<open>accepted_tokens_agree\<close> is what it protects.
\<close>

datatype token_error =
  Malformed string
  | NotSignedData string
  | NotTstInfo string
  | MissingContent
  | UnsupportedTstVersion
  | UnexpectedExtensions
  | UnsupportedImprintAlgorithm oid
  | ImprintMismatch
  | WrongSignerCount nat
  | MissingCertificates
  | SignerCertificateNotFound
  | AmbiguousSignerCertificate
  | InconsistentSignerVersion
  | MissingSignedAttributes
  | MalformedAttribute oid
  | ContentTypeMismatch
  | MessageDigestMismatch
  | UnsupportedDigestAlgorithm oid
  | MissingSigningCertificateAttribute
  | SigningCertificateMismatch
  | UnsupportedCertificateHash oid
  | UnsupportedSignature normalize_error
  | InvalidSignature
  | MalformedTrustInput string
  | NoTrustAnchors
  | UntrustedChain path_error
  | UnfitExtendedKeyUsage
  | ForbiddenKeyUsage

fun token_error_display :: "(system_time \<Rightarrow> string) \<Rightarrow> token_error \<Rightarrow> string" where
  "token_error_display debug_time (Malformed _) = ''the token fails to parse''"
| "token_error_display debug_time (NotSignedData content_type) =
     ''the token is not a CMS SignedData (content type '' @ content_type @ '')''"
| "token_error_display debug_time (NotTstInfo econtent_type) =
     ''the token's signed content is not a TSTInfo (content type '' @ econtent_type @ '')''"
| "token_error_display debug_time MissingContent = ''the token's signed content is detached''"
| "token_error_display debug_time UnsupportedTstVersion = ''the TSTInfo version is not 1''"
| "token_error_display debug_time UnexpectedExtensions =
     ''the TSTInfo carries extensions this verifier cannot judge''"
| "token_error_display debug_time (UnsupportedImprintAlgorithm oid_text) =
     ''message imprint algorithm '' @ oid_text @ '' is unsupported''"
| "token_error_display debug_time ImprintMismatch =
     ''the message imprint is not a digest of the manifest bytes''"
| "token_error_display debug_time (WrongSignerCount n) =
     ''the token carries '' @ decimal n @ '' signer infos where RFC 3161 requires exactly one''"
| "token_error_display debug_time MissingCertificates = ''the token embeds no certificates to verify against''"
| "token_error_display debug_time SignerCertificateNotFound =
     ''no embedded certificate matches the signer identifier''"
| "token_error_display debug_time AmbiguousSignerCertificate =
     ''several embedded certificates match the signer identifier''"
| "token_error_display debug_time InconsistentSignerVersion =
     ''the SignerInfo version contradicts its identifier form''"
| "token_error_display debug_time MissingSignedAttributes = ''the token carries no signed attributes''"
| "token_error_display debug_time (MalformedAttribute oid_text) =
     ''signed attribute '' @ oid_text @ '' is missing, duplicated or malformed''"
| "token_error_display debug_time ContentTypeMismatch = ''the content-type attribute does not name TSTInfo''"
| "token_error_display debug_time MessageDigestMismatch =
     ''the message-digest attribute does not match the signed content''"
| "token_error_display debug_time (UnsupportedDigestAlgorithm oid_text) =
     ''digest algorithm '' @ oid_text @ '' is unsupported''"
| "token_error_display debug_time MissingSigningCertificateAttribute =
     ''the token carries no ESS signing-certificate attribute''"
| "token_error_display debug_time SigningCertificateMismatch =
     ''the ESS attribute does not identify the signer certificate''"
| "token_error_display debug_time (UnsupportedCertificateHash oid_text) =
     ''certificate hash algorithm '' @ oid_text @ '' is unsupported''"
| "token_error_display debug_time (UnsupportedSignature cause) =
     ''unsupported signature: '' @ normalize_error_display cause"
| "token_error_display debug_time InvalidSignature = ''the CMS signature does not verify''"
| "token_error_display debug_time (MalformedTrustInput _) = ''the supplied trust material fails to parse''"
| "token_error_display debug_time NoTrustAnchors = ''no trust anchors were supplied''"
| "token_error_display debug_time (UntrustedChain cause) =
     ''the certificate chain fails: '' @ path_error_display debug_time cause"
| "token_error_display debug_time UnfitExtendedKeyUsage =
     ''the signer certificate's extended key usage is not the critical, exclusive id-kp-timeStamping''"
| "token_error_display debug_time ForbiddenKeyUsage = ''the signer certificate's key usage rules out signing''"

record trust_data =
  td_anchor_certificates :: "bytes list"
  td_companion_certificates :: "bytes list"
  td_crls :: "bytes list"

record verification_basis =
  vb_manifest_bytes :: bytes
  vb_trust :: trust_data

record token_summary =
  ts_gen_time :: system_time
  ts_imprint_algorithm :: imprint_algorithm

section \<open>Decoding\<close>

definition digest_family_of :: "algorithm_identifier \<Rightarrow> imprint_algorithm option" where
  "digest_family_of identifier =
     (if \<not> is_absent_or_null_parameter (alg_parameters identifier) then None
      else from_digest_oid (alg_oid identifier))"

definition decode_signed_data :: "cms \<Rightarrow> bytes \<Rightarrow> (token_error, signed_data) result" where
  "decode_signed_data c token_bytes =
     and_then (map_err Malformed (content_info_from_der c token_bytes)) (\<lambda>content_info.
     and_then (ensure (ci_content_type content_info = ID_SIGNED_DATA)
       (NotSignedData (ci_content_type content_info))) (\<lambda>_.
     map_err Malformed (signed_data_of c (ci_content content_info))))"

definition decode_tst_info :: "cms \<Rightarrow> signed_data \<Rightarrow> (token_error, tst_info \<times> bytes) result" where
  "decode_tst_info c signed =
     and_then (ensure (sd_econtent_type signed = ID_CT_TST_INFO) (NotTstInfo (sd_econtent_type signed))) (\<lambda>_.
     and_then (ok_or MissingContent (sd_econtent signed)) (\<lambda>econtent.
     and_then (map_err Malformed (octets_of c econtent)) (\<lambda>content_octets.
     and_then (map_err Malformed (tst_info_from_der c content_octets)) (\<lambda>tst.
     Ok (tst, content_octets)))))"

definition ensure_imprint_matches :: "cms \<Rightarrow> tst_info \<Rightarrow> bytes \<Rightarrow> (token_error, imprint_algorithm) result" where
  "ensure_imprint_matches c tst manifest_bytes =
     and_then (ok_or (UnsupportedImprintAlgorithm (alg_oid (mi_hash_algorithm (tst_imprint tst))))
       (digest_family_of (mi_hash_algorithm (tst_imprint tst)))) (\<lambda>family.
     if mi_hashed_message (tst_imprint tst) = digest_payload c family manifest_bytes then Ok family
     else Err ImprintMismatch)"

definition single_signer :: "signed_data \<Rightarrow> (token_error, signer_info) result" where
  "single_signer signed =
     (case sd_signer_infos signed of
        [info] \<Rightarrow> Ok info
      | signers \<Rightarrow> Err (WrongSignerCount (length signers)))"

fun chosen_certificate :: "certificate_choice \<Rightarrow> certificate option" where
  "chosen_certificate (CertificateChoice certificate) = Some certificate"
| "chosen_certificate (OtherChoice _) = None"

definition collect_certificates :: "signed_data \<Rightarrow> (token_error, certificate list) result" where
  "collect_certificates signed =
     and_then (ok_or MissingCertificates (sd_certificates signed)) (\<lambda>choices.
       let certificates = List.map_filter chosen_certificate choices
       in if certificates = [] then Err MissingCertificates else Ok certificates)"

section \<open>The signer\<close>

fun matches_signer_identifier :: "pki \<Rightarrow> signer_identifier \<Rightarrow> certificate \<Rightarrow> (token_error, bool) result" where
  "matches_signer_identifier p (IssuerAndSerialNumber issuer serial) certificate =
     Ok (issuer = cert_issuer certificate \<and> serial = cert_serial certificate)"
| "matches_signer_identifier p (SubjectKeyIdentifierSid key_identifier) certificate =
     and_then (map_err (\<lambda>e. Malformed (extension_error_display e))
       (decode_extension SUBJECT_KEY_IDENTIFIER (subject_key_from_der p) (cert_extensions certificate))) (\<lambda>subject_key.
     Ok (case subject_key of None \<Rightarrow> False | Some decoded \<Rightarrow> de_value decoded = key_identifier))"

fun expected_version :: "signer_identifier \<Rightarrow> cms_version" where
  "expected_version (IssuerAndSerialNumber _ _) = CmsV1"
| "expected_version (SubjectKeyIdentifierSid _) = CmsV3"

definition find_signer_certificate ::
  "pki \<Rightarrow> signer_info \<Rightarrow> certificate list \<Rightarrow> (token_error, certificate) result" where
  "find_signer_certificate p info certificates =
     and_then (ensure (si_version info = expected_version (si_sid info)) InconsistentSignerVersion) (\<lambda>_.
     and_then (try_fold (\<lambda>found certificate.
         and_then (matches_signer_identifier p (si_sid info) certificate) (\<lambda>m.
         Ok (if m then found @ [certificate] else found))) [] certificates) (\<lambda>found.
     case found of
       [] \<Rightarrow> Err SignerCertificateNotFound
     | [signer_certificate] \<Rightarrow> Ok signer_certificate
     | _ \<Rightarrow> Err AmbiguousSignerCertificate))"

section \<open>Signed attributes\<close>

definition unique_attribute_value :: "attribute list \<Rightarrow> oid \<Rightarrow> (token_error, any option) result" where
  "unique_attribute_value attributes oid_text =
     (case filter (\<lambda>attribute. attr_oid attribute = oid_text) attributes of
        [] \<Rightarrow> Ok None
      | attribute # others \<Rightarrow>
          if others \<noteq> [] then Err (MalformedAttribute oid_text)
          else (case attr_values attribute of [value] \<Rightarrow> Ok (Some value) | _ \<Rightarrow> Err (MalformedAttribute oid_text)))"

definition decoded_attribute ::
  "(any \<Rightarrow> (string, 'a) result) \<Rightarrow> oid \<Rightarrow> any \<Rightarrow> (token_error, 'a) result" where
  "decoded_attribute decode oid_text value = map_err (\<lambda>_. MalformedAttribute oid_text) (decode value)"

definition ensure_content_type_attribute :: "cms \<Rightarrow> attribute list \<Rightarrow> (token_error, unit) result" where
  "ensure_content_type_attribute c attributes =
     and_then (unique_attribute_value attributes ID_CONTENT_TYPE) (\<lambda>maybe_value.
     and_then (ok_or (MalformedAttribute ID_CONTENT_TYPE) maybe_value) (\<lambda>value.
     and_then (decoded_attribute (oid_of c) ID_CONTENT_TYPE value) (\<lambda>named_type.
     if named_type = ID_CT_TST_INFO then Ok () else Err ContentTypeMismatch)))"

definition ensure_message_digest_attribute ::
  "cms \<Rightarrow> attribute list \<Rightarrow> imprint_algorithm \<Rightarrow> bytes \<Rightarrow> (token_error, unit) result" where
  "ensure_message_digest_attribute c attributes digest_family content_bytes =
     and_then (unique_attribute_value attributes ID_MESSAGE_DIGEST) (\<lambda>maybe_value.
     and_then (ok_or (MalformedAttribute ID_MESSAGE_DIGEST) maybe_value) (\<lambda>value.
     and_then (decoded_attribute (octets_of c) ID_MESSAGE_DIGEST value) (\<lambda>declared_digest.
     if declared_digest = digest_payload c digest_family content_bytes then Ok () else Err MessageDigestMismatch)))"

definition matches_issuer_serial :: "issuer_serial \<Rightarrow> certificate \<Rightarrow> bool" where
  "matches_issuer_serial s signer_certificate =
     ((case is_issuer s of [DirectoryName n] \<Rightarrow> n = cert_issuer signer_certificate | _ \<Rightarrow> False) \<and>
      is_serial_number s = cert_serial signer_certificate)"

record ess_identification =
  ei_hash_oid :: oid
  ei_cert_hash :: bytes
  ei_issuer_serial :: "issuer_serial option"

definition ess_hash :: "cms \<Rightarrow> oid \<Rightarrow> bytes \<Rightarrow> (token_error, bytes) result" where
  "ess_hash c hash_oid signer_der =
     (if hash_oid = ID_SHA_1 then Ok (sha1_of c signer_der)
      else and_then (ok_or (UnsupportedCertificateHash hash_oid) (from_digest_oid hash_oid)) (\<lambda>family.
        Ok (digest_payload c family signer_der)))"

definition ensure_identifies_signer ::
  "cms \<Rightarrow> ess_identification \<Rightarrow> bytes \<Rightarrow> certificate \<Rightarrow> (token_error, unit) result" where
  "ensure_identifies_signer c identification signer_der signer_certificate =
     and_then (ess_hash c (ei_hash_oid identification) signer_der) (\<lambda>expected.
     if ei_cert_hash identification \<noteq> expected then Err SigningCertificateMismatch
     else if (case ei_issuer_serial identification of None \<Rightarrow> True
              | Some s \<Rightarrow> matches_issuer_serial s signer_certificate)
     then Ok () else Err SigningCertificateMismatch)"

text \<open>The two generations of the ESS attribute: \<open>false\<close> where it is absent, \<open>true\<close> where it binds the signer.\<close>

definition ess_v1_binds :: "cms \<Rightarrow> attribute list \<Rightarrow> bytes \<Rightarrow> certificate \<Rightarrow> (token_error, bool) result" where
  "ess_v1_binds c attributes signer_der signer_certificate =
     and_then (unique_attribute_value attributes ID_AA_SIGNING_CERTIFICATE) (\<lambda>maybe_value.
     case maybe_value of None \<Rightarrow> Ok False
     | Some value \<Rightarrow>
         and_then (decoded_attribute (signing_certificate_of c) ID_AA_SIGNING_CERTIFICATE value) (\<lambda>attribute.
         case sc_certs attribute of [] \<Rightarrow> Err (MalformedAttribute ID_AA_SIGNING_CERTIFICATE)
         | first # _ \<Rightarrow>
             and_then (ensure_identifies_signer c
               \<lparr>ei_hash_oid = ID_SHA_1, ei_cert_hash = ess_cert_hash first, ei_issuer_serial = ess_issuer_serial first\<rparr>
               signer_der signer_certificate) (\<lambda>_. Ok True)))"

definition ess_v2_hash_oid :: "algorithm_identifier option \<Rightarrow> (token_error, oid) result" where
  "ess_v2_hash_oid hash_algorithm =
     (case hash_algorithm of None \<Rightarrow> Ok ID_SHA_256
      | Some declared \<Rightarrow>
          if \<not> is_absent_or_null_parameter (alg_parameters declared)
          then Err (UnsupportedCertificateHash (alg_oid declared)) else Ok (alg_oid declared))"

definition ess_v2_binds :: "cms \<Rightarrow> attribute list \<Rightarrow> bytes \<Rightarrow> certificate \<Rightarrow> (token_error, bool) result" where
  "ess_v2_binds c attributes signer_der signer_certificate =
     and_then (unique_attribute_value attributes ID_AA_SIGNING_CERTIFICATE_V2) (\<lambda>maybe_value.
     case maybe_value of None \<Rightarrow> Ok False
     | Some value \<Rightarrow>
         and_then (decoded_attribute (signing_certificate_v2_of c) ID_AA_SIGNING_CERTIFICATE_V2 value) (\<lambda>attribute.
         case sc2_certs attribute of [] \<Rightarrow> Err (MalformedAttribute ID_AA_SIGNING_CERTIFICATE_V2)
         | first # _ \<Rightarrow>
             and_then (ess_v2_hash_oid (ess2_hash_algorithm first)) (\<lambda>hash_oid.
             and_then (ensure_identifies_signer c
               \<lparr>ei_hash_oid = hash_oid, ei_cert_hash = ess2_cert_hash first, ei_issuer_serial = ess2_issuer_serial first\<rparr>
               signer_der signer_certificate) (\<lambda>_. Ok True))))"

definition ensure_signing_certificate_attribute ::
  "cms \<Rightarrow> attribute list \<Rightarrow> certificate \<Rightarrow> (token_error, unit) result" where
  "ensure_signing_certificate_attribute c attributes signer_certificate =
     and_then (map_err Malformed (certificate_to_der c signer_certificate)) (\<lambda>signer_der.
     and_then (ess_v1_binds c attributes signer_der signer_certificate) (\<lambda>bound_v1.
     and_then (ess_v2_binds c attributes signer_der signer_certificate) (\<lambda>bound_v2.
     if bound_v1 \<or> bound_v2 then Ok () else Err MissingSigningCertificateAttribute)))"

section \<open>Signature and usage\<close>

definition verify_cms_signature ::
  "pki \<Rightarrow> cms \<Rightarrow> signer_info \<Rightarrow> attribute list \<Rightarrow> certificate \<Rightarrow> (token_error, unit) result" where
  "verify_cms_signature p c info attributes signer_certificate =
     and_then (map_err Malformed (attributes_to_der c attributes)) (\<lambda>message.
     and_then (map_err UnsupportedSignature
       (normalize_cms_signature_algorithm (alg_oid (si_digest_alg info)) (si_signature_algorithm info))) (\<lambda>algorithm.
     case verify_issued_signature p message \<lparr>rs_algorithm = algorithm, rs_bytes = si_signature info\<rparr> signer_certificate of
       Ok _ \<Rightarrow> Ok ()
     | Err e \<Rightarrow> (case e of
         Unsupported oid_text \<Rightarrow> Err (UnsupportedSignature (UnsupportedSignatureAlgorithm oid_text))
       | _ \<Rightarrow> Err InvalidSignature)))"

definition grants_content_signing :: "key_usage \<Rightarrow> bool" where
  "grants_content_signing usage = (ku_digital_signature usage \<or> ku_non_repudiation usage)"

definition ensure_time_stamping_usage :: "pki \<Rightarrow> certificate \<Rightarrow> (token_error, unit) result" where
  "ensure_time_stamping_usage p signer_certificate =
     and_then (map_err (\<lambda>_. UnfitExtendedKeyUsage)
       (decode_extension EXTENDED_KEY_USAGE (extended_key_usage_from_der p) (cert_extensions signer_certificate))) (\<lambda>found.
     and_then (ok_or UnfitExtendedKeyUsage found) (\<lambda>usage.
     and_then (ensure (de_critical usage \<and> de_value usage = [ID_KP_TIME_STAMPING]) UnfitExtendedKeyUsage) (\<lambda>_.
     and_then (map_err (\<lambda>_. ForbiddenKeyUsage)
       (decode_extension KEY_USAGE (key_usage_from_der p) (cert_extensions signer_certificate))) (\<lambda>key_usage.
     if grants grants_content_signing key_usage then Ok () else Err ForbiddenKeyUsage))))"

definition parse_certificate_list :: "cms \<Rightarrow> bytes list \<Rightarrow> (token_error, certificate list) result" where
  "parse_certificate_list c der_list =
     traverse (\<lambda>der_bytes. map_err MalformedTrustInput (certificate_from_der c der_bytes)) der_list"

definition parse_crl_list :: "cms \<Rightarrow> bytes list \<Rightarrow> (token_error, certificate_list list) result" where
  "parse_crl_list c der_list =
     traverse (\<lambda>der_bytes. map_err MalformedTrustInput (crl_from_der c der_bytes)) der_list"

section \<open>The verification\<close>

definition verify_token ::
  "pki \<Rightarrow> cms \<Rightarrow> bytes \<Rightarrow> verification_basis \<Rightarrow> (token_error, token_summary) result" where
  "verify_token p c token_bytes basis =
     and_then (decode_signed_data c token_bytes) (\<lambda>signed.
     and_then (decode_tst_info c signed) (\<lambda>(tst, content_bytes).
     and_then (ensure (tst_version tst = TSP_V1) UnsupportedTstVersion) (\<lambda>_.
     and_then (ensure (tst_extensions tst = None) UnexpectedExtensions) (\<lambda>_.
     and_then (ensure_imprint_matches c tst (vb_manifest_bytes basis)) (\<lambda>algorithm.
     and_then (single_signer signed) (\<lambda>info.
     and_then (collect_certificates signed) (\<lambda>embedded_certificates.
     and_then (find_signer_certificate p info embedded_certificates) (\<lambda>signer_certificate.
     and_then (ok_or MissingSignedAttributes (si_signed_attrs info)) (\<lambda>attributes.
     and_then (ok_or (UnsupportedDigestAlgorithm (alg_oid (si_digest_alg info)))
       (digest_family_of (si_digest_alg info))) (\<lambda>digest_family.
     and_then (ensure_content_type_attribute c attributes) (\<lambda>_.
     and_then (ensure_message_digest_attribute c attributes digest_family content_bytes) (\<lambda>_.
     and_then (ensure_signing_certificate_attribute c attributes signer_certificate) (\<lambda>_.
     and_then (verify_cms_signature p c info attributes signer_certificate) (\<lambda>_.
     and_then (ensure (td_anchor_certificates (vb_trust basis) \<noteq> []) NoTrustAnchors) (\<lambda>_.
     and_then (parse_certificate_list c (td_anchor_certificates (vb_trust basis))) (\<lambda>anchors.
     and_then (parse_certificate_list c (td_companion_certificates (vb_trust basis))) (\<lambda>extra_companions.
     and_then (parse_crl_list c (td_crls (vb_trust basis))) (\<lambda>crls.
     and_then (map_err UntrustedChain (validate_chain p signer_certificate
       \<lparr>pool_anchors = anchors, pool_companions = embedded_certificates @ extra_companions, pool_crls = crls\<rparr>
       (tst_gen_time tst))) (\<lambda>_.
     and_then (ensure_time_stamping_usage p signer_certificate) (\<lambda>_.
     Ok \<lparr>ts_gen_time = tst_gen_time tst, ts_imprint_algorithm = algorithm\<rparr>))))))))))))))))))))"

section \<open>What acceptance means\<close>

text \<open>The token decodes to a SignedData whose attached content octets are a TSTInfo.\<close>

definition token_reads :: "cms \<Rightarrow> bytes \<Rightarrow> signed_data \<Rightarrow> tst_info \<Rightarrow> bytes \<Rightarrow> bool" where
  "token_reads c token_bytes signed tst content \<longleftrightarrow>
     (\<exists>ci econtent. content_info_from_der c token_bytes = Ok ci \<and> ci_content_type ci = ID_SIGNED_DATA \<and>
        signed_data_of c (ci_content ci) = Ok signed \<and> sd_econtent_type signed = ID_CT_TST_INFO \<and>
        sd_econtent signed = Some econtent \<and> octets_of c econtent = Ok content \<and>
        tst_info_from_der c content = Ok tst)"

definition embedded :: "signed_data \<Rightarrow> certificate list" where
  "embedded signed = List.map_filter chosen_certificate (listed (sd_certificates signed))"

text \<open>The one signer, whose identifier picks out exactly one embedded certificate.\<close>

definition sole_signer :: "pki \<Rightarrow> signed_data \<Rightarrow> signer_info \<Rightarrow> certificate \<Rightarrow> bool" where
  "sole_signer p signed info certificate \<longleftrightarrow>
     sd_signer_infos signed = [info] \<and> si_version info = expected_version (si_sid info) \<and>
     list_all (\<lambda>x. is_ok (matches_signer_identifier p (si_sid info) x)) (embedded signed) \<and>
     filter (\<lambda>x. matches_signer_identifier p (si_sid info) x = Ok True) (embedded signed) = [certificate]"

text \<open>The attribute occurs once, with one value.\<close>

definition sole_value :: "attribute list \<Rightarrow> oid \<Rightarrow> any \<Rightarrow> bool" where
  "sole_value attributes oid_text value \<longleftrightarrow>
     (\<exists>vs. filter (\<lambda>attribute. attr_oid attribute = oid_text) attributes = [vs] \<and> attr_values vs = [value])"

definition lacks :: "attribute list \<Rightarrow> oid \<Rightarrow> bool" where
  "lacks attributes oid_text \<longleftrightarrow> filter (\<lambda>attribute. attr_oid attribute = oid_text) attributes = []"

definition certificate_hash :: "cms \<Rightarrow> oid \<Rightarrow> bytes \<Rightarrow> bytes option" where
  "certificate_hash c hash_oid der =
     (if hash_oid = ID_SHA_1 then Some (sha1_of c der)
      else map_option (\<lambda>family. digest_payload c family der) (from_digest_oid hash_oid))"

definition identifies :: "cms \<Rightarrow> certificate \<Rightarrow> oid \<Rightarrow> bytes \<Rightarrow> issuer_serial option \<Rightarrow> bool" where
  "identifies c certificate hash_oid cert_hash serial \<longleftrightarrow>
     (\<exists>der. certificate_to_der c certificate = Ok der \<and> certificate_hash c hash_oid der = Some cert_hash) \<and>
     (case serial of None \<Rightarrow> True | Some s \<Rightarrow>
        is_issuer s = [DirectoryName (cert_issuer certificate)] \<and> is_serial_number s = cert_serial certificate)"

definition v1_identifies :: "cms \<Rightarrow> attribute list \<Rightarrow> certificate \<Rightarrow> bool" where
  "v1_identifies c attributes certificate \<longleftrightarrow>
     (\<exists>value attribute first others. sole_value attributes ID_AA_SIGNING_CERTIFICATE value \<and>
        signing_certificate_of c value = Ok attribute \<and> sc_certs attribute = first # others \<and>
        identifies c certificate ID_SHA_1 (ess_cert_hash first) (ess_issuer_serial first))"

definition v2_identifies :: "cms \<Rightarrow> attribute list \<Rightarrow> certificate \<Rightarrow> bool" where
  "v2_identifies c attributes certificate \<longleftrightarrow>
     (\<exists>value attribute first others. sole_value attributes ID_AA_SIGNING_CERTIFICATE_V2 value \<and>
        signing_certificate_v2_of c value = Ok attribute \<and> sc2_certs attribute = first # others \<and>
        (case ess2_hash_algorithm first of
           None \<Rightarrow> identifies c certificate ID_SHA_256 (ess2_cert_hash first) (ess2_issuer_serial first)
         | Some declared \<Rightarrow> is_absent_or_null_parameter (alg_parameters declared) \<and>
             identifies c certificate (alg_oid declared) (ess2_cert_hash first) (ess2_issuer_serial first)))"

text \<open>The ESS binding: at least one generation present, every present one identifying the signer.\<close>

definition ess_bound :: "cms \<Rightarrow> attribute list \<Rightarrow> certificate \<Rightarrow> bool" where
  "ess_bound c attributes certificate \<longleftrightarrow>
     (lacks attributes ID_AA_SIGNING_CERTIFICATE \<or> v1_identifies c attributes certificate) \<and>
     (lacks attributes ID_AA_SIGNING_CERTIFICATE_V2 \<or> v2_identifies c attributes certificate) \<and>
     (v1_identifies c attributes certificate \<or> v2_identifies c attributes certificate)"

definition attribute_holds :: "attribute list \<Rightarrow> oid \<Rightarrow> (any \<Rightarrow> (string, 'a) result) \<Rightarrow> 'a \<Rightarrow> bool" where
  "attribute_holds attributes oid_text decode x \<longleftrightarrow>
     (\<exists>value. sole_value attributes oid_text value \<and> decode value = Ok x)"

definition signature_verifies ::
  "pki \<Rightarrow> cms \<Rightarrow> signer_info \<Rightarrow> attribute list \<Rightarrow> certificate \<Rightarrow> bool" where
  "signature_verifies p c info attributes certificate \<longleftrightarrow>
     (\<exists>message algorithm. attributes_to_der c attributes = Ok message \<and>
        normalize_cms_signature_algorithm (alg_oid (si_digest_alg info)) (si_signature_algorithm info) = Ok algorithm \<and>
        verify_issued_signature p message \<lparr>rs_algorithm = algorithm, rs_bytes = si_signature info\<rparr> certificate = Ok ())"

definition dedicated_to_time_stamping :: "pki \<Rightarrow> certificate \<Rightarrow> bool" where
  "dedicated_to_time_stamping p certificate \<longleftrightarrow>
     claimed_extension EXTENDED_KEY_USAGE (extended_key_usage_from_der p) (listed (cert_extensions certificate))
       (Some \<lparr>de_critical = True, de_value = [ID_KP_TIME_STAMPING]\<rparr>) \<and>
     (\<exists>usage. claimed_extension KEY_USAGE (key_usage_from_der p) (listed (cert_extensions certificate)) usage \<and>
        grants grants_content_signing usage)"

section \<open>Each check decides its part\<close>

lemma digest_family_of_iff:
  "digest_family_of identifier = Some a \<longleftrightarrow>
     is_absent_or_null_parameter (alg_parameters identifier) \<and> alg_oid identifier = digest_oid a"
  by (auto simp: digest_family_of_def from_digest_oid_iff)

lemma token_reads_iff:
  "token_reads c token_bytes signed tst content \<longleftrightarrow>
     decode_signed_data c token_bytes = Ok signed \<and> decode_tst_info c signed = Ok (tst, content)"
  by (auto simp: decode_signed_data_def decode_tst_info_def token_reads_def result_simps)

lemma ensure_imprint_matches_Ok:
  "ensure_imprint_matches c tst manifest_bytes = Ok a \<longleftrightarrow>
     digest_family_of (mi_hash_algorithm (tst_imprint tst)) = Some a \<and>
     mi_hashed_message (tst_imprint tst) = digest_payload c a manifest_bytes"
  by (auto simp: ensure_imprint_matches_def result_simps)

lemma single_signer_Ok: "single_signer signed = Ok info \<longleftrightarrow> sd_signer_infos signed = [info]"
  by (auto simp: single_signer_def split: list.splits)

lemma collect_certificates_Ok:
  "collect_certificates signed = Ok certificates \<longleftrightarrow> certificates = embedded signed \<and> certificates \<noteq> []"
  by (auto simp: collect_certificates_def embedded_def listed_def result_simps Let_def map_filter_simps
      split: option.splits)

lemma matching_fold:
  "try_fold (\<lambda>found x. and_then (matching x) (\<lambda>m. Ok (if m then found @ [x] else found))) acc xs = Ok found \<longleftrightarrow>
     list_all (\<lambda>x. is_ok (matching x)) xs \<and> found = acc @ filter (\<lambda>x. matching x = Ok True) xs"
proof (induction xs arbitrary: acc)
  case (Cons x xs)
  show ?case
  proof (cases "matching x")
    case (Inr m)
    then show ?thesis using Cons by (cases m) auto
  qed simp
qed auto

lemma find_signer_certificate_Ok:
  "find_signer_certificate p info certificates = Ok certificate \<longleftrightarrow>
     si_version info = expected_version (si_sid info) \<and>
     list_all (\<lambda>x. is_ok (matches_signer_identifier p (si_sid info) x)) certificates \<and>
     filter (\<lambda>x. matches_signer_identifier p (si_sid info) x = Ok True) certificates = [certificate]"
  unfolding find_signer_certificate_def
  by (auto simp: result_simps matching_fold split: list.splits)

lemma unique_attribute_value_Ok:
  "unique_attribute_value attributes oid_text = Ok (Some value) \<longleftrightarrow> sole_value attributes oid_text value"
  "unique_attribute_value attributes oid_text = Ok None \<longleftrightarrow> lacks attributes oid_text"
  by (auto simp: unique_attribute_value_def sole_value_def lacks_def split: list.splits)

lemma unique_present:
  "(\<exists>r. unique_attribute_value attributes oid_text = Ok r \<and> (\<exists>v. r = Some v \<and> P v)) \<longleftrightarrow>
     (\<exists>v. sole_value attributes oid_text v \<and> P v)"
  by (auto simp flip: unique_attribute_value_Ok)

lemma option_case_Ok:
  "(case r of None \<Rightarrow> Ok False | Some v \<Rightarrow> and_then (f v) (\<lambda>x. g x)) = Ok b \<longleftrightarrow>
     (r = None \<and> \<not> b) \<or> (\<exists>v x. r = Some v \<and> f v = Ok x \<and> g x = Ok b)"
  by (cases r) (auto simp: result_simps)

lemma first_case_Ok:
  "(case xs of [] \<Rightarrow> Err e | x # _ \<Rightarrow> f x) = Ok b \<longleftrightarrow> (\<exists>x others. xs = x # others \<and> f x = Ok b)"
  by (cases xs) auto

lemma ensure_content_type_attribute_Ok:
  "ensure_content_type_attribute c attributes = Ok u \<longleftrightarrow>
     attribute_holds attributes ID_CONTENT_TYPE (oid_of c) ID_CT_TST_INFO"
  unfolding attribute_holds_def unique_present[symmetric]
  by (auto simp: ensure_content_type_attribute_def decoded_attribute_def result_simps)

lemma ensure_message_digest_attribute_Ok:
  "ensure_message_digest_attribute c attributes family content = Ok u \<longleftrightarrow>
     attribute_holds attributes ID_MESSAGE_DIGEST (octets_of c) (digest_payload c family content)"
  unfolding attribute_holds_def unique_present[symmetric]
  by (auto simp: ensure_message_digest_attribute_def decoded_attribute_def result_simps)

lemma ess_hash_Ok: "ess_hash c hash_oid der = Ok h \<longleftrightarrow> certificate_hash c hash_oid der = Some h"
  by (auto simp: ess_hash_def certificate_hash_def result_simps)

lemma ensure_identifies_signer_Ok:
  assumes "certificate_to_der c certificate = Ok der"
  shows "ensure_identifies_signer c \<lparr>ei_hash_oid = h, ei_cert_hash = ch, ei_issuer_serial = s\<rparr> der certificate = Ok u
    \<longleftrightarrow> identifies c certificate h ch s"
proof -
  have "(case l of [DirectoryName n] \<Rightarrow> n = x | _ \<Rightarrow> False) \<longleftrightarrow> l = [DirectoryName x]" for l x
    by (cases l; cases "hd l"; cases "tl l") auto
  then have "matches_issuer_serial t certificate \<longleftrightarrow>
      is_issuer t = [DirectoryName (cert_issuer certificate)] \<and> is_serial_number t = cert_serial certificate" for t
    by (simp add: matches_issuer_serial_def)
  with assms show ?thesis
    by (auto simp: ensure_identifies_signer_def identifies_def result_simps ess_hash_Ok split: option.splits)
qed

lemma ess_v1_binds_Ok:
  assumes "certificate_to_der c certificate = Ok der"
  shows "ess_v1_binds c attributes der certificate = Ok b \<longleftrightarrow>
    (if b then v1_identifies c attributes certificate else lacks attributes ID_AA_SIGNING_CERTIFICATE)"
proof -
  note identified = ensure_identifies_signer_Ok[OF assms]
  show ?thesis
    unfolding ess_v1_binds_def v1_identifies_def unique_attribute_value_Ok[symmetric]
    by (cases b) (auto simp: decoded_attribute_def and_then_eq_Inr option_case_Ok first_case_Ok identified map_err_eq_Inr)
qed

lemma ess_v2_binds_Ok:
  assumes "certificate_to_der c certificate = Ok der"
  shows "ess_v2_binds c attributes der certificate = Ok b \<longleftrightarrow>
    (if b then v2_identifies c attributes certificate else lacks attributes ID_AA_SIGNING_CERTIFICATE_V2)"
proof -
  note identified = ensure_identifies_signer_Ok[OF assms]
  have hash: "(\<exists>h. ess_v2_hash_oid alg = Ok h \<and> identifies c certificate h ch s) \<longleftrightarrow>
      (case alg of None \<Rightarrow> identifies c certificate ID_SHA_256 ch s
       | Some declared \<Rightarrow> is_absent_or_null_parameter (alg_parameters declared) \<and>
           identifies c certificate (alg_oid declared) ch s)" for alg ch s
    by (auto simp: ess_v2_hash_oid_def split: option.splits)
  show ?thesis
    unfolding ess_v2_binds_def v2_identifies_def hash[symmetric] unique_attribute_value_Ok[symmetric]
    by (cases b) (auto simp: decoded_attribute_def and_then_eq_Inr option_case_Ok first_case_Ok identified map_err_eq_Inr)
qed

lemma ensure_signing_certificate_attribute_Ok:
  "ensure_signing_certificate_attribute c attributes certificate = Ok u \<longleftrightarrow> ess_bound c attributes certificate"
proof (cases "certificate_to_der c certificate")
  case (Inl e)
  then show ?thesis
    by (simp add: ensure_signing_certificate_attribute_def ess_bound_def v1_identifies_def v2_identifies_def
        identifies_def split: option.splits)
next
  case (Inr der)
  then show ?thesis
    by (auto simp: ensure_signing_certificate_attribute_def ess_bound_def result_simps
        ess_v1_binds_Ok[OF Inr] ess_v2_binds_Ok[OF Inr] split: if_splits)
qed

lemma verify_cms_signature_Ok:
  "verify_cms_signature p c info attributes certificate = Ok u \<longleftrightarrow> signature_verifies p c info attributes certificate"
proof -
  have "(case r of Ok _ \<Rightarrow> Ok () | Err e \<Rightarrow> (case e of
      Unsupported oid_text \<Rightarrow> Err (UnsupportedSignature (UnsupportedSignatureAlgorithm oid_text))
    | _ \<Rightarrow> Err InvalidSignature)) = Ok u \<longleftrightarrow> r = Ok ()" for r :: "(signature_error, unit) result"
    by (cases r) (simp_all split: signature_error.splits)
  then show ?thesis
    by (simp add: verify_cms_signature_def signature_verifies_def and_then_eq_Inr map_err_eq_Inr)
qed

lemma ensure_time_stamping_usage_Ok:
  "ensure_time_stamping_usage p certificate = Ok u \<longleftrightarrow> dedicated_to_time_stamping p certificate"
proof -
  have "de_critical d \<and> de_value d = v \<longleftrightarrow> d = \<lparr>de_critical = True, de_value = v\<rparr>" for d :: "oid list decoded_extension" and v
    by (cases d) auto
  then show ?thesis
    by (auto simp: ensure_time_stamping_usage_def dedicated_to_time_stamping_def result_simps decode_extension_Ok
        split: if_splits)
qed

lemma parse_certificate_list_Ok:
  "parse_certificate_list c ders = Ok xs \<longleftrightarrow> list_all2 (\<lambda>der x. certificate_from_der c der = Ok x) ders xs"
  by (simp add: parse_certificate_list_def traverse_eq_Inr map_err_eq_Inr)

lemma parse_crl_list_Ok:
  "parse_crl_list c ders = Ok xs \<longleftrightarrow> list_all2 (\<lambda>der x. crl_from_der c der = Ok x) ders xs"
  by (simp add: parse_crl_list_def traverse_eq_Inr map_err_eq_Inr)

section \<open>The verdict\<close>

text \<open>The trust material parses to a pool with at least one anchor; the embedded certificates join the
  companions.\<close>

definition trust_parses :: "cms \<Rightarrow> trust_data \<Rightarrow> certificate list \<Rightarrow> trust_pool \<Rightarrow> bool" where
  "trust_parses c trust embedded_certificates pool \<longleftrightarrow>
     td_anchor_certificates trust \<noteq> [] \<and>
     list_all2 (\<lambda>der x. certificate_from_der c der = Ok x) (td_anchor_certificates trust) (pool_anchors pool) \<and>
     (\<exists>extra. list_all2 (\<lambda>der x. certificate_from_der c der = Ok x) (td_companion_certificates trust) extra \<and>
        pool_companions pool = embedded_certificates @ extra) \<and>
     list_all2 (\<lambda>der x. crl_from_der c der = Ok x) (td_crls trust) (pool_crls pool)"

text \<open>Everything the token itself must say.\<close>

definition token_stands ::
  "pki \<Rightarrow> cms \<Rightarrow> bytes \<Rightarrow> bytes \<Rightarrow> signed_data \<Rightarrow> tst_info \<Rightarrow> certificate \<Rightarrow> imprint_algorithm \<Rightarrow> bool" where
  "token_stands p c token_bytes manifest_bytes signed tst certificate algorithm \<longleftrightarrow>
     (\<exists>content info attributes family.
        token_reads c token_bytes signed tst content \<and>
        tst_version tst = TSP_V1 \<and> tst_extensions tst = None \<and>
        digest_family_of (mi_hash_algorithm (tst_imprint tst)) = Some algorithm \<and>
        mi_hashed_message (tst_imprint tst) = digest_payload c algorithm manifest_bytes \<and>
        sole_signer p signed info certificate \<and>
        si_signed_attrs info = Some attributes \<and>
        digest_family_of (si_digest_alg info) = Some family \<and>
        attribute_holds attributes ID_CONTENT_TYPE (oid_of c) ID_CT_TST_INFO \<and>
        attribute_holds attributes ID_MESSAGE_DIGEST (octets_of c) (digest_payload c family content) \<and>
        ess_bound c attributes certificate \<and>
        signature_verifies p c info attributes certificate)"

lemma verify_token_Ok:
  "verify_token p c token_bytes basis = Ok summary \<longleftrightarrow>
     (\<exists>signed tst certificate pool.
        token_stands p c token_bytes (vb_manifest_bytes basis) signed tst certificate (ts_imprint_algorithm summary) \<and>
        trust_parses c (vb_trust basis) (embedded signed) pool \<and>
        validate_chain p certificate pool (tst_gen_time tst) = Ok () \<and>
        dedicated_to_time_stamping p certificate \<and>
        ts_gen_time summary = tst_gen_time tst)"
proof
  assume verified: "verify_token p c token_bytes basis = Ok summary"
  obtain signed tst content family info embedded_certificates certificate attributes anchors extra crls where
    read: "decode_signed_data c token_bytes = Ok signed" "decode_tst_info c signed = Ok (tst, content)" and
    tst: "tst_version tst = TSP_V1" "tst_extensions tst = None"
      "ensure_imprint_matches c tst (vb_manifest_bytes basis) = Ok (ts_imprint_algorithm summary)"
      "ts_gen_time summary = tst_gen_time tst" and
    signer: "single_signer signed = Ok info" "collect_certificates signed = Ok embedded_certificates"
      "find_signer_certificate p info embedded_certificates = Ok certificate" and
    attributes: "si_signed_attrs info = Some attributes" "digest_family_of (si_digest_alg info) = Some family"
      "ensure_content_type_attribute c attributes = Ok ()"
      "ensure_message_digest_attribute c attributes family content = Ok ()"
      "ensure_signing_certificate_attribute c attributes certificate = Ok ()"
      "verify_cms_signature p c info attributes certificate = Ok ()" and
    trust: "td_anchor_certificates (vb_trust basis) \<noteq> []"
      "parse_certificate_list c (td_anchor_certificates (vb_trust basis)) = Ok anchors"
      "parse_certificate_list c (td_companion_certificates (vb_trust basis)) = Ok extra"
      "parse_crl_list c (td_crls (vb_trust basis)) = Ok crls"
      "validate_chain p certificate \<lparr>pool_anchors = anchors, pool_companions = embedded_certificates @ extra,
         pool_crls = crls\<rparr> (tst_gen_time tst) = Ok ()"
      "ensure_time_stamping_usage p certificate = Ok ()"
    using verified
    by (auto simp: verify_token_def and_then_eq_Inr ok_or_eq_Inr map_err_eq_Inr ensure_eq_Inr)
  have "embedded_certificates = embedded signed" using signer(2) by (simp add: collect_certificates_Ok)
  with read tst signer attributes
  have "token_stands p c token_bytes (vb_manifest_bytes basis) signed tst certificate (ts_imprint_algorithm summary)"
    unfolding token_stands_def sole_signer_def token_reads_iff
    by (simp add: ensure_imprint_matches_Ok single_signer_Ok find_signer_certificate_Ok ensure_content_type_attribute_Ok
        ensure_message_digest_attribute_Ok ensure_signing_certificate_attribute_Ok verify_cms_signature_Ok)
  moreover have "trust_parses c (vb_trust basis) (embedded signed)
      \<lparr>pool_anchors = anchors, pool_companions = embedded_certificates @ extra, pool_crls = crls\<rparr>"
    using trust \<open>embedded_certificates = embedded signed\<close>
    by (simp add: trust_parses_def parse_certificate_list_Ok parse_crl_list_Ok)
  ultimately show "\<exists>signed tst certificate pool.
      token_stands p c token_bytes (vb_manifest_bytes basis) signed tst certificate (ts_imprint_algorithm summary) \<and>
      trust_parses c (vb_trust basis) (embedded signed) pool \<and>
      validate_chain p certificate pool (tst_gen_time tst) = Ok () \<and>
      dedicated_to_time_stamping p certificate \<and> ts_gen_time summary = tst_gen_time tst"
    using trust(5,6) tst(4) by (simp add: ensure_time_stamping_usage_Ok) blast
next
  assume "\<exists>signed tst certificate pool.
      token_stands p c token_bytes (vb_manifest_bytes basis) signed tst certificate (ts_imprint_algorithm summary) \<and>
      trust_parses c (vb_trust basis) (embedded signed) pool \<and>
      validate_chain p certificate pool (tst_gen_time tst) = Ok () \<and>
      dedicated_to_time_stamping p certificate \<and> ts_gen_time summary = tst_gen_time tst"
  then obtain signed tst certificate pool where
    stands: "token_stands p c token_bytes (vb_manifest_bytes basis) signed tst certificate (ts_imprint_algorithm summary)"
    and trust: "trust_parses c (vb_trust basis) (embedded signed) pool"
    and chain: "validate_chain p certificate pool (tst_gen_time tst) = Ok ()"
    and usage: "dedicated_to_time_stamping p certificate" and time: "ts_gen_time summary = tst_gen_time tst" by blast
  from stands obtain content info attributes family where
    parts: "token_reads c token_bytes signed tst content" "tst_version tst = TSP_V1" "tst_extensions tst = None"
      "digest_family_of (mi_hash_algorithm (tst_imprint tst)) = Some (ts_imprint_algorithm summary)"
      "mi_hashed_message (tst_imprint tst) = digest_payload c (ts_imprint_algorithm summary) (vb_manifest_bytes basis)"
      "sole_signer p signed info certificate"
      "si_signed_attrs info = Some attributes" "digest_family_of (si_digest_alg info) = Some family"
      "attribute_holds attributes ID_CONTENT_TYPE (oid_of c) ID_CT_TST_INFO"
      "attribute_holds attributes ID_MESSAGE_DIGEST (octets_of c) (digest_payload c family content)"
      "ess_bound c attributes certificate" "signature_verifies p c info attributes certificate"
    unfolding token_stands_def by blast
  from trust obtain extra where trusted: "td_anchor_certificates (vb_trust basis) \<noteq> []"
    "parse_certificate_list c (td_anchor_certificates (vb_trust basis)) = Ok (pool_anchors pool)"
    "parse_certificate_list c (td_companion_certificates (vb_trust basis)) = Ok extra"
    "parse_crl_list c (td_crls (vb_trust basis)) = Ok (pool_crls pool)"
    "pool_companions pool = embedded signed @ extra"
    by (auto simp: trust_parses_def parse_certificate_list_Ok parse_crl_list_Ok)
  have pool: "\<lparr>pool_anchors = pool_anchors pool, pool_companions = embedded signed @ extra, pool_crls = pool_crls pool\<rparr> = pool"
    by (simp flip: trusted(5))
  have "embedded signed \<noteq> []" using parts(6) by (auto simp: sole_signer_def)
  then have "collect_certificates signed = Ok (embedded signed)" by (simp add: collect_certificates_Ok)
  moreover have "single_signer signed = Ok info" "find_signer_certificate p info (embedded signed) = Ok certificate"
    using parts(6) by (simp_all add: sole_signer_def single_signer_Ok find_signer_certificate_Ok)
  moreover have "ensure_imprint_matches c tst (vb_manifest_bytes basis) = Ok (ts_imprint_algorithm summary)"
    using parts(4,5) by (simp add: ensure_imprint_matches_Ok)
  moreover have "\<lparr>ts_gen_time = tst_gen_time tst, ts_imprint_algorithm = ts_imprint_algorithm summary\<rparr> = summary"
    using time by simp
  ultimately show "verify_token p c token_bytes basis = Ok summary"
    using parts(1)[unfolded token_reads_iff] parts(2,3,7,8) trusted(1-4) chain
      parts(9)[folded ensure_content_type_attribute_Ok[where u = "()"]]
      parts(10)[folded ensure_message_digest_attribute_Ok[where u = "()"]]
      parts(11)[folded ensure_signing_certificate_attribute_Ok[where u = "()"]]
      parts(12)[folded verify_cms_signature_Ok[where u = "()"]]
      usage[folded ensure_time_stamping_usage_Ok[where u = "()"]]
    by (simp add: verify_token_def pool)
qed

text \<open>C5: a token is accepted exactly when it stands on its own, the supplied trust material parses to a
  pool, the one signer certificate chains to an anchor at genTime, and it is dedicated to timestamping;
  the summary is the token's genTime and imprint algorithm.\<close>

theorem accepted_token_iff:
  "verify_token p c token_bytes \<lparr>vb_manifest_bytes = manifest_bytes, vb_trust = trust\<rparr> =
     Ok \<lparr>ts_gen_time = gen_time, ts_imprint_algorithm = algorithm\<rparr> \<longleftrightarrow>
     (\<exists>signed tst certificate pool.
        token_stands p c token_bytes manifest_bytes signed tst certificate algorithm \<and>
        trust_parses c trust (embedded signed) pool \<and>
        validate_chain p certificate pool gen_time = Ok () \<and>
        dedicated_to_time_stamping p certificate \<and> tst_gen_time tst = gen_time)"
  unfolding verify_token_Ok by auto

lemma token_stands_determined:
  assumes "token_stands p c token_bytes m signed tst certificate algorithm"
    and "token_stands p c token_bytes m' signed' tst' certificate' algorithm'"
  shows "signed' = signed \<and> tst' = tst \<and> algorithm' = algorithm \<and>
    digest_payload c algorithm m' = digest_payload c algorithm m"
  using assms unfolding token_stands_def by (elim exE conjE) (simp add: token_reads_iff)

lemma verified_tokens_agree:
  assumes "verify_token p c token_bytes basis = Ok summary"
    and "verify_token p c token_bytes basis' = Ok summary'"
  shows "summary' = summary \<and>
    digest_payload c (ts_imprint_algorithm summary) (vb_manifest_bytes basis') =
    digest_payload c (ts_imprint_algorithm summary) (vb_manifest_bytes basis)"
proof -
  from assms obtain signed tst certificate signed' tst' certificate' where
    "token_stands p c token_bytes (vb_manifest_bytes basis) signed tst certificate (ts_imprint_algorithm summary)"
    "token_stands p c token_bytes (vb_manifest_bytes basis') signed' tst' certificate' (ts_imprint_algorithm summary')"
    "ts_gen_time summary = tst_gen_time tst" "ts_gen_time summary' = tst_gen_time tst'"
    by (auto simp: verify_token_Ok)
  with token_stands_determined[OF this(1,2)] show ?thesis by simp
qed

text \<open>A token vouches for one digest and one moment: whatever manifests and trust material it is
  accepted with, the summaries are equal and the manifests have the same digest under its algorithm.\<close>

theorem accepted_tokens_agree:
  assumes "verify_token p c token_bytes basis = Ok summary"
    and "verify_token p c token_bytes basis' = Ok summary'"
  shows "summary' = summary \<and>
    digest_payload c (ts_imprint_algorithm summary) (vb_manifest_bytes basis') =
    digest_payload c (ts_imprint_algorithm summary) (vb_manifest_bytes basis)"
  using assms by (rule verified_tokens_agree)

lemma anchored_in: "trust_chain p pool gen_time n cs \<Longrightarrow> cs \<noteq> [] \<and> anchored pool gen_time (last cs)"
  by (induction p pool gen_time n cs rule: trust_chain.induct) auto

lemma parsed_from:
  assumes "list_all2 (\<lambda>der x. parse der = Ok x) ders xs" and "x \<in> set xs"
    and "\<And>der. der \<in> set ders \<Longrightarrow> parse der = Ok x \<Longrightarrow> thesis"
  shows thesis
  using assms by (induction ders xs rule: list_all2_induct) auto

text \<open>Issued: both certificates are valid at the moment and the key of the issuer verifies the signature. Unrevoked, by
  the CRLs supplied: the issuer may sign CRLs, one of its CRLs decides the moment, and none of them holds an entry for
  the certificate that is not tolerable.\<close>

definition issued_at :: "pki \<Rightarrow> system_time \<Rightarrow> certificate \<Rightarrow> certificate \<Rightarrow> bool" where
  "issued_at p gen_time current issuer \<longleftrightarrow>
     covers_moment (cert_validity current) gen_time \<and> covers_moment (cert_validity issuer) gen_time \<and>
     cert_subject issuer = cert_issuer current \<and>
     (\<exists>message signature. tbs_to_der p current = Some message \<and> cert_signature current = Some signature \<and>
        verify_issued_signature p message
          \<lparr>rs_algorithm = cert_signature_algorithm current, rs_bytes = signature\<rparr> issuer = Ok ())"

definition unrevoked_by :: "pki \<Rightarrow> cms \<Rightarrow> bytes list \<Rightarrow> system_time \<Rightarrow> certificate \<Rightarrow> certificate \<Rightarrow> bool" where
  "unrevoked_by p c crl_ders gen_time current issuer \<longleftrightarrow> may_sign_crls p issuer \<and>
     (\<exists>der \<in> set crl_ders. \<exists>crl. crl_from_der c der = Ok crl \<and> crl_of_issuer p issuer crl \<and>
        crl_this_update crl \<le> not_after (cert_validity current) \<and>
        (\<exists>next_update. crl_next_update crl = Some next_update \<and> gen_time \<le> next_update)) \<and>
     (\<forall>der \<in> set crl_ders. \<exists>crl. crl_from_der c der = Ok crl \<and> (crl_of_issuer p issuer crl \<longrightarrow>
        (\<forall>revoked \<in> set (listed (crl_revoked crl)). rc_serial revoked = cert_serial current \<longrightarrow> tolerable p gen_time revoked)))"

lemma parsed_all:
  assumes "list_all2 (\<lambda>der x. parse der = Ok x) ders xs"
  shows "(\<exists>x \<in> set xs. P x) \<longleftrightarrow> (\<exists>der \<in> set ders. \<exists>x. parse der = Ok x \<and> P x)"
    and "(\<forall>x \<in> set xs. P x) \<longleftrightarrow> (\<forall>der \<in> set ders. \<exists>x. parse der = Ok x \<and> P x)"
  using assms by (induction ders xs rule: list_all2_induct) auto

lemma chain_link_issued:
  assumes "chain_link p pool gen_time n current issuer"
  shows "issued_at p gen_time current issuer"
  using assms chosen_issuer_SomeD[of p pool gen_time current issuer]
  by (auto simp: chain_link_def issued_at_def is_signing_issuer_def is_ok_iff split: option.splits)

lemma chain_link_unrevoked:
  assumes "chain_link p pool gen_time n current issuer" "list_all2 (\<lambda>der x. crl_from_der c der = Ok x) crl_ders (pool_crls pool)"
  shows "unrevoked_by p c crl_ders gen_time current issuer"
proof -
  have "may_sign_crls p issuer \<and>
      (\<exists>crl \<in> set (pool_crls pool). crl_of_issuer p issuer crl \<and> crl_this_update crl \<le> not_after (cert_validity current) \<and>
        (\<exists>next_update. crl_next_update crl = Some next_update \<and> gen_time \<le> next_update)) \<and>
      (\<forall>crl \<in> set (pool_crls pool). crl_of_issuer p issuer crl \<longrightarrow>
        (\<forall>revoked \<in> set (listed (crl_revoked crl)). rc_serial revoked = cert_serial current \<longrightarrow> tolerable p gen_time revoked))"
    using assms(1) unfolding chain_link_def unrevoked_iff is_admissible_iff by blast
  then show ?thesis unfolding parsed_all[OF assms(2)] unrevoked_by_def .
qed

text \<open>C29: an accepted token rests on a supplied anchor. The token bytes carry one signature over the digest of their
  content, made by the one signer they name, for the manifest and at the time the summary tells. A chain of at most
  eight links leads from that signer to a certificate decoded from the supplied anchor bytes: each certificate is
  valid at genTime, issued by the next one, an authority unless it is the anchor, and unrevoked by all the CRLs
  supplied.\<close>

theorem accepted_token_is_anchored:
  assumes "verify_token p c token_bytes basis = Ok summary"
  shows "\<exists>signed tst content info attributes family signer cs anchor_bytes.
    token_reads c token_bytes signed tst content \<and> tst_gen_time tst = ts_gen_time summary \<and>
    mi_hashed_message (tst_imprint tst) = digest_payload c (ts_imprint_algorithm summary) (vb_manifest_bytes basis) \<and>
    sole_signer p signed info signer \<and> si_signed_attrs info = Some attributes \<and>
    digest_family_of (si_digest_alg info) = Some family \<and>
    attribute_holds attributes ID_MESSAGE_DIGEST (octets_of c) (digest_payload c family content) \<and>
    signature_verifies p c info attributes signer \<and> length cs \<le> 8 \<and>
    anchor_bytes \<in> set (td_anchor_certificates (vb_trust basis)) \<and>
    certificate_from_der c anchor_bytes = Ok (last (signer # cs)) \<and>
    covers_moment (cert_validity (last (signer # cs))) (ts_gen_time summary) \<and>
    (\<forall>i < length cs. issued_at p (ts_gen_time summary) ((signer # cs) ! i) (cs ! i) \<and>
       unrevoked_by p c (td_crls (vb_trust basis)) (ts_gen_time summary) ((signer # cs) ! i) (cs ! i) \<and>
       (Suc i < length cs \<longrightarrow> fit_issuer p (cs ! i) i))"
proof -
  from assms obtain signed tst signer pool where
    stands: "token_stands p c token_bytes (vb_manifest_bytes basis) signed tst signer (ts_imprint_algorithm summary)"
    and trust: "trust_parses c (vb_trust basis) (embedded signed) pool"
    and chain: "validate_chain p signer pool (ts_gen_time summary) = Ok ()" and time: "tst_gen_time tst = ts_gen_time summary"
    by (auto simp: verify_token_Ok)
  from stands obtain content info attributes family where
    token: "token_reads c token_bytes signed tst content"
      "mi_hashed_message (tst_imprint tst) = digest_payload c (ts_imprint_algorithm summary) (vb_manifest_bytes basis)"
      "sole_signer p signed info signer" "si_signed_attrs info = Some attributes" "digest_family_of (si_digest_alg info) = Some family"
      "attribute_holds attributes ID_MESSAGE_DIGEST (octets_of c) (digest_payload c family content)"
      "signature_verifies p c info attributes signer"
    unfolding token_stands_def by blast
  from chain obtain cs where
    cs: "trust_chain p pool (ts_gen_time summary) 0 (signer # cs)" "length cs \<le> 8"
    by (auto simp: validate_chain_Ok)
  have anchored: "last (signer # cs) \<in> set (pool_anchors pool)" "covers_moment (cert_validity (last (signer # cs))) (ts_gen_time summary)"
    using anchored_in[OF cs(1)] unfolding anchored_def by blast+
  obtain anchor_bytes where anchor: "anchor_bytes \<in> set (td_anchor_certificates (vb_trust basis))"
    "certificate_from_der c anchor_bytes = Ok (last (signer # cs))"
    using anchored(1) trust unfolding trust_parses_def by (elim conjE) (erule (1) parsed_from)
  have crls: "list_all2 (\<lambda>der x. crl_from_der c der = Ok x) (td_crls (vb_trust basis)) (pool_crls pool)"
    using trust by (simp add: trust_parses_def)
  have link: "chain_link p pool (ts_gen_time summary) i ((signer # cs) ! i) (cs ! i)" if "i < length cs" for i
    using trust_chain_links[OF cs(1), of i] that by simp
  have "fit_issuer p (cs ! i) i" if "Suc i < length cs" for i
    using link[of i] link[of "Suc i"] that by (auto simp: chain_link_def)
  then have "\<forall>i < length cs. issued_at p (ts_gen_time summary) ((signer # cs) ! i) (cs ! i) \<and>
      unrevoked_by p c (td_crls (vb_trust basis)) (ts_gen_time summary) ((signer # cs) ! i) (cs ! i) \<and>
      (Suc i < length cs \<longrightarrow> fit_issuer p (cs ! i) i)"
    using chain_link_issued[OF link] chain_link_unrevoked[OF link crls] by blast
  then show ?thesis using token time cs(2) anchor anchored(2) by blast
qed

section \<open>A concrete token\<close>

definition toy_trust :: trust_data where
  "toy_trust = \<lparr>td_anchor_certificates = [''root''], td_companion_certificates = [], td_crls = [''crl'']\<rparr>"

definition toy_basis :: "bytes \<Rightarrow> verification_basis" where
  "toy_basis manifest_bytes = \<lparr>vb_manifest_bytes = manifest_bytes, vb_trust = toy_trust\<rparr>"

definition toy_token :: bytes where
  "toy_token = ''d'' @ replicate 8 (CHR 0x01)"

definition toy_token_pool :: trust_pool where
  "toy_token_pool = \<lparr>pool_anchors = [toy_root], pool_companions = [toy_tsa], pool_crls = [toy_crl ''root'' ''R'']\<rparr>"

lemma toy_tsa_chain: "validate_chain toy_pki toy_tsa toy_token_pool 50 = Ok ()"
proof -
  have "chain_link toy_pki toy_token_pool 50 0 toy_tsa toy_root"
    unfolding chain_link_def
    by (simp add: toy_token_pool_def chosen_issuer_def candidates_def screened_def is_signing_issuer_def
      ensure_unrevoked_def toy_defs toy_tsa_def decode_extension_def listed_def judge_crl_def is_admissible_def
      verify_issued_signature_def carries_critical_def decides_at_gen_time_def grants_def oid_defs covers_moment_def
      EVALUATED_EXTENSIONS_def)
  then show ?thesis
    unfolding validate_chain_Ok
    by (intro exI[of _ "[toy_root]"])
      (simp add: anchored_def toy_token_pool_def toy_root_def toy_certificate_def covers_moment_def)
qed

lemma toy_signature:
  "verify_cms_signature toy_pki toy_cms toy_signer_info toy_attributes toy_tsa = Ok ()"
  by (simp add: verify_cms_signature_def toy_cms_def toy_signer_info_def normalize_cms_signature_algorithm_def
      folded_digest_of_def RSA_PAIRINGS_def ECDSA_PAIRINGS_def verify_issued_signature_def toy_defs toy_tsa_def oid_defs)

lemma toy_reads:
  "decode_signed_data toy_cms toy_token = Ok (toy_signed_data toy_token)"
  "decode_tst_info toy_cms (toy_signed_data toy_token) = Ok (toy_tst_info toy_token, toy_token)"
  by (simp_all add: decode_signed_data_def decode_tst_info_def toy_cms_def toy_content_info_def toy_any_def
      toy_signed_data_def)

lemma toy_signs:
  "single_signer (toy_signed_data toy_token) = Ok toy_signer_info"
  "collect_certificates (toy_signed_data toy_token) = Ok [toy_tsa]"
  "find_signer_certificate toy_pki toy_signer_info [toy_tsa] = Ok toy_tsa"
  by (simp_all add: single_signer_def collect_certificates_def find_signer_certificate_def toy_signed_data_def
      toy_signer_info_def toy_tsa_def toy_certificate_def map_filter_simps)

lemma toy_attributes_hold:
  "ensure_content_type_attribute toy_cms toy_attributes = Ok ()"
  "ensure_message_digest_attribute toy_cms toy_attributes Sha256 toy_token = Ok ()"
  "ensure_signing_certificate_attribute toy_cms toy_attributes toy_tsa = Ok ()"
  by (simp_all add: ensure_content_type_attribute_def ensure_message_digest_attribute_def
      ensure_signing_certificate_attribute_def ess_v1_binds_def ess_v2_binds_def ess_v2_hash_oid_def
      ensure_identifies_signer_def ess_hash_def from_digest_oid_def unique_attribute_value_def decoded_attribute_def
      toy_attributes_def toy_cms_def toy_any_def oid_defs)

lemma toy_usage: "ensure_time_stamping_usage toy_pki toy_tsa = Ok ()"
  by (simp add: ensure_time_stamping_usage_def decode_extension_def listed_def toy_tsa_def toy_certificate_def
      toy_pki_def grants_def oid_defs)

lemma toy_parses:
  "parse_certificate_list toy_cms [''root''] = Ok [toy_root]" "parse_certificate_list toy_cms [] = Ok []"
  "parse_crl_list toy_cms [''crl''] = Ok [toy_crl ''root'' ''R'']"
  by (simp_all add: parse_certificate_list_def parse_crl_list_def toy_cms_def)

lemma toy_token_verified:
  "verify_token toy_pki toy_cms toy_token (toy_basis m) = Ok \<lparr>ts_gen_time = 50, ts_imprint_algorithm = Sha256\<rparr>"
proof -
  have family: "digest_family_of \<lparr>alg_oid = ID_SHA_256, alg_parameters = None\<rparr> = Some Sha256"
    by (simp add: digest_family_of_iff is_absent_or_null_parameter_def)
  have imprint: "ensure_imprint_matches toy_cms (toy_tst_info toy_token) m = Ok Sha256"
    by (simp add: ensure_imprint_matches_def toy_tst_info_def family toy_token_def) (simp add: toy_cms_def)
  have signer: "si_signed_attrs toy_signer_info = Some toy_attributes"
    "digest_family_of (si_digest_alg toy_signer_info) = Some Sha256"
    by (simp_all add: toy_signer_info_def family)
  have tst: "tst_version (toy_tst_info toy_token) = TSP_V1" "tst_extensions (toy_tst_info toy_token) = None"
    "tst_gen_time (toy_tst_info toy_token) = 50"
    by (simp_all add: toy_tst_info_def)
  show ?thesis
    using toy_tsa_chain
    by (simp add: verify_token_def toy_reads toy_signs toy_attributes_hold toy_usage toy_parses toy_signature
        imprint signer tst toy_basis_def toy_trust_def toy_token_pool_def)
qed

lemma accepted_tokens_agree_witness:
  "digest_payload toy_cms Sha256 ''one'' = digest_payload toy_cms Sha256 ''two''"
  using accepted_tokens_agree[OF toy_token_verified[of "''two''"] toy_token_verified[of "''one''"]]
  by (simp add: toy_basis_def)

lemma accepted_token_is_anchored_witness:
  "\<exists>anchor. certificate_from_der toy_cms ''root'' = Ok anchor \<and> covers_moment (cert_validity anchor) 50"
  using accepted_token_is_anchored[OF toy_token_verified[of "''m''"]]
  by (auto simp: toy_basis_def toy_trust_def)

end
