(* ===== verification/Stamp_Verdict.thy ===== *)
theory Stamp_Verdict
  imports Token Tree_Agreement Binding_Verify
begin

text \<open>
  \<open>crates/tydence/src/verify/stamp.rs\<close>: the verdict over one stamp commit, composing manifest syntax,
  tree agreement, renewal linkage and token verification. It is what the other theories are for: the last
  section states end to end what a passing stamp says about the content of the tree.
\<close>

record site_token =
  st_site :: string
  st_bytes :: bytes

record accepted_token =
  at_site :: string
  at_summary :: token_summary

record rejected_token =
  rt_site :: string
  rt_cause :: token_error

record stamp_inputs =
  in_manifest_bytes :: bytes
  in_tree_entries :: "entry list"
  in_tokens :: "site_token list"
  in_bound_stamps :: "bound_stamp list"
  in_trust :: trust_data

record stamp_summary =
  sum_manifest_hashes :: payload_hashes
  sum_accepted :: "accepted_token list"
  sum_rejected :: "rejected_token list"

datatype stamp_error =
  UnreadableManifest utf8_error
  | ManifestFailure manifest_error
  | TreeFailure tree_error
  | BindingFailure binding_error
  | NoTokens
  | AllTokensRejected "rejected_token list"

fun stamp_error_display :: "(bytes \<Rightarrow> string) \<Rightarrow> (system_time \<Rightarrow> string) \<Rightarrow> stamp_error \<Rightarrow> string" where
  "stamp_error_display lossy debug_time (UnreadableManifest _) = ''the manifest bytes are not UTF-8''"
| "stamp_error_display lossy debug_time (ManifestFailure cause) =
     ''the manifest does not parse: '' @ manifest_error_display cause"
| "stamp_error_display lossy debug_time (TreeFailure cause) =
     ''manifest and tree disagree: '' @ tree_error_display lossy cause"
| "stamp_error_display lossy debug_time (BindingFailure cause) =
     ''the renewal chain does not link: '' @ binding_error_display cause"
| "stamp_error_display lossy debug_time NoTokens = ''the stamp carries no tokens''"
| "stamp_error_display lossy debug_time (AllTokensRejected rejections) =
     ''every token failed verification:'' @ concat (map (\<lambda>rejection.
       '' ['' @ rt_site rejection @ '': '' @ token_error_display debug_time (rt_cause rejection) @ '']'') rejections)"

section \<open>The verdict\<close>

definition judge_token ::
  "pki \<Rightarrow> cms \<Rightarrow> verification_basis \<Rightarrow> accepted_token list \<times> rejected_token list \<Rightarrow> site_token
    \<Rightarrow> accepted_token list \<times> rejected_token list" where
  "judge_token p c basis sorted_out token =
     (case sorted_out of (accepted, rejected) \<Rightarrow>
       (case verify_token p c (st_bytes token) basis of
          Ok summary \<Rightarrow> (accepted @ [\<lparr>at_site = st_site token, at_summary = summary\<rparr>], rejected)
        | Err cause \<Rightarrow> (accepted, rejected @ [\<lparr>rt_site = st_site token, rt_cause = cause\<rparr>])))"

definition verify_stamp ::
  "ranges \<Rightarrow> digests \<Rightarrow> pki \<Rightarrow> cms \<Rightarrow> stamp_inputs \<Rightarrow> (stamp_error, stamp_summary) result" where
  "verify_stamp table d p c inputs =
     and_then (map_err UnreadableManifest (from_utf8 (in_manifest_bytes inputs))) (\<lambda>manifest_text.
     and_then (map_err ManifestFailure (parse_manifest table manifest_text)) (\<lambda>m.
     and_then (map_err TreeFailure (verify_tree (entries m) (in_tree_entries inputs))) (\<lambda>_.
     and_then (map_err BindingFailure (verify_binding_linkage d (binding_groups m) (in_bound_stamps inputs))) (\<lambda>_.
     if in_tokens inputs = [] then Err NoTokens
     else
       let basis = \<lparr>vb_manifest_bytes = in_manifest_bytes inputs, vb_trust = in_trust inputs\<rparr>;
           (accepted, rejected) = foldl (judge_token p c basis) ([], []) (in_tokens inputs)
       in if accepted = [] then Err (AllTokensRejected rejected)
          else Ok \<lparr>sum_manifest_hashes = hash_payload d (in_manifest_bytes inputs),
                   sum_accepted = accepted, sum_rejected = rejected\<rparr>))))"

section \<open>Sorting tokens out\<close>

definition accepted_of :: "pki \<Rightarrow> cms \<Rightarrow> verification_basis \<Rightarrow> site_token list \<Rightarrow> accepted_token list" where
  "accepted_of p c basis tokens = List.map_filter (\<lambda>token.
     map_option (\<lambda>summary. \<lparr>at_site = st_site token, at_summary = summary\<rparr>)
       (ok (verify_token p c (st_bytes token) basis))) tokens"

definition rejected_of :: "pki \<Rightarrow> cms \<Rightarrow> verification_basis \<Rightarrow> site_token list \<Rightarrow> rejected_token list" where
  "rejected_of p c basis tokens = List.map_filter (\<lambda>token.
     case verify_token p c (st_bytes token) basis of
       Ok _ \<Rightarrow> None | Err cause \<Rightarrow> Some \<lparr>rt_site = st_site token, rt_cause = cause\<rparr>) tokens"

lemma judge_tokens:
  "foldl (judge_token p c basis) (accepted, rejected) tokens =
     (accepted @ accepted_of p c basis tokens, rejected @ rejected_of p c basis tokens)"
proof (induction tokens arbitrary: accepted rejected)
  case (Cons token tokens)
  then show ?case
    by (cases "verify_token p c (st_bytes token) basis")
      (simp_all add: judge_token_def accepted_of_def rejected_of_def map_filter_simps)
qed (simp add: accepted_of_def rejected_of_def map_filter_simps)

lemma accepted_of_empty:
  "accepted_of p c basis tokens = [] \<longleftrightarrow> (\<forall>token \<in> set tokens. \<not> is_ok (verify_token p c (st_bytes token) basis))"
proof (induction tokens)
  case (Cons token tokens)
  then show ?case
    by (cases "verify_token p c (st_bytes token) basis") (simp_all add: accepted_of_def map_filter_simps)
qed (simp add: accepted_of_def map_filter_simps)

lemma in_accepted_of:
  "a \<in> set (accepted_of p c basis tokens) \<longleftrightarrow>
     (\<exists>token \<in> set tokens. at_site a = st_site token \<and> verify_token p c (st_bytes token) basis = Ok (at_summary a))"
proof (induction tokens)
  case (Cons token tokens)
  have "a = \<lparr>at_site = s, at_summary = x\<rparr> \<longleftrightarrow> at_site a = s \<and> at_summary a = x" for s x
    by (cases a) auto
  with Cons show ?case
    by (cases "verify_token p c (st_bytes token) basis") (auto simp: accepted_of_def map_filter_simps)
qed (simp add: accepted_of_def map_filter_simps)

definition basis_of :: "stamp_inputs \<Rightarrow> verification_basis" where
  "basis_of inputs = \<lparr>vb_manifest_bytes = in_manifest_bytes inputs, vb_trust = in_trust inputs\<rparr>"

lemma verify_stamp_Ok:
  "verify_stamp table d p c inputs = Ok summary \<longleftrightarrow>
     (\<exists>m. is_utf8 (in_manifest_bytes inputs) \<and> parse_manifest table (in_manifest_bytes inputs) = Ok m \<and>
        verify_tree (entries m) (in_tree_entries inputs) = Ok () \<and>
        verify_binding_linkage d (binding_groups m) (in_bound_stamps inputs) = Ok ()) \<and>
     accepted_of p c (basis_of inputs) (in_tokens inputs) \<noteq> [] \<and>
     summary = \<lparr>sum_manifest_hashes = hash_payload d (in_manifest_bytes inputs),
       sum_accepted = accepted_of p c (basis_of inputs) (in_tokens inputs),
       sum_rejected = rejected_of p c (basis_of inputs) (in_tokens inputs)\<rparr>"
proof -
  have none: "accepted_of p c (basis_of inputs) [] = []" by (simp add: accepted_of_def map_filter_simps)
  show ?thesis
    unfolding verify_stamp_def basis_of_def[symmetric]
    by (auto simp: and_then_eq_Inr map_err_eq_Inr from_utf8_Ok judge_tokens none Let_def split: if_splits)
qed

section \<open>What a passing stamp says\<close>

text \<open>C3: a stamp passes exactly when its manifest bytes are the UTF-8 serialisation of a canonical
  manifest that lists the tree exactly, the bound stamps reproduce its double hashes, and at least one
  token verifies; the summary then reports every token, accepted or rejected, in order.\<close>

theorem stamp_passes_iff:
  assumes "ascii_table table"
  shows "is_ok (verify_stamp table d p c inputs) \<longleftrightarrow>
    is_utf8 (in_manifest_bytes inputs) \<and>
    (\<exists>m. canonical_manifest table m \<and> serialize table m = Ok (in_manifest_bytes inputs) \<and>
       distinct (map entry_path (in_tree_entries inputs)) \<and> set (entries m) = set (in_tree_entries inputs) \<and>
       verify_binding_linkage d (binding_groups m) (in_bound_stamps inputs) = Ok ()) \<and>
    (\<exists>token \<in> set (in_tokens inputs). is_ok (verify_token p c (st_bytes token) (basis_of inputs)))"
proof -
  have parsed: "parse_manifest table t = Ok m \<longleftrightarrow> canonical_manifest table m \<and> serialize table m = Ok t" for t m
    using accepted_is_canonical[OF assms, of t m] accepts_canonical[OF assms, of m] by (auto simp: serialize_Ok)
  have "canonical_manifest table m \<Longrightarrow> distinct (map entry_path (entries m))" for m
    by (simp add: canonical_manifest_def covers_once_def)
  then show ?thesis
    by (auto simp: is_ok_iff verify_stamp_Ok parsed verify_tree_Ok accepted_of_empty)
qed

text \<open>C4: one token cannot vouch for two contents: when two stamps pass and one token is accepted in both,
  they list the same tree, or their manifests are a collision of the token's digest algorithm.\<close>

theorem one_token_one_tree:
  assumes "verify_stamp table d p c inputs = Ok summary" and "verify_stamp table d p c inputs' = Ok summary'"
    and "verify_token p c token_bytes (basis_of inputs) = Ok seen"
    and "verify_token p c token_bytes (basis_of inputs') = Ok seen'"
  shows "set (in_tree_entries inputs) = set (in_tree_entries inputs') \<or>
    (in_manifest_bytes inputs \<noteq> in_manifest_bytes inputs' \<and>
     digest_payload c (ts_imprint_algorithm seen) (in_manifest_bytes inputs) =
     digest_payload c (ts_imprint_algorithm seen) (in_manifest_bytes inputs'))"
proof (cases "in_manifest_bytes inputs = in_manifest_bytes inputs'")
  case True
  with assms(1,2) show ?thesis by (auto simp: verify_stamp_Ok verify_tree_Ok)
next
  case False
  with verified_tokens_agree[OF assms(3,4)] show ?thesis by (simp add: basis_of_def)
qed

text \<open>A stamp survives rejected tokens: whatever further tokens stand beside those of a passing stamp,
  it still passes.\<close>

theorem stamp_survives_more_tokens:
  assumes "verify_stamp table d p c inputs = Ok summary" and "set (in_tokens inputs) \<subseteq> set tokens"
  shows "is_ok (verify_stamp table d p c (inputs\<lparr>in_tokens := tokens\<rparr>))"
proof -
  have "basis_of (inputs\<lparr>in_tokens := tokens\<rparr>) = basis_of inputs" by (simp add: basis_of_def)
  with assms show ?thesis by (auto simp: is_ok_iff verify_stamp_Ok accepted_of_empty)
qed

text \<open>The failure reports are exact: no tokens is reported exactly when everything else holds and there
  is none; the rejections are reported exactly when every one of several tokens fails, one cause per token,
  in order.\<close>

theorem stamp_rejections_exact:
  assumes "verify_stamp table d p c inputs = Err (AllTokensRejected rejections)"
  shows "in_tokens inputs \<noteq> [] \<and> length rejections = length (in_tokens inputs) \<and>
    (\<forall>i < length rejections. rt_site (rejections ! i) = st_site (in_tokens inputs ! i) \<and>
       verify_token p c (st_bytes (in_tokens inputs ! i)) (basis_of inputs) = Err (rt_cause (rejections ! i)))"
proof -
  from assms have nonempty: "in_tokens inputs \<noteq> []"
    and none: "accepted_of p c (basis_of inputs) (in_tokens inputs) = []"
    and rejections: "rejections = rejected_of p c (basis_of inputs) (in_tokens inputs)"
    unfolding verify_stamp_def basis_of_def[symmetric]
    by (auto simp: and_then_eq_Inl map_err_eq_Inl judge_tokens Let_def split: if_splits)
  have "list_all2 (\<lambda>token r. rt_site r = st_site token \<and>
      verify_token p c (st_bytes token) basis = Err (rt_cause r)) tokens (rejected_of p c basis tokens)"
    if "accepted_of p c basis tokens = []" for tokens basis
    using that
  proof (induction tokens)
    case (Cons token tokens)
    then show ?case
      by (cases "verify_token p c (st_bytes token) basis")
        (simp_all add: accepted_of_def rejected_of_def map_filter_simps)
  qed (simp add: rejected_of_def map_filter_simps)
  from this[OF none] nonempty show ?thesis
    unfolding rejections by (simp add: list_all2_conv_all_nth)
qed

section \<open>A concrete stamp\<close>

definition toy_manifest_bytes :: bytes where
  "toy_manifest_bytes = ''tydence-manifest/v1'' @ [CHR 0x0A]"

lemma toy_manifest:
  "is_utf8 toy_manifest_bytes" "from_utf8 toy_manifest_bytes = Ok toy_manifest_bytes"
  "parse_manifest [(0, 32)] toy_manifest_bytes = Ok empty_manifest"
proof -
  show "is_utf8 toy_manifest_bytes" unfolding toy_manifest_bytes_def by (rule is_utf8_ascii) simp
  then show "from_utf8 toy_manifest_bytes = Ok toy_manifest_bytes" by (rule from_utf8_valid)
  show "parse_manifest [(0, 32)] toy_manifest_bytes = Ok empty_manifest"
    unfolding toy_manifest_bytes_def by (rule empty_manifest_text)
qed

definition toy_stamp :: "site_token list \<Rightarrow> stamp_inputs" where
  "toy_stamp tokens =
     \<lparr>in_manifest_bytes = toy_manifest_bytes, in_tree_entries = [], in_tokens = tokens,
      in_bound_stamps = [], in_trust = toy_trust\<rparr>"

definition toy_site_token :: site_token where
  "toy_site_token = \<lparr>st_site = ''site'', st_bytes = toy_token\<rparr>"

lemma toy_stamp_basis: "basis_of (toy_stamp tokens) = toy_basis toy_manifest_bytes"
  by (simp add: basis_of_def toy_stamp_def toy_basis_def)

lemma toy_stamp_passes:
  "\<exists>summary. verify_stamp [(0, 32)] toy_digests toy_pki toy_cms (toy_stamp [toy_site_token]) = Ok summary"
proof -
  have "verify_tree [] [] = Ok ()" by (simp add: verify_tree_Ok)
  moreover have "verify_binding_linkage toy_digests [] [] = Ok ()" by (simp add: verify_binding_linkage_Ok)
  moreover have "accepted_of toy_pki toy_cms (basis_of (toy_stamp [toy_site_token])) [toy_site_token] \<noteq> []"
    unfolding toy_stamp_basis by (simp add: accepted_of_empty toy_site_token_def toy_token_verified)
  ultimately show ?thesis
    by (auto simp: verify_stamp_Ok toy_stamp_def toy_manifest empty_manifest_def)
qed

lemma stamp_passes_iff_witness:
  "is_ok (verify_stamp [(0, 32)] toy_digests toy_pki toy_cms (toy_stamp [toy_site_token])) \<and>
     is_utf8 (in_manifest_bytes (toy_stamp [toy_site_token]))"
  using stamp_passes_iff[OF ascii_table_example, of toy_digests toy_pki toy_cms "toy_stamp [toy_site_token]"]
    toy_stamp_passes by (auto simp: is_ok_iff)

lemma stamp_survives_more_tokens_witness:
  "is_ok (verify_stamp [(0, 32)] toy_digests toy_pki toy_cms
     (toy_stamp [\<lparr>st_site = ''forged'', st_bytes = ''no token''\<rparr>, toy_site_token]))"
proof -
  obtain summary where
    "verify_stamp [(0, 32)] toy_digests toy_pki toy_cms (toy_stamp [toy_site_token]) = Ok summary"
    using toy_stamp_passes by blast
  from stamp_survives_more_tokens[OF this, of "[\<lparr>st_site = ''forged'', st_bytes = ''no token''\<rparr>, toy_site_token]"]
  show ?thesis by (simp add: toy_stamp_def)
qed

lemma one_token_one_tree_witness:
  "set (in_tree_entries (toy_stamp [toy_site_token])) = set (in_tree_entries (toy_stamp [toy_site_token, toy_site_token]))"
proof -
  obtain summary where one:
    "verify_stamp [(0, 32)] toy_digests toy_pki toy_cms (toy_stamp [toy_site_token]) = Ok summary"
    using toy_stamp_passes by blast
  then obtain summary' where two:
    "verify_stamp [(0, 32)] toy_digests toy_pki toy_cms (toy_stamp [toy_site_token, toy_site_token]) = Ok summary'"
    by (auto simp: verify_stamp_Ok toy_stamp_basis accepted_of_empty) (auto simp: toy_stamp_def)
  have verified: "verify_token toy_pki toy_cms toy_token (basis_of (toy_stamp tokens)) =
      Ok \<lparr>ts_gen_time = 50, ts_imprint_algorithm = Sha256\<rparr>" for tokens
    unfolding toy_stamp_basis by (rule toy_token_verified)
  show ?thesis
    using one_token_one_tree[OF one two verified verified] by (simp add: toy_stamp_def)
qed

lemma toy_rejection:
  "verify_token toy_pki toy_cms ''no token'' (toy_basis m) = Err ImprintMismatch"
  by (simp add: verify_token_def decode_signed_data_def decode_tst_info_def toy_cms_def toy_content_info_def
      toy_any_def toy_signed_data_def ensure_imprint_matches_def toy_tst_info_def digest_family_of_def
      is_absent_or_null_parameter_def from_digest_oid_def toy_basis_def)

lemma toy_stamp_fails:
  "verify_stamp [(0, 32)] toy_digests toy_pki toy_cms (toy_stamp [\<lparr>st_site = ''s'', st_bytes = ''no token''\<rparr>]) =
     Err (AllTokensRejected [\<lparr>rt_site = ''s'', rt_cause = ImprintMismatch\<rparr>])"
proof -
  have "verify_tree [] [] = Ok ()" by (simp add: verify_tree_Ok)
  moreover have "verify_binding_linkage toy_digests [] [] = Ok ()" by (simp add: verify_binding_linkage_Ok)
  ultimately show ?thesis
    unfolding verify_stamp_def basis_of_def[symmetric] toy_stamp_basis
    by (simp add: toy_stamp_def toy_manifest empty_manifest_def judge_token_def toy_rejection)
qed

lemma stamp_rejections_exact_witness:
  "verify_token toy_pki toy_cms ''no token'' (toy_basis toy_manifest_bytes) = Err ImprintMismatch"
  using stamp_rejections_exact[OF toy_stamp_fails]
  by (simp add: toy_stamp_basis) (simp add: toy_stamp_def)

end
