(* ===== verification/Claims.thy ===== *)
theory Claims
  imports Utf8
begin

text \<open>
  \<open>layout.rs\<close> and \<open>claims.rs\<close>: where stamp artifacts live in a tree, reading one claim's artifacts, and
  the walk to the nearest claiming commits. The gix object database is the record \<open>git_repository\<close>. The
  walk is a \<open>while let\<close> loop over a stack: it is \<open>search\<close>, which returns \<open>None\<close> only if it never ends, and
  it is proved to end on every finite history and to find exactly the nearest claims.
\<close>

section \<open>Layout (\<open>layout.rs\<close>)\<close>

definition CONFIG_PATH :: string where "CONFIG_PATH = ''.tydence/config''"
definition MANIFEST_PATH :: string where "MANIFEST_PATH = ''.tydence/manifest''"
definition TOKENS_PATH :: string where "TOKENS_PATH = ''.tydence/tokens''"
definition TOKEN_FILE_SUFFIX :: string where "TOKEN_FILE_SUFFIX = ''.tsr''"
definition LTV_CERTS_PATH :: string where "LTV_CERTS_PATH = ''.tydence/ltv/certs''"
definition LTV_CRLS_PATH :: string where "LTV_CRLS_PATH = ''.tydence/ltv/crls''"
definition CHAIN_FILE_SUFFIX :: string where "CHAIN_FILE_SUFFIX = ''.cer''"
definition CRL_FILE_SUFFIX :: string where "CRL_FILE_SUFFIX = ''.crl''"

text \<open>\<open>0o100644\<close>.\<close>

definition REGULAR_FILE_MODE :: nat where "REGULAR_FILE_MODE = 33188"

lemmas layout_defs = CONFIG_PATH_def MANIFEST_PATH_def TOKENS_PATH_def TOKEN_FILE_SUFFIX_def LTV_CERTS_PATH_def
  LTV_CRLS_PATH_def CHAIN_FILE_SUFFIX_def CRL_FILE_SUFFIX_def

section \<open>Git objects\<close>

text \<open>An object id is its hexadecimal text. Every access may fail, with a display text as its cause;
  \<open>gr_display\<close> is the lossy \<open>Display\<close> of a byte string.\<close>

type_synonym object_id = string

record tree_entry =
  te_mode :: nat
  te_object_id :: object_id
  te_filename :: bytes

record file_record =
  fr_mode :: nat
  fr_filepath :: bytes
  fr_oid :: object_id

record git_tree =
  gt_lookup :: "string \<Rightarrow> (string, tree_entry option) result"
  gt_iter :: "(string, tree_entry) result list"
  gt_files :: "(string, file_record list) result"

record git_commit =
  gc_tree :: "(string, git_tree) result"
  gc_tree_id :: "(string, object_id) result"
  gc_parents :: "object_id list"

record git_repository =
  gr_find_commit :: "object_id \<Rightarrow> (string, git_commit) result"
  gr_find_tree :: "object_id \<Rightarrow> (string, git_tree) result"
  gr_find_blob :: "object_id \<Rightarrow> (string, bytes) result"
  gr_is_tree :: "nat \<Rightarrow> bool"
  gr_is_blob :: "nat \<Rightarrow> bool"
  gr_display :: "bytes \<Rightarrow> string"

section \<open>Reading one claim\<close>

datatype claims_error =
  ClaimObjectAccess object_id string
  | ForeignStampArtifact object_id string

fun claims_error_display :: "(string \<Rightarrow> string) \<Rightarrow> claims_error \<Rightarrow> string" where
  "claims_error_display debug_str (ClaimObjectAccess commit _) = ''cannot read git objects of '' @ commit"
| "claims_error_display debug_str (ForeignStampArtifact commit path) =
     debug_str path @ '' in stamp commit '' @ commit @ '' is not laid out as a stamp artifact''"

record token_file =
  tf_site :: string
  tf_bytes :: bytes

record claim_artifacts =
  ca_manifest_bytes :: bytes
  ca_tokens :: "token_file list"

definition tree_of :: "git_repository \<Rightarrow> object_id \<Rightarrow> (claims_error, git_tree) result" where
  "tree_of r commit_id =
     and_then (map_err (ClaimObjectAccess commit_id) (gr_find_commit r commit_id)) (\<lambda>commit.
     map_err (ClaimObjectAccess commit_id) (gc_tree commit))"

definition find_manifest_entry :: "git_tree \<Rightarrow> object_id \<Rightarrow> (claims_error, tree_entry option) result" where
  "find_manifest_entry tree commit_id = map_err (ClaimObjectAccess commit_id) (gt_lookup tree MANIFEST_PATH)"

definition site_of_file_name :: "bytes \<Rightarrow> string option" where
  "site_of_file_name file_name =
     (case ok (from_utf8 file_name) of None \<Rightarrow> None
      | Some t \<Rightarrow> (case strip_suffix TOKEN_FILE_SUFFIX t of None \<Rightarrow> None
          | Some site_name \<Rightarrow> if site_name = [] then None else Some site_name))"

definition read_token_file ::
  "git_repository \<Rightarrow> object_id \<Rightarrow> token_file list \<Rightarrow> (string, tree_entry) result
    \<Rightarrow> (claims_error, token_file list) result" where
  "read_token_file r commit_id token_files maybe_entry =
     and_then (map_err (ClaimObjectAccess commit_id) maybe_entry) (\<lambda>e.
       let foreign_entry = ForeignStampArtifact commit_id (TOKENS_PATH @ ''/'' @ gr_display r (te_filename e))
       in if te_mode e \<noteq> REGULAR_FILE_MODE then Err foreign_entry
          else and_then (ok_or foreign_entry (site_of_file_name (te_filename e))) (\<lambda>site_name.
            and_then (map_err (ClaimObjectAccess commit_id) (gr_find_blob r (te_object_id e))) (\<lambda>token_bytes.
            Ok (token_files @ [\<lparr>tf_site = site_name, tf_bytes = token_bytes\<rparr>]))))"

definition read_token_files ::
  "git_repository \<Rightarrow> git_tree \<Rightarrow> object_id \<Rightarrow> (claims_error, token_file list) result" where
  "read_token_files r tree commit_id =
     and_then (map_err (ClaimObjectAccess commit_id) (gt_lookup tree TOKENS_PATH)) (\<lambda>maybe_entry.
     case maybe_entry of None \<Rightarrow> Ok []
     | Some tokens_entry \<Rightarrow>
         if \<not> gr_is_tree r (te_mode tokens_entry) then Err (ForeignStampArtifact commit_id TOKENS_PATH)
         else and_then (map_err (ClaimObjectAccess commit_id) (gr_find_tree r (te_object_id tokens_entry)))
           (\<lambda>tokens_tree. try_fold (read_token_file r commit_id) [] (gt_iter tokens_tree)))"

definition read_claim_artifacts :: "git_repository \<Rightarrow> object_id \<Rightarrow> (claims_error, claim_artifacts) result" where
  "read_claim_artifacts r commit_id =
     and_then (tree_of r commit_id) (\<lambda>tree.
     and_then (find_manifest_entry tree commit_id) (\<lambda>maybe_entry.
     and_then (ok_or (ForeignStampArtifact commit_id MANIFEST_PATH) maybe_entry) (\<lambda>e.
     if te_mode e \<noteq> REGULAR_FILE_MODE then Err (ForeignStampArtifact commit_id MANIFEST_PATH)
     else
       and_then (map_err (ClaimObjectAccess commit_id) (gr_find_blob r (te_object_id e))) (\<lambda>manifest_bytes.
       and_then (read_token_files r tree commit_id) (\<lambda>tokens.
       Ok \<lparr>ca_manifest_bytes = manifest_bytes, ca_tokens = tokens\<rparr>)))))"

section \<open>The walk to the nearest claims\<close>

text \<open>What the loop does with a fresh commit: \<open>None\<close> where it claims, its parents otherwise.\<close>

definition visit_commit :: "git_repository \<Rightarrow> object_id \<Rightarrow> (claims_error, object_id list option) result" where
  "visit_commit r commit_id =
     and_then (tree_of r commit_id) (\<lambda>tree.
     and_then (find_manifest_entry tree commit_id) (\<lambda>maybe_entry.
     if maybe_entry \<noteq> None then Ok None
     else and_then (map_err (ClaimObjectAccess commit_id) (gr_find_commit r commit_id)) (\<lambda>commit.
       Ok (Some (gc_parents commit)))))"

partial_function (option) search ::
  "('v \<Rightarrow> ('e, 'v list option) result) \<Rightarrow> 'v set \<Rightarrow> 'v list \<Rightarrow> 'v list \<Rightarrow> ('e, 'v list) result option" where
  "search visit visited frontier found =
     (if frontier = [] then Some (Ok found)
      else if last frontier \<in> visited then search visit visited (butlast frontier) found
      else (case visit (last frontier) of
              Err e \<Rightarrow> Some (Err e)
            | Ok None \<Rightarrow> search visit (insert (last frontier) visited) (butlast frontier) (found @ [last frontier])
            | Ok (Some parents) \<Rightarrow>
                search visit (insert (last frontier) visited) (butlast frontier @ parents) found))"

definition nearest_claiming_commits ::
  "git_repository \<Rightarrow> object_id list \<Rightarrow> (claims_error, object_id list) result option" where
  "nearest_claiming_commits r start_ids = search (visit_commit r) {} start_ids []"

section \<open>What the walk finds\<close>

text \<open>The commits on the lines of history behind the starts, up to and including the nearest claims.\<close>

inductive behind :: "('v \<Rightarrow> ('e, 'v list option) result) \<Rightarrow> 'v set \<Rightarrow> 'v \<Rightarrow> bool"
  for visit :: "'v \<Rightarrow> ('e, 'v list option) result" and starts :: "'v set" where
  start: "v \<in> starts \<Longrightarrow> behind visit starts v"
| parent: "behind visit starts v \<Longrightarrow> visit v = Ok (Some parents) \<Longrightarrow> w \<in> set parents \<Longrightarrow> behind visit starts w"

definition search_inv ::
  "('v \<Rightarrow> ('e, 'v list option) result) \<Rightarrow> 'v set \<Rightarrow> 'v set \<Rightarrow> 'v list \<Rightarrow> 'v list \<Rightarrow> bool" where
  "search_inv visit starts visited frontier found \<longleftrightarrow>
     (\<forall>v \<in> visited \<union> set frontier. behind visit starts v) \<and> starts \<subseteq> visited \<union> set frontier \<and>
     set found = {v \<in> visited. visit v = Ok None} \<and> distinct found \<and>
     (\<forall>v \<in> visited. \<forall>parents. \<forall>w \<in> set parents. visit v = Ok (Some parents) \<longrightarrow> w \<in> visited \<union> set frontier) \<and>
     (\<forall>v \<in> visited. \<exists>seen. visit v = Ok seen)"

lemma frontier_split: "frontier \<noteq> [] \<Longrightarrow> set frontier = insert (last frontier) (set (butlast frontier))"
  by (metis append_butlast_last_id list.simps(15) rotate1.simps(2) set_rotate1)

lemma search_invD:
  assumes "search_inv visit starts visited frontier found"
  shows "\<forall>v \<in> visited \<union> set frontier. behind visit starts v" "starts \<subseteq> visited \<union> set frontier"
    "set found = {v \<in> visited. visit v = Ok None}" "distinct found"
    "v \<in> visited \<Longrightarrow> visit v = Ok (Some parents) \<Longrightarrow> w \<in> set parents \<Longrightarrow> w \<in> visited \<union> set frontier"
    "\<forall>v \<in> visited. \<exists>seen. visit v = Ok seen"
  using assms unfolding search_inv_def by simp_all

lemma search_inv_skip:
  assumes "search_inv visit starts visited frontier found" "frontier \<noteq> []" "last frontier \<in> visited"
  shows "search_inv visit starts visited (butlast frontier) found"
proof -
  have "visited \<union> set (butlast frontier) = visited \<union> set frontier"
    using frontier_split[OF assms(2)] assms(3) by auto
  with assms(1) show ?thesis unfolding search_inv_def by simp
qed

lemma search_inv_found:
  assumes "search_inv visit starts visited frontier found" "frontier \<noteq> []" "last frontier \<notin> visited"
    and "visit (last frontier) = Ok None"
  shows "search_inv visit starts (insert (last frontier) visited) (butlast frontier) (found @ [last frontier])"
proof -
  have same: "insert (last frontier) visited \<union> set (butlast frontier) = visited \<union> set frontier"
    using frontier_split[OF assms(2)] by auto
  show ?thesis
    unfolding search_inv_def same using search_invD[OF assms(1)] assms(3,4) by auto
qed

lemma search_inv_parents:
  assumes "search_inv visit starts visited frontier found" "frontier \<noteq> []" "last frontier \<notin> visited"
    and "visit (last frontier) = Ok (Some parents)"
  shows "search_inv visit starts (insert (last frontier) visited) (butlast frontier @ parents) found"
proof -
  have same: "insert (last frontier) visited \<union> set (butlast frontier @ parents) = visited \<union> set frontier \<union> set parents"
    using frontier_split[OF assms(2)] by auto
  have "behind visit starts (last frontier)" using search_invD(1)[OF assms(1)] assms(2) by simp
  then have parents: "\<forall>v \<in> set parents. behind visit starts v" using assms(4) by (auto intro: behind.parent)
  have closed: "w \<in> visited \<union> set frontier \<union> set parents"
    if "v \<in> insert (last frontier) visited" "visit v = Ok (Some ps)" "w \<in> set ps" for v ps w
    using that search_invD(5)[OF assms(1), of v ps w] assms(4) by auto
  show ?thesis
    unfolding search_inv_def same
  proof (intro conjI)
    show "\<forall>v \<in> visited \<union> set frontier \<union> set parents. behind visit starts v"
      using search_invD(1)[OF assms(1)] parents by blast
    show "starts \<subseteq> visited \<union> set frontier \<union> set parents" using search_invD(2)[OF assms(1)] by blast
    show "set found = {v \<in> insert (last frontier) visited. visit v = Ok None}"
      using search_invD(3)[OF assms(1)] assms(4) by auto
    show "distinct found" by (rule search_invD(4)[OF assms(1)])
    show "\<forall>v \<in> insert (last frontier) visited. \<forall>ps. \<forall>w \<in> set ps. visit v = Ok (Some ps) \<longrightarrow>
        w \<in> visited \<union> set frontier \<union> set parents" using closed by blast
    show "\<forall>v \<in> insert (last frontier) visited. \<exists>seen. visit v = Ok seen"
      using search_invD(6)[OF assms(1)] assms(4) by auto
  qed
qed

lemma search_inv_done:
  assumes "search_inv visit starts visited [] found"
  shows "distinct found \<and> set found = {v. behind visit starts v \<and> visit v = Ok None} \<and>
    (\<forall>v. behind visit starts v \<longrightarrow> (\<exists>seen. visit v = Ok seen))"
proof -
  have "v \<in> visited" if "behind visit starts v" for v
    using that
  proof induction
    case (start v)
    then show ?case using search_invD(2)[OF assms] by auto
  next
    case (parent v parents w)
    then show ?case using search_invD(5)[OF assms, of v parents w] by simp
  qed
  with search_invD(1,3,4,6)[OF assms] show ?thesis by auto
qed

lemma search_result:
  assumes "search visit visited frontier found = Some result" and "search_inv visit starts visited frontier found"
  shows "case result of
      Ok final \<Rightarrow> distinct final \<and> set final = {v. behind visit starts v \<and> visit v = Ok None} \<and>
        (\<forall>v. behind visit starts v \<longrightarrow> (\<exists>seen. visit v = Ok seen))
    | Err e \<Rightarrow> \<exists>v. behind visit starts v \<and> visit v = Err e"
  using assms
proof (induction rule: search.raw_induct[rotated, consumes 1, case_names body])
  case (body search' visit visited frontier found result)
  show ?case
  proof (cases "frontier = []")
    case True
    with body(2,3) search_inv_done[of visit starts visited found] show ?thesis by auto
  next
    case nonempty: False
    show ?thesis
    proof (cases "last frontier \<in> visited")
      case True
      with body nonempty search_inv_skip[OF body(3)] show ?thesis by simp
    next
      case fresh: False
      show ?thesis
      proof (cases "visit (last frontier)")
        case (Inl e)
        have "behind visit starts (last frontier)" using search_invD(1)[OF body(3)] nonempty by simp
        with body(2) nonempty fresh Inl show ?thesis by auto
      next
        case (Inr r)
        then show ?thesis
          using body(1) body(2) nonempty fresh search_inv_found[OF body(3)] search_inv_parents[OF body(3)]
          by (cases r) simp_all
      qed
    qed
  qed
qed

lemma search_ends:
  assumes "finite universe" and "\<And>v parents. v \<in> universe \<Longrightarrow> visit v = Ok (Some parents) \<Longrightarrow> set parents \<subseteq> universe"
  shows "set frontier \<subseteq> universe \<Longrightarrow> \<exists>result. search visit visited frontier found = Some result"
proof (induction "(visited, frontier, found)" arbitrary: visited frontier found
    rule: wf_induct_rule[OF wf_inv_image[OF wf_lex_prod[OF wf_less_than wf_less_than],
      of "\<lambda>(visited, frontier, found). (card (universe - visited), length frontier)"]])
  case 1
  show ?case
  proof (cases "frontier = []")
    case True
    then show ?thesis by (subst search.simps) simp
  next
    case nonempty: False
    with 1(2) have inside: "last frontier \<in> universe" "set (butlast frontier) \<subseteq> universe"
      by (auto dest: in_set_butlastD)
    have smaller: "last frontier \<notin> visited \<Longrightarrow> card (universe - insert (last frontier) visited) < card (universe - visited)"
      using assms(1) inside(1) by (intro psubset_card_mono) auto
    have shorter: "length (butlast frontier) < length frontier" using nonempty by simp
    show ?thesis
    proof (cases "last frontier \<in> visited")
      case True
      with 1(1)[OF _ inside(2)] nonempty shorter show ?thesis by (subst search.simps) simp
    next
      case fresh: False
      note IH = 1(1)[of "insert (last frontier) visited"]
      show ?thesis
      proof (cases "visit (last frontier)")
        case (Inl e)
        with nonempty fresh show ?thesis by (subst search.simps) simp
      next
        case (Inr r)
        then show ?thesis
          using nonempty fresh smaller IH[OF _ inside(2)] IH[of "butlast frontier @ the r"] inside
            assms(2)[of "last frontier"]
          by (subst search.simps) (cases r; simp)
      qed
    qed
  qed
qed

section \<open>The nearest claims\<close>

definition carries_manifest :: "git_repository \<Rightarrow> object_id \<Rightarrow> bool" where
  "carries_manifest r c \<longleftrightarrow> (\<exists>tree e. tree_of r c = Ok tree \<and> gt_lookup tree MANIFEST_PATH = Ok (Some e))"

lemma visit_commit_claims: "visit_commit r c = Ok None \<longleftrightarrow> carries_manifest r c"
  by (auto simp: visit_commit_def find_manifest_entry_def carries_manifest_def result_simps split: if_splits)

text \<open>The commits on an open line of history: a start, or a parent of a commit on such a line that does not itself
  claim.\<close>

inductive open_line :: "git_repository \<Rightarrow> object_id set \<Rightarrow> object_id \<Rightarrow> bool"
  for r :: git_repository and starts :: "object_id set" where
  at_start: "c \<in> starts \<Longrightarrow> open_line r starts c"
| to_parent: "open_line r starts c \<Longrightarrow> \<not> carries_manifest r c \<Longrightarrow> gr_find_commit r c = Ok commit \<Longrightarrow>
    w \<in> set (gc_parents commit) \<Longrightarrow> open_line r starts w"

inductive_simps open_line_iff: "open_line r starts c"

lemma visit_commit_parents:
  "visit_commit r c = Ok (Some parents) \<Longrightarrow>
     \<not> carries_manifest r c \<and> (\<exists>commit. gr_find_commit r c = Ok commit \<and> gc_parents commit = parents)"
  by (auto simp: visit_commit_def find_manifest_entry_def carries_manifest_def result_simps split: if_splits)

lemma visit_commit_Err: "visit_commit r c = Err e \<Longrightarrow> \<exists>cause. e = ClaimObjectAccess c cause"
  by (auto simp: visit_commit_def find_manifest_entry_def tree_of_def result_simps split: if_splits)

lemma behind_open_line: "behind (visit_commit r) starts c \<Longrightarrow> open_line r starts c"
proof (induction rule: behind.induct)
  case (parent v parents w)
  with visit_commit_parents[OF parent(2)] show ?case by (auto intro: to_parent)
qed (rule at_start)

lemma open_line_behind:
  assumes "open_line r starts c"
    and readable: "\<And>v. behind (visit_commit r) starts v \<Longrightarrow> \<exists>seen. visit_commit r v = Ok seen"
  shows "behind (visit_commit r) starts c"
  using assms(1)
proof induction
  case (at_start c)
  then show ?case by (rule behind.start)
next
  case (to_parent c commit w)
  from readable[OF to_parent.IH] to_parent(2) obtain parents where seen: "visit_commit r c = Ok (Some parents)"
    using visit_commit_claims by (metis option.exhaust)
  with visit_commit_parents[OF this] to_parent(3,4) to_parent.IH show ?case by (auto intro: behind.parent)
qed

lemma search_inv_initial: "search_inv visit (set starts) {} starts []"
  by (auto simp: search_inv_def intro: behind.start)

lemma nearest_claiming_Ok:
  assumes "nearest_claiming_commits r start_ids = Some (Ok commits)"
  shows "distinct commits"
    and "c \<in> set commits \<longleftrightarrow> open_line r (set start_ids) c \<and> carries_manifest r c"
proof -
  note S = search_result[OF assms[unfolded nearest_claiming_commits_def] search_inv_initial]
  from S show "distinct commits" by simp
  have readable: "\<exists>seen. visit_commit r v = Ok seen" if "behind (visit_commit r) (set start_ids) v" for v
    using S that by simp
  have "open_line r (set start_ids) c \<longleftrightarrow> behind (visit_commit r) (set start_ids) c"
    using behind_open_line open_line_behind[OF _ readable] by blast
  with S show "c \<in> set commits \<longleftrightarrow> open_line r (set start_ids) c \<and> carries_manifest r c"
    by (auto simp: visit_commit_claims)
qed

text \<open>C18: the walk finds every nearest claim once: the commits it returns are exactly the claiming commits on the
  open lines of history behind the starts, a starting commit that claims being its own nearest claim; and it fails
  only with a failure to read some commit on such a line.\<close>

theorem nearest_claims_exact:
  "case nearest_claiming_commits r start_ids of
     None \<Rightarrow> True
   | Some (Ok commits) \<Rightarrow> distinct commits \<and>
       set commits = {c. open_line r (set start_ids) c \<and> carries_manifest r c}
   | Some (Err e) \<Rightarrow> \<exists>c cause. open_line r (set start_ids) c \<and> e = ClaimObjectAccess c cause"
proof (cases "nearest_claiming_commits r start_ids")
  case (Some result)
  show ?thesis
  proof (cases result)
    case (Inl e)
    with search_result[OF Some[unfolded nearest_claiming_commits_def] search_inv_initial] Some show ?thesis
      using behind_open_line visit_commit_Err by (simp, blast)
  next
    case (Inr commits)
    with Some nearest_claiming_Ok[of r start_ids commits] show ?thesis by auto
  qed
qed simp

text \<open>C38: the walk ends on every repository in which finitely many commits lie on the open lines of history
  behind the starts, whatever the shape of the history.\<close>

theorem nearest_claims_walk_ends:
  assumes "finite {c. open_line r (set start_ids) c}"
  shows "\<exists>result. nearest_claiming_commits r start_ids = Some result"
proof -
  have "finite {c. behind (visit_commit r) (set start_ids) c}"
    using assms by (rule rev_finite_subset) (auto intro: behind_open_line)
  then show ?thesis
    unfolding nearest_claiming_commits_def by (rule search_ends) (auto intro: behind.intros)
qed

section \<open>Artifacts\<close>

lemma try_fold_collect:
  assumes "\<And>acc x. step acc x = and_then (f x) (\<lambda>y. Ok (acc @ [y]))"
  shows "try_fold step acc xs = Ok ys \<longleftrightarrow> (\<exists>zs. traverse f xs = Ok zs \<and> ys = acc @ zs)"
  by (induction xs arbitrary: acc) (auto simp: result_simps assms)

definition token_file_of ::
  "git_repository \<Rightarrow> object_id \<Rightarrow> (string, tree_entry) result \<Rightarrow> (claims_error, token_file) result" where
  "token_file_of r commit_id maybe_entry =
     and_then (map_err (ClaimObjectAccess commit_id) maybe_entry) (\<lambda>e.
       let foreign_entry = ForeignStampArtifact commit_id (TOKENS_PATH @ ''/'' @ gr_display r (te_filename e))
       in if te_mode e \<noteq> REGULAR_FILE_MODE then Err foreign_entry
          else and_then (ok_or foreign_entry (site_of_file_name (te_filename e))) (\<lambda>site_name.
            and_then (map_err (ClaimObjectAccess commit_id) (gr_find_blob r (te_object_id e))) (\<lambda>token_bytes.
            Ok \<lparr>tf_site = site_name, tf_bytes = token_bytes\<rparr>)))"

lemma read_token_file_step:
  "read_token_file r commit_id acc x = and_then (token_file_of r commit_id x) (\<lambda>y. Ok (acc @ [y]))"
  by (simp add: read_token_file_def token_file_of_def and_then_def Let_def ok_or_def map_err_def
      split: sum.splits option.splits)

lemma site_of_file_name_Some:
  "site_of_file_name file_name = Some site_name \<longleftrightarrow>
     is_utf8 file_name \<and> file_name = site_name @ TOKEN_FILE_SUFFIX \<and> site_name \<noteq> []"
proof -
  have "ok (from_utf8 file_name) = (if is_utf8 file_name then Some file_name else None)"
    by (cases "from_utf8 file_name") (auto simp: from_utf8_Ok from_utf8_valid is_utf8_def)
  then show ?thesis
    by (auto simp: site_of_file_name_def strip_suffix_iff split: option.splits)
qed

text \<open>The token files of a claim carry the names of the entries of its token tree.\<close>

definition token_entries :: "git_repository \<Rightarrow> object_id \<Rightarrow> tree_entry list" where
  "token_entries r commit_id =
     (case tree_of r commit_id of Err _ \<Rightarrow> [] | Ok tree \<Rightarrow>
       (case gt_lookup tree TOKENS_PATH of
          Ok (Some e) \<Rightarrow> (case gr_find_tree r (te_object_id e) of
              Ok t \<Rightarrow> List.map_filter ok (gt_iter t) | Err _ \<Rightarrow> [])
        | _ \<Rightarrow> []))"

lemma token_file_of_Ok:
  "token_file_of r commit_id x = Ok f \<longleftrightarrow>
     (\<exists>e. x = Ok e \<and> te_mode e = REGULAR_FILE_MODE \<and> site_of_file_name (te_filename e) = Some (tf_site f) \<and>
        gr_find_blob r (te_object_id e) = Ok (tf_bytes f))"
proof -
  have "\<lparr>tf_site = s, tf_bytes = b\<rparr> = f \<longleftrightarrow> tf_site f = s \<and> tf_bytes f = b" for s b
    by (cases f) auto
  then show ?thesis by (auto simp: token_file_of_def result_simps Let_def split: if_splits)
qed

lemma read_claim_artifacts_Ok:
  assumes "read_claim_artifacts r commit_id = Ok artifacts"
  shows "list_all2 (\<lambda>e f. te_mode e = REGULAR_FILE_MODE \<and>
      te_filename e = tf_site f @ TOKEN_FILE_SUFFIX \<and> tf_site f \<noteq> [] \<and>
      gr_find_blob r (te_object_id e) = Ok (tf_bytes f)) (token_entries r commit_id) (ca_tokens artifacts)"
    and "\<exists>tree e. tree_of r commit_id = Ok tree \<and> gt_lookup tree MANIFEST_PATH = Ok (Some e) \<and>
      te_mode e = REGULAR_FILE_MODE \<and> gr_find_blob r (te_object_id e) = Ok (ca_manifest_bytes artifacts)"
proof -
  from assms obtain tree e where tree: "tree_of r commit_id = Ok tree"
    and e: "gt_lookup tree MANIFEST_PATH = Ok (Some e)" "te_mode e = REGULAR_FILE_MODE"
      "gr_find_blob r (te_object_id e) = Ok (ca_manifest_bytes artifacts)"
    and tokens: "read_token_files r tree commit_id = Ok (ca_tokens artifacts)"
    by (auto simp: read_claim_artifacts_def find_manifest_entry_def result_simps split: if_splits)
  from tree e show "\<exists>tree e. tree_of r commit_id = Ok tree \<and> gt_lookup tree MANIFEST_PATH = Ok (Some e) \<and>
      te_mode e = REGULAR_FILE_MODE \<and> gr_find_blob r (te_object_id e) = Ok (ca_manifest_bytes artifacts)" by blast
  have "list_all2 (\<lambda>x f. token_file_of r commit_id x = Ok f) xs fs \<Longrightarrow>
      list_all2 (\<lambda>e f. te_mode e = REGULAR_FILE_MODE \<and>
        te_filename e = tf_site f @ TOKEN_FILE_SUFFIX \<and> tf_site f \<noteq> [] \<and>
        gr_find_blob r (te_object_id e) = Ok (tf_bytes f)) (List.map_filter ok xs) fs" for xs fs
    by (induction xs fs rule: list_all2_induct)
      (auto simp: token_file_of_Ok site_of_file_name_Some map_filter_simps)
  note named = this
  obtain maybe where maybe: "gt_lookup tree TOKENS_PATH = Ok maybe"
    using tokens by (auto simp: read_token_files_def result_simps)
  show "list_all2 (\<lambda>e f. te_mode e = REGULAR_FILE_MODE \<and>
      te_filename e = tf_site f @ TOKEN_FILE_SUFFIX \<and> tf_site f \<noteq> [] \<and>
      gr_find_blob r (te_object_id e) = Ok (tf_bytes f)) (token_entries r commit_id) (ca_tokens artifacts)"
  proof (cases maybe)
    case None
    with tokens maybe show ?thesis by (simp add: read_token_files_def token_entries_def tree)
  next
    case (Some e)
    with tokens maybe show ?thesis
      by (auto simp: read_token_files_def token_entries_def tree result_simps traverse_eq_Inr
        try_fold_collect[OF read_token_file_step] intro: named split: if_splits)
  qed
qed

lemma artifact_sites_distinct:
  assumes "read_claim_artifacts r commit_id = Ok artifacts"
    and "distinct (map te_filename (token_entries r commit_id))"
  shows "distinct (map tf_site (ca_tokens artifacts))"
proof -
  have "list_all2 (\<lambda>e f. te_filename e = tf_site f @ TOKEN_FILE_SUFFIX) (token_entries r commit_id) (ca_tokens artifacts)"
    using read_claim_artifacts_Ok(1)[OF assms(1)] by (rule list_all2_mono) simp
  then have "map te_filename (token_entries r commit_id) = map (\<lambda>s. s @ TOKEN_FILE_SUFFIX) (map tf_site (ca_tokens artifacts))"
    by (induction rule: list_all2_induct) simp_all
  with assms(2) show ?thesis by (metis distinct_map)
qed

section \<open>A concrete repository\<close>

text \<open>Commit c1 claims, with one token; c2 above it does not.\<close>

definition toy_tree :: "bool \<Rightarrow> git_tree" where
  "toy_tree claiming =
     \<lparr>gt_lookup = \<lambda>path. Ok (if \<not> claiming then None
        else if path = MANIFEST_PATH then Some \<lparr>te_mode = 33188, te_object_id = ''m'', te_filename = ''manifest''\<rparr>
        else if path = TOKENS_PATH then Some \<lparr>te_mode = 16384, te_object_id = ''t'', te_filename = ''tokens''\<rparr>
        else None),
      gt_iter = [Ok \<lparr>te_mode = 33188, te_object_id = ''k'', te_filename = ''site.tsr''\<rparr>],
      gt_files = Ok []\<rparr>"

definition toy_repository :: git_repository where
  "toy_repository =
     \<lparr>gr_find_commit = \<lambda>c. if c = ''c1'' then Ok \<lparr>gc_tree = Ok (toy_tree True), gc_tree_id = Ok ''r1'', gc_parents = []\<rparr>
        else if c = ''c2'' then Ok \<lparr>gc_tree = Ok (toy_tree False), gc_tree_id = Ok ''r2'', gc_parents = [''c1'']\<rparr>
        else Err ''no such commit'',
      gr_find_tree = \<lambda>_. Ok (toy_tree True),
      gr_find_blob = \<lambda>b. if b = ''m'' then Ok (''tydence-manifest/v1'' @ [CHR 0x0A])
        else if b = ''k'' then Ok ''token'' else Err ''no such blob'',
      gr_is_tree = \<lambda>mode. mode = 16384, gr_is_blob = \<lambda>mode. mode = 33188, gr_display = \<lambda>bs. bs\<rparr>"

lemma toy_visits:
  "visit_commit toy_repository ''c2'' = Ok (Some [''c1''])" "visit_commit toy_repository ''c1'' = Ok None"
  by (simp_all add: visit_commit_def tree_of_def find_manifest_entry_def toy_repository_def toy_tree_def)

lemma toy_claims: "carries_manifest toy_repository ''c1''"
  using visit_commit_claims toy_visits(2) by blast

lemma toy_line: "open_line toy_repository {''c2''} c \<Longrightarrow> c \<in> {''c1'', ''c2''}"
proof (induction rule: open_line.induct)
  case (to_parent c commit w)
  then show ?case using toy_claims by (auto simp: toy_repository_def split: if_splits)
qed simp

lemma nearest_claims_walk_ends_witness: "\<exists>result. nearest_claiming_commits toy_repository [''c2''] = Some result"
proof (rule nearest_claims_walk_ends)
  have "{c. open_line toy_repository (set [''c2'']) c} \<subseteq> {''c1'', ''c2''}" using toy_line by auto
  then show "finite {c. open_line toy_repository (set [''c2'']) c}" by (rule finite_subset) simp
qed

lemma toy_nearest: "nearest_claiming_commits toy_repository [''c2''] = Some (Ok [''c1''])"
  by (simp add: nearest_claiming_commits_def search.simps toy_visits)

end
