(* ===== verification/Bind.thy ===== *)
theory Bind
  imports Claims Binding_Verify
begin

text \<open>
  \<open>crates/tydence/src/stamp/bind.rs\<close>: the binding set of a new stamp. Every line of history behind the
  parents is followed to its nearest claim, stamps with equal manifest hashes collapse to one group, and the
  groups are put in canonical order. What the stamper builds here is what the verifier's linkage check
  accepts on the same repository: \<open>bound_groups_link\<close>.
\<close>

datatype bind_error =
  BindClaim claims_error
  | UnderivableEdges binding_error
  | BindUnorderable order_error

fun bind_error_display :: "(string \<Rightarrow> string) \<Rightarrow> bind_error \<Rightarrow> string" where
  "bind_error_display debug_str (BindClaim cause) =
     ''a bound claim cannot be read: '' @ claims_error_display debug_str cause"
| "bind_error_display debug_str (UnderivableEdges cause) =
     ''the binding relation cannot be derived: '' @ binding_error_display cause"
| "bind_error_display debug_str (BindUnorderable cause) =
     ''the binding groups cannot be ordered: '' @ order_error_display cause"

record read_stamp =
  rd_group :: binding_group
  rd_manifest_bytes :: bytes

definition past_token_of :: "digests \<Rightarrow> token_file \<Rightarrow> past_token" where
  "past_token_of d token_file =
     \<lparr>pt_spec = Rfc3161, pt_site = tf_site token_file, token_hashes = hash_payload d (tf_bytes token_file)\<rparr>"

definition read_bound_stamp :: "git_repository \<Rightarrow> digests \<Rightarrow> object_id \<Rightarrow> (bind_error, read_stamp) result" where
  "read_bound_stamp r d commit_id =
     and_then (map_err BindClaim (read_claim_artifacts r commit_id)) (\<lambda>artifacts.
     Ok \<lparr>rd_group = \<lparr>bg_commit = commit_id, predecessor_origin = None,
                     manifest_hashes = hash_payload d (ca_manifest_bytes artifacts),
                     bg_tokens = map (past_token_of d) (ca_tokens artifacts)\<rparr>,
         rd_manifest_bytes = ca_manifest_bytes artifacts\<rparr>)"

text \<open>\<open>iter_mut().find(\<dots>)\<close> and the replacement of the kept stamp in place.\<close>

definition keep_stamp :: "read_stamp list \<Rightarrow> read_stamp \<Rightarrow> read_stamp list" where
  "keep_stamp deduplicated stamp =
     (case position (\<lambda>kept. manifest_hashes (rd_group kept) = manifest_hashes (rd_group stamp)) deduplicated of
        Some i \<Rightarrow>
          if bg_commit (rd_group stamp) < bg_commit (rd_group (deduplicated ! i))
          then deduplicated[i := stamp] else deduplicated
      | None \<Rightarrow> deduplicated @ [stamp])"

definition deduplicate_stamps :: "read_stamp list \<Rightarrow> read_stamp list" where
  "deduplicate_stamps read_stamps = foldl keep_stamp [] read_stamps"

definition order_stamps :: "ranges \<Rightarrow> read_stamp list \<Rightarrow> (bind_error, binding_group list) result" where
  "order_stamps table deduplicated =
     (let groups = map rd_group deduplicated;
          resolved = map (\<lambda>stamp. \<lparr>bs_manifest_bytes = rd_manifest_bytes stamp, bs_tokens = []\<rparr>) deduplicated
      in and_then (map_err UnderivableEdges (derive_binding_edges table groups resolved)) (\<lambda>edges.
         map_err BindUnorderable (order_binding_groups groups edges)))"

text \<open>\<open>None\<close> is a walk that never ends.\<close>

definition bind_stamps ::
  "git_repository \<Rightarrow> ranges \<Rightarrow> digests \<Rightarrow> object_id list \<Rightarrow> (bind_error, binding_group list) result option" where
  "bind_stamps r table d parent_ids =
     (case nearest_claiming_commits r parent_ids of
        None \<Rightarrow> None
      | Some walked \<Rightarrow> Some (
          and_then (map_err BindClaim walked) (\<lambda>claiming.
          and_then (traverse (read_bound_stamp r d) claiming) (\<lambda>read_stamps.
          order_stamps table (deduplicate_stamps read_stamps)))))"

section \<open>Deduplication\<close>

abbreviation stamp_hashes :: "read_stamp \<Rightarrow> payload_hashes" where
  "stamp_hashes stamp \<equiv> manifest_hashes (rd_group stamp)"

text \<open>Kept stamps are among those read, have distinct hashes, cover every hash read, and carry the smallest
  commit name of their hash.\<close>

definition deduplicated :: "read_stamp list \<Rightarrow> read_stamp list \<Rightarrow> bool" where
  "deduplicated read kept \<longleftrightarrow>
     set kept \<subseteq> set read \<and> distinct (map stamp_hashes kept) \<and> stamp_hashes ` set kept = stamp_hashes ` set read \<and>
     (\<forall>k \<in> set kept. \<forall>s \<in> set read. stamp_hashes s = stamp_hashes k \<longrightarrow> bg_commit (rd_group k) \<le> bg_commit (rd_group s))"

lemma deduplicatedI:
  assumes "set kept \<subseteq> set read" "distinct (map stamp_hashes kept)"
    and "\<And>s. s \<in> set read \<Longrightarrow> \<exists>k \<in> set kept. stamp_hashes k = stamp_hashes s \<and> bg_commit (rd_group k) \<le> bg_commit (rd_group s)"
  shows "deduplicated read kept"
proof -
  have "bg_commit (rd_group k) \<le> bg_commit (rd_group s)"
    if k: "k \<in> set kept" and s: "s \<in> set read" and eq: "stamp_hashes s = stamp_hashes k" for k s
  proof -
    obtain k' where "k' \<in> set kept" "stamp_hashes k' = stamp_hashes s" "bg_commit (rd_group k') \<le> bg_commit (rd_group s)"
      using assms(3)[OF s] by blast
    moreover have "inj_on stamp_hashes (set kept)" using assms(2) by (simp add: distinct_map)
    ultimately show ?thesis using k s eq by (metis inj_onD)
  qed
  moreover have "stamp_hashes ` set kept = stamp_hashes ` set read"
    using assms(1,3) by (auto simp: image_iff) metis
  ultimately show ?thesis unfolding deduplicated_def using assms(1,2) by blast
qed

lemma deduplicatedD:
  assumes "deduplicated read kept" and "s \<in> set read"
  shows "\<exists>k \<in> set kept. stamp_hashes k = stamp_hashes s \<and> bg_commit (rd_group k) \<le> bg_commit (rd_group s)"
  using assms unfolding deduplicated_def by (metis imageE imageI)

lemma keep_stamp_step:
  assumes dedup: "deduplicated read kept"
  shows "deduplicated (read @ [stamp]) (keep_stamp kept stamp)"
proof (cases "position (\<lambda>k. stamp_hashes k = stamp_hashes stamp) kept")
  case None
  then have fresh: "stamp_hashes stamp \<notin> stamp_hashes ` set kept" by (auto simp: position_None)
  have kept: "keep_stamp kept stamp = kept @ [stamp]" using None by (simp add: keep_stamp_def)
  show ?thesis unfolding kept
  proof (rule deduplicatedI)
    show "set (kept @ [stamp]) \<subseteq> set (read @ [stamp])" using dedup by (auto simp: deduplicated_def)
    show "distinct (map stamp_hashes (kept @ [stamp]))" using dedup fresh by (simp add: deduplicated_def)
    show "\<exists>k \<in> set (kept @ [stamp]). stamp_hashes k = stamp_hashes s \<and> bg_commit (rd_group k) \<le> bg_commit (rd_group s)"
      if "s \<in> set (read @ [stamp])" for s
      using that deduplicatedD[OF dedup, of s] by auto
  qed
next
  case (Some i)
  then have i: "i < length kept" "stamp_hashes (kept ! i) = stamp_hashes stamp" by (simp_all add: position_Some)
  have kept: "keep_stamp kept stamp =
      (if bg_commit (rd_group stamp) < bg_commit (rd_group (kept ! i)) then kept[i := stamp] else kept)"
    using Some by (simp add: keep_stamp_def)
  have hashes: "map stamp_hashes (keep_stamp kept stamp) = map stamp_hashes kept"
    unfolding kept using i by (simp add: map_update list_update_same_conv)
  have "distinct kept" using dedup by (auto simp: deduplicated_def distinct_map)
  then have updated: "set (kept[i := stamp]) = insert stamp (set kept - {kept ! i})"
    using i(1) by (rule set_update_distinct)
  have ith: "kept ! i \<in> set kept" using i(1) by simp
  show ?thesis
  proof (rule deduplicatedI)
    show "set (keep_stamp kept stamp) \<subseteq> set (read @ [stamp])"
      using dedup updated by (auto simp: kept deduplicated_def)
    show "distinct (map stamp_hashes (keep_stamp kept stamp))"
      unfolding hashes using dedup by (simp add: deduplicated_def)
    fix s assume s: "s \<in> set (read @ [stamp])"
    obtain k where k: "k \<in> set kept" "stamp_hashes k = stamp_hashes s" "s \<in> set read \<Longrightarrow> bg_commit (rd_group k) \<le> bg_commit (rd_group s)"
      "s \<notin> set read \<Longrightarrow> s = stamp \<and> k = kept ! i"
      using s deduplicatedD[OF dedup, of s] ith i(2) by (cases "s \<in> set read") auto
    show "\<exists>k \<in> set (keep_stamp kept stamp). stamp_hashes k = stamp_hashes s \<and> bg_commit (rd_group k) \<le> bg_commit (rd_group s)"
    proof (cases "bg_commit (rd_group stamp) < bg_commit (rd_group (kept ! i))")
      case less: True
      show ?thesis
      proof (cases "k = kept ! i")
        case True
        with k less i(2) have "stamp_hashes stamp = stamp_hashes s" "bg_commit (rd_group stamp) \<le> bg_commit (rd_group s)"
          by (cases "s \<in> set read"; force)+
        then show ?thesis unfolding kept using less updated by auto
      next
        case False
        with k less updated show ?thesis unfolding kept by auto
      qed
    next
      case False
      with k show ?thesis unfolding kept by (cases "s \<in> set read") auto
    qed
  qed
qed

lemma deduplicate_stamps_correct: "deduplicated read_stamps (deduplicate_stamps read_stamps)"
proof -
  have "deduplicated (read @ rest) (foldl keep_stamp kept rest)" if "deduplicated read kept" for read kept rest
    using that
  proof (induction rest arbitrary: read kept)
    case (Cons stamp rest)
    from Cons.IH[OF keep_stamp_step[OF Cons.prems, of stamp]] show ?case by simp
  qed simp
  from this[of "[]" "[]" read_stamps] show ?thesis by (simp add: deduplicate_stamps_def deduplicated_def)
qed


section \<open>What a new stamp binds\<close>

definition bound_group_of :: "digests \<Rightarrow> object_id \<Rightarrow> claim_artifacts \<Rightarrow> binding_group" where
  "bound_group_of d c artifacts =
     \<lparr>bg_commit = c, predecessor_origin = None, manifest_hashes = hash_payload d (ca_manifest_bytes artifacts),
      bg_tokens = map (past_token_of d) (ca_tokens artifacts)\<rparr>"

lemma read_bound_stamp_Ok:
  "read_bound_stamp r d c = Ok stamp \<longleftrightarrow> (\<exists>artifacts. read_claim_artifacts r c = Ok artifacts \<and>
     stamp = \<lparr>rd_group = bound_group_of d c artifacts, rd_manifest_bytes = ca_manifest_bytes artifacts\<rparr>)"
  by (auto simp: read_bound_stamp_def bound_group_of_def result_simps)

lemma order_stamps_Ok:
  assumes "order_stamps table kept = Ok groups"
  obtains order edges where "valid_order edges (length kept) order" "groups = map (\<lambda>i. rd_group (kept ! i)) order"
    "derive_binding_edges table (map rd_group kept)
       (map (\<lambda>stamp. \<lparr>bs_manifest_bytes = rd_manifest_bytes stamp, bs_tokens = []\<rparr>) kept) = Ok edges"
    "order_binding_groups (map rd_group kept) edges = Ok groups"
proof -
  from assms obtain edges where edges: "derive_binding_edges table (map rd_group kept)
       (map (\<lambda>stamp. \<lparr>bs_manifest_bytes = rd_manifest_bytes stamp, bs_tokens = []\<rparr>) kept) = Ok edges"
    and ordered: "order_binding_groups (map rd_group kept) edges = Ok groups"
    by (auto simp: order_stamps_def Let_def result_simps)
  from order_binding_groups_Ok[OF ordered] obtain order where
    order: "valid_order edges (length kept) order" "groups = map ((!) (map rd_group kept)) order"
    by (metis length_map)
  have "groups = map (\<lambda>i. rd_group (kept ! i)) order"
    using order by (auto simp: valid_order_def)
  with order(1) edges ordered that show ?thesis by blast
qed

lemma order_stamps_permutes:
  assumes "order_stamps table kept = Ok groups"
  shows "set groups = rd_group ` set kept"
    and "distinct (map stamp_hashes kept) \<Longrightarrow> distinct (map manifest_hashes groups)"
proof -
  from assms obtain order edges where order: "valid_order edges (length kept) order"
    and groups: "groups = map (\<lambda>i. rd_group (kept ! i)) order" by (rule order_stamps_Ok)
  from order have o: "distinct order" "set order = {..<length kept}" by (auto simp: valid_order_def)
  have all: "set kept = (\<lambda>i. kept ! i) ` {..<length kept}" by (auto simp: set_conv_nth)
  show "set groups = rd_group ` set kept" unfolding groups using o(2) by (simp add: all image_image)
  assume "distinct (map stamp_hashes kept)"
  then have "inj_on (\<lambda>i. stamp_hashes (kept ! i)) (set order)"
    unfolding o(2) by (auto simp: inj_on_def distinct_conv_nth)
  with o(1) show "distinct (map manifest_hashes groups)" by (simp add: groups distinct_map comp_def)
qed

lemma bind_stamps_Ok:
  assumes "bind_stamps r table d parent_ids = Some (Ok groups)"
  obtains claiming reads where "nearest_claiming_commits r parent_ids = Some (Ok claiming)"
    "list_all2 (\<lambda>c stamp. read_bound_stamp r d c = Ok stamp) claiming reads"
    "order_stamps table (deduplicate_stamps reads) = Ok groups"
  using assms by (auto simp: bind_stamps_def result_simps traverse_eq_Inr split: option.splits)

text \<open>The artifacts of the nearest claims behind the parents.\<close>

definition bindable :: "git_repository \<Rightarrow> object_id list \<Rightarrow> object_id \<Rightarrow> claim_artifacts \<Rightarrow> bool" where
  "bindable r parent_ids c artifacts \<longleftrightarrow>
     open_line r (set parent_ids) c \<and> carries_manifest r c \<and> read_claim_artifacts r c = Ok artifacts"

lemma bound_groups:
  assumes "bind_stamps r table d parent_ids = Some (Ok groups)"
  shows "distinct (map manifest_hashes groups)"
    and "g \<in> set groups \<Longrightarrow> \<exists>artifacts. bindable r parent_ids (bg_commit g) artifacts \<and>
      g = bound_group_of d (bg_commit g) artifacts"
    and "bindable r parent_ids c artifacts \<Longrightarrow> \<exists>g \<in> set groups.
      manifest_hashes g = hash_payload d (ca_manifest_bytes artifacts) \<and> bg_commit g \<le> c"
    and "open_line r (set parent_ids) c \<Longrightarrow> carries_manifest r c \<Longrightarrow>
      \<exists>artifacts. read_claim_artifacts r c = Ok artifacts"
proof -
  obtain claiming reads where walked: "nearest_claiming_commits r parent_ids = Some (Ok claiming)"
    and reads: "list_all2 (\<lambda>c stamp. read_bound_stamp r d c = Ok stamp) claiming reads"
    and ordered: "order_stamps table (deduplicate_stamps reads) = Ok groups"
    using bind_stamps_Ok[OF assms] .
  note claims = nearest_claiming_Ok(2)[OF walked]
  note dedup = deduplicate_stamps_correct[of reads]
  note kept = order_stamps_permutes[OF ordered]
  have read: "stamp \<in> set reads \<longleftrightarrow> (\<exists>c artifacts. bindable r parent_ids c artifacts \<and>
      stamp = \<lparr>rd_group = bound_group_of d c artifacts, rd_manifest_bytes = ca_manifest_bytes artifacts\<rparr>)" for stamp
  proof
    assume "stamp \<in> set reads"
    from list_all2_right[OF reads this] obtain c where "c \<in> set claiming" "read_bound_stamp r d c = Ok stamp"
      by blast
    then show "\<exists>c artifacts. bindable r parent_ids c artifacts \<and>
      stamp = \<lparr>rd_group = bound_group_of d c artifacts, rd_manifest_bytes = ca_manifest_bytes artifacts\<rparr>"
      by (auto simp: read_bound_stamp_Ok bindable_def claims)
  next
    assume "\<exists>c artifacts. bindable r parent_ids c artifacts \<and>
      stamp = \<lparr>rd_group = bound_group_of d c artifacts, rd_manifest_bytes = ca_manifest_bytes artifacts\<rparr>"
    then obtain c where "c \<in> set claiming" "read_bound_stamp r d c = Ok stamp"
      by (auto simp: read_bound_stamp_Ok bindable_def claims)
    with list_all2_left[OF reads, of c] show "stamp \<in> set reads" by auto
  qed
  show "distinct (map manifest_hashes groups)" using dedup kept(2) by (simp add: deduplicated_def)
  show "\<exists>artifacts. bindable r parent_ids (bg_commit g) artifacts \<and> g = bound_group_of d (bg_commit g) artifacts"
    if g: "g \<in> set groups"
  proof -
    from g kept(1) dedup obtain stamp where "stamp \<in> set reads" "g = rd_group stamp"
      by (auto simp: deduplicated_def)
    then show ?thesis by (auto simp: read bound_group_of_def)
  qed
  show "\<exists>g \<in> set groups. manifest_hashes g = hash_payload d (ca_manifest_bytes artifacts) \<and> bg_commit g \<le> c"
    if "bindable r parent_ids c artifacts"
  proof -
    let ?stamp = "\<lparr>rd_group = bound_group_of d c artifacts, rd_manifest_bytes = ca_manifest_bytes artifacts\<rparr>"
    have "?stamp \<in> set reads" using that by (auto simp: read)
    from deduplicatedD[OF dedup this] obtain k where "k \<in> set (deduplicate_stamps reads)"
      "stamp_hashes k = stamp_hashes ?stamp" "bg_commit (rd_group k) \<le> bg_commit (rd_group ?stamp)" by blast
    then show ?thesis unfolding kept(1) by (auto simp: bound_group_of_def)
  qed
  show "\<exists>artifacts. read_claim_artifacts r c = Ok artifacts"
    if "open_line r (set parent_ids) c" "carries_manifest r c"
  proof -
    from that claims have "c \<in> set claiming" by blast
    from list_all2_left[OF reads this] show ?thesis by (auto simp: read_bound_stamp_Ok)
  qed
qed

text \<open>C27: a new stamp binds the nearest stamps of every line of history and nothing else: the groups have distinct
  double hashes, they are the double hashes of exactly the nearest claims' manifests, and every group lists the
  tokens of the claim its commit annotation names, the smallest commit name among the claims it stands for.\<close>

theorem bound_groups_exact:
  assumes "bind_stamps r table d parent_ids = Some (Ok groups)"
  shows "distinct (map manifest_hashes groups) \<and>
    manifest_hashes ` set groups =
      {hash_payload d (ca_manifest_bytes artifacts) |c artifacts. bindable r parent_ids c artifacts} \<and>
    (\<forall>g \<in> set groups. \<exists>artifacts. bindable r parent_ids (bg_commit g) artifacts \<and>
       g = bound_group_of d (bg_commit g) artifacts \<and>
       (\<forall>c other. bindable r parent_ids c other \<and>
          hash_payload d (ca_manifest_bytes other) = manifest_hashes g \<longrightarrow> bg_commit g \<le> c))"
proof (intro conjI ballI)
  note B = bound_groups[OF assms]
  show "distinct (map manifest_hashes groups)" by (rule B(1))
  show "manifest_hashes ` set groups =
      {hash_payload d (ca_manifest_bytes artifacts) |c artifacts. bindable r parent_ids c artifacts}"
  proof (intro equalityI subsetI)
    fix h assume "h \<in> manifest_hashes ` set groups"
    then obtain g where "g \<in> set groups" "h = manifest_hashes g" by blast
    with B(2)[of g] show "h \<in> {hash_payload d (ca_manifest_bytes artifacts) |c artifacts. bindable r parent_ids c artifacts}"
      by (auto simp: bound_group_of_def) (metis binding_group.select_convs(3))
  next
    fix h assume "h \<in> {hash_payload d (ca_manifest_bytes artifacts) |c artifacts. bindable r parent_ids c artifacts}"
    then show "h \<in> manifest_hashes ` set groups" using B(3) by (auto simp: image_iff) metis
  qed
  fix g assume g: "g \<in> set groups"
  have "bg_commit g \<le> c" if other: "bindable r parent_ids c other" "hash_payload d (ca_manifest_bytes other) = manifest_hashes g" for c other
  proof -
    obtain g' where "g' \<in> set groups" "manifest_hashes g' = manifest_hashes g" "bg_commit g' \<le> c"
      using B(3)[OF other(1)] other(2) by metis
    moreover have "inj_on manifest_hashes (set groups)" using B(1) by (simp add: distinct_map)
    ultimately show ?thesis using g by (metis inj_onD)
  qed
  with B(2)[OF g] show "\<exists>artifacts. bindable r parent_ids (bg_commit g) artifacts \<and>
       g = bound_group_of d (bg_commit g) artifacts \<and>
       (\<forall>c other. bindable r parent_ids c other \<and>
          hash_payload d (ca_manifest_bytes other) = manifest_hashes g \<longrightarrow> bg_commit g \<le> c)"
    by blast
qed

lemma toy_bound: "\<exists>g. bind_stamps toy_repository [(0, 32)] toy_digests [''c2''] = Some (Ok [g]) \<and> bg_commit g = ''c1''"
proof -
  let ?m = "''tydence-manifest/v1'' @ [CHR 0x0A]"
  let ?artifacts = "\<lparr>ca_manifest_bytes = ?m, ca_tokens = [\<lparr>tf_site = ''site'', tf_bytes = ''token''\<rparr>]\<rparr>"
  let ?stamp = "\<lparr>rd_group = bound_group_of toy_digests ''c1'' ?artifacts, rd_manifest_bytes = ?m\<rparr>"
  have site: "site_of_file_name ''site.tsr'' = Some ''site''"
    using is_utf8_ascii[of "''site.tsr''"] by (simp add: site_of_file_name_Some TOKEN_FILE_SUFFIX_def)
  have "read_claim_artifacts toy_repository ''c1'' = Ok ?artifacts"
    by (simp add: read_claim_artifacts_def read_token_files_def read_token_file_def find_manifest_entry_def tree_of_def
        toy_repository_def toy_tree_def MANIFEST_PATH_def TOKENS_PATH_def REGULAR_FILE_MODE_def site)
  then have read: "read_bound_stamp toy_repository toy_digests ''c1'' = Ok ?stamp" by (simp add: read_bound_stamp_Ok)
  have "is_utf8 ?m" by (rule is_utf8_ascii) simp
  then have "parse_bound_manifest [(0, 32)] 0 ?m = Ok empty_manifest"
    using empty_manifest_text by (simp only: parse_bound_manifest_Ok)
  then have "order_stamps [(0, 32)] [?stamp] = Ok [rd_group ?stamp]"
    by (simp add: order_stamps_def derive_binding_edges_def ensure_stamp_counts_match_def edges_of_stamp_def order_eval)
  with read show ?thesis
    by (simp add: bind_stamps_def toy_nearest deduplicate_stamps_def keep_stamp_def bound_group_of_def)
qed

lemma bound_groups_exact_witness:
  "\<exists>groups. bind_stamps toy_repository [(0, 32)] toy_digests [''c2''] = Some (Ok groups) \<and>
     distinct (map manifest_hashes groups)"
proof -
  obtain g where "bind_stamps toy_repository [(0, 32)] toy_digests [''c2''] = Some (Ok [g])" using toy_bound by blast
  from bound_groups_exact[OF this] this show ?thesis by blast
qed

text \<open>Deduplication compares double hashes, so it keeps two stamps whose manifests agree on SHA-256 alone; reading the
  manifest that binds both refuses the second group.\<close>

lemma sha256_collision_bound_but_unreadable:
  assumes "sha256 (stamp_hashes a) = sha256 (stamp_hashes b)" "sha3_256 (stamp_hashes a) \<noteq> sha3_256 (stamp_hashes b)"
  shows "deduplicate_stamps [a, b] = [a, b] \<and>
    (rd_group a \<in> set (b_groups state) \<longrightarrow> read_past_manifest state (rd_group b) n = Err (DuplicateRecord n))"
  using assms by (auto simp: deduplicate_stamps_def keep_stamp_def read_past_manifest_def list_ex_iff)

end
