(* ===== verification/Worklist.thy ===== *)
theory Worklist
  imports Prelude "HOL-Library.Multiset"
begin

text \<open>
  A queue of pending work, \<open>while let Some(x) = queue.pop_front()\<close>, whose body returns early on an error and
  otherwise extends an output and the queue: what the loop returns, and why it ends. The snapshot enumeration is
  such a loop.
\<close>

section \<open>The loop\<close>

text \<open>\<open>None\<close> is a queue that never drains.\<close>

partial_function (option) drain ::
  "('s \<Rightarrow> 'n \<Rightarrow> ('e, 's \<times> 'n list) result) \<Rightarrow> 's \<Rightarrow> 'n list \<Rightarrow> ('e, 's) result option" where
  "drain step sink pending =
     (case pending of
        [] \<Rightarrow> Some (Ok sink)
      | n # rest \<Rightarrow> (case step sink n of
            Err e \<Rightarrow> Some (Err e)
          | Ok (sink', found) \<Rightarrow> drain step sink' (rest @ found)))"

lemma drain_Nil [simp]: "drain step sink [] = Some (Ok sink)"
  by (simp add: drain.simps)

lemma drain_Cons:
  "drain step sink (n # rest) = (case step sink n of
      Err e \<Rightarrow> Some (Err e) | Ok (sink', found) \<Rightarrow> drain step sink' (rest @ found))"
  by (subst drain.simps) simp

text \<open>What is reached from the starts when every visit reports what it found.\<close>

inductive reached :: "('n \<Rightarrow> ('e, 'a list \<times> 'n list) result) \<Rightarrow> 'n set \<Rightarrow> 'n \<Rightarrow> bool"
  for visit :: "'n \<Rightarrow> ('e, 'a list \<times> 'n list) result" and starts :: "'n set" where
  reached_start: "n \<in> starts \<Longrightarrow> reached visit starts n"
| reached_found: "reached visit starts n \<Longrightarrow> visit n = Ok (out, found) \<Longrightarrow> m \<in> set found \<Longrightarrow> reached visit starts m"

inductive_cases reachedE: "reached visit starts n"

lemma reached_mono: "reached visit starts n \<Longrightarrow> starts \<subseteq> more_starts \<Longrightarrow> reached visit more_starts n"
  by (induction rule: reached.induct) (auto intro: reached.intros)

lemma reached_trans: "reached visit starts n \<Longrightarrow> (\<And>s. s \<in> starts \<Longrightarrow> reached visit origin s) \<Longrightarrow> reached visit origin n"
  by (induction rule: reached.induct) (auto intro: reached.intros)

lemma reached_Nil [simp]: "\<not> reached visit {} n"
proof
  assume "reached visit {} n"
  then show False by (induction rule: reached.induct) auto
qed

lemma reached_Cons:
  assumes "visit n = Ok (out, found)"
  shows "reached visit (set (n # rest)) m \<longleftrightarrow> m = n \<or> reached visit (set (rest @ found)) m"
proof
  assume "reached visit (set (n # rest)) m"
  then show "m = n \<or> reached visit (set (rest @ found)) m"
  proof (induction rule: reached.induct)
    case (reached_start m)
    then show ?case by (auto intro: reached.reached_start)
  next
    case (reached_found k out' found' m)
    then show ?case using assms by (auto intro: reached.reached_start reached.reached_found)
  qed
next
  have "reached visit (set (n # rest)) s" if "s \<in> set (rest @ found)" for s
  proof (cases "s \<in> set rest")
    case True
    then show ?thesis by (simp add: reached_start)
  next
    case False
    with that have "s \<in> set found" by simp
    with assms show ?thesis by (auto intro: reached_found reached_start)
  qed
  then show "reached visit (set (n # rest)) m" if "m = n \<or> reached visit (set (rest @ found)) m"
    using that by (auto intro: reached_start reached_trans)
qed

section \<open>A body that only appends to its output\<close>

abbreviation appends :: "('a list \<Rightarrow> 'n \<Rightarrow> ('e, 'a list \<times> 'n list) result) \<Rightarrow>
    ('n \<Rightarrow> ('e, 'a list \<times> 'n list) result) \<Rightarrow> bool" where
  "appends step visit \<equiv> (\<forall>sink n. step sink n = and_then (visit n) (\<lambda>(out, found). Ok (sink @ out, found)))"

lemma drain_appending:
  assumes "drain step sink pending = Some result" and "appends step visit"
  shows "case result of
      Ok final \<Rightarrow> set final = set sink \<union>
          {x. \<exists>n out found. reached visit (set pending) n \<and> visit n = Ok (out, found) \<and> x \<in> set out} \<and>
        (\<forall>n. reached visit (set pending) n \<longrightarrow> is_ok (visit n))
    | Err e \<Rightarrow> \<exists>n. reached visit (set pending) n \<and> visit n = Err e"
  using assms
proof (induction rule: drain.raw_induct[rotated, consumes 1, case_names body])
  case (body drain' step sink pending result)
  show ?case
  proof (cases pending)
    case Nil
    with body(2) show ?thesis by auto
  next
    case (Cons n rest)
    show ?thesis
    proof (cases "visit n")
      case (Inl e)
      with body(2,3) Cons have "result = Err e" by auto
      with Inl Cons show ?thesis by (auto intro!: exI[of _ n] reached_start)
    next
      case (Inr r)
      obtain out found where r: "visit n = Ok (out, found)" using Inr by (cases r) simp
      then have "drain' step (sink @ out) (rest @ found) = Some result"
        using body(2,3) Cons by simp
      from body(1)[OF this body(3)] r show ?thesis
        unfolding Cons reached_Cons[of visit n out found, OF r] by (cases result) auto
    qed
  qed
qed

text \<open>What every visit keeps of the output and the queue, the final output has.\<close>

lemma drain_keeps:
  assumes "drain step sink pending = Some result" "appends step visit" "I sink pending"
    and "\<And>sink n rest out found. I sink (n # rest) \<Longrightarrow> visit n = Ok (out, found) \<Longrightarrow> I (sink @ out) (rest @ found)"
  shows "\<forall>final. result = Ok final \<longrightarrow> I final []"
  using assms
proof (induction rule: drain.raw_induct[rotated, consumes 1, case_names body])
  case (body drain' step sink pending result)
  show ?case
  proof (cases pending)
    case Nil
    with body(2,4) show ?thesis by auto
  next
    case (Cons n rest)
    show ?thesis
    proof (cases "visit n")
      case (Inl e)
      with body(2,3) Cons show ?thesis by auto
    next
      case (Inr r)
      obtain out found where r: "visit n = Ok (out, found)" using Inr by (cases r) simp
      then have next_run: "drain' step (sink @ out) (rest @ found) = Some result"
        using body(2,3) Cons by simp
      have "I (sink @ out) (rest @ found)" using body(5)[OF _ r] body(4) Cons by simp
      from body(1)[OF next_run body(3) this] show ?thesis using body(5) by blast
    qed
  qed
qed

locale worklist =
  fixes step :: "'a list \<Rightarrow> 'n \<Rightarrow> ('e, 'a list \<times> 'n list) result"
    and visit :: "'n \<Rightarrow> ('e, 'a list \<times> 'n list) result"
  assumes step_appends: "step sink n = and_then (visit n) (\<lambda>(out, found). Ok (sink @ out, found))"
begin

lemma drain_step:
  "drain step sink (n # rest) = (case visit n of
      Err e \<Rightarrow> Some (Err e) | Ok (out, found) \<Rightarrow> drain step (sink @ out) (rest @ found))"
  by (cases "visit n") (auto simp: drain_Cons step_appends)

lemma drain_Ok:
  assumes "drain step sink pending = Some (Ok final)"
  shows "x \<in> set final \<longleftrightarrow> x \<in> set sink \<or>
      (\<exists>n out found. reached visit (set pending) n \<and> visit n = Ok (out, found) \<and> x \<in> set out)"
    and "reached visit (set pending) n \<Longrightarrow> is_ok (visit n)"
  using drain_appending[OF assms, of visit] by (simp_all add: step_appends)

lemma drain_invariant:
  assumes "drain step sink pending = Some (Ok final)" "I sink pending"
    and "\<And>sink n rest out found. I sink (n # rest) \<Longrightarrow> visit n = Ok (out, found) \<Longrightarrow> I (sink @ out) (rest @ found)"
  shows "I final []"
  using drain_keeps[OF assms(1) _ assms(2,3), of visit] by (simp add: step_appends)

lemma drain_Err:
  assumes "drain step sink pending = Some (Err e)"
  shows "\<exists>n. reached visit (set pending) n \<and> visit n = Err e"
  using drain_appending[OF assms, of visit] by (simp add: step_appends)

end

section \<open>Why the queue drains\<close>

text \<open>Everything found ranks below what it was found in: the multiset of the pending ranks decreases.\<close>

locale ranked_worklist = worklist step visit
  for step :: "'a list \<Rightarrow> 'n \<Rightarrow> ('e, 'a list \<times> 'n list) result"
    and visit :: "'n \<Rightarrow> ('e, 'a list \<times> 'n list) result" +
  fixes within :: "'n \<Rightarrow> bool" and rank :: "'n \<Rightarrow> nat"
  assumes found_within: "within n \<Longrightarrow> visit n = Ok (out, found) \<Longrightarrow> m \<in> set found \<Longrightarrow> within m"
    and found_below: "within n \<Longrightarrow> visit n = Ok (out, found) \<Longrightarrow> m \<in> set found \<Longrightarrow> rank m < rank n"
begin

lemma pending_decreases:
  assumes "within n" "visit n = Ok (out, found)"
  shows "(image_mset rank (mset (rest @ found)), image_mset rank (mset (n # rest))) \<in> mult less_than"
proof -
  have "\<forall>k \<in> set_mset (image_mset rank (mset found)). \<exists>j \<in> set_mset {#rank n#}. (k, j) \<in> less_than"
    using found_below[OF assms] by auto
  from one_step_implies_mult[OF _ this, of "image_mset rank (mset rest)"] show ?thesis by simp
qed

lemma drain_ends:
  assumes "\<forall>n \<in> set pending. within n"
  shows "\<exists>result. drain step sink pending = Some result"
  using assms
proof (induction "image_mset rank (mset pending)" arbitrary: sink pending rule: wf_induct_rule[OF wf_mult[OF wf_less_than]])
  case 1
  show ?case
  proof (cases pending)
    case (Cons n rest)
    show ?thesis
    proof (cases "visit n")
      case (Inl e)
      then show ?thesis by (simp add: Cons drain_step)
    next
      case (Inr r)
      obtain out found where r: "visit n = Ok (out, found)" using Inr by (cases r) simp
      have inside: "within n" "\<forall>m \<in> set (rest @ found). within m"
        using 1(2) found_within[OF _ r] Cons by auto
      from 1(1)[OF _ inside(2)] pending_decreases[OF inside(1) r, of rest] show ?thesis
        by (simp add: Cons drain_step r)
    qed
  qed simp
qed

end

end
