(* ===== verification/Files.thy ===== *)
theory Files
  imports Strings
begin

text \<open>
  Paths of \<open>std::path\<close> on Unix and the file system as the sources use it. A file system is a parameter: what
  \<open>std::fs\<close> answers at the moment of the call.
\<close>

text \<open>\<open>Path::join\<close>: an absolute path replaces the base.\<close>

definition path_join :: "string \<Rightarrow> string \<Rightarrow> string" where
  "path_join base path =
     (if starts_with ''/'' path then path
      else if base = [] \<or> ends_with ''/'' base then base @ path
      else base @ ''/'' @ path)"

text \<open>Below one directory, relative paths are kept apart.\<close>

lemma path_join_relative:
  "\<not> starts_with ''/'' path \<Longrightarrow> path_join base path = (if base = [] \<or> ends_with ''/'' base then base else base @ ''/'') @ path"
  by (simp add: path_join_def)

lemma path_join_inject:
  assumes "\<not> starts_with ''/'' a" "\<not> starts_with ''/'' b"
  shows "path_join base a = path_join base b \<longleftrightarrow> a = b"
  using assms by (simp add: path_join_relative)

text \<open>\<open>Path::file_name\<close>: the last component, unless it is \<open>..\<close>; empty components and \<open>.\<close> do not count.\<close>

definition path_file_name :: "string \<Rightarrow> string option" where
  "path_file_name path =
     (let components = filter (\<lambda>component. component \<noteq> [] \<and> component \<noteq> ''.'') (split_on (CHR ''/'') path)
      in if components = [] \<or> last components = ''..'' then None else Some (last components))"

text \<open>\<open>Path::parent\<close>: the path without its last component; separators and \<open>.\<close> at its end do not count.\<close>

definition trim_components :: "string list \<Rightarrow> string list" where
  "trim_components components =
     take 1 components @ rev (dropWhile (\<lambda>component. component = [] \<or> component = ''.'') (rev (drop 1 components)))"

definition path_parent :: "string \<Rightarrow> string option" where
  "path_parent path =
     (case trim_components (split_on (CHR ''/'') path) of
        [] \<Rightarrow> None
      | [component] \<Rightarrow> if component = [] then None else Some []
      | components \<Rightarrow>
          (let front = trim_components (butlast components) in Some (if front = [[]] then ''/'' else join_with ''/'' front)))"

datatype io_error = NotFound string | OtherIo string

fun io_text :: "io_error \<Rightarrow> string" where
  "io_text (NotFound cause) = cause"
| "io_text (OtherIo cause) = cause"

text \<open>A directory is read as the paths of its entries, in the file system's order, or fails on the way.\<close>

record file_system =
  fs_read_dir :: "string \<Rightarrow> (io_error, (io_error, string) result list) result"
  fs_is_file :: "string \<Rightarrow> bool"
  fs_read :: "string \<Rightarrow> (io_error, bytes) result"
  fs_display :: "string \<Rightarrow> string"

lemma file_name_below:
  assumes "CHR ''/'' \<notin> set name" "name \<noteq> []" "name \<noteq> ''.''" "name \<noteq> ''..''"
  shows "path_file_name (path_join directory name) = Some name"
proof -
  have relative: "\<not> starts_with ''/'' name" using assms(1) by (auto simp: starts_with_iff)
  have name: "split_on (CHR ''/'') name = [name]" using assms(1) by (rule split_on_no_sep)
  consider "directory = []" | front where "directory = front @ ''/''" | "directory \<noteq> []" "\<not> ends_with ''/'' directory"
    by (auto simp: ends_with_iff)
  then have "\<exists>front. split_on (CHR ''/'') (path_join directory name) = front @ [name]"
  proof cases
    case 1
    with name relative show ?thesis by (simp add: path_join_def)
  next
    case 2
    then have "path_join directory name = front @ CHR ''/'' # name"
      using relative by (simp add: path_join_def ends_with_iff)
    with name show ?thesis by (simp add: split_on_join)
  next
    case 3
    then have "path_join directory name = directory @ CHR ''/'' # name"
      using relative by (simp add: path_join_def)
    with name show ?thesis by (simp add: split_on_join)
  qed
  with assms show ?thesis by (auto simp: path_file_name_def Let_def)
qed

end
