(* ===== verification/Snapshot.thy ===== *)
theory Snapshot
  imports Claims Binding_Verify Worklist Files
begin

text \<open>
  \<open>crates/tydence/src/snapshot.rs\<close>: the enumeration of a tree into manifest entries. Files become entries, the
  stamp's own artifacts are left out at the root, gitlinks are followed into the submodules, and whatever cannot
  be resolved is an error. The crate \<open>gix\<close> is a parameter: a repository is a handle \<open>'r\<close>, and the record \<open>gix\<close>
  holds what the source calls on it.
\<close>

section \<open>Paths and modes\<close>

definition is_excluded_from_root :: "bytes \<Rightarrow> bool" where
  "is_excluded_from_root path_in_repository \<longleftrightarrow>
     path_in_repository = MANIFEST_PATH \<or>
     (case strip_prefix TOKENS_PATH path_in_repository of
        None \<Rightarrow> False
      | Some below_tokens \<Rightarrow> (case below_tokens of [] \<Rightarrow> False | b # _ \<Rightarrow> b = CHR ''/''))"

definition GITLINK_MODE :: nat where "GITLINK_MODE = 57344"

text \<open>\<open>0o100644\<close>, \<open>0o100755\<close> and \<open>0o120000\<close>.\<close>

definition decode_file_mode :: "nat \<Rightarrow> file_mode option" where
  "decode_file_mode mode =
     (if mode = 33188 then Some Regular
      else if mode = 33261 then Some Executable
      else if mode = 40960 then Some Symlink
      else None)"

definition is_safe_module_name :: "bytes \<Rightarrow> bool" where
  "is_safe_module_name name \<longleftrightarrow>
     name \<noteq> [] \<and> \<not> starts_with ''/'' name \<and>
     list_all (\<lambda>component. component \<noteq> [] \<and> component \<noteq> ''.'' \<and> component \<noteq> ''..'') (split_on (CHR ''/'') name)"

definition join_path :: "bytes \<Rightarrow> bytes \<Rightarrow> bytes" where
  "join_path path_prefix relative_path = path_prefix @ relative_path"

section \<open>Errors\<close>

datatype snapshot_error =
  SnapshotObjectAccess bytes string
  | UnsupportedMode bytes nat
  | MissingGitmodules bytes
  | MalformedGitmodules string
  | UnmappedGitlink bytes
  | GitlinkCycle bytes
  | UnavailableSubmodule bytes bytes string string

fun octal :: "nat \<Rightarrow> string" where
  "octal n = (if n < 8 then [digit_byte n] else octal (n div 8) @ [digit_byte (n mod 8)])"

text \<open>\<open>{:06o}\<close>.\<close>

definition octal6 :: "nat \<Rightarrow> string" where
  "octal6 n = replicate (6 - length (octal n)) (CHR ''0'') @ octal n"

fun snapshot_error_display :: "(bytes \<Rightarrow> string) \<Rightarrow> snapshot_error \<Rightarrow> string" where
  "snapshot_error_display debug_bstr (SnapshotObjectAccess path _) = ''cannot read git objects at '' @ debug_bstr path"
| "snapshot_error_display debug_bstr (UnsupportedMode path mode_bits) =
     debug_bstr path @ '' carries unsupported mode '' @ octal6 mode_bits"
| "snapshot_error_display debug_bstr (MissingGitmodules gitlink_path) =
     ''gitlink '' @ debug_bstr gitlink_path @ '' without .gitmodules in the tree''"
| "snapshot_error_display debug_bstr (MalformedGitmodules _) = ''.gitmodules does not parse''"
| "snapshot_error_display debug_bstr (UnmappedGitlink gitlink_path) =
     ''gitlink '' @ debug_bstr gitlink_path @ '' has no .gitmodules entry''"
| "snapshot_error_display debug_bstr (GitlinkCycle gitlink_path) =
     ''gitlink '' @ debug_bstr gitlink_path @ '' re-enters a tree on its own chain''"
| "snapshot_error_display debug_bstr (UnavailableSubmodule gitlink_path name store_source embedded_source) =
     ''submodule '' @ debug_bstr name @ '' at '' @ debug_bstr gitlink_path @ '' is not available (module store: '' @
     store_source @ ''; embedded: '' @ embedded_source @ '')''"

section \<open>Repositories and their trees\<close>

text \<open>\<open>gx_modules\<close> is \<open>gix::submodule::File::from_bytes\<close>; a parsed file is its \<open>name_by_path\<close>.\<close>

type_synonym modules_file = "bytes \<Rightarrow> bytes option"

record 'r gix =
  gx_objects :: "'r \<Rightarrow> git_repository"
  gx_common_dir :: "'r \<Rightarrow> string"
  gx_workdir :: "'r \<Rightarrow> string option"
  gx_open :: "string \<Rightarrow> (string, 'r) result"
  gx_modules :: "bytes \<Rightarrow> (string, modules_file) result"

record 'r repository_tree =
  rt_repository :: 'r
  rt_tree_id :: object_id
  rt_path_prefix :: bytes
  rt_ancestor_tree_ids :: "object_id list"

abbreviation find_blob_in :: "'r gix \<Rightarrow> 'r \<Rightarrow> object_id \<Rightarrow> (string, bytes) result" where
  "find_blob_in g r \<equiv> gr_find_blob (gx_objects g r)"

definition parse_gitmodules ::
  "'r gix \<Rightarrow> 'r \<Rightarrow> file_record list \<Rightarrow> (snapshot_error, modules_file option) result" where
  "parse_gitmodules g repository records =
     (case List.find (\<lambda>file. gr_is_blob (gx_objects g repository) (fr_mode file) \<and> fr_filepath file = ''.gitmodules'') records of
        None \<Rightarrow> Ok None
      | Some file \<Rightarrow>
          and_then (map_err (SnapshotObjectAccess (fr_filepath file)) (find_blob_in g repository (fr_oid file))) (\<lambda>blob.
          and_then (map_err MalformedGitmodules (gx_modules g blob)) (\<lambda>modules. Ok (Some modules))))"

definition open_module_store_repository :: "'r gix \<Rightarrow> 'r \<Rightarrow> bytes \<Rightarrow> (string, 'r) result" where
  "open_module_store_repository g parent name =
     (if \<not> is_safe_module_name name then Err ''the module name walks outside the module store''
      else gx_open g (path_join (path_join (gx_common_dir g parent) ''modules'') name))"

definition open_embedded_repository :: "'r gix \<Rightarrow> 'r \<Rightarrow> bytes \<Rightarrow> (string, 'r) result" where
  "open_embedded_repository g parent gitlink_path =
     (case gx_workdir g parent of
        None \<Rightarrow> Err ''the superproject repository has no worktree''
      | Some worktree_root \<Rightarrow> gx_open g (path_join worktree_root gitlink_path))"

definition open_submodule :: "'r gix \<Rightarrow> 'r \<Rightarrow> bytes \<Rightarrow> bytes \<Rightarrow> bytes \<Rightarrow> (snapshot_error, 'r) result" where
  "open_submodule g parent name filepath gitlink_path =
     (case open_module_store_repository g parent name of
        Ok repository \<Rightarrow> Ok repository
      | Err store_source \<Rightarrow>
          map_err (\<lambda>embedded_source. UnavailableSubmodule gitlink_path name store_source embedded_source)
            (open_embedded_repository g parent filepath))"

definition resolve_gitlink ::
  "'r gix \<Rightarrow> 'r repository_tree \<Rightarrow> modules_file option \<Rightarrow> file_record \<Rightarrow> (snapshot_error, 'r repository_tree) result" where
  "resolve_gitlink g parent maybe_modules file =
     (let gitlink_path = join_path (rt_path_prefix parent) (fr_filepath file)
      in and_then (ok_or (MissingGitmodules gitlink_path) maybe_modules) (\<lambda>modules.
         and_then (ok_or (UnmappedGitlink gitlink_path) (modules (fr_filepath file))) (\<lambda>name.
         and_then (open_submodule g (rt_repository parent) name (fr_filepath file) gitlink_path) (\<lambda>repository.
         and_then (map_err (SnapshotObjectAccess gitlink_path) (gr_find_commit (gx_objects g repository) (fr_oid file)))
           (\<lambda>commit.
         and_then (map_err (SnapshotObjectAccess gitlink_path) (gc_tree_id commit)) (\<lambda>tree_id.
         and_then (ensure (tree_id \<notin> set (rt_ancestor_tree_ids parent)) (GitlinkCycle gitlink_path)) (\<lambda>_.
         Ok \<lparr>rt_repository = repository, rt_tree_id = tree_id, rt_path_prefix = gitlink_path @ ''/'',
             rt_ancestor_tree_ids = rt_ancestor_tree_ids parent @ [tree_id]\<rparr>)))))))"

section \<open>One tree\<close>

definition read_tree_entry ::
  "'r gix \<Rightarrow> digests \<Rightarrow> 'r repository_tree \<Rightarrow> file_record \<Rightarrow> file_mode \<Rightarrow> (snapshot_error, entry) result" where
  "read_tree_entry g d containing_tree file mode =
     (let path = join_path (rt_path_prefix containing_tree) (fr_filepath file)
      in and_then (map_err (SnapshotObjectAccess path) (find_blob_in g (rt_repository containing_tree) (fr_oid file)))
         (\<lambda>blob. Ok \<lparr>entry_path = path, entry_mode = mode, entry_size = length blob,
                     content_hashes = hash_payload d blob\<rparr>))"

text \<open>The body of the loop over the records, on the entries and the gitlinks met so far.\<close>

definition screen_record ::
  "'r gix \<Rightarrow> digests \<Rightarrow> 'r repository_tree \<Rightarrow> entry list \<times> file_record list \<Rightarrow> file_record
    \<Rightarrow> (snapshot_error, entry list \<times> file_record list) result" where
  "screen_record g d parent_tree state file =
     (let (entry_sink, gitlink_records) = state;
          at_snapshot_root = (rt_path_prefix parent_tree = [])
      in if gr_is_tree (gx_objects g (rt_repository parent_tree)) (fr_mode file) then Ok state
         else if at_snapshot_root \<and> is_excluded_from_root (fr_filepath file) then Ok state
         else if fr_mode file = GITLINK_MODE then Ok (entry_sink, gitlink_records @ [file])
         else (case decode_file_mode (fr_mode file) of
             None \<Rightarrow> Err (UnsupportedMode (join_path (rt_path_prefix parent_tree) (fr_filepath file)) (fr_mode file))
           | Some mode \<Rightarrow>
               and_then (read_tree_entry g d parent_tree file mode) (\<lambda>e. Ok (entry_sink @ [e], gitlink_records))))"

definition tree_records :: "'r gix \<Rightarrow> 'r repository_tree \<Rightarrow> (snapshot_error, file_record list) result" where
  "tree_records g parent_tree =
     and_then (map_err (SnapshotObjectAccess (rt_path_prefix parent_tree))
       (gr_find_tree (gx_objects g (rt_repository parent_tree)) (rt_tree_id parent_tree))) (\<lambda>tree.
     map_err (SnapshotObjectAccess (rt_path_prefix parent_tree)) (gt_files tree))"

definition traverse_repository_tree ::
  "'r gix \<Rightarrow> digests \<Rightarrow> entry list \<Rightarrow> 'r repository_tree
    \<Rightarrow> (snapshot_error, entry list \<times> 'r repository_tree list) result" where
  "traverse_repository_tree g d entry_sink parent_tree =
     and_then (tree_records g parent_tree) (\<lambda>records.
     and_then (try_fold (screen_record g d parent_tree) (entry_sink, []) records) (\<lambda>(entry_sink, gitlink_records).
     if gitlink_records = [] then Ok (entry_sink, [])
     else
       and_then (parse_gitmodules g (rt_repository parent_tree) records) (\<lambda>maybe_modules.
       and_then (traverse (resolve_gitlink g parent_tree maybe_modules) gitlink_records) (\<lambda>discovered.
       Ok (entry_sink, discovered)))))"

definition root_tree :: "'r \<Rightarrow> object_id \<Rightarrow> 'r repository_tree" where
  "root_tree repository root_tree_id =
     \<lparr>rt_repository = repository, rt_tree_id = root_tree_id, rt_path_prefix = [], rt_ancestor_tree_ids = [root_tree_id]\<rparr>"

text \<open>\<open>snapshot::run\<close>.\<close>

definition snapshot_run :: "'r gix \<Rightarrow> digests \<Rightarrow> 'r \<Rightarrow> object_id \<Rightarrow> (snapshot_error, entry list) result option" where
  "snapshot_run g d repository root_tree_id =
     drain (traverse_repository_tree g d) [] [root_tree repository root_tree_id]"

section \<open>What one tree contributes\<close>

definition included :: "'r gix \<Rightarrow> 'r repository_tree \<Rightarrow> file_record \<Rightarrow> bool" where
  "included g t file \<longleftrightarrow> \<not> gr_is_tree (gx_objects g (rt_repository t)) (fr_mode file) \<and>
     \<not> (rt_path_prefix t = [] \<and> is_excluded_from_root (fr_filepath file))"

definition files_of :: "'r gix \<Rightarrow> 'r repository_tree \<Rightarrow> file_record list \<Rightarrow> file_record list" where
  "files_of g t records = filter (\<lambda>file. included g t file \<and> fr_mode file \<noteq> GITLINK_MODE) records"

definition gitlinks_of :: "'r gix \<Rightarrow> 'r repository_tree \<Rightarrow> file_record list \<Rightarrow> file_record list" where
  "gitlinks_of g t records = filter (\<lambda>file. included g t file \<and> fr_mode file = GITLINK_MODE) records"

definition entry_of_record ::
  "'r gix \<Rightarrow> digests \<Rightarrow> 'r repository_tree \<Rightarrow> file_record \<Rightarrow> (snapshot_error, entry) result" where
  "entry_of_record g d t file =
     and_then (ok_or (UnsupportedMode (rt_path_prefix t @ fr_filepath file) (fr_mode file)) (decode_file_mode (fr_mode file)))
       (read_tree_entry g d t file)"

text \<open>The entry a file record stands for: its path below the submodules that lead to it, its mode, and the size and
  double hash of its blob's bytes.\<close>

definition covers_record :: "'r gix \<Rightarrow> digests \<Rightarrow> 'r repository_tree \<Rightarrow> file_record \<Rightarrow> entry \<Rightarrow> bool" where
  "covers_record g d t file e \<longleftrightarrow> (\<exists>mode blob. decode_file_mode (fr_mode file) = Some mode \<and>
     find_blob_in g (rt_repository t) (fr_oid file) = Ok blob \<and>
     e = \<lparr>entry_path = rt_path_prefix t @ fr_filepath file, entry_mode = mode, entry_size = length blob,
          content_hashes = hash_payload d blob\<rparr>)"

lemma entry_of_record_Ok: "entry_of_record g d t file = Ok e \<longleftrightarrow> covers_record g d t file e"
  by (auto simp: entry_of_record_def covers_record_def read_tree_entry_def join_path_def Let_def result_simps)

lemma screen_record_cases:
  "screen_record g d t (es, gitlinks) file =
     (if \<not> included g t file then Ok (es, gitlinks)
      else if fr_mode file = GITLINK_MODE then Ok (es, gitlinks @ [file])
      else and_then (entry_of_record g d t file) (\<lambda>e. Ok (es @ [e], gitlinks)))"
  by (auto simp: screen_record_def included_def entry_of_record_def ok_or_def join_path_def split: option.splits)

lemma screen_records:
  "try_fold (screen_record g d t) (es, gitlinks) records =
     and_then (traverse (entry_of_record g d t) (files_of g t records)) (\<lambda>out.
       Ok (es @ out, gitlinks @ gitlinks_of g t records))"
proof (induction records arbitrary: es gitlinks)
  case Nil
  then show ?case by (simp add: files_of_def gitlinks_of_def)
next
  case (Cons rec records)
  show ?case
    by (cases "entry_of_record g d t rec";
        cases "traverse (entry_of_record g d t) (files_of g t records)")
      (simp_all add: screen_record_cases Cons.IH files_of_def gitlinks_of_def)
qed

definition visit_tree ::
  "'r gix \<Rightarrow> digests \<Rightarrow> 'r repository_tree \<Rightarrow> (snapshot_error, entry list \<times> 'r repository_tree list) result" where
  "visit_tree g d t = traverse_repository_tree g d [] t"

lemma traverse_repository_tree_alt:
  "traverse_repository_tree g d sink t =
     and_then (tree_records g t) (\<lambda>records.
     and_then (traverse (entry_of_record g d t) (files_of g t records)) (\<lambda>out.
     if gitlinks_of g t records = [] then Ok (sink @ out, [])
     else and_then (parse_gitmodules g (rt_repository t) records) (\<lambda>maybe_modules.
       and_then (traverse (resolve_gitlink g t maybe_modules) (gitlinks_of g t records)) (\<lambda>discovered.
       Ok (sink @ out, discovered)))))"
  by (auto simp: traverse_repository_tree_def screen_records and_then_def split: sum.splits)

interpretation snapshot: worklist "traverse_repository_tree g d" "visit_tree g d" for g d
proof unfold_locales
  show "traverse_repository_tree g d sink t = and_then (visit_tree g d t) (\<lambda>(out, found). Ok (sink @ out, found))" for sink t
    by (auto simp: visit_tree_def traverse_repository_tree_alt and_then_def split: sum.splits)
qed

section \<open>The trees of a snapshot\<close>

text \<open>What a gitlink of a tree resolves to: the repository that the tree's own \<open>.gitmodules\<close> names, from the module
  store or else embedded in the worktree, at the tree of the commit it pins, not yet on the chain.\<close>

definition submodule_at ::
  "'r gix \<Rightarrow> 'r repository_tree \<Rightarrow> file_record list \<Rightarrow> file_record \<Rightarrow> 'r repository_tree \<Rightarrow> bool" where
  "submodule_at g t records file t' \<longleftrightarrow> (\<exists>modules name repository commit tree_id.
     parse_gitmodules g (rt_repository t) records = Ok (Some modules) \<and> modules (fr_filepath file) = Some name \<and>
     (open_module_store_repository g (rt_repository t) name = Ok repository \<or>
      \<not> is_ok (open_module_store_repository g (rt_repository t) name) \<and>
        open_embedded_repository g (rt_repository t) (fr_filepath file) = Ok repository) \<and>
     gr_find_commit (gx_objects g repository) (fr_oid file) = Ok commit \<and> gc_tree_id commit = Ok tree_id \<and>
     tree_id \<notin> set (rt_ancestor_tree_ids t) \<and>
     t' = \<lparr>rt_repository = repository, rt_tree_id = tree_id, rt_path_prefix = rt_path_prefix t @ fr_filepath file @ ''/'',
           rt_ancestor_tree_ids = rt_ancestor_tree_ids t @ [tree_id]\<rparr>)"

inductive placed :: "'r gix \<Rightarrow> 'r \<Rightarrow> object_id \<Rightarrow> 'r repository_tree \<Rightarrow> bool"
  for g :: "'r gix" and repository :: 'r and root_id :: object_id where
  placed_root: "placed g repository root_id (root_tree repository root_id)"
| placed_submodule: "placed g repository root_id t \<Longrightarrow> tree_records g t = Ok records \<Longrightarrow>
    file \<in> set (gitlinks_of g t records) \<Longrightarrow> submodule_at g t records file t' \<Longrightarrow> placed g repository root_id t'"

lemma open_submodule_Ok:
  "open_submodule g parent name filepath gitlink_path = Ok repository \<longleftrightarrow>
     open_module_store_repository g parent name = Ok repository \<or>
     \<not> is_ok (open_module_store_repository g parent name) \<and> open_embedded_repository g parent filepath = Ok repository"
  by (auto simp: open_submodule_def result_simps split: sum.splits)

lemma resolve_gitlink_Ok:
  assumes "parse_gitmodules g (rt_repository t) records = Ok maybe_modules"
  shows "resolve_gitlink g t maybe_modules file = Ok t' \<longleftrightarrow> submodule_at g t records file t'"
  unfolding resolve_gitlink_def submodule_at_def Let_def
  by (auto simp: assms result_simps open_submodule_Ok join_path_def)

lemma visit_tree_Ok:
  "visit_tree g d t = Ok (out, found) \<longleftrightarrow> (\<exists>records. tree_records g t = Ok records \<and>
     list_all2 (covers_record g d t) (files_of g t records) out \<and>
     list_all2 (submodule_at g t records) (gitlinks_of g t records) found)"
proof -
  have "(if gitlinks_of g t records = [] then Ok ([] @ out', [])
      else and_then (parse_gitmodules g (rt_repository t) records) (\<lambda>maybe_modules.
        and_then (traverse (resolve_gitlink g t maybe_modules) (gitlinks_of g t records)) (\<lambda>discovered.
        Ok ([] @ out', discovered)))) = Ok (out, found) \<longleftrightarrow>
      out' = out \<and> list_all2 (submodule_at g t records) (gitlinks_of g t records) found" for out' records
  proof (cases "gitlinks_of g t records = []")
    case False
    then obtain link rest where g: "gitlinks_of g t records = link # rest" by (cases "gitlinks_of g t records") auto
    show ?thesis
    proof (cases "parse_gitmodules g (rt_repository t) records")
      case (Inl e)
      then have "\<not> submodule_at g t records link t'" for t' by (simp add: submodule_at_def)
      with Inl g show ?thesis by (auto simp: list_all2_Cons1)
    next
      case (Inr maybe_modules)
      from Inr g show ?thesis
        by (simp add: result_simps traverse_eq_Inr resolve_gitlink_Ok[OF Inr] del: traverse.simps) blast
    qed
  qed auto
  then show ?thesis
    by (simp add: visit_tree_def traverse_repository_tree_alt result_simps traverse_eq_Inr entry_of_record_Ok)
qed

lemma submodule_at_unique: "submodule_at g t records file t1 \<Longrightarrow> submodule_at g t records file t2 \<Longrightarrow> t1 = t2"
  unfolding submodule_at_def by (elim exE conjE disjE) simp_all

lemma reached_placed: "reached (visit_tree g d) {root_tree repository root_id} t \<Longrightarrow> placed g repository root_id t"
proof (induction rule: reached.induct)
  case (reached_found t out found t')
  then obtain records where records: "tree_records g t = Ok records"
    and found: "list_all2 (submodule_at g t records) (gitlinks_of g t records) found"
    by (auto simp: visit_tree_Ok)
  from list_all2_right[OF found reached_found(3)] obtain link where
    "link \<in> set (gitlinks_of g t records)" "submodule_at g t records link t'" by blast
  then show ?case by (rule placed_submodule[OF reached_found(4) records])
qed (simp add: placed_root)

lemma placed_reached:
  assumes "placed g repository root_id t"
    and "\<And>n. reached (visit_tree g d) {root_tree repository root_id} n \<Longrightarrow> is_ok (visit_tree g d n)"
  shows "reached (visit_tree g d) {root_tree repository root_id} t"
  using assms(1)
proof induction
  case placed_root
  show ?case by (simp add: reached_start)
next
  case (placed_submodule t records link t')
  from assms(2)[OF placed_submodule(5)] obtain out found where visit: "visit_tree g d t = Ok (out, found)"
    by (cases "visit_tree g d t") auto
  with placed_submodule(2) have found: "list_all2 (submodule_at g t records) (gitlinks_of g t records) found"
    by (auto simp: visit_tree_Ok)
  from list_all2_left[OF found placed_submodule(3)] obtain t2 where "t2 \<in> set found" "submodule_at g t records link t2"
    by blast
  with submodule_at_unique[OF placed_submodule(4)] have "t' \<in> set found" by metis
  with placed_submodule(5) visit show ?case by (rule reached_found)
qed

lemma snapshot_run_Ok:
  assumes "snapshot_run g d repository root_id = Some (Ok es)"
  shows "placed g repository root_id t \<Longrightarrow> \<exists>out found. visit_tree g d t = Ok (out, found)"
    and "e \<in> set es \<longleftrightarrow> (\<exists>t out found. placed g repository root_id t \<and> visit_tree g d t = Ok (out, found) \<and> e \<in> set out)"
proof -
  note drained = snapshot.drain_Ok[OF assms[unfolded snapshot_run_def]]
  have ok: "is_ok (visit_tree g d n)" if "reached (visit_tree g d) {root_tree repository root_id} n" for n
    using drained(2) that by simp
  have same: "reached (visit_tree g d) {root_tree repository root_id} n \<longleftrightarrow> placed g repository root_id n" for n
    by (rule iffI, erule reached_placed, erule placed_reached, erule ok)
  show "\<exists>out found. visit_tree g d t = Ok (out, found)" if "placed g repository root_id t"
  proof -
    from that have "reached (visit_tree g d) {root_tree repository root_id} t" by (simp only: same)
    from ok[OF this] show ?thesis by (cases "visit_tree g d t") auto
  qed
  show "e \<in> set es \<longleftrightarrow> (\<exists>t out found. placed g repository root_id t \<and> visit_tree g d t = Ok (out, found) \<and> e \<in> set out)"
    using drained(1)[of e] by (simp add: same)
qed

lemma snapshot_entries:
  assumes "snapshot_run g d repository root_id = Some (Ok es)"
  shows "set es = {e. \<exists>t records file. placed g repository root_id t \<and> tree_records g t = Ok records \<and>
      file \<in> set (files_of g t records) \<and> covers_record g d t file e}"
proof -
  note run = snapshot_run_Ok[OF assms]
  have visited: "\<exists>records. tree_records g t = Ok records \<and>
      (\<exists>out found. visit_tree g d t = Ok (out, found) \<and> list_all2 (covers_record g d t) (files_of g t records) out \<and>
        list_all2 (submodule_at g t records) (gitlinks_of g t records) found)" if "placed g repository root_id t" for t
    using run(1)[OF that] by (auto simp: visit_tree_Ok)
  have member: "e \<in> set es \<longleftrightarrow> (\<exists>t records file. placed g repository root_id t \<and> tree_records g t = Ok records \<and>
      file \<in> set (files_of g t records) \<and> covers_record g d t file e)" for e
  proof
    assume "e \<in> set es"
    then obtain t out found where t: "placed g repository root_id t" "visit_tree g d t = Ok (out, found)" "e \<in> set out"
      using run(2) by blast
    then obtain records where "tree_records g t = Ok records" "list_all2 (covers_record g d t) (files_of g t records) out"
      by (auto simp: visit_tree_Ok)
    with t(1) list_all2_right[OF this(2) t(3)] show "\<exists>t records file. placed g repository root_id t \<and>
        tree_records g t = Ok records \<and> file \<in> set (files_of g t records) \<and> covers_record g d t file e" by blast
  next
    assume "\<exists>t records file. placed g repository root_id t \<and> tree_records g t = Ok records \<and>
      file \<in> set (files_of g t records) \<and> covers_record g d t file e"
    then obtain t records f where t: "placed g repository root_id t" "tree_records g t = Ok records"
      "f \<in> set (files_of g t records)" "covers_record g d t f e" by blast
    from visited[OF t(1)] t(2) obtain out found where visit: "visit_tree g d t = Ok (out, found)"
      and out: "list_all2 (covers_record g d t) (files_of g t records) out" by auto
    from list_all2_left[OF out t(3)] obtain e' where "e' \<in> set out" "covers_record g d t f e'" by blast
    with t(4) have "e \<in> set out" by (auto simp: covers_record_def)
    with t(1) visit run(2) show "e \<in> set es" by blast
  qed
  then show ?thesis by blast
qed

lemma snapshot_visited:
  assumes "snapshot_run g d repository root_id = Some (Ok es)" "placed g repository root_id t"
  obtains records out found where "tree_records g t = Ok records"
    "list_all2 (covers_record g d t) (files_of g t records) out"
    "list_all2 (submodule_at g t records) (gitlinks_of g t records) found"
  using snapshot_run_Ok(1)[OF assms] by (auto simp: visit_tree_Ok)

text \<open>C19: a snapshot omits nothing and invents nothing: its entries are exactly the entries of the file records of
  the trees placed in it, the root's and those of the submodules reached through gitlinks, the stamp's own artifacts
  at the root apart; every such record has an entry and every gitlink a resolved submodule.\<close>

theorem snapshot_exact:
  assumes "snapshot_run g d repository root_id = Some (Ok es)"
  shows "set es = {e. \<exists>t records file. placed g repository root_id t \<and> tree_records g t = Ok records \<and>
      file \<in> set (files_of g t records) \<and> covers_record g d t file e} \<and>
    (\<forall>t. placed g repository root_id t \<longrightarrow> (\<exists>records. tree_records g t = Ok records \<and>
      (\<forall>file \<in> set (files_of g t records). \<exists>e \<in> set es. covers_record g d t file e) \<and>
      (\<forall>link \<in> set (gitlinks_of g t records). \<exists>t'. submodule_at g t records link t' \<and> placed g repository root_id t')))"
proof -
  have complete: "\<exists>records. tree_records g t = Ok records \<and>
      (\<forall>file \<in> set (files_of g t records). \<exists>e \<in> set es. covers_record g d t file e) \<and>
      (\<forall>link \<in> set (gitlinks_of g t records). \<exists>t'. submodule_at g t records link t' \<and> placed g repository root_id t')"
    if t: "placed g repository root_id t" for t
  proof -
    obtain records out found where records: "tree_records g t = Ok records"
      and out: "list_all2 (covers_record g d t) (files_of g t records) out"
      and found: "list_all2 (submodule_at g t records) (gitlinks_of g t records) found"
      using snapshot_visited[OF assms t] .
    have "\<exists>e \<in> set es. covers_record g d t f e" if "f \<in> set (files_of g t records)" for f
      using list_all2_left[OF out that] t records that unfolding snapshot_entries[OF assms] by blast
    moreover have "\<exists>t'. submodule_at g t records link t' \<and> placed g repository root_id t'"
      if "link \<in> set (gitlinks_of g t records)" for link
      using list_all2_left[OF found that] placed_submodule[OF t records that] by blast
    ultimately show ?thesis using records by blast
  qed
  from snapshot_entries[OF assms] complete show ?thesis by blast
qed

section \<open>The enumeration ends\<close>

definition chain_ids :: "'r gix \<Rightarrow> 'r \<Rightarrow> object_id \<Rightarrow> object_id set" where
  "chain_ids g repository root_id = {rt_tree_id t |t. placed g repository root_id t}"

lemma placed_ancestors:
  "placed g repository root_id t \<Longrightarrow> distinct (rt_ancestor_tree_ids t) \<and> set (rt_ancestor_tree_ids t) \<subseteq> chain_ids g repository root_id"
proof (induction rule: placed.induct)
  case placed_root
  have "root_id \<in> chain_ids g repository root_id"
    using placed.placed_root[of g repository root_id] by (force simp: chain_ids_def root_tree_def)
  then show ?case by (simp add: root_tree_def)
next
  case (placed_submodule t records link t')
  have "placed g repository root_id t'" by (rule placed.placed_submodule[OF placed_submodule(1-4)])
  then have "rt_tree_id t' \<in> chain_ids g repository root_id" by (auto simp: chain_ids_def)
  with placed_submodule(4,5) show ?case by (auto simp: submodule_at_def)
qed

lemma visit_tree_found:
  assumes "placed g repository root_id t" "visit_tree g d t = Ok (out, found)" "t' \<in> set found"
  shows "placed g repository root_id t' \<and> length (rt_ancestor_tree_ids t') = Suc (length (rt_ancestor_tree_ids t))"
proof -
  obtain records where records: "tree_records g t = Ok records"
    and found: "list_all2 (submodule_at g t records) (gitlinks_of g t records) found"
    using assms(2) by (auto simp: visit_tree_Ok)
  from list_all2_right[OF found assms(3)] obtain link where
    "link \<in> set (gitlinks_of g t records)" "submodule_at g t records link t'" by blast
  with placed_submodule[OF assms(1) records this] show ?thesis by (auto simp: submodule_at_def)
qed

interpretation snapshot_walk: ranked_worklist "traverse_repository_tree g d" "visit_tree g d"
    "\<lambda>t. placed g repository root_id t \<and> finite (chain_ids g repository root_id)"
    "\<lambda>t. card (chain_ids g repository root_id) - length (rt_ancestor_tree_ids t)" for g d repository root_id
proof unfold_locales
  fix t t' out found
  assume t: "placed g repository root_id t \<and> finite (chain_ids g repository root_id)"
    and found: "visit_tree g d t = Ok (out, found)" "t' \<in> set found"
  from visit_tree_found[OF _ found] t
  have t': "placed g repository root_id t'" "length (rt_ancestor_tree_ids t') = Suc (length (rt_ancestor_tree_ids t))" by auto
  then show "placed g repository root_id t' \<and> finite (chain_ids g repository root_id)" using t by simp
  have "length (rt_ancestor_tree_ids t') \<le> card (chain_ids g repository root_id)"
    using placed_ancestors[OF t'(1)] t by (metis card_mono distinct_card)
  with t'(2) show "card (chain_ids g repository root_id) - length (rt_ancestor_tree_ids t')
      < card (chain_ids g repository root_id) - length (rt_ancestor_tree_ids t)" by simp
qed

text \<open>C39: the enumeration ends whatever the gitlinks are, even where the trees of several repositories refer to
  each other in a cycle, as long as the object stores are finite: only finitely many tree ids can be placed.\<close>

theorem snapshot_ends:
  assumes "finite (chain_ids g repository root_id)"
  shows "\<exists>result. snapshot_run g d repository root_id = Some result"
  unfolding snapshot_run_def by (rule snapshot_walk.drain_ends) (use assms placed_root in auto)

section \<open>The stamp's own artifacts do not matter\<close>

definition same_content :: "'r gix \<Rightarrow> 'r repository_tree \<Rightarrow> 'r repository_tree \<Rightarrow> bool" where
  "same_content g t t' \<longleftrightarrow> rt_repository t = rt_repository t' \<and> rt_path_prefix t = rt_path_prefix t' \<and>
     (rt_tree_id t = rt_tree_id t' \<or>
      rt_path_prefix t = [] \<and> (\<exists>records records'. tree_records g t = Ok records \<and> tree_records g t' = Ok records' \<and>
        filter (\<lambda>file. \<not> is_excluded_from_root (fr_filepath file)) records =
        filter (\<lambda>file. \<not> is_excluded_from_root (fr_filepath file)) records'))"

lemma find_filter: "(\<And>x. P x \<Longrightarrow> Q x) \<Longrightarrow> List.find P (filter Q xs) = List.find P xs"
  by (induction xs) auto

lemma gitmodules_included: "\<not> is_excluded_from_root ''.gitmodules''"
  by (simp add: is_excluded_from_root_def layout_defs)

lemma same_content_records:
  assumes "same_content g t t'" "tree_records g t = Ok records" "tree_records g t' = Ok records'"
  shows "files_of g t records = files_of g t' records'" "gitlinks_of g t records = gitlinks_of g t' records'"
    "parse_gitmodules g (rt_repository t) records = parse_gitmodules g (rt_repository t') records'"
proof -
  let ?kept = "filter (\<lambda>file. \<not> is_excluded_from_root (fr_filepath file))"
  have place: "rt_repository t = rt_repository t'" "rt_path_prefix t = rt_path_prefix t'"
    using assms(1) by (simp_all add: same_content_def)
  have records: "records = records' \<or> rt_path_prefix t = [] \<and> ?kept records = ?kept records'"
    using assms by (auto simp: same_content_def tree_records_def)
  have files: "files_of g t rs = files_of g t (?kept rs)" "gitlinks_of g t rs = gitlinks_of g t (?kept rs)"
    if "rt_path_prefix t = []" for rs
    using that by (auto simp: files_of_def gitlinks_of_def included_def intro!: filter_cong)
  have same_place: "files_of g t rs = files_of g t' rs" "gitlinks_of g t rs = gitlinks_of g t' rs" for rs
    using place by (simp_all add: files_of_def gitlinks_of_def included_def)
  have modules: "parse_gitmodules g r rs = parse_gitmodules g r (?kept rs)" for r rs
    unfolding parse_gitmodules_def
    by (subst find_filter) (auto simp: gitmodules_included)
  show "files_of g t records = files_of g t' records'" "gitlinks_of g t records = gitlinks_of g t' records'"
    using records files same_place by metis+
  show "parse_gitmodules g (rt_repository t) records = parse_gitmodules g (rt_repository t') records'"
    using records modules place by metis
qed

lemma same_content_visit:
  assumes same: "same_content g t t'" and "visit_tree g d t = Ok (out, found)" "visit_tree g d t' = Ok (out', found')"
  shows "out = out' \<and> list_all2 (same_content g) found found'"
proof -
  obtain records records' where records: "tree_records g t = Ok records" "tree_records g t' = Ok records'"
    and out: "list_all2 (covers_record g d t) (files_of g t records) out"
      "list_all2 (covers_record g d t') (files_of g t' records') out'"
    and found: "list_all2 (submodule_at g t records) (gitlinks_of g t records) found"
      "list_all2 (submodule_at g t' records') (gitlinks_of g t' records') found'"
    using assms(2,3) by (auto simp: visit_tree_Ok)
  note R = same_content_records[OF same records]
  have place: "rt_repository t = rt_repository t'" "rt_path_prefix t = rt_path_prefix t'"
    using same by (simp_all add: same_content_def)
  have covers: "covers_record g d t = covers_record g d t'"
    using place by (simp add: covers_record_def fun_eq_iff)
  have "e1 = e2" if "covers_record g d t f e1" "covers_record g d t f e2" for f e1 e2
    using that by (auto simp: covers_record_def)
  then have "list_all2 (=) out out'"
    using out unfolding R(1) covers by (auto simp: list_all2_conv_all_nth)
  then have "out = out'" by (simp add: list.rel_eq)
  moreover have "same_content g t1 t2" if "submodule_at g t records f t1" "submodule_at g t' records' f t2" for f t1 t2
    using that R(3) place unfolding submodule_at_def same_content_def by (elim exE conjE disjE) simp_all
  then have "list_all2 (same_content g) found found'"
    using found unfolding R(2) by (auto simp: list_all2_conv_all_nth)
  ultimately show ?thesis by simp
qed

lemma same_content_drain:
  assumes "drain step sink pending = Some (Ok es)" "drain step sink pending' = Some (Ok es')"
    and "step = traverse_repository_tree g d" "list_all2 (same_content g) pending pending'"
  shows "es = es'"
  using assms
proof (induction "Ok es :: (snapshot_error, entry list) result" arbitrary: pending' rule: drain.raw_induct[rotated, consumes 1, case_names body])
  case (body drain' step sink pending)
  show ?case
  proof (cases pending)
    case Nil
    with body show ?thesis by simp
  next
    case (Cons t rest)
    with body(5) obtain t' rest' where pending': "pending' = t' # rest'" and same: "same_content g t t'"
      "list_all2 (same_content g) rest rest'" by (auto simp: list_all2_Cons1)
    obtain out found where visit: "visit_tree g d t = Ok (out, found)"
      and first: "drain' step (sink @ out) (rest @ found) = Some (Ok es)"
      using body(2,4) Cons by (auto simp: snapshot.step_appends and_then_def split: sum.splits)
    obtain out' found' where visit': "visit_tree g d t' = Ok (out', found')"
      and second: "drain step (sink @ out') (rest' @ found') = Some (Ok es')"
      using body(3,4) pending' by (auto simp: drain_Cons snapshot.step_appends and_then_def split: sum.splits)
    have step: "out = out'" "list_all2 (same_content g) found found'"
      using same_content_visit[OF same(1) visit visit'] by auto
    show ?thesis
      using body(1)[OF first second[folded step(1)] body(4)] same(2) step(2) by (simp add: list_all2_appendI)
  qed
qed

text \<open>Sealing does not change what was sealed: when the root trees of two snapshots differ only in the manifest
  and the tokens of the stamp, the snapshots list the same entries in the same order.\<close>

theorem snapshot_ignores_stamp_artifacts:
  assumes "snapshot_run g d repository before = Some (Ok es)" "snapshot_run g d repository after = Some (Ok es')"
    and "tree_records g (root_tree repository before) = Ok records" "tree_records g (root_tree repository after) = Ok records'"
    and "filter (\<lambda>file. \<not> is_excluded_from_root (fr_filepath file)) records =
         filter (\<lambda>file. \<not> is_excluded_from_root (fr_filepath file)) records'"
  shows "es = es'"
proof -
  have "same_content g (root_tree repository before) (root_tree repository after)"
    using assms(3-5) by (auto simp: same_content_def root_tree_def)
  then have "list_all2 (same_content g) [root_tree repository before] [root_tree repository after]" by simp
  from same_content_drain[OF assms(1,2)[unfolded snapshot_run_def] refl this] show ?thesis .
qed

section \<open>Submodules stay in the module store\<close>

text \<open>Where a path of components leads from a directory, given as the directories above it.\<close>

fun walk :: "string list \<Rightarrow> string list \<Rightarrow> string list" where
  "walk directory [] = directory"
| "walk directory (component # rest) =
     (if component = [] \<or> component = ''.'' then walk directory rest
      else if component = ''..'' then walk (butlast directory) rest
      else walk (directory @ [component]) rest)"

lemma walk_append: "walk directory (xs @ ys) = walk (walk directory xs) ys"
  by (induction directory xs rule: walk.induct) auto

lemma walk_down:
  "list_all (\<lambda>component. component \<noteq> [] \<and> component \<noteq> ''.'' \<and> component \<noteq> ''..'') xs \<Longrightarrow> walk directory xs = directory @ xs"
  by (induction xs arbitrary: directory) auto

lemma module_path:
  assumes "is_safe_module_name name"
  shows "path_join (path_join common ''modules'') name = path_join common ''modules'' @ CHR ''/'' # name"
proof -
  have "path_join common ''modules'' = common @ ''modules'' \<or> path_join common ''modules'' = common @ ''/modules''"
    by (auto simp: path_join_def starts_with_iff)
  then have "\<not> ends_with ''/'' (path_join common ''modules'')" "path_join common ''modules'' \<noteq> []"
    by (auto simp: ends_with_def strip_suffix_def)
  with assms show ?thesis by (simp add: path_join_def[of _ name] is_safe_module_name_def)
qed

text \<open>C40: a submodule opened from the module store lies strictly below it, whatever name a hostile
  \<open>.gitmodules\<close> gives it: the path that is opened never leaves the store.\<close>

theorem module_store_is_not_left:
  assumes "open_module_store_repository g parent name = Ok repository"
  shows "\<exists>path inside. gx_open g path = Ok repository \<and> inside \<noteq> [] \<and>
    walk [] (split_on (CHR ''/'') path) =
      walk [] (split_on (CHR ''/'') (path_join (gx_common_dir g parent) ''modules'')) @ inside"
proof -
  let ?store = "path_join (gx_common_dir g parent) ''modules''"
  from assms have safe: "is_safe_module_name name" and opened: "gx_open g (path_join ?store name) = Ok repository"
    by (auto simp: open_module_store_repository_def split: if_splits)
  have "walk [] (split_on (CHR ''/'') (path_join ?store name)) =
      walk [] (split_on (CHR ''/'') ?store) @ split_on (CHR ''/'') name"
    unfolding module_path[OF safe] split_on_join walk_append
    using safe by (intro walk_down) (simp add: is_safe_module_name_def)
  with opened show ?thesis by (metis split_on_not_Nil)
qed

section \<open>A concrete repository\<close>

text \<open>A stamped root with one file and one submodule, which the module store of the root holds as repository 1.\<close>

definition toy_objects :: "nat \<Rightarrow> git_repository" where
  "toy_objects r =
     \<lparr>gr_find_commit = \<lambda>c. if c = ''c9'' then Ok \<lparr>gc_tree = Err [], gc_tree_id = Ok ''t9'', gc_parents = []\<rparr> else Err [],
      gr_find_tree = \<lambda>t. Ok \<lparr>gt_lookup = \<lambda>_. Ok None, gt_iter = [],
        gt_files = Ok (if t = ''t9'' then [\<lparr>fr_mode = 33261, fr_filepath = ''run'', fr_oid = ''b2''\<rparr>]
          else [\<lparr>fr_mode = 33188, fr_filepath = ''.gitmodules'', fr_oid = ''b0''\<rparr>,
                \<lparr>fr_mode = 57344, fr_filepath = ''sub'', fr_oid = ''c9''\<rparr>] @
               (if t = ''t2'' then [\<lparr>fr_mode = 33188, fr_filepath = MANIFEST_PATH, fr_oid = ''m''\<rparr>] else []))\<rparr>,
      gr_find_blob = \<lambda>b. Ok b, gr_is_tree = \<lambda>mode. mode = 16384, gr_is_blob = \<lambda>mode. mode = 33188, gr_display = \<lambda>bs. bs\<rparr>"

definition toy_gix :: "nat gix" where
  "toy_gix = \<lparr>gx_objects = toy_objects, gx_common_dir = \<lambda>_. ''/git'', gx_workdir = \<lambda>_. None,
     gx_open = \<lambda>path. if path = ''/git/modules/sub'' then Ok 1 else Err ''not found'',
     gx_modules = \<lambda>_. Ok Some\<rparr>"

lemmas snapshot_eval = snapshot_run_def drain_Cons traverse_repository_tree_def tree_records_def root_tree_def
  screen_record_def read_tree_entry_def decode_file_mode_def GITLINK_MODE_def is_excluded_from_root_def layout_defs
  parse_gitmodules_def resolve_gitlink_def open_submodule_def open_module_store_repository_def is_safe_module_name_def
  path_join_def join_path_def starts_with_def ends_with_def strip_suffix_def toy_gix_def toy_objects_def

definition toy_entries :: "digests \<Rightarrow> entry list" where
  "toy_entries d = [\<lparr>entry_path = ''.gitmodules'', entry_mode = Regular, entry_size = 2, content_hashes = hash_payload d ''b0''\<rparr>,
     \<lparr>entry_path = ''sub/run'', entry_mode = Executable, entry_size = 2, content_hashes = hash_payload d ''b2''\<rparr>]"

lemma toy_snapshot: "root_id \<in> {''t1'', ''t2''} \<Longrightarrow> snapshot_run toy_gix d 0 root_id = Some (Ok (toy_entries d))"
  by (auto simp: snapshot_eval toy_entries_def Let_def)

lemma toy_chain: "chain_ids toy_gix 0 ''t1'' \<subseteq> {''t1'', ''t9''}"
proof -
  have "rt_tree_id t \<in> {''t1'', ''t9''}" if "placed toy_gix 0 ''t1'' t" for t
    using that
  proof induction
    case placed_root
    then show ?case by (simp add: root_tree_def)
  next
    case (placed_submodule t records link t')
    from placed_submodule(4) show ?case
      by (auto simp: submodule_at_def toy_gix_def toy_objects_def split: if_splits)
  qed
  then show ?thesis by (auto simp: chain_ids_def)
qed

lemma snapshot_exact_witness:
  "\<exists>t records file. placed toy_gix 0 ''t1'' t \<and> tree_records toy_gix t = Ok records \<and> file \<in> set (files_of toy_gix t records) \<and>
     covers_record toy_gix toy_digests t file
       \<lparr>entry_path = ''sub/run'', entry_mode = Executable, entry_size = 2, content_hashes = hash_payload toy_digests ''b2''\<rparr>"
proof -
  have "snapshot_run toy_gix toy_digests 0 ''t1'' = Some (Ok (toy_entries toy_digests))" by (simp add: toy_snapshot)
  from conjunct1[OF snapshot_exact[OF this]]
  have "e \<in> {e. \<exists>t records file. placed toy_gix 0 ''t1'' t \<and> tree_records toy_gix t = Ok records \<and>
      file \<in> set (files_of toy_gix t records) \<and> covers_record toy_gix toy_digests t file e}"
    if "e \<in> set (toy_entries toy_digests)" for e using that by simp
  then show ?thesis by (simp add: toy_entries_def)
qed

lemma snapshot_ends_witness: "\<exists>result. snapshot_run toy_gix toy_digests 0 ''t1'' = Some result"
  by (rule snapshot_ends) (rule finite_subset[OF toy_chain], simp)

lemma snapshot_ignores_stamp_artifacts_witness:
  "snapshot_run toy_gix toy_digests 0 ''t1'' = Some (Ok (toy_entries toy_digests)) \<and>
     toy_entries toy_digests = toy_entries toy_digests"
proof -
  have "snapshot_run toy_gix toy_digests 0 ''t1'' = Some (Ok (toy_entries toy_digests))"
    "snapshot_run toy_gix toy_digests 0 ''t2'' = Some (Ok (toy_entries toy_digests))"
    by (simp_all add: toy_snapshot)
  with snapshot_ignores_stamp_artifacts[OF this] show ?thesis
    by (simp add: tree_records_def root_tree_def toy_gix_def toy_objects_def is_excluded_from_root_def layout_defs)
qed

lemma module_store_is_not_left_witness:
  "\<exists>path inside. gx_open toy_gix path = Ok 1 \<and> inside \<noteq> [] \<and>
     walk [] (split_on (CHR ''/'') path) = walk [] (split_on (CHR ''/'') (path_join ''/git'' ''modules'')) @ inside"
proof -
  have "open_module_store_repository toy_gix 0 ''sub'' = Ok 1" by (simp add: snapshot_eval)
  from module_store_is_not_left[OF this] show ?thesis by (simp add: toy_gix_def)
qed

end
