(* ===== verification/Acquire.thy ===== *)
theory Acquire
  imports Token Config
begin

text \<open>
  \<open>crates/tydence/src/stamp/acquire.rs\<close>: one fully verified token per site a profile selects. An unmodified
  site's failure aborts, a \<open>ContinueOnError\<close> site's failure is reported, and zero tokens never seal. The closures
  of the caller are a parameter, operations on the world they mutate.
\<close>

record acquired_token =
  at_site_name :: string
  at_bytes :: bytes

text \<open>The boxed cause of a site's failure is one of three errors.\<close>

datatype site_cause = AnchorFailed string | SupplementFailed string | TokenRefused token_error

record site_failure =
  sf_site_name :: string
  sf_cause :: site_cause

record acquisition =
  acq_tokens :: "acquired_token list"
  acq_warnings :: "site_failure list"

datatype acquire_error =
  UnknownProfile string
  | UnknownSelectedSite string
  | DuplicateSelection string
  | SiteFailed site_failure
  | NoValidTokens "site_failure list"

fun site_cause_display :: "(system_time \<Rightarrow> string) \<Rightarrow> site_cause \<Rightarrow> string" where
  "site_cause_display debug_time (AnchorFailed cause) = cause"
| "site_cause_display debug_time (SupplementFailed cause) = cause"
| "site_cause_display debug_time (TokenRefused cause) = token_error_display debug_time cause"

definition site_failure_display :: "(string \<Rightarrow> string) \<Rightarrow> (system_time \<Rightarrow> string) \<Rightarrow> site_failure \<Rightarrow> string" where
  "site_failure_display debug_str debug_time failure =
     ''site '' @ debug_str (sf_site_name failure) @ '' yielded no sealable token: '' @
     site_cause_display debug_time (sf_cause failure)"

fun acquire_error_display :: "(string \<Rightarrow> string) \<Rightarrow> (system_time \<Rightarrow> string) \<Rightarrow> acquire_error \<Rightarrow> string" where
  "acquire_error_display debug_str debug_time (UnknownProfile profile_name) =
     ''profile '' @ debug_str profile_name @ '' is not defined in the configuration''"
| "acquire_error_display debug_str debug_time (UnknownSelectedSite site_name) =
     ''the selected site '' @ debug_str site_name @ '' is not defined in the configuration''"
| "acquire_error_display debug_str debug_time (DuplicateSelection site_name) =
     ''the site '' @ debug_str site_name @ '' is selected more than once''"
| "acquire_error_display debug_str debug_time (SiteFailed failure) =
     ''the stamp is aborted: '' @ site_failure_display debug_str debug_time failure"
| "acquire_error_display debug_str debug_time (NoValidTokens failures) =
     ''no selected site yielded a valid token'' @
     concat (map (\<lambda>failure. '' ['' @ site_failure_display debug_str debug_time failure @ '']'') failures)"

record acquire_inputs =
  ai_config :: config
  ai_profile_name :: string
  ai_manifest_bytes :: bytes
  ai_trust :: trust_data

text \<open>\<open>make_anchor\<close>, the anchor's \<open>acquire_token\<close> and \<open>supplement_trust\<close>, on the world \<open>'w\<close> they act on.\<close>

record ('w, 'a) acquire_environment =
  make_anchor :: "'w \<Rightarrow> string \<Rightarrow> site \<Rightarrow> 'a \<times> 'w"
  anchor_acquires :: "'w \<Rightarrow> 'a \<Rightarrow> bytes \<Rightarrow> (string, bytes) result \<times> 'w"
  supplement_trust :: "'w \<Rightarrow> string \<Rightarrow> bytes \<Rightarrow> (string, bytes list) result \<times> 'w"

section \<open>Resolving the selections\<close>

definition resolve_selection ::
  "config \<Rightarrow> (use_site \<times> site) list \<Rightarrow> use_site \<Rightarrow> (acquire_error, (use_site \<times> site) list) result" where
  "resolve_selection cfg resolved selection =
     (case sites cfg (us_site_name selection) of
        None \<Rightarrow> Err (UnknownSelectedSite (us_site_name selection))
      | Some selected_site \<Rightarrow>
          if list_ex (\<lambda>(prior, _). us_site_name prior = us_site_name selection) resolved
          then Err (DuplicateSelection (us_site_name selection))
          else Ok (resolved @ [(selection, selected_site)]))"

definition resolve_selections :: "acquire_inputs \<Rightarrow> (acquire_error, (use_site \<times> site) list) result" where
  "resolve_selections inputs =
     and_then (ok_or (UnknownProfile (ai_profile_name inputs)) (profiles (ai_config inputs) (ai_profile_name inputs)))
       (\<lambda>chosen. try_fold (resolve_selection (ai_config inputs)) [] (selections chosen))"

section \<open>One site\<close>

definition sealing_basis :: "acquire_inputs \<Rightarrow> bytes list \<Rightarrow> verification_basis" where
  "sealing_basis inputs supplemented_crls =
     \<lparr>vb_manifest_bytes = ai_manifest_bytes inputs,
      vb_trust = (ai_trust inputs)\<lparr>td_crls := td_crls (ai_trust inputs) @ supplemented_crls\<rparr>\<rparr>"

text \<open>The closure \<open>sealable_token\<close>.\<close>

definition sealable_token ::
  "pki \<Rightarrow> cms \<Rightarrow> ('w, 'a) acquire_environment \<Rightarrow> acquire_inputs \<Rightarrow> 'w \<Rightarrow> string \<Rightarrow> 'a
    \<Rightarrow> (site_cause, bytes) result \<times> 'w" where
  "sealable_token p c env inputs w site_name anchor =
     (case anchor_acquires env w anchor (ai_manifest_bytes inputs) of
        (Err acquire_error, w) \<Rightarrow> (Err (AnchorFailed acquire_error), w)
      | (Ok token_bytes, w) \<Rightarrow>
          (case supplement_trust env w site_name token_bytes of
             (Err cause, w) \<Rightarrow> (Err (SupplementFailed cause), w)
           | (Ok supplemented_crls, w) \<Rightarrow>
               (and_then (map_err TokenRefused (verify_token p c token_bytes (sealing_basis inputs supplemented_crls)))
                  (\<lambda>_. Ok token_bytes), w)))"

text \<open>The loop over the selections, on the world, the tokens and the warnings.\<close>

fun acquire_sites ::
  "pki \<Rightarrow> cms \<Rightarrow> ('w, 'a) acquire_environment \<Rightarrow> acquire_inputs \<Rightarrow> 'w \<Rightarrow> acquired_token list \<Rightarrow> site_failure list
    \<Rightarrow> (use_site \<times> site) list \<Rightarrow> (acquire_error, acquired_token list \<times> site_failure list) result \<times> 'w" where
  "acquire_sites p c env inputs w tokens warnings [] = (Ok (tokens, warnings), w)"
| "acquire_sites p c env inputs w tokens warnings ((selection, selected_site) # rest) =
     (let site_name = us_site_name selection;
          (anchor, w) = make_anchor env w site_name selected_site
      in case sealable_token p c env inputs w site_name anchor of
           (Ok token_bytes, w) \<Rightarrow>
             acquire_sites p c env inputs w (tokens @ [\<lparr>at_site_name = site_name, at_bytes = token_bytes\<rparr>]) warnings rest
         | (Err cause, w) \<Rightarrow>
             (let failure = \<lparr>sf_site_name = site_name, sf_cause = cause\<rparr>
              in if \<not> continues_on_error selection then (Err (SiteFailed failure), w)
                 else acquire_sites p c env inputs w tokens (warnings @ [failure]) rest))"

definition acquire_run ::
  "pki \<Rightarrow> cms \<Rightarrow> ('w, 'a) acquire_environment \<Rightarrow> acquire_inputs \<Rightarrow> 'w \<Rightarrow> (acquire_error, acquisition) result \<times> 'w" where
  "acquire_run p c env inputs w =
     (case resolve_selections inputs of
        Err e \<Rightarrow> (Err e, w)
      | Ok resolved \<Rightarrow>
          (case acquire_sites p c env inputs w [] [] resolved of
             (Err e, w) \<Rightarrow> (Err e, w)
           | (Ok (tokens, warnings), w) \<Rightarrow>
               (if tokens = [] then Err (NoValidTokens warnings)
                else Ok \<lparr>acq_tokens = tokens, acq_warnings = warnings\<rparr>, w)))"

section \<open>What an acquisition holds\<close>

lemma resolve_selection_Ok:
  "resolve_selection cfg resolved s = Ok final \<longleftrightarrow> (\<exists>x. sites cfg (us_site_name s) = Some x \<and>
     us_site_name s \<notin> us_site_name ` fst ` set resolved \<and> final = resolved @ [(s, x)])"
proof -
  have "list_ex (\<lambda>(prior, _). us_site_name prior = us_site_name s) resolved \<longleftrightarrow>
      us_site_name s \<in> us_site_name ` fst ` set resolved"
    by (force simp: list_ex_iff image_iff)
  then show ?thesis by (auto simp: resolve_selection_def split: option.splits)
qed

lemma resolve_selections_fold:
  "try_fold (resolve_selection cfg) resolved chosen = Ok final \<Longrightarrow>
     (\<exists>more. final = resolved @ more \<and> map fst more = chosen \<and> (\<forall>(s, x) \<in> set more. sites cfg (us_site_name s) = Some x)) \<and>
     distinct (map us_site_name chosen) \<and>
     (\<forall>s \<in> set chosen. us_site_name s \<notin> us_site_name ` fst ` set resolved)"
proof (induction chosen arbitrary: resolved)
  case (Cons s chosen)
  then obtain x where x: "sites cfg (us_site_name s) = Some x" "us_site_name s \<notin> us_site_name ` fst ` set resolved"
    and rest: "try_fold (resolve_selection cfg) (resolved @ [(s, x)]) chosen = Ok final"
    by (auto simp: result_simps resolve_selection_Ok)
  from Cons.IH[OF rest] obtain more where more: "final = (resolved @ [(s, x)]) @ more" "map fst more = chosen"
    "\<forall>(s, x) \<in> set more. sites cfg (us_site_name s) = Some x" and distinct: "distinct (map us_site_name chosen)"
    and fresh: "\<forall>s' \<in> set chosen. us_site_name s' \<notin> us_site_name ` fst ` set (resolved @ [(s, x)])" by blast
  have "\<exists>more. final = resolved @ more \<and> map fst more = s # chosen \<and> (\<forall>(s, x) \<in> set more. sites cfg (us_site_name s) = Some x)"
    using more x by (intro exI[of _ "(s, x) # more"]) simp
  with distinct fresh x show ?case by auto
qed simp

lemma resolve_selections_Ok:
  "resolve_selections inputs = Ok resolved \<Longrightarrow>
     \<exists>chosen. profiles (ai_config inputs) (ai_profile_name inputs) = Some chosen \<and>
        map fst resolved = selections chosen \<and> distinct (map us_site_name (selections chosen)) \<and>
        (\<forall>(s, x) \<in> set resolved. sites (ai_config inputs) (us_site_name s) = Some x)"
  unfolding resolve_selections_def and_then_eq_Inr ok_or_eq_Inr
  by (elim exE conjE) (drule resolve_selections_fold, auto)

text \<open>A token that may be sealed: it verifies for the manifest under the base trust and some supplement.\<close>

definition sealable :: "pki \<Rightarrow> cms \<Rightarrow> acquire_inputs \<Rightarrow> bytes \<Rightarrow> bool" where
  "sealable p c inputs token_bytes \<longleftrightarrow>
     (\<exists>supplemented. is_ok (verify_token p c token_bytes (sealing_basis inputs supplemented)))"

lemma sealable_token_Ok: "sealable_token p c env inputs w n anchor = (Ok token_bytes, w') \<Longrightarrow> sealable p c inputs token_bytes"
  by (auto simp: sealable_token_def sealable_def result_simps is_ok_iff split: prod.splits sum.splits)

text \<open>Each selection, in order, ends as a token or, where it continues on error, as a warning.\<close>

fun sorted_out ::
  "pki \<Rightarrow> cms \<Rightarrow> acquire_inputs \<Rightarrow> use_site list \<Rightarrow> acquired_token list \<Rightarrow> site_failure list \<Rightarrow> bool" where
  "sorted_out p c inputs [] tokens warnings \<longleftrightarrow> tokens = [] \<and> warnings = []"
| "sorted_out p c inputs (s # rest) tokens warnings \<longleftrightarrow>
     (\<exists>t tokens'. tokens = t # tokens' \<and> at_site_name t = us_site_name s \<and> sealable p c inputs (at_bytes t) \<and>
        sorted_out p c inputs rest tokens' warnings) \<or>
     (continues_on_error s \<and> (\<exists>f warnings'. warnings = f # warnings' \<and> sf_site_name f = us_site_name s \<and>
        sorted_out p c inputs rest tokens warnings'))"

lemma acquire_sites_Ok:
  assumes "acquire_sites p c env inputs w tokens warnings resolved = (Ok (tokens', warnings'), w')"
  shows "\<exists>more_tokens more_warnings. tokens' = tokens @ more_tokens \<and> warnings' = warnings @ more_warnings \<and>
    sorted_out p c inputs (map fst resolved) more_tokens more_warnings"
  using assms
proof (induction resolved arbitrary: w tokens warnings)
  case (Cons selected resolved)
  obtain s x where selected: "selected = (s, x)" by (cases selected)
  obtain anchor w1 where anchor: "make_anchor env w (us_site_name s) x = (anchor, w1)" by (cases "make_anchor env w (us_site_name s) x")
  obtain outcome w2 where outcome: "sealable_token p c env inputs w1 (us_site_name s) anchor = (outcome, w2)"
    by (cases "sealable_token p c env inputs w1 (us_site_name s) anchor")
  show ?case
  proof (cases outcome)
    case (Inl cause)
    with Cons.prems have continues: "continues_on_error s"
      and rest: "acquire_sites p c env inputs w2 tokens (warnings @ [\<lparr>sf_site_name = us_site_name s, sf_cause = cause\<rparr>]) resolved =
        (Ok (tokens', warnings'), w')"
      by (simp_all add: selected anchor outcome Let_def split: if_splits)
    from Cons.IH[OF rest] continues show ?thesis by (fastforce simp: selected)
  next
    case (Inr token_bytes)
    with Cons.prems have rest: "acquire_sites p c env inputs w2 (tokens @ [\<lparr>at_site_name = us_site_name s, at_bytes = token_bytes\<rparr>])
        warnings resolved = (Ok (tokens', warnings'), w')"
      by (simp add: selected anchor outcome)
    have "sealable p c inputs token_bytes" by (rule sealable_token_Ok[OF outcome[unfolded Inr]])
    with Cons.IH[OF rest] show ?thesis by (fastforce simp: selected)
  qed
qed simp

lemma sorted_out_sealable: "sorted_out p c inputs chosen tokens warnings \<Longrightarrow> t \<in> set tokens \<Longrightarrow> sealable p c inputs (at_bytes t)"
  by (induction chosen arbitrary: tokens warnings) auto

lemma sorted_out_warned:
  "sorted_out p c inputs chosen tokens warnings \<Longrightarrow> f \<in> set warnings \<Longrightarrow>
     \<exists>s \<in> set chosen. us_site_name s = sf_site_name f \<and> continues_on_error s"
  by (induction chosen arbitrary: tokens warnings) fastforce+

lemma sorted_out_names:
  "sorted_out p c inputs chosen tokens warnings \<Longrightarrow> distinct (map us_site_name chosen) \<Longrightarrow>
     map at_site_name tokens = filter (\<lambda>n. n \<notin> sf_site_name ` set warnings) (map us_site_name chosen)"
proof (induction chosen arbitrary: tokens warnings)
  case (Cons s chosen)
  from Cons.prems have fresh: "us_site_name s \<notin> us_site_name ` set chosen" and distinct: "distinct (map us_site_name chosen)"
    by auto
  from Cons.prems(1) consider
    t tokens' where "tokens = t # tokens'" "at_site_name t = us_site_name s" "sorted_out p c inputs chosen tokens' warnings"
  | f warnings' where "warnings = f # warnings'" "sf_site_name f = us_site_name s" "sorted_out p c inputs chosen tokens warnings'"
    by auto
  then show ?case
  proof cases
    case 1
    from sorted_out_warned[OF 1(3)] fresh have "us_site_name s \<notin> sf_site_name ` set warnings" by force
    with 1 Cons.IH[OF 1(3) distinct] show ?thesis by simp
  next
    case 2
    have "filter (\<lambda>n. n \<notin> sf_site_name ` set warnings) (map us_site_name chosen) =
        filter (\<lambda>n. n \<notin> sf_site_name ` set warnings') (map us_site_name chosen)"
      using 2 fresh by (intro filter_cong) (auto, metis image_eqI)
    with 2 Cons.IH[OF 2(3) distinct] show ?thesis by simp
  qed
qed simp

text \<open>C21: only verified tokens are sealed: a completed acquisition holds at least one token, each verifies for
  exactly these manifest bytes, they are those of the selected sites in selection order without the sites that are
  warned of, and only a site selected with \<open>ContinueOnError\<close> is warned of.\<close>

theorem acquisition_is_sealable:
  assumes "acquire_run p c env inputs w = (Ok acquired, w')"
  shows "acq_tokens acquired \<noteq> [] \<and>
    (\<exists>chosen. profiles (ai_config inputs) (ai_profile_name inputs) = Some chosen \<and>
       distinct (map us_site_name (selections chosen)) \<and>
       map at_site_name (acq_tokens acquired) =
         filter (\<lambda>n. n \<notin> sf_site_name ` set (acq_warnings acquired)) (map us_site_name (selections chosen)) \<and>
       (\<forall>f \<in> set (acq_warnings acquired). \<exists>s \<in> set (selections chosen).
          us_site_name s = sf_site_name f \<and> continues_on_error s)) \<and>
    (\<forall>t \<in> set (acq_tokens acquired). sealable p c inputs (at_bytes t))"
proof -
  obtain resolved where resolved: "resolve_selections inputs = Ok resolved"
    and run: "acquire_sites p c env inputs w [] [] resolved = (Ok (acq_tokens acquired, acq_warnings acquired), w')"
    and some: "acq_tokens acquired \<noteq> []"
    using assms by (auto simp: acquire_run_def split: sum.splits prod.splits if_splits)
  obtain chosen where chosen: "profiles (ai_config inputs) (ai_profile_name inputs) = Some chosen"
    "map fst resolved = selections chosen" "distinct (map us_site_name (selections chosen))"
    using resolve_selections_Ok[OF resolved] by blast
  have out: "sorted_out p c inputs (selections chosen) (acq_tokens acquired) (acq_warnings acquired)"
    using acquire_sites_Ok[OF run] chosen(2) by simp
  from some chosen sorted_out_names[OF out chosen(3)] sorted_out_warned[OF out] sorted_out_sealable[OF out]
  show ?thesis by blast
qed

section \<open>A concrete acquisition\<close>

text \<open>Two sites, of which the first fails and is tolerated.\<close>

definition toy_inputs :: acquire_inputs where
  "toy_inputs = \<lparr>ai_config = \<lparr>sites = [''a'' \<mapsto> \<lparr>site_url = ''https://a'', site_imprint = Sha256\<rparr>,
        ''b'' \<mapsto> \<lparr>site_url = ''https://b'', site_imprint = Sha256\<rparr>],
      profiles = [''p'' \<mapsto> \<lparr>selections = [\<lparr>us_site_name = ''a'', continues_on_error = True\<rparr>,
        \<lparr>us_site_name = ''b'', continues_on_error = False\<rparr>]\<rparr>]\<rparr>,
     ai_profile_name = ''p'', ai_manifest_bytes = ''m'', ai_trust = toy_trust\<rparr>"

definition toy_acquire :: "(unit, string) acquire_environment" where
  "toy_acquire = \<lparr>make_anchor = \<lambda>w n s. (n, w),
     anchor_acquires = \<lambda>w n m. (if n = ''a'' then Err ''unreachable'' else Ok toy_token, w),
     supplement_trust = \<lambda>w n t. (Ok [], w)\<rparr>"

lemma toy_sealing_basis: "sealing_basis toy_inputs [] = toy_basis ''m''"
  by (simp add: sealing_basis_def toy_inputs_def toy_basis_def toy_trust_def)

lemma toy_acquisition:
  "acquire_run toy_pki toy_cms toy_acquire toy_inputs () =
     (Ok \<lparr>acq_tokens = [\<lparr>at_site_name = ''b'', at_bytes = toy_token\<rparr>],
          acq_warnings = [\<lparr>sf_site_name = ''a'', sf_cause = AnchorFailed ''unreachable''\<rparr>]\<rparr>, ())"
proof -
  have "resolve_selections toy_inputs = Ok
      [(\<lparr>us_site_name = ''a'', continues_on_error = True\<rparr>, \<lparr>site_url = ''https://a'', site_imprint = Sha256\<rparr>),
       (\<lparr>us_site_name = ''b'', continues_on_error = False\<rparr>, \<lparr>site_url = ''https://b'', site_imprint = Sha256\<rparr>)]"
    by (simp add: resolve_selections_def resolve_selection_def toy_inputs_def)
  then show ?thesis
    by (simp add: acquire_run_def sealable_token_def toy_acquire_def toy_sealing_basis toy_token_verified)
qed

lemma acquisition_is_sealable_witness:
  "sealable toy_pki toy_cms toy_inputs toy_token"
  using acquisition_is_sealable[OF toy_acquisition] by simp

end
