(* ===== verification/Trust_Files.thy ===== *)
theory Trust_Files
  imports Files Tsp Claims
begin

text \<open>
  \<open>crates/tydence/src/trust.rs\<close> and \<open>deposits.rs\<close>: trust material in PEM files, and the LTV records a stamp left
  in the working tree. The PEM decoders of the crates \<open>x509_cert\<close> and \<open>pem_rfc7468\<close> are a parameter.
\<close>

section \<open>Decoding PEM\<close>

definition CRL_PEM_LABEL :: string where "CRL_PEM_LABEL = ''X509 CRL''"

datatype trust_error =
  TrustUnreadable string string
  | TrustMalformed string string
  | TrustEmpty string
  | TrustPanic  \<comment> \<open>not a variant of the source: a panic, which is never displayed\<close>

fun trust_error_display :: "(string \<Rightarrow> string) \<Rightarrow> trust_error \<Rightarrow> string" where
  "trust_error_display debug_str (TrustUnreadable path _) = ''cannot read trust material at '' @ debug_str path"
| "trust_error_display debug_str (TrustMalformed description _) = description @ '' is not valid PEM material''"
| "trust_error_display debug_str (TrustEmpty description) = description @ '' holds no certificate''"
| "trust_error_display debug_str TrustPanic = []"

text \<open>\<open>load_pem_chain\<close> strips line ends and panics when nothing is left: \<open>None\<close>.\<close>

record pem =
  load_pem_chain :: "bytes \<Rightarrow> (string, certificate list) result option"
  decode_pem :: "bytes \<Rightarrow> (string, string \<times> bytes) result"
  pem_debug :: "string \<Rightarrow> string"

definition certificates_from_pem :: "pem \<Rightarrow> cms \<Rightarrow> bytes \<Rightarrow> string \<Rightarrow> (trust_error, bytes list) result" where
  "certificates_from_pem pm c pem_bytes description =
     (if list_all is_ascii_whitespace pem_bytes then Err (TrustEmpty description)
      else
        and_then (ok_or TrustPanic (load_pem_chain pm pem_bytes)) (\<lambda>loaded.
        and_then (map_err (TrustMalformed description) loaded) (\<lambda>certificates.
        if certificates = [] then Err (TrustEmpty description)
        else traverse (\<lambda>certificate. map_err (TrustMalformed description) (certificate_to_der c certificate)) certificates)))"

definition crl_from_pem :: "pem \<Rightarrow> bytes \<Rightarrow> string \<Rightarrow> (trust_error, bytes) result" where
  "crl_from_pem pm pem_bytes description =
     and_then (map_err (TrustMalformed description) (decode_pem pm pem_bytes)) (\<lambda>(label, der_bytes).
     if label \<noteq> CRL_PEM_LABEL
     then Err (TrustMalformed description (''PEM label '' @ pem_debug pm label @ '' is not '' @ pem_debug pm CRL_PEM_LABEL))
     else Ok der_bytes)"

definition load_anchor_file :: "pem \<Rightarrow> cms \<Rightarrow> file_system \<Rightarrow> string \<Rightarrow> (trust_error, bytes list) result" where
  "load_anchor_file pm c fs path =
     and_then (map_err (\<lambda>e. TrustUnreadable (fs_display fs path) (io_text e)) (fs_read fs path)) (\<lambda>pem_bytes.
     certificates_from_pem pm c pem_bytes (fs_display fs path))"

section \<open>Deposits\<close>

datatype deposit_error = ForeignDeposit string | UnreadableDeposit string string

fun deposit_error_display :: "(string \<Rightarrow> string) \<Rightarrow> deposit_error \<Rightarrow> string" where
  "deposit_error_display debug_str (ForeignDeposit path) =
     debug_str path @ '' in the working tree is not laid out as an LTV record''"
| "deposit_error_display debug_str (UnreadableDeposit path _) = ''cannot read the deposit at '' @ debug_str path"

datatype deposit_kind = ChainDeposit | CrlDeposit

record record_layout =
  rl_kind :: deposit_kind
  rl_directory_path :: string
  rl_suffix :: string

definition RECORD_LAYOUTS :: "record_layout list" where
  "RECORD_LAYOUTS =
     [\<lparr>rl_kind = ChainDeposit, rl_directory_path = LTV_CERTS_PATH, rl_suffix = CHAIN_FILE_SUFFIX\<rparr>,
      \<lparr>rl_kind = CrlDeposit, rl_directory_path = LTV_CRLS_PATH, rl_suffix = CRL_FILE_SUFFIX\<rparr>]"

record deposit_record =
  dr_kind :: deposit_kind
  dr_repository_path :: string
  dr_pem_bytes :: bytes

text \<open>\<open>and_then(to_str)\<close> keeps the name only where it is UTF-8.\<close>

definition deposit_file_name :: "record_layout \<Rightarrow> string \<Rightarrow> string option" where
  "deposit_file_name layout path =
     (case path_file_name path of None \<Rightarrow> None
      | Some file_name \<Rightarrow>
          (case ok (from_utf8 file_name) of None \<Rightarrow> None
           | Some t \<Rightarrow> if ends_with (rl_suffix layout) t then Some t else None))"

definition read_deposit ::
  "file_system \<Rightarrow> record_layout \<Rightarrow> deposit_record list \<Rightarrow> string \<Rightarrow> (deposit_error, deposit_record list) result" where
  "read_deposit fs layout records path =
     and_then (ok_or (ForeignDeposit (fs_display fs path)) (deposit_file_name layout path)) (\<lambda>file_name.
     if \<not> fs_is_file fs path then Err (ForeignDeposit (fs_display fs path))
     else and_then (map_err (\<lambda>e. UnreadableDeposit (fs_display fs path) (io_text e)) (fs_read fs path)) (\<lambda>pem_bytes.
       Ok (records @ [\<lparr>dr_kind = rl_kind layout, dr_repository_path = rl_directory_path layout @ ''/'' @ file_name,
                       dr_pem_bytes = pem_bytes\<rparr>])))"

text \<open>Paths of one directory sort by their file names, as the paths' bytes do.\<close>

definition enumerate_directory ::
  "file_system \<Rightarrow> string \<Rightarrow> deposit_record list \<Rightarrow> record_layout \<Rightarrow> (deposit_error, deposit_record list) result" where
  "enumerate_directory fs worktree records layout =
     (let directory = path_join worktree (rl_directory_path layout)
      in case fs_read_dir fs directory of
           Err (NotFound _) \<Rightarrow> Ok records
         | Err e \<Rightarrow> Err (UnreadableDeposit (fs_display fs directory) (io_text e))
         | Ok entries \<Rightarrow>
             and_then (map_err (\<lambda>e. UnreadableDeposit (fs_display fs directory) (io_text e)) (traverse (\<lambda>path. path) entries))
               (\<lambda>paths. try_fold (read_deposit fs layout) records (sort paths)))"

definition enumerate_deposits :: "file_system \<Rightarrow> string \<Rightarrow> (deposit_error, deposit_record list) result" where
  "enumerate_deposits fs worktree = try_fold (enumerate_directory fs worktree) [] RECORD_LAYOUTS"

section \<open>What decodes\<close>

text \<open>The guard before \<open>load_pem_chain\<close> keeps the panic of \<open>x509_cert\<close> on empty input away.\<close>

lemma certificates_from_pem_no_panic:
  assumes panics_only: "\<And>bs. load_pem_chain pm bs = None \<Longrightarrow> set bs \<subseteq> {CHR 0x0A, CHR 0x0D}"
  shows "certificates_from_pem pm c pem_bytes description \<noteq> Err TrustPanic"
proof -
  have "list_all is_ascii_whitespace pem_bytes" if "set pem_bytes \<subseteq> {CHR 0x0A, CHR 0x0D}"
    using that by (auto simp: list_all_iff is_ascii_whitespace_def)
  moreover have "traverse (\<lambda>certificate. map_err (TrustMalformed description) (certificate_to_der c certificate)) cs \<noteq> Err TrustPanic" for cs
    by (auto dest: traverse_eq_InlD simp: result_simps)
  ultimately show ?thesis
    using panics_only[of pem_bytes] by (auto simp: certificates_from_pem_def result_simps split: if_splits)
qed

lemma certificates_from_pem_Ok:
  "certificates_from_pem pm c pem_bytes description = Ok ders \<longleftrightarrow>
     \<not> list_all is_ascii_whitespace pem_bytes \<and>
     (\<exists>certificates. load_pem_chain pm pem_bytes = Some (Ok certificates) \<and> certificates \<noteq> [] \<and>
        list_all2 (\<lambda>certificate der. certificate_to_der c certificate = Ok der) certificates ders)"
  by (auto simp: certificates_from_pem_def result_simps traverse_eq_Inr)

lemma crl_from_pem_Ok:
  "crl_from_pem pm pem_bytes description = Ok der \<longleftrightarrow> decode_pem pm pem_bytes = Ok (CRL_PEM_LABEL, der)"
  by (auto simp: crl_from_pem_def result_simps)

section \<open>What is enumerated\<close>

text \<open>A record file: a regular file directly in the layout's directory whose name is UTF-8 and has its suffix.\<close>

definition deposit_at :: "file_system \<Rightarrow> record_layout \<Rightarrow> string \<Rightarrow> deposit_record \<Rightarrow> bool" where
  "deposit_at fs layout path deposit \<longleftrightarrow> (\<exists>file_name. path_file_name path = Some file_name \<and> is_utf8 file_name \<and>
     ends_with (rl_suffix layout) file_name \<and> fs_is_file fs path \<and> fs_read fs path = Ok (dr_pem_bytes deposit) \<and>
     dr_kind deposit = rl_kind layout \<and> dr_repository_path deposit = rl_directory_path layout @ ''/'' @ file_name)"

lemma read_deposit_Ok:
  "read_deposit fs layout records path = Ok records' \<longleftrightarrow>
     (\<exists>deposit. deposit_at fs layout path deposit \<and> records' = records @ [deposit])"
proof -
  have name: "deposit_file_name layout path = Some file_name \<longleftrightarrow>
      path_file_name path = Some file_name \<and> is_utf8 file_name \<and> ends_with (rl_suffix layout) file_name" for file_name
  proof -
    have "ok (from_utf8 n) = (if is_utf8 n then Some n else None)" for n
      by (cases "from_utf8 n") (auto simp: from_utf8_Ok from_utf8_valid is_utf8_def)
    then show ?thesis by (auto simp: deposit_file_name_def split: option.splits if_splits)
  qed
  have "deposit = \<lparr>dr_kind = k, dr_repository_path = n, dr_pem_bytes = b\<rparr> \<longleftrightarrow>
      dr_kind deposit = k \<and> dr_repository_path deposit = n \<and> dr_pem_bytes deposit = b" for deposit :: deposit_record and k n b
    by (cases deposit) auto
  then show ?thesis by (force simp: read_deposit_def deposit_at_def result_simps name)
qed

lemma read_deposits_Ok:
  "try_fold (read_deposit fs layout) records paths = Ok records' \<longleftrightarrow>
     (\<exists>found. list_all2 (deposit_at fs layout) paths found \<and> records' = records @ found)"
proof (induction paths arbitrary: records)
  case (Cons path paths)
  show ?case by (auto simp: result_simps read_deposit_Ok Cons.IH list_all2_Cons1)
qed auto

lemma traverse_paths: "traverse (\<lambda>path. path) entries = Ok paths \<longleftrightarrow> entries = map Ok paths"
  by (auto simp: traverse_eq_Inr list_all2_conv_all_nth intro: nth_equalityI)

text \<open>The paths a directory of the working tree holds; an absent directory holds nothing.\<close>

definition held_paths :: "file_system \<Rightarrow> string \<Rightarrow> record_layout \<Rightarrow> string list option" where
  "held_paths fs worktree layout =
     (case fs_read_dir fs (path_join worktree (rl_directory_path layout)) of
        Err (NotFound _) \<Rightarrow> Some []
      | Err _ \<Rightarrow> None
      | Ok entries \<Rightarrow> ok (traverse (\<lambda>path. path) entries))"

lemma enumerate_directory_Ok:
  "enumerate_directory fs worktree records layout = Ok records' \<longleftrightarrow>
     (\<exists>paths found. held_paths fs worktree layout = Some paths \<and>
        list_all2 (deposit_at fs layout) (sort paths) found \<and> records' = records @ found)"
proof (cases "fs_read_dir fs (path_join worktree (rl_directory_path layout))")
  case (Inl e)
  then show ?thesis by (cases e) (auto simp: enumerate_directory_def held_paths_def)
next
  case (Inr entries)
  have "ok (traverse (\<lambda>path. path) entries) = Some paths \<longleftrightarrow> traverse (\<lambda>path. path) entries = Ok paths" for paths
    by (cases "traverse (\<lambda>path. path) entries") (auto simp: ok_def)
  with Inr show ?thesis
    by (simp add: enumerate_directory_def held_paths_def result_simps read_deposits_Ok)
qed

lemma enumerate_deposits_Ok:
  "enumerate_deposits fs worktree = Ok deposits \<longleftrightarrow>
     (\<exists>chain_paths chains crl_paths crls. deposits = chains @ crls \<and>
        held_paths fs worktree (RECORD_LAYOUTS ! 0) = Some chain_paths \<and>
        list_all2 (deposit_at fs (RECORD_LAYOUTS ! 0)) (sort chain_paths) chains \<and>
        held_paths fs worktree (RECORD_LAYOUTS ! 1) = Some crl_paths \<and>
        list_all2 (deposit_at fs (RECORD_LAYOUTS ! 1)) (sort crl_paths) crls)"
  by (auto simp: enumerate_deposits_def RECORD_LAYOUTS_def result_simps enumerate_directory_Ok)

end
