(* ===== verification/Repository_Audit.thy ===== *)
theory Repository_Audit
  imports Stamp_Verdict Bind Snapshot Trust_Files
begin

text \<open>
  \<open>crates/tydence/src/audit.rs\<close>: the verification a checkout is judged by. The nearest claims behind the start are
  judged one by one, each against its own snapshot and the bound stamps its annotations locate, under the trust
  material gathered from the sealed records and the working tree's deposits.
\<close>

section \<open>The audit's surroundings\<close>

text \<open>What the audit is given besides the repository handle: the repository layer, the tables and digests, the
  third-party crates, the file system, and \<open>gix::ObjectId::from_hex\<close>.\<close>

record 'r auditor =
  au_gix :: "'r gix"
  au_table :: ranges
  au_digests :: digests
  au_pki :: pki
  au_cms :: cms
  au_pem :: pem
  au_files :: file_system
  au_from_hex :: "bytes \<Rightarrow> (string, object_id) result"

record audit_inputs =
  aud_start_id :: object_id
  aud_anchor_certificates :: "bytes list"
  aud_worktree :: "string option"

datatype audit_error =
  AuditObjectAccess string
  | AuditClaims claims_error
  | ForeignLtvRecord string string
  | AuditMaterial trust_error
  | AuditWorktree string string

fun audit_error_display :: "(string \<Rightarrow> string) \<Rightarrow> audit_error \<Rightarrow> string" where
  "audit_error_display debug_str (AuditObjectAccess _) = ''cannot read git objects''"
| "audit_error_display debug_str (AuditClaims cause) =
     ''cannot walk to the nearest claims: '' @ claims_error_display debug_str cause"
| "audit_error_display debug_str (ForeignLtvRecord location path) =
     debug_str path @ '' in '' @ location @ '' is not laid out as an LTV record''"
| "audit_error_display debug_str (AuditMaterial cause) =
     ''trust material does not decode: '' @ trust_error_display debug_str cause"
| "audit_error_display debug_str (AuditWorktree path _) =
     ''cannot read the working tree deposit at '' @ debug_str path"

text \<open>The boxed cause of an unresolvable binding is one of three.\<close>

datatype unresolvable_cause = InPredecessorRepository | BadCommitHex string | UnreadableBoundClaim claims_error

datatype claim_failure =
  ClaimUnreadable string
  | ArtifactsFailure claims_error
  | SnapshotFailure snapshot_error
  | UnresolvableBinding string unresolvable_cause
  | VerdictFailure stamp_error

fun claim_failure_display ::
  "(string \<Rightarrow> string) \<Rightarrow> (bytes \<Rightarrow> string) \<Rightarrow> (system_time \<Rightarrow> string) \<Rightarrow> claim_failure \<Rightarrow> string" where
  "claim_failure_display debug_str lossy debug_time (ClaimUnreadable _) = ''cannot read the claim'' @ (CHR 0x27 # ''s git objects'')"
| "claim_failure_display debug_str lossy debug_time (ArtifactsFailure cause) =
     ''the claim'' @ (CHR 0x27 # ''s artifacts do not read: '') @ claims_error_display debug_str cause"
| "claim_failure_display debug_str lossy debug_time (SnapshotFailure cause) =
     ''the snapshot does not enumerate: '' @ snapshot_error_display debug_str cause"
| "claim_failure_display debug_str lossy debug_time (UnresolvableBinding commit _) =
     ''the bound stamp at commit '' @ commit @ '' cannot be resolved''"
| "claim_failure_display debug_str lossy debug_time (VerdictFailure cause) = stamp_error_display lossy debug_time cause"

record claim_verdict =
  cv_commit_id :: object_id
  cv_outcome :: "(claim_failure, stamp_summary) result"

record audit =
  start_is_claiming :: bool
  audit_verdicts :: "claim_verdict list"
  unsealed_deposits :: "string list"

section \<open>Trust material\<close>

record material =
  mat_companions :: "bytes list"
  mat_crls :: "bytes list"
  seen_companions :: "bytes set"
  seen_crls :: "bytes set"

definition material_new :: material where
  "material_new = \<lparr>mat_companions = [], mat_crls = [], seen_companions = {}, seen_crls = {}\<rparr>"

definition absorb_companion :: "material \<Rightarrow> bytes \<Rightarrow> material" where
  "absorb_companion m der_bytes =
     (if der_bytes \<in> seen_companions m then m
      else m\<lparr>seen_companions := insert der_bytes (seen_companions m), mat_companions := mat_companions m @ [der_bytes]\<rparr>)"

definition absorb_crl :: "material \<Rightarrow> bytes \<Rightarrow> material" where
  "absorb_crl m der_bytes =
     (if der_bytes \<in> seen_crls m then m
      else m\<lparr>seen_crls := insert der_bytes (seen_crls m), mat_crls := mat_crls m @ [der_bytes]\<rparr>)"

definition absorb :: "pem \<Rightarrow> cms \<Rightarrow> material \<Rightarrow> deposit_record \<Rightarrow> (audit_error, material) result" where
  "absorb pm c m deposit =
     (case dr_kind deposit of
        ChainDeposit \<Rightarrow>
          and_then (map_err AuditMaterial
            (certificates_from_pem pm c (dr_pem_bytes deposit) (dr_repository_path deposit))) (\<lambda>companions.
          Ok (foldl absorb_companion m companions))
      | CrlDeposit \<Rightarrow>
          and_then (map_err AuditMaterial (crl_from_pem pm (dr_pem_bytes deposit) (dr_repository_path deposit)))
            (\<lambda>der_bytes. Ok (absorb_crl m der_bytes)))"

section \<open>Gathering\<close>

definition audit_tree_of :: "git_repository \<Rightarrow> object_id \<Rightarrow> (audit_error, git_tree) result" where
  "audit_tree_of r commit_id =
     and_then (map_err AuditObjectAccess (gr_find_commit r commit_id)) (\<lambda>commit. map_err AuditObjectAccess (gc_tree commit))"

definition sealed_file_name :: "record_layout \<Rightarrow> bytes \<Rightarrow> string option" where
  "sealed_file_name layout file_name =
     (case ok (from_utf8 file_name) of None \<Rightarrow> None
      | Some t \<Rightarrow> if ends_with (rl_suffix layout) t then Some t else None)"

definition read_sealed_record ::
  "git_repository \<Rightarrow> object_id \<Rightarrow> record_layout \<Rightarrow> (string, tree_entry) result \<Rightarrow> (audit_error, deposit_record) result" where
  "read_sealed_record r commit_id layout maybe_entry =
     and_then (map_err AuditObjectAccess maybe_entry) (\<lambda>e.
       let foreign_entry = ForeignLtvRecord commit_id (rl_directory_path layout @ ''/'' @ gr_display r (te_filename e))
       in if te_mode e \<noteq> REGULAR_FILE_MODE then Err foreign_entry
          else and_then (ok_or foreign_entry (sealed_file_name layout (te_filename e))) (\<lambda>file_name.
            and_then (map_err AuditObjectAccess (gr_find_blob r (te_object_id e))) (\<lambda>pem_bytes.
            Ok \<lparr>dr_kind = rl_kind layout, dr_repository_path = rl_directory_path layout @ ''/'' @ file_name,
                dr_pem_bytes = pem_bytes\<rparr>)))"

definition sealed_records :: "git_repository \<Rightarrow> object_id \<Rightarrow> record_layout \<Rightarrow> (audit_error, deposit_record list) result" where
  "sealed_records r commit_id layout =
     and_then (audit_tree_of r commit_id) (\<lambda>tree.
     and_then (map_err AuditObjectAccess (gt_lookup tree (rl_directory_path layout))) (\<lambda>maybe_entry.
     case maybe_entry of None \<Rightarrow> Ok []
     | Some directory_entry \<Rightarrow>
         if \<not> gr_is_tree r (te_mode directory_entry) then Err (ForeignLtvRecord commit_id (rl_directory_path layout))
         else and_then (map_err AuditObjectAccess (gr_find_tree r (te_object_id directory_entry))) (\<lambda>directory_tree.
           traverse (read_sealed_record r commit_id layout) (gt_iter directory_tree))))"

definition gather_tree_material ::
  "pem \<Rightarrow> cms \<Rightarrow> git_repository \<Rightarrow> material \<Rightarrow> object_id \<Rightarrow> (audit_error, material) result" where
  "gather_tree_material pm c r m commit_id =
     try_fold (\<lambda>m layout. and_then (sealed_records r commit_id layout) (\<lambda>records. try_fold (absorb pm c) m records))
       m RECORD_LAYOUTS"

definition blob_at :: "git_repository \<Rightarrow> object_id \<Rightarrow> string \<Rightarrow> (audit_error, bytes option) result" where
  "blob_at r commit_id path =
     and_then (audit_tree_of r commit_id) (\<lambda>tree.
     and_then (map_err AuditObjectAccess (gt_lookup tree path)) (\<lambda>maybe_entry.
     case maybe_entry of None \<Rightarrow> Ok None
     | Some e \<Rightarrow>
         if te_mode e \<noteq> REGULAR_FILE_MODE then Ok None
         else and_then (map_err AuditObjectAccess (gr_find_blob r (te_object_id e))) (\<lambda>blob. Ok (Some blob))))"

fun worktree_failure :: "deposit_error \<Rightarrow> audit_error" where
  "worktree_failure (ForeignDeposit path) = ForeignLtvRecord ''the working tree'' path"
| "worktree_failure (UnreadableDeposit path source) = AuditWorktree path source"

definition gather_deposit ::
  "pem \<Rightarrow> cms \<Rightarrow> git_repository \<Rightarrow> object_id \<Rightarrow> material \<times> string list \<Rightarrow> deposit_record
    \<Rightarrow> (audit_error, material \<times> string list) result" where
  "gather_deposit pm c r start_id state deposit =
     and_then (absorb pm c (fst state) deposit) (\<lambda>m.
     and_then (blob_at r start_id (dr_repository_path deposit)) (\<lambda>sealed.
     Ok (m, if sealed \<noteq> Some (dr_pem_bytes deposit) then snd state @ [dr_repository_path deposit] else snd state)))"

definition gather_worktree_material ::
  "pem \<Rightarrow> cms \<Rightarrow> file_system \<Rightarrow> git_repository \<Rightarrow> audit_inputs \<Rightarrow> material
    \<Rightarrow> (audit_error, material \<times> string list) result" where
  "gather_worktree_material pm c fs r inputs m =
     (case aud_worktree inputs of None \<Rightarrow> Ok (m, [])
      | Some worktree \<Rightarrow>
          and_then (map_err worktree_failure (enumerate_deposits fs worktree)) (\<lambda>records.
          try_fold (gather_deposit pm c r (aud_start_id inputs)) (m, []) records))"

section \<open>Judging one claim\<close>

definition bound_stamp_of :: "claim_artifacts \<Rightarrow> bound_stamp" where
  "bound_stamp_of artifacts =
     \<lparr>bs_manifest_bytes = ca_manifest_bytes artifacts,
      bs_tokens = map (\<lambda>token_file. \<lparr>bt_spec = Rfc3161, bt_site = tf_site token_file, bt_bytes = tf_bytes token_file\<rparr>)
        (ca_tokens artifacts)\<rparr>"

definition resolve_binding ::
  "(bytes \<Rightarrow> (string, object_id) result) \<Rightarrow> git_repository \<Rightarrow> binding_group \<Rightarrow> (claim_failure, claim_artifacts) result" where
  "resolve_binding from_hex r bound =
     (if predecessor_origin bound \<noteq> None then Err (UnresolvableBinding (bg_commit bound) InPredecessorRepository)
      else
        and_then (map_err (\<lambda>e. UnresolvableBinding (bg_commit bound) (BadCommitHex e)) (from_hex (bg_commit bound))) (\<lambda>bound_id.
        map_err (\<lambda>e. UnresolvableBinding (bg_commit bound) (UnreadableBoundClaim e)) (read_claim_artifacts r bound_id)))"

text \<open>No groups where the manifest does not parse: the verdict reports that.\<close>

definition groups_to_resolve :: "ranges \<Rightarrow> bytes \<Rightarrow> binding_group list" where
  "groups_to_resolve table manifest_bytes =
     (case ok (from_utf8 manifest_bytes) of None \<Rightarrow> []
      | Some manifest_text \<Rightarrow>
          (case ok (parse_manifest table manifest_text) of None \<Rightarrow> [] | Some m \<Rightarrow> binding_groups m))"

definition stamp_inputs_of ::
  "claim_artifacts \<Rightarrow> entry list \<Rightarrow> claim_artifacts list \<Rightarrow> trust_data \<Rightarrow> stamp_inputs" where
  "stamp_inputs_of artifacts tree_entries resolved trust =
     \<lparr>in_manifest_bytes = ca_manifest_bytes artifacts, in_tree_entries = tree_entries,
      in_tokens = map (\<lambda>token_file. \<lparr>st_site = tf_site token_file, st_bytes = tf_bytes token_file\<rparr>) (ca_tokens artifacts),
      in_bound_stamps = map bound_stamp_of resolved, in_trust = trust\<rparr>"

definition judge_claim ::
  "'r auditor \<Rightarrow> 'r \<Rightarrow> trust_data \<Rightarrow> object_id \<Rightarrow> (claim_failure, stamp_summary) result option" where
  "judge_claim a repository trust commit_id =
     (let r = gx_objects (au_gix a) repository
      in case and_then (map_err ArtifactsFailure (read_claim_artifacts r commit_id)) (\<lambda>artifacts.
              and_then (map_err ClaimUnreadable (gr_find_commit r commit_id)) (\<lambda>commit.
              and_then (map_err ClaimUnreadable (gc_tree_id commit)) (\<lambda>tree_id. Ok (artifacts, tree_id)))) of
           Err e \<Rightarrow> Some (Err e)
         | Ok (artifacts, tree_id) \<Rightarrow>
             map_option (\<lambda>snapshot.
               and_then (map_err SnapshotFailure snapshot) (\<lambda>tree_entries.
               and_then (traverse (resolve_binding (au_from_hex a) r)
                 (groups_to_resolve (au_table a) (ca_manifest_bytes artifacts))) (\<lambda>resolved.
               map_err VerdictFailure (verify_stamp (au_table a) (au_digests a) (au_pki a) (au_cms a)
                 (stamp_inputs_of artifacts tree_entries resolved trust)))))
               (snapshot_run (au_gix a) (au_digests a) repository tree_id))"

section \<open>The audit\<close>

definition gather_material ::
  "'r auditor \<Rightarrow> 'r \<Rightarrow> audit_inputs \<Rightarrow> object_id list \<Rightarrow> (audit_error, material \<times> string list) result" where
  "gather_material a repository inputs claiming =
     (let r = gx_objects (au_gix a) repository
      in and_then (try_fold (gather_tree_material (au_pem a) (au_cms a) r) material_new
           (aud_start_id inputs # filter (\<lambda>commit_id. commit_id \<noteq> aud_start_id inputs) claiming)) (\<lambda>m.
         gather_worktree_material (au_pem a) (au_cms a) (au_files a) r inputs m))"

definition audit_trust :: "audit_inputs \<Rightarrow> material \<Rightarrow> trust_data" where
  "audit_trust inputs m =
     \<lparr>td_anchor_certificates = aud_anchor_certificates inputs, td_companion_certificates = mat_companions m,
      td_crls = mat_crls m\<rparr>"

text \<open>\<open>None\<close> where a walk does not end.\<close>

definition audit_run :: "'r auditor \<Rightarrow> 'r \<Rightarrow> audit_inputs \<Rightarrow> (audit_error, audit) result option" where
  "audit_run a repository inputs =
     (case nearest_claiming_commits (gx_objects (au_gix a) repository) [aud_start_id inputs] of
        None \<Rightarrow> None
      | Some (Err e) \<Rightarrow> Some (Err (AuditClaims e))
      | Some (Ok claiming) \<Rightarrow>
          (case gather_material a repository inputs claiming of
             Err e \<Rightarrow> Some (Err e)
           | Ok (m, unsealed) \<Rightarrow>
               map_option (\<lambda>outcomes. Ok
                 \<lparr>start_is_claiming = (aud_start_id inputs \<in> set claiming),
                  audit_verdicts = map2 (\<lambda>commit_id outcome. \<lparr>cv_commit_id = commit_id, cv_outcome = outcome\<rparr>) claiming outcomes,
                  unsealed_deposits = unsealed\<rparr>)
                 (those (map (judge_claim a repository (audit_trust inputs m)) claiming))))"

section \<open>Material\<close>

text \<open>The union is deduplicated: the lists hold what was seen, each once.\<close>

definition material_ok :: "material \<Rightarrow> bool" where
  "material_ok m \<longleftrightarrow> distinct (mat_companions m) \<and> distinct (mat_crls m) \<and>
     seen_companions m = set (mat_companions m) \<and> seen_crls m = set (mat_crls m)"

text \<open>What one record supplies.\<close>

definition supplies_companion :: "pem \<Rightarrow> cms \<Rightarrow> deposit_record \<Rightarrow> bytes \<Rightarrow> bool" where
  "supplies_companion pm c deposit der \<longleftrightarrow> dr_kind deposit = ChainDeposit \<and>
     (\<exists>ders. certificates_from_pem pm c (dr_pem_bytes deposit) (dr_repository_path deposit) = Ok ders \<and> der \<in> set ders)"

definition supplies_crl :: "pem \<Rightarrow> deposit_record \<Rightarrow> bytes \<Rightarrow> bool" where
  "supplies_crl pm deposit der \<longleftrightarrow> dr_kind deposit = CrlDeposit \<and>
     crl_from_pem pm (dr_pem_bytes deposit) (dr_repository_path deposit) = Ok der"

text \<open>\<open>m'\<close> is \<open>m\<close> with what the records supply.\<close>

definition gathered :: "pem \<Rightarrow> cms \<Rightarrow> deposit_record set \<Rightarrow> material \<Rightarrow> material \<Rightarrow> bool" where
  "gathered pm c deposits m m' \<longleftrightarrow> (material_ok m \<longrightarrow> material_ok m') \<and>
     set (mat_companions m') = set (mat_companions m) \<union> {der. \<exists>deposit \<in> deposits. supplies_companion pm c deposit der} \<and>
     set (mat_crls m') = set (mat_crls m) \<union> {der. \<exists>deposit \<in> deposits. supplies_crl pm deposit der}"

lemma material_new_ok: "material_ok material_new" "mat_companions material_new = []" "mat_crls material_new = []"
  by (simp_all add: material_new_def material_ok_def)

lemma absorb_companions:
  "material_ok m \<Longrightarrow> material_ok (foldl absorb_companion m ders) \<and>
     set (mat_companions (foldl absorb_companion m ders)) = set (mat_companions m) \<union> set ders \<and>
     mat_crls (foldl absorb_companion m ders) = mat_crls m"
proof (induction ders arbitrary: m)
  case (Cons der ders)
  have "material_ok (absorb_companion m der)" "set (mat_companions (absorb_companion m der)) = insert der (set (mat_companions m))"
    "mat_crls (absorb_companion m der) = mat_crls m"
    using Cons.prems by (auto simp: absorb_companion_def material_ok_def)
  with Cons.IH[of "absorb_companion m der"] show ?case by auto
qed simp

lemma absorb_gathers:
  assumes "absorb pm c m deposit = Ok m'" "material_ok m"
  shows "gathered pm c {deposit} m m'"
proof (cases "dr_kind deposit")
  case ChainDeposit
  with assms(1) obtain ders where ders: "certificates_from_pem pm c (dr_pem_bytes deposit) (dr_repository_path deposit) = Ok ders"
    and m': "m' = foldl absorb_companion m ders" by (auto simp: absorb_def result_simps)
  have "{der. supplies_companion pm c deposit der} = set ders" "{der. supplies_crl pm deposit der} = {}"
    using ChainDeposit ders by (auto simp: supplies_companion_def supplies_crl_def)
  with absorb_companions[OF assms(2), of ders] show ?thesis unfolding gathered_def m' by simp
next
  case CrlDeposit
  with assms(1) obtain der where der: "crl_from_pem pm (dr_pem_bytes deposit) (dr_repository_path deposit) = Ok der"
    and m': "m' = absorb_crl m der" by (auto simp: absorb_def result_simps)
  have "{der. supplies_companion pm c deposit der} = {}" "{der. supplies_crl pm deposit der} = {der}"
    using CrlDeposit der by (auto simp: supplies_companion_def supplies_crl_def)
  with assms(2) show ?thesis unfolding gathered_def m' by (auto simp: absorb_crl_def material_ok_def)
qed

lemma gathered_refl: "gathered pm c {} m m"
  by (simp add: gathered_def)

lemma gathered_trans: "gathered pm c ds m m' \<Longrightarrow> gathered pm c ds' m' m'' \<Longrightarrow> gathered pm c (ds \<union> ds') m m''"
  unfolding gathered_def by auto

lemma gathered_ok: "gathered pm c ds m m' \<Longrightarrow> material_ok m \<Longrightarrow> material_ok m'"
  by (simp add: gathered_def)

text \<open>A loop whose steps gather, gathers.\<close>

lemma gathering_loop:
  assumes "\<And>m x m'. x \<in> set xs \<Longrightarrow> material_ok m \<Longrightarrow> step m x = Ok m' \<Longrightarrow> gathered pm c (records_of x) m m'"
    and "try_fold step m xs = Ok m'" "material_ok m"
  shows "gathered pm c (\<Union>x \<in> set xs. records_of x) m m'"
  using assms
proof (induction xs arbitrary: m)
  case (Cons x xs)
  then obtain m1 where m1: "step m x = Ok m1" "try_fold step m1 xs = Ok m'" by (auto simp: result_simps)
  have first: "gathered pm c (records_of x) m m1" using Cons.prems m1(1) by simp
  from Cons.IH[OF _ m1(2) gathered_ok[OF first Cons.prems(3)]] Cons.prems(1)
  have "gathered pm c (\<Union>x \<in> set xs. records_of x) m1 m'" by simp
  with gathered_trans[OF first this] show ?case by simp
qed (simp add: gathered_refl)

lemma absorb_records:
  "try_fold (absorb pm c) m deposits = Ok m' \<Longrightarrow> material_ok m \<Longrightarrow> gathered pm c (set deposits) m m'"
  using gathering_loop[of deposits "absorb pm c" pm c "\<lambda>deposit. {deposit}" m m'] absorb_gathers by simp

text \<open>The records sealed in a commit, of both layouts.\<close>

definition sealed_in :: "git_repository \<Rightarrow> object_id \<Rightarrow> deposit_record set" where
  "sealed_in r commit_id = {deposit. \<exists>layout \<in> set RECORD_LAYOUTS. \<exists>records.
     sealed_records r commit_id layout = Ok records \<and> deposit \<in> set records}"

lemma gather_tree_material_gathers:
  assumes "gather_tree_material pm c r m commit_id = Ok m'" "material_ok m"
  shows "gathered pm c (sealed_in r commit_id) m m'"
proof -
  let ?of = "\<lambda>layout. {deposit. \<exists>records. sealed_records r commit_id layout = Ok records \<and> deposit \<in> set records}"
  have "gathered pm c (\<Union>layout \<in> set RECORD_LAYOUTS. ?of layout) m m'"
    by (rule gathering_loop[OF _ assms(1)[unfolded gather_tree_material_def] assms(2)])
      (auto simp: result_simps dest: absorb_records)
  also have "(\<Union>layout \<in> set RECORD_LAYOUTS. ?of layout) = sealed_in r commit_id" by (auto simp: sealed_in_def)
  finally show ?thesis .
qed

text \<open>The working tree's deposits, and those of them the starting commit does not seal.\<close>

definition deposited_in :: "file_system \<Rightarrow> audit_inputs \<Rightarrow> deposit_record list" where
  "deposited_in fs inputs =
     (case aud_worktree inputs of None \<Rightarrow> []
      | Some worktree \<Rightarrow> (case enumerate_deposits fs worktree of Ok deposits \<Rightarrow> deposits | Err _ \<Rightarrow> []))"

lemma gather_deposit_Ok:
  "gather_deposit pm c r start_id (m, unsealed) deposit = Ok state \<longleftrightarrow> (\<exists>m1 sealed. absorb pm c m deposit = Ok m1 \<and>
     blob_at r start_id (dr_repository_path deposit) = Ok sealed \<and>
     state = (m1, if sealed \<noteq> Some (dr_pem_bytes deposit) then unsealed @ [dr_repository_path deposit] else unsealed))"
  by (auto simp: gather_deposit_def result_simps)

lemma gather_deposits:
  "try_fold (gather_deposit pm c r start_id) (m, unsealed) deposits = Ok (m', unsealed') \<Longrightarrow> material_ok m \<Longrightarrow>
     gathered pm c (set deposits) m m' \<and>
     unsealed' = unsealed @ map dr_repository_path
       (filter (\<lambda>deposit. blob_at r start_id (dr_repository_path deposit) \<noteq> Ok (Some (dr_pem_bytes deposit))) deposits)"
proof (induction deposits arbitrary: m unsealed)
  case (Cons deposit deposits)
  from Cons.prems(1) obtain state where "gather_deposit pm c r start_id (m, unsealed) deposit = Ok state"
    "try_fold (gather_deposit pm c r start_id) state deposits = Ok (m', unsealed')" by (auto simp: and_then_eq_Inr)
  then obtain m1 sealed where m1: "absorb pm c m deposit = Ok m1" "blob_at r start_id (dr_repository_path deposit) = Ok sealed"
    and rest: "try_fold (gather_deposit pm c r start_id) (m1, if sealed \<noteq> Some (dr_pem_bytes deposit)
        then unsealed @ [dr_repository_path deposit] else unsealed) deposits = Ok (m', unsealed')"
    unfolding gather_deposit_Ok by blast
  note first = absorb_gathers[OF m1(1) Cons.prems(2)]
  from Cons.IH[OF rest gathered_ok[OF first Cons.prems(2)]] m1(2) gathered_trans[OF first, of "set deposits" m']
  show ?case by auto
qed (simp add: gathered_refl)

lemma gather_worktree_material_gathers:
  assumes "gather_worktree_material pm c fs r inputs m = Ok (m', unsealed)" "material_ok m"
  shows "gathered pm c (set (deposited_in fs inputs)) m m'"
    and "unsealed = map dr_repository_path (filter (\<lambda>deposit.
      blob_at r (aud_start_id inputs) (dr_repository_path deposit) \<noteq> Ok (Some (dr_pem_bytes deposit))) (deposited_in fs inputs))"
  using assms gather_deposits[of pm c r "aud_start_id inputs" m "[]" _ m' unsealed]
  by (auto simp: gather_worktree_material_def deposited_in_def result_simps gathered_refl split: option.splits)

section \<open>What the audit reports\<close>

text \<open>The records an audit gathers from: those sealed in the start and the claims, and the deposits.\<close>

definition audited_records :: "'r auditor \<Rightarrow> 'r \<Rightarrow> audit_inputs \<Rightarrow> deposit_record set" where
  "audited_records a repository inputs =
     (let r = gx_objects (au_gix a) repository
      in (\<Union>c \<in> insert (aud_start_id inputs)
            {c. open_line r {aud_start_id inputs} c \<and> carries_manifest r c}. sealed_in r c) \<union>
         set (deposited_in (au_files a) inputs))"

lemma gather_material_gathers:
  assumes "gather_material a repository inputs claiming = Ok (m, unsealed)"
  shows "gathered (au_pem a) (au_cms a) ((\<Union>c \<in> insert (aud_start_id inputs) (set claiming).
      sealed_in (gx_objects (au_gix a) repository) c) \<union> set (deposited_in (au_files a) inputs)) material_new m"
    and "unsealed = map dr_repository_path (filter (\<lambda>deposit.
      blob_at (gx_objects (au_gix a) repository) (aud_start_id inputs) (dr_repository_path deposit) \<noteq>
        Ok (Some (dr_pem_bytes deposit))) (deposited_in (au_files a) inputs))"
proof -
  let ?r = "gx_objects (au_gix a) repository" and ?sources = "aud_start_id inputs # filter (\<lambda>c. c \<noteq> aud_start_id inputs) claiming"
  from assms obtain m1 where trees: "try_fold (gather_tree_material (au_pem a) (au_cms a) ?r) material_new ?sources = Ok m1"
    and deposits: "gather_worktree_material (au_pem a) (au_cms a) (au_files a) ?r inputs m1 = Ok (m, unsealed)"
    unfolding gather_material_def Let_def and_then_eq_Inr by blast
  have first: "gathered (au_pem a) (au_cms a) (\<Union>c \<in> set ?sources. sealed_in ?r c) material_new m1"
    by (rule gathering_loop[OF gather_tree_material_gathers trees material_new_ok(1)])
  note second = gather_worktree_material_gathers[OF deposits gathered_ok[OF first material_new_ok(1)]]
  have "(\<Union>c \<in> set ?sources. sealed_in ?r c) = (\<Union>c \<in> insert (aud_start_id inputs) (set claiming). sealed_in ?r c)" by auto
  with gathered_trans[OF first second(1)] show "gathered (au_pem a) (au_cms a) ((\<Union>c \<in> insert (aud_start_id inputs) (set claiming).
      sealed_in ?r c) \<union> set (deposited_in (au_files a) inputs)) material_new m" by simp
  from second(2) show "unsealed = map dr_repository_path (filter (\<lambda>deposit.
      blob_at ?r (aud_start_id inputs) (dr_repository_path deposit) \<noteq> Ok (Some (dr_pem_bytes deposit)))
      (deposited_in (au_files a) inputs))" .
qed

lemma those_Some: "those xs = Some ys \<longleftrightarrow> xs = map Some ys"
proof (induction xs arbitrary: ys)
  case (Cons x xs)
  then show ?case by (cases x; cases ys) (auto split: option.splits)
qed auto

lemma audit_run_Ok:
  assumes "audit_run a repository inputs = Some (Ok report)"
  obtains claiming m outcomes where
    "nearest_claiming_commits (gx_objects (au_gix a) repository) [aud_start_id inputs] = Some (Ok claiming)"
    "gather_material a repository inputs claiming = Ok (m, unsealed_deposits report)"
    "map (judge_claim a repository (audit_trust inputs m)) claiming = map Some outcomes"
    "start_is_claiming report = (aud_start_id inputs \<in> set claiming)"
    "audit_verdicts report = map2 (\<lambda>commit_id outcome. \<lparr>cv_commit_id = commit_id, cv_outcome = outcome\<rparr>) claiming outcomes"
  using assms by (auto simp: audit_run_def those_Some split: option.splits sum.splits prod.splits)

lemma audited_claims:
  assumes "audit_run a repository inputs = Some (Ok report)"
  shows "\<exists>trust. td_anchor_certificates trust = aud_anchor_certificates inputs \<and>
    distinct (td_companion_certificates trust) \<and> distinct (td_crls trust) \<and>
    set (td_companion_certificates trust) =
      {der. \<exists>deposit \<in> audited_records a repository inputs. supplies_companion (au_pem a) (au_cms a) deposit der} \<and>
    set (td_crls trust) = {der. \<exists>deposit \<in> audited_records a repository inputs. supplies_crl (au_pem a) deposit der} \<and>
    distinct (map cv_commit_id (audit_verdicts report)) \<and>
    set (map cv_commit_id (audit_verdicts report)) = {c. open_line (gx_objects (au_gix a) repository) {aud_start_id inputs} c \<and>
      carries_manifest (gx_objects (au_gix a) repository) c} \<and>
    (\<forall>v \<in> set (audit_verdicts report). judge_claim a repository trust (cv_commit_id v) = Some (cv_outcome v)) \<and>
    (start_is_claiming report \<longleftrightarrow> carries_manifest (gx_objects (au_gix a) repository) (aud_start_id inputs)) \<and>
    unsealed_deposits report = map dr_repository_path (filter (\<lambda>deposit.
      blob_at (gx_objects (au_gix a) repository) (aud_start_id inputs) (dr_repository_path deposit) \<noteq>
        Ok (Some (dr_pem_bytes deposit))) (deposited_in (au_files a) inputs))"
proof -
  let ?r = "gx_objects (au_gix a) repository"
  obtain claiming m outcomes where walk: "nearest_claiming_commits ?r [aud_start_id inputs] = Some (Ok claiming)"
    and gathered: "gather_material a repository inputs claiming = Ok (m, unsealed_deposits report)"
    and judged: "map (judge_claim a repository (audit_trust inputs m)) claiming = map Some outcomes"
    and start: "start_is_claiming report = (aud_start_id inputs \<in> set claiming)"
    and verdicts: "audit_verdicts report = map2 (\<lambda>commit_id outcome. \<lparr>cv_commit_id = commit_id, cv_outcome = outcome\<rparr>) claiming outcomes"
    using audit_run_Ok[OF assms] .
  note claims = nearest_claiming_Ok[OF walk]
  note G = gather_material_gathers[OF gathered]
  have len: "length claiming = length outcomes" using judged by (metis length_map)
  have "set claiming = {c. open_line ?r {aud_start_id inputs} c \<and> carries_manifest ?r c}"
    using claims(2) by auto
  with G(1) have material: "gathered (au_pem a) (au_cms a) (audited_records a repository inputs) material_new m"
    by (simp add: audited_records_def Let_def)
  have ids: "map cv_commit_id (audit_verdicts report) = claiming"
    by (rule nth_equalityI) (simp_all add: verdicts len)
  have outcome: "judge_claim a repository (audit_trust inputs m) (cv_commit_id v) = Some (cv_outcome v)"
    if "v \<in> set (audit_verdicts report)" for v
  proof -
    from that obtain i where i: "i < length claiming" "v = \<lparr>cv_commit_id = claiming ! i, cv_outcome = outcomes ! i\<rparr>"
      using len unfolding verdicts by (auto simp: in_set_conv_nth)
    with arg_cong[OF judged, of "\<lambda>xs. xs ! i"] len show ?thesis by simp
  qed
  have "carries_manifest ?r (aud_start_id inputs) \<longleftrightarrow> aud_start_id inputs \<in> set claiming"
    using claims(2)[of "aud_start_id inputs"] by (auto intro: at_start)
  then have starts: "start_is_claiming report \<longleftrightarrow> carries_manifest ?r (aud_start_id inputs)" using start by simp
  have verdict_ids: "distinct (map cv_commit_id (audit_verdicts report))"
    "set (map cv_commit_id (audit_verdicts report)) = {c. open_line ?r {aud_start_id inputs} c \<and> carries_manifest ?r c}"
    unfolding ids using claims by auto
  have trust: "distinct (mat_companions m)" "distinct (mat_crls m)"
    "set (mat_companions m) = {der. \<exists>deposit \<in> audited_records a repository inputs. supplies_companion (au_pem a) (au_cms a) deposit der}"
    "set (mat_crls m) = {der. \<exists>deposit \<in> audited_records a repository inputs. supplies_crl (au_pem a) deposit der}"
    using material gathered_ok[OF material material_new_ok(1)] by (simp_all add: gathered_def material_new_ok material_ok_def)
  show ?thesis
  proof (intro exI[of _ "audit_trust inputs m"] conjI ballI)
    show "judge_claim a repository (audit_trust inputs m) (cv_commit_id v) = Some (cv_outcome v)"
      if "v \<in> set (audit_verdicts report)" for v using that by (rule outcome)
  qed (simp_all only: audit_trust_def trust_data.select_convs trust verdict_ids starts G(2))
qed

text \<open>C1: an audit judges every nearest claim behind the start, each once and no other commit, all under one trust:
  the anchors it was given, and the deduplicated union of what the LTV records of the start, the claims and the
  working tree decode to. It tells whether the start itself claims, and which deposits the start does not seal.\<close>

theorem audit_judges_nearest_claims:
  assumes "audit_run a repository inputs = Some (Ok report)"
  shows "\<exists>trust. td_anchor_certificates trust = aud_anchor_certificates inputs \<and>
    distinct (td_companion_certificates trust) \<and> distinct (td_crls trust) \<and>
    set (td_companion_certificates trust) =
      {der. \<exists>deposit \<in> audited_records a repository inputs. supplies_companion (au_pem a) (au_cms a) deposit der} \<and>
    set (td_crls trust) = {der. \<exists>deposit \<in> audited_records a repository inputs. supplies_crl (au_pem a) deposit der} \<and>
    distinct (map cv_commit_id (audit_verdicts report)) \<and>
    set (map cv_commit_id (audit_verdicts report)) = {c. open_line (gx_objects (au_gix a) repository) {aud_start_id inputs} c \<and>
      carries_manifest (gx_objects (au_gix a) repository) c} \<and>
    (\<forall>v \<in> set (audit_verdicts report). judge_claim a repository trust (cv_commit_id v) = Some (cv_outcome v)) \<and>
    (start_is_claiming report \<longleftrightarrow> carries_manifest (gx_objects (au_gix a) repository) (aud_start_id inputs)) \<and>
    unsealed_deposits report = map dr_repository_path (filter (\<lambda>deposit.
      blob_at (gx_objects (au_gix a) repository) (aud_start_id inputs) (dr_repository_path deposit) \<noteq>
        Ok (Some (dr_pem_bytes deposit))) (deposited_in (au_files a) inputs))"
  using audited_claims[OF assms] .

section \<open>What a passing claim says\<close>

lemma groups_to_resolve_parsed:
  "is_utf8 bs \<Longrightarrow> parse_manifest table bs = Ok m \<Longrightarrow> groups_to_resolve table bs = binding_groups m"
  using from_utf8_Ok[of bs bs] by (simp add: groups_to_resolve_def)

lemma judge_claim_Ok:
  assumes "judge_claim a repository trust c = Some (Ok summary)"
  obtains artifacts commit tree_id es resolved where
    "read_claim_artifacts (gx_objects (au_gix a) repository) c = Ok artifacts"
    "gr_find_commit (gx_objects (au_gix a) repository) c = Ok commit" "gc_tree_id commit = Ok tree_id"
    "snapshot_run (au_gix a) (au_digests a) repository tree_id = Some (Ok es)"
    "traverse (resolve_binding (au_from_hex a) (gx_objects (au_gix a) repository))
       (groups_to_resolve (au_table a) (ca_manifest_bytes artifacts)) = Ok resolved"
    "verify_stamp (au_table a) (au_digests a) (au_pki a) (au_cms a)
       (stamp_inputs_of artifacts es resolved trust) = Ok summary"
  using assms by (auto simp: judge_claim_def Let_def result_simps split: sum.splits)

text \<open>C2: a claim that passes its audit sealed exactly what its commit holds: its manifest is canonical and lists
  precisely the files of the commit's tree and of its submodules, with the modes, sizes and double hashes of their
  blobs; every stamp it binds was read in this repository and reproduces the double hash; and one of its tokens
  stands for the very bytes of the manifest under the audit's trust.\<close>

theorem passing_claim_seals_its_tree:
  assumes "ascii_table (au_table a)" "judge_claim a repository trust c = Some (Ok summary)"
  shows "\<exists>artifacts m commit tree_id. read_claim_artifacts (gx_objects (au_gix a) repository) c = Ok artifacts \<and>
    gr_find_commit (gx_objects (au_gix a) repository) c = Ok commit \<and> gc_tree_id commit = Ok tree_id \<and>
    canonical_manifest (au_table a) m \<and> serialize (au_table a) m = Ok (ca_manifest_bytes artifacts) \<and>
    set (entries m) = {e. \<exists>t records file. placed (au_gix a) repository tree_id t \<and> tree_records (au_gix a) t = Ok records \<and>
      file \<in> set (files_of (au_gix a) t records) \<and> covers_record (au_gix a) (au_digests a) t file e} \<and>
    (\<forall>g \<in> set (binding_groups m). \<exists>bound_id bound. au_from_hex a (bg_commit g) = Ok bound_id \<and>
      read_claim_artifacts (gx_objects (au_gix a) repository) bound_id = Ok bound \<and>
      hash_payload (au_digests a) (ca_manifest_bytes bound) = manifest_hashes g) \<and>
    (\<exists>f \<in> set (ca_tokens artifacts). is_ok (verify_token (au_pki a) (au_cms a) (tf_bytes f)
      \<lparr>vb_manifest_bytes = ca_manifest_bytes artifacts, vb_trust = trust\<rparr>))"
proof -
  let ?r = "gx_objects (au_gix a) repository"
  obtain artifacts commit tree_id es resolved where artifacts: "read_claim_artifacts ?r c = Ok artifacts"
    and commit: "gr_find_commit ?r c = Ok commit" "gc_tree_id commit = Ok tree_id"
    and snapshot: "snapshot_run (au_gix a) (au_digests a) repository tree_id = Some (Ok es)"
    and resolved: "traverse (resolve_binding (au_from_hex a) ?r)
       (groups_to_resolve (au_table a) (ca_manifest_bytes artifacts)) = Ok resolved"
    and verdict: "verify_stamp (au_table a) (au_digests a) (au_pki a) (au_cms a)
       (stamp_inputs_of artifacts es resolved trust) = Ok summary"
    using judge_claim_Ok[OF assms(2)] .
  let ?bytes = "ca_manifest_bytes artifacts"
  from verdict obtain m where m: "is_utf8 ?bytes" "parse_manifest (au_table a) ?bytes = Ok m"
    and tree: "verify_tree (entries m) es = Ok ()"
    and links: "verify_binding_linkage (au_digests a) (binding_groups m) (map bound_stamp_of resolved) = Ok ()"
    and tokens: "accepted_of (au_pki a) (au_cms a) \<lparr>vb_manifest_bytes = ?bytes, vb_trust = trust\<rparr>
      (map (\<lambda>f. \<lparr>st_site = tf_site f, st_bytes = tf_bytes f\<rparr>) (ca_tokens artifacts)) \<noteq> []"
    by (auto simp: verify_stamp_Ok stamp_inputs_of_def basis_of_def)
  have canonical: "canonical_manifest (au_table a) m" "serialize (au_table a) m = Ok ?bytes"
    using accepted_is_canonical[OF assms(1) m(2)] by (simp_all add: serialize_Ok)
  have bound: "\<exists>bound_id bound. au_from_hex a (bg_commit g) = Ok bound_id \<and> read_claim_artifacts ?r bound_id = Ok bound \<and>
      hash_payload (au_digests a) (ca_manifest_bytes bound) = manifest_hashes g" if g: "g \<in> set (binding_groups m)" for g
  proof -
    obtain i where i: "i < length (binding_groups m)" "g = binding_groups m ! i" using g by (auto simp: in_set_conv_nth)
    have "list_all2 (\<lambda>g b. resolve_binding (au_from_hex a) ?r g = Ok b) (binding_groups m) resolved"
      using resolved groups_to_resolve_parsed[OF m] by (simp add: traverse_eq_Inr)
    then have "resolve_binding (au_from_hex a) ?r g = Ok (resolved ! i)" "i < length resolved"
      using i by (auto simp: list_all2_conv_all_nth)
    moreover have "hash_payload (au_digests a) (ca_manifest_bytes (resolved ! i)) = manifest_hashes g"
      using links i \<open>i < length resolved\<close> by (auto simp: verify_binding_linkage_Ok bound_stamp_of_def)
    ultimately show ?thesis by (auto simp: resolve_binding_def result_simps split: if_splits)
  qed
  have listed: "set (entries m) = set es" using tree by (auto simp: verify_tree_Ok)
  have token: "\<exists>f \<in> set (ca_tokens artifacts). is_ok (verify_token (au_pki a) (au_cms a) (tf_bytes f)
      \<lparr>vb_manifest_bytes = ?bytes, vb_trust = trust\<rparr>)"
    using tokens by (auto simp: accepted_of_empty)
  show ?thesis
  proof (rule exI[of _ artifacts], rule exI[of _ m], rule exI[of _ commit], rule exI[of _ tree_id], intro conjI ballI)
    show "\<exists>bound_id bound. au_from_hex a (bg_commit g) = Ok bound_id \<and> read_claim_artifacts ?r bound_id = Ok bound \<and>
      hash_payload (au_digests a) (ca_manifest_bytes bound) = manifest_hashes g" if "g \<in> set (binding_groups m)" for g
      using that by (rule bound)
    show "set (entries m) = {e. \<exists>t records file. placed (au_gix a) repository tree_id t \<and> tree_records (au_gix a) t = Ok records \<and>
      file \<in> set (files_of (au_gix a) t records) \<and> covers_record (au_gix a) (au_digests a) t file e}"
      using listed snapshot_entries[OF snapshot] by simp
  qed (rule artifacts commit canonical token)+
qed

section \<open>A concrete audit\<close>

text \<open>One stamped commit over an empty tree, and the CRL its token needs as a deposit in the working tree.\<close>

definition toy_audit_tree :: git_tree where
  "toy_audit_tree =
     \<lparr>gt_lookup = \<lambda>path. Ok (if path = MANIFEST_PATH then Some \<lparr>te_mode = 33188, te_object_id = ''m'', te_filename = ''manifest''\<rparr>
        else if path = TOKENS_PATH then Some \<lparr>te_mode = 16384, te_object_id = ''t'', te_filename = ''tokens''\<rparr> else None),
      gt_iter = [Ok \<lparr>te_mode = 33188, te_object_id = ''k'', te_filename = ''site.tsr''\<rparr>],
      gt_files = Ok [\<lparr>fr_mode = 33188, fr_filepath = MANIFEST_PATH, fr_oid = ''m''\<rparr>,
        \<lparr>fr_mode = 33188, fr_filepath = ''.tydence/tokens/site.tsr'', fr_oid = ''k''\<rparr>]\<rparr>"

definition toy_audit_objects :: git_repository where
  "toy_audit_objects =
     \<lparr>gr_find_commit = \<lambda>c. if c = ''c1'' then Ok \<lparr>gc_tree = Ok toy_audit_tree, gc_tree_id = Ok ''r1'', gc_parents = []\<rparr>
        else Err ''no such commit'',
      gr_find_tree = \<lambda>_. Ok toy_audit_tree,
      gr_find_blob = \<lambda>b. if b = ''m'' then Ok toy_manifest_bytes else Ok toy_token,
      gr_is_tree = \<lambda>mode. mode = 16384, gr_is_blob = \<lambda>mode. mode = 33188, gr_display = \<lambda>bs. bs\<rparr>"

definition toy_files :: file_system where
  "toy_files =
     \<lparr>fs_read_dir = \<lambda>path. if path = ''/w/.tydence/ltv/crls'' then Ok [Ok ''/w/.tydence/ltv/crls/x.crl''] else Err (NotFound []),
      fs_is_file = \<lambda>_. True, fs_read = \<lambda>_. Ok ''pem'', fs_display = \<lambda>path. path\<rparr>"

definition toy_auditor :: "unit auditor" where
  "toy_auditor =
     \<lparr>au_gix = \<lparr>gx_objects = \<lambda>_. toy_audit_objects, gx_common_dir = \<lambda>_. [], gx_workdir = \<lambda>_. Some ''/w'',
        gx_open = \<lambda>_. Err ''none'', gx_modules = \<lambda>_. Err ''none''\<rparr>,
      au_table = [(0, 32)], au_digests = toy_digests, au_pki = toy_pki, au_cms = toy_cms,
      au_pem = \<lparr>load_pem_chain = \<lambda>_. Some (Ok [toy_root]), decode_pem = \<lambda>_. Ok (''X509 CRL'', ''crl''), pem_debug = \<lambda>s. s\<rparr>,
      au_files = toy_files, au_from_hex = Ok\<rparr>"

definition toy_audit_inputs :: audit_inputs where
  "toy_audit_inputs = \<lparr>aud_start_id = ''c1'', aud_anchor_certificates = [''root''], aud_worktree = Some ''/w''\<rparr>"

lemma toy_judged:
  "\<exists>summary. judge_claim toy_auditor () toy_trust ''c1'' = Some (Ok summary)"
proof -
  have site: "site_of_file_name ''site.tsr'' = Some ''site''"
    using is_utf8_ascii[of "''site.tsr''"] by (simp add: site_of_file_name_Some TOKEN_FILE_SUFFIX_def)
  have artifacts: "read_claim_artifacts toy_audit_objects ''c1'' =
      Ok \<lparr>ca_manifest_bytes = toy_manifest_bytes, ca_tokens = [\<lparr>tf_site = ''site'', tf_bytes = toy_token\<rparr>]\<rparr>"
    by (simp add: read_claim_artifacts_def read_token_files_def read_token_file_def find_manifest_entry_def tree_of_def
        toy_audit_objects_def toy_audit_tree_def MANIFEST_PATH_def TOKENS_PATH_def REGULAR_FILE_MODE_def site)
  have snapshot: "snapshot_run (au_gix toy_auditor) toy_digests () ''r1'' = Some (Ok [])"
    by (simp add: snapshot_eval toy_auditor_def toy_audit_objects_def toy_audit_tree_def)
  have groups: "groups_to_resolve [(0, 32)] toy_manifest_bytes = []"
    using groups_to_resolve_parsed[OF toy_manifest(1,3)] by (simp add: empty_manifest_def)
  have inputs: "stamp_inputs_of \<lparr>ca_manifest_bytes = toy_manifest_bytes, ca_tokens = [\<lparr>tf_site = ''site'', tf_bytes = toy_token\<rparr>]\<rparr>
      [] [] toy_trust = toy_stamp [toy_site_token]"
    by (simp add: stamp_inputs_of_def toy_stamp_def toy_site_token_def)
  have commit: "gr_find_commit toy_audit_objects ''c1'' = Ok \<lparr>gc_tree = Ok toy_audit_tree, gc_tree_id = Ok ''r1'', gc_parents = []\<rparr>"
    by (simp add: toy_audit_objects_def)
  have "judge_claim toy_auditor () toy_trust ''c1'' =
      Some (map_err VerdictFailure (verify_stamp [(0, 32)] toy_digests toy_pki toy_cms (toy_stamp [toy_site_token])))"
    unfolding judge_claim_def using artifacts commit snapshot groups inputs
    by (simp add: toy_auditor_def)
  with toy_stamp_passes show ?thesis by auto
qed

lemma passing_claim_seals_its_tree_witness:
  "\<exists>artifacts m. read_claim_artifacts toy_audit_objects ''c1'' = Ok artifacts \<and>
     canonical_manifest [(0, 32)] m \<and> serialize [(0, 32)] m = Ok (ca_manifest_bytes artifacts)"
proof -
  have "ascii_table (au_table toy_auditor)" using ascii_table_example by (simp add: toy_auditor_def)
  moreover obtain summary where "judge_claim toy_auditor () toy_trust ''c1'' = Some (Ok summary)" using toy_judged by blast
  ultimately show ?thesis
    using passing_claim_seals_its_tree[of toy_auditor "()" toy_trust "''c1''" summary] by (auto simp: toy_auditor_def)
qed

lemma toy_audited:
  "\<exists>summary. audit_run toy_auditor () toy_audit_inputs = Some (Ok
     \<lparr>start_is_claiming = True, audit_verdicts = [\<lparr>cv_commit_id = ''c1'', cv_outcome = Ok summary\<rparr>],
      unsealed_deposits = [''.tydence/ltv/crls/x.crl'']\<rparr>)"
proof -
  have walk: "nearest_claiming_commits toy_audit_objects [''c1''] = Some (Ok [''c1''])"
    by (simp add: nearest_claiming_commits_def search.simps visit_commit_def tree_of_def find_manifest_entry_def
        toy_audit_objects_def toy_audit_tree_def)
  have "audit_trust toy_audit_inputs
      \<lparr>mat_companions = [], mat_crls = [''crl''], seen_companions = {}, seen_crls = {''crl''}\<rparr> = toy_trust"
    by (simp add: audit_trust_def toy_audit_inputs_def toy_trust_def)
  moreover have "gather_material toy_auditor () toy_audit_inputs [''c1''] =
      Ok (\<lparr>mat_companions = [], mat_crls = [''crl''], seen_companions = {}, seen_crls = {''crl''}\<rparr>, [''.tydence/ltv/crls/x.crl''])"
  proof -
    have name: "deposit_file_name \<lparr>rl_kind = CrlDeposit, rl_directory_path = ''.tydence/ltv/crls'', rl_suffix = ''.crl''\<rparr>
        ''/w/.tydence/ltv/crls/x.crl'' = Some ''x.crl''"
      using from_utf8_valid[OF is_utf8_ascii[of "''x.crl''"]]
      by (simp add: deposit_file_name_def path_file_name_def ends_with_def strip_suffix_def)
    then show ?thesis
      by (simp add: gather_material_def toy_audit_inputs_def toy_auditor_def gather_tree_material_def RECORD_LAYOUTS_def
          sealed_records_def audit_tree_of_def toy_audit_objects_def toy_audit_tree_def layout_defs
          gather_worktree_material_def enumerate_deposits_def enumerate_directory_def toy_files_def path_join_def
          starts_with_def ends_with_def strip_suffix_def read_deposit_def gather_deposit_def absorb_def crl_from_pem_def
          CRL_PEM_LABEL_def absorb_crl_def material_new_def blob_at_def)
  qed
  moreover obtain summary where "judge_claim toy_auditor () toy_trust ''c1'' = Some (Ok summary)" using toy_judged by blast
  moreover have "gx_objects (au_gix toy_auditor) () = toy_audit_objects" by (simp add: toy_auditor_def)
  ultimately show ?thesis
    using walk by (simp add: audit_run_def toy_audit_inputs_def)
qed

lemma audit_judges_nearest_claims_witness:
  "\<exists>report. audit_run toy_auditor () toy_audit_inputs = Some (Ok report) \<and> distinct (map cv_commit_id (audit_verdicts report)) \<and>
     (start_is_claiming report \<longleftrightarrow> carries_manifest toy_audit_objects ''c1'')"
proof -
  obtain summary where run: "audit_run toy_auditor () toy_audit_inputs = Some (Ok
     \<lparr>start_is_claiming = True, audit_verdicts = [\<lparr>cv_commit_id = ''c1'', cv_outcome = Ok summary\<rparr>],
      unsealed_deposits = [''.tydence/ltv/crls/x.crl'']\<rparr>)" using toy_audited by blast
  obtain trust :: trust_data where "carries_manifest toy_audit_objects ''c1''"
    using audit_judges_nearest_claims[OF run] by (auto simp: toy_auditor_def toy_audit_inputs_def)
  with run show ?thesis by auto
qed

end
