(* ===== verification/Bind_Verified.thy ===== *)
theory Bind_Verified
  imports Repository_Audit
begin

text \<open>
  What \<open>stamp/bind.rs\<close> builds, \<open>audit.rs\<close> and \<open>verify/binding.rs\<close> accept: the groups of a new stamp, resolved in
  the same repository by their commit annotations, link, and stand in the canonical order of the binding relation
  derived from them.
\<close>

section \<open>The canonical order is a fixed point\<close>

lemma greedy_unique:
  fixes key :: "nat \<Rightarrow> 'k :: linorder"
  assumes inj: "inj_on key {..<n}"
    and a: "greedy_from edges n key [] a" "valid_order edges n a"
    and b: "greedy_from edges n key [] b" "valid_order edges n b"
  shows "a = b"
proof -
  have len: "length a = length b" using a(2) b(2) by (metis distinct_card valid_order_def)
  have "map key a \<le> map key b" "map key b \<le> map key a"
    using greedy_smallest[OF inj a(1) greedy_respects[OF b(1)] len]
      greedy_smallest[OF inj b(1) greedy_respects[OF a(1)] len[symmetric]] .
  then have "map key a = map key b" by (rule order.antisym)
  moreover have "set a = {..<n}" "set b = {..<n}" using a(2) b(2) by (simp_all add: valid_order_def)
  ultimately show ?thesis using inj by (metis inj_on_map_eq_map sup.idem)
qed

text \<open>\<open>edges'\<close> binds the positions of an order as \<open>edges\<close> binds the groups at them.\<close>

definition relabels :: "nat list \<Rightarrow> binding_edge list \<Rightarrow> binding_edge list \<Rightarrow> bool" where
  "relabels order edges edges' \<longleftrightarrow> distinct order \<and> set order = {..<length order} \<and>
     (\<forall>e \<in> set edges. names_two_distinct_groups (length order) e) \<and>
     (\<forall>e \<in> set edges'. names_two_distinct_groups (length order) e) \<and>
     (\<forall>i < length order. \<forall>j < length order.
        (i, j) \<in> edge_relation edges' \<longleftrightarrow> (order ! i, order ! j) \<in> edge_relation edges)"

lemma relabels_available:
  assumes r: "relabels order edges edges'" and em: "set em \<subseteq> {..<length order}" and i: "i < length order"
  shows "available edges' (length order) em i \<longleftrightarrow> available edges (length order) (map ((!) order) em) (order ! i)"
proof -
  have bij: "j < length order \<Longrightarrow> order ! j \<in> (!) order ` set em \<longleftrightarrow> j \<in> set em" for j
    using r em by (auto simp: relabels_def nth_eq_iff_index_eq subset_iff)
  have bounded: "(b, k) \<in> edge_relation edges' \<Longrightarrow> b < length order" "(b, k) \<in> edge_relation edges \<Longrightarrow> b < length order" for b k
    using r by (auto simp: relabels_def edge_relation_def names_two_distinct_groups_def)
  have onto: "\<exists>j < length order. b = order ! j" if "b < length order" for b
    using r that unfolding relabels_def by (metis in_set_conv_nth lessThan_iff)
  have "(\<forall>b. (b, i) \<in> edge_relation edges' \<longrightarrow> b \<in> set em) \<longleftrightarrow>
      (\<forall>b. (b, order ! i) \<in> edge_relation edges \<longrightarrow> b \<in> (!) order ` set em)" (is "?l \<longleftrightarrow> ?r")
  proof
    assume l: ?l
    show ?r
    proof (intro allI impI)
      fix b assume b: "(b, order ! i) \<in> edge_relation edges"
      obtain j where j: "j < length order" "b = order ! j" using onto[OF bounded(2)[OF b]] by blast
      with r b i have "(j, i) \<in> edge_relation edges'" by (auto simp: relabels_def)
      with l j show "b \<in> (!) order ` set em" by blast
    qed
  next
    assume r': ?r
    show ?l
    proof (intro allI impI)
      fix j assume j: "(j, i) \<in> edge_relation edges'"
      from bounded(1)[OF j] r j i have "(order ! j, order ! i) \<in> edge_relation edges" by (auto simp: relabels_def)
      with r' bij[OF bounded(1)[OF j]] show "j \<in> set em" by blast
    qed
  qed
  moreover have "order ! i < length order" using r i by (metis lessThan_iff nth_mem relabels_def)
  ultimately show ?thesis using i bij[OF i] by (simp add: available_def)
qed

lemma relabels_greedy:
  assumes r: "relabels order edges edges'"
  shows "greedy_from edges (length order) key (map ((!) order) em) (map ((!) order) rest) \<Longrightarrow>
    set em \<union> set rest \<subseteq> {..<length order} \<Longrightarrow> greedy_from edges' (length order) (\<lambda>i. key (order ! i)) em rest"
proof (induction rest arbitrary: em)
  case (Cons i rest)
  have em: "set em \<subseteq> {..<length order}" and i: "i < length order" using Cons.prems(2) by auto
  have least: "key (order ! i) \<le> key (order ! j)" if "available edges' (length order) em j" for j
  proof -
    have "j < length order" using that by (simp add: available_def)
    with that relabels_available[OF r em this] Cons.prems(1) show ?thesis by auto
  qed
  from Cons.prems have "greedy_from edges' (length order) (\<lambda>i. key (order ! i)) (em @ [i]) rest"
    by (intro Cons.IH) auto
  with least Cons.prems(1) relabels_available[OF r em i] show ?case by simp
qed simp

lemma relabelled_order_is_canonical:
  assumes ordered: "order_binding_groups groups edges = Ok canonical"
    and order: "canonical = map ((!) groups) order" "greedy_from edges (length groups) (index_key groups) [] order"
      "valid_order edges (length groups) order"
    and distinct: "distinct (map (\<lambda>g. sha256 (manifest_hashes g)) groups)"
    and r: "relabels order edges edges'"
  shows "order_binding_groups canonical edges' = Ok canonical"
proof -
  have o: "distinct order" "set order = {..<length groups}" using order(3) by (simp_all add: valid_order_def)
  then have n: "length order = length groups" by (metis card_lessThan distinct_card)
  have key: "index_key canonical i = index_key groups (order ! i)" if "i < length order" for i
    using that o n by (simp add: index_key_def order(1))
  have inj: "inj_on (index_key groups) {..<length groups}"
    using distinct by (auto simp: inj_on_def index_key_def distinct_conv_nth)
  have inj': "inj_on (\<lambda>i. index_key groups (order ! i)) {..<length order}"
    using inj o n by (auto simp: inj_on_def nth_eq_iff_index_eq) (metis lessThan_iff nth_eq_iff_index_eq nth_mem)
  have greedy: "greedy_from edges' (length order) (\<lambda>i. index_key groups (order ! i)) [] [0..<length order]"
  proof (rule relabels_greedy[OF r])
    show "greedy_from edges (length order) (index_key groups) (map ((!) order) []) (map ((!) order) [0..<length order])"
      using order(2)[folded n] by (simp only: map_nth list.map)
  qed auto
  have bounded: "\<forall>(b, d) \<in> edge_relation edges'. d < length order"
    using r by (auto simp: relabels_def edge_relation_def names_two_distinct_groups_def)
  from greedy_respects[OF greedy] have valid: "valid_order edges' (length order) [0..<length order]"
    by (simp add: valid_order_iff[OF bounded])
  have edges': "\<forall>e \<in> set edges'. names_two_distinct_groups (length canonical) e"
    using r by (simp add: relabels_def order(1))
  have "acyclic (edge_relation edges')" using valid by (rule valid_order_acyclic)
  then have "order_binding_groups canonical edges' \<noteq> Err e" for e
    using order_binding_groups_Err[of canonical edges'] order_binding_groups_InvalidEdge[of canonical edges'] edges'
    by (cases e) auto
  then obtain result where result: "order_binding_groups canonical edges' = Ok result"
    by (cases "order_binding_groups canonical edges'") auto
  obtain b where b: "valid_order edges' (length canonical) b" "result = map ((!) canonical) b"
    "greedy_from edges' (length canonical) (index_key canonical) [] b" using order_binding_groups_Ok[OF result] .
  have len: "length canonical = length order" by (simp add: order(1))
  have "greedy_from edges' (length order) (index_key canonical) [] [0..<length order]"
  proof -
    have "greedy_from edges' (length order) k em rest \<Longrightarrow> (\<And>i. i < length order \<Longrightarrow> k i = k' i) \<Longrightarrow>
        greedy_from edges' (length order) k' em rest" for k k' :: "nat \<Rightarrow> bytes" and em rest
      by (induction rest arbitrary: em) (auto simp: available_def)
    from this[OF greedy] key show ?thesis by simp
  qed
  moreover have "inj_on (index_key canonical) {..<length order}"
    using inj' by (simp add: inj_on_def key)
  ultimately have "b = [0..<length order]"
    using b valid unfolding len by (intro greedy_unique) auto
  moreover have "map ((!) canonical) [0..<length order] = canonical" by (metis len map_nth)
  ultimately show ?thesis using b(2) result by simp
qed

section \<open>Resolving the groups of a new stamp\<close>

lemma list_all2_total: "(\<exists>ys. list_all2 P xs ys) \<longleftrightarrow> (\<forall>x \<in> set xs. \<exists>y. P x y)"
proof (induction xs)
  case (Cons x xs)
  then show ?case by (auto simp: list_all2_Cons1)
qed simp

lemma derive_binding_edges_total:
  "(\<exists>edges. derive_binding_edges table groups resolved = Ok edges) \<longleftrightarrow> length groups = length resolved \<and>
     (\<forall>stamp \<in> set resolved. is_utf8 (bs_manifest_bytes stamp) \<and> (\<exists>m. parse_manifest table (bs_manifest_bytes stamp) = Ok m))"
proof -
  have "(\<exists>ms. list_all2 (\<lambda>(i, stamp) m. parse_bound_manifest table i (bs_manifest_bytes stamp) = Ok m) (List.enumerate 0 resolved) ms)
      \<longleftrightarrow> (\<forall>stamp \<in> set resolved. is_utf8 (bs_manifest_bytes stamp) \<and> (\<exists>m. parse_manifest table (bs_manifest_bytes stamp) = Ok m))"
    unfolding list_all2_total ball_enumerate by (auto simp: parse_bound_manifest_Ok all_set_conv_all_nth)
  then show ?thesis
    by (auto simp: derive_binding_edges_def ensure_stamp_counts_match_def result_simps derive_fold)
qed

lemma resolve_binding_Ok:
  "resolve_binding from_hex r g = Ok artifacts \<longleftrightarrow> predecessor_origin g = None \<and>
     (\<exists>bound_id. from_hex (bg_commit g) = Ok bound_id \<and> read_claim_artifacts r bound_id = Ok artifacts)"
  by (auto simp: resolve_binding_def result_simps)

lemma bound_token_found:
  assumes "distinct (map tf_site (ca_tokens artifacts))" "f \<in> set (ca_tokens artifacts)"
  shows "matching_tokens (bound_stamp_of artifacts) (past_token_of d f) =
    [\<lparr>bt_spec = Rfc3161, bt_site = tf_site f, bt_bytes = tf_bytes f\<rparr>]"
proof -
  have "filter (\<lambda>g. tf_site g = tf_site f) fs = [f]" if "distinct (map tf_site fs)" "f \<in> set fs" for fs
    using that
  proof (induction fs)
    case (Cons g fs)
    then show ?case by (auto simp: filter_empty_conv image_iff)
  qed simp
  from this[OF assms] show ?thesis
    by (simp add: matching_tokens_def bound_stamp_of_def past_token_of_def filter_map comp_def)
qed

text \<open>A stamp that was read and kept is the claim its group's annotation names.\<close>

lemma kept_stamp_reads:
  assumes "list_all2 (\<lambda>c stamp. read_bound_stamp r d c = Ok stamp) claiming reads" "stamp \<in> set (deduplicate_stamps reads)"
  shows "\<exists>artifacts. read_claim_artifacts r (bg_commit (rd_group stamp)) = Ok artifacts \<and>
    rd_group stamp = bound_group_of d (bg_commit (rd_group stamp)) artifacts \<and> rd_manifest_bytes stamp = ca_manifest_bytes artifacts"
proof -
  have "stamp \<in> set reads" using assms(2) deduplicate_stamps_correct[of reads] by (auto simp: deduplicated_def)
  from list_all2_right[OF assms(1) this] show ?thesis by (auto simp: read_bound_stamp_Ok bound_group_of_def)
qed

lemma linkage_of_bound_groups:
  assumes read: "\<And>g. g \<in> set groups \<Longrightarrow> read_claim_artifacts r (bg_commit g) = Ok (artifacts_of g) \<and>
      g = bound_group_of d (bg_commit g) (artifacts_of g) \<and> distinct (map tf_site (ca_tokens (artifacts_of g)))"
  shows "verify_binding_linkage d groups (map (\<lambda>g. bound_stamp_of (artifacts_of g)) groups) = Ok ()"
proof -
  have "hash_payload d (bs_manifest_bytes (bound_stamp_of (artifacts_of g))) = manifest_hashes g \<and>
      (\<forall>claimed \<in> set (bg_tokens g). \<exists>offered. matching_tokens (bound_stamp_of (artifacts_of g)) claimed = [offered] \<and>
         hash_payload d (bt_bytes offered) = token_hashes claimed)" if g: "g \<in> set groups" for g
  proof -
    from read[OF g] have group_is: "g = bound_group_of d (bg_commit g) (artifacts_of g)"
      and sites: "distinct (map tf_site (ca_tokens (artifacts_of g)))" by auto
    have hashes: "manifest_hashes g = hash_payload d (ca_manifest_bytes (artifacts_of g))"
      and tokens: "bg_tokens g = map (past_token_of d) (ca_tokens (artifacts_of g))"
      by (subst group_is, simp add: bound_group_of_def)+
    show ?thesis
      unfolding hashes tokens using bound_token_found[OF sites]
      by (auto simp: bound_stamp_of_def[of "artifacts_of g", THEN arg_cong, of bs_manifest_bytes] past_token_of_def)
  qed
  then show ?thesis by (simp add: verify_binding_linkage_Ok)
qed

lemma derived_relation:
  assumes "derive_binding_edges table groups resolved = Ok edges"
  shows "\<forall>e \<in> set edges. names_two_distinct_groups (length groups) e"
    and "(i, j) \<in> edge_relation edges \<longleftrightarrow> i \<noteq> j \<and> i < length groups \<and> j < length groups \<and>
      (\<exists>m. parse_manifest table (bs_manifest_bytes (resolved ! i)) = Ok m \<and>
         manifest_hashes (groups ! j) \<in> manifest_hashes ` set (binding_groups m))"
proof -
  obtain ms where ms: "\<forall>i < length groups. parse_manifest table (bs_manifest_bytes (resolved ! i)) = Ok (ms ! i)"
    "\<forall>e. e \<in> set edges \<longleftrightarrow> (\<exists>i < length groups. e \<in> set (edges_of_stamp groups i (ms ! i)))"
    using derive_binding_edges_Ok[OF assms] by metis
  show "\<forall>e \<in> set edges. names_two_distinct_groups (length groups) e"
    using ms(2) by (auto simp: set_edges_of_stamp names_two_distinct_groups_def)
  have "(i, j) \<in> edge_relation edges \<longleftrightarrow> \<lparr>edge_binder = i, edge_bound = j\<rparr> \<in> set edges"
  proof
    assume "(i, j) \<in> edge_relation edges"
    then obtain e where "e \<in> set edges" "edge_binder e = i" "edge_bound e = j" by (auto simp: edge_relation_def)
    then show "\<lparr>edge_binder = i, edge_bound = j\<rparr> \<in> set edges"
      by (metis binding_edge.surjective old.unit.exhaust)
  next
    assume "\<lparr>edge_binder = i, edge_bound = j\<rparr> \<in> set edges"
    then show "(i, j) \<in> edge_relation edges" unfolding edge_relation_def by (rule rev_image_eqI) simp
  qed
  then show "(i, j) \<in> edge_relation edges \<longleftrightarrow> i \<noteq> j \<and> i < length groups \<and> j < length groups \<and>
      (\<exists>m. parse_manifest table (bs_manifest_bytes (resolved ! i)) = Ok m \<and>
         manifest_hashes (groups ! j) \<in> manifest_hashes ` set (binding_groups m))"
    using ms by (auto simp: set_edges_of_stamp image_iff) metis+
qed

lemma edges_of_resolved_groups:
  fixes kept :: "read_stamp list"
  assumes edges0: "derive_binding_edges table (map rd_group kept)
       (map (\<lambda>stamp. \<lparr>bs_manifest_bytes = rd_manifest_bytes stamp, bs_tokens = []\<rparr>) kept) = Ok edges0"
    and order: "valid_order edges0 (length kept) order"
    and same: "\<And>stamp. stamp \<in> set kept \<Longrightarrow> bs_manifest_bytes (stamp_of (rd_group stamp)) = rd_manifest_bytes stamp"
    and groups: "groups = map ((!) (map rd_group kept)) order"
  shows "\<exists>edges. derive_binding_edges table groups (map stamp_of groups) = Ok edges \<and> relabels order edges0 edges"
proof -
  have o: "distinct order" "set order = {..<length kept}" using order by (simp_all add: valid_order_def)
  then have n: "length order = length kept" by (metis card_lessThan distinct_card)
  have len: "length groups = length order" by (simp add: groups)
  have k: "order ! i < length kept" if "i < length order" for i using nth_mem[OF that] o(2) by simp
  have hashes: "groups ! i = rd_group (kept ! (order ! i))" if "i < length order" for i
    using that k[OF that] by (simp add: groups)
  have bytes: "bs_manifest_bytes (map stamp_of groups ! i) = rd_manifest_bytes (kept ! (order ! i))" if "i < length order" for i
    using that same[of "kept ! (order ! i)"] k[OF that] hashes[OF that] len by simp
  have readable: "is_utf8 (rd_manifest_bytes stamp) \<and> (\<exists>m. parse_manifest table (rd_manifest_bytes stamp) = Ok m)"
    if "stamp \<in> set kept" for stamp
    using edges0 that derive_binding_edges_total[of table "map rd_group kept"
      "map (\<lambda>stamp. \<lparr>bs_manifest_bytes = rd_manifest_bytes stamp, bs_tokens = []\<rparr>) kept"] by auto
  have "\<exists>edges. derive_binding_edges table groups (map stamp_of groups) = Ok edges"
    unfolding derive_binding_edges_total all_set_conv_all_nth
  proof (intro conjI allI impI)
    fix i assume "i < length (map stamp_of groups)"
    then have i: "i < length order" by (simp add: len)
    then show "is_utf8 (bs_manifest_bytes (map stamp_of groups ! i))"
      "\<exists>m. parse_manifest table (bs_manifest_bytes (map stamp_of groups ! i)) = Ok m"
      using readable[OF nth_mem[OF k[OF i]]] by (simp_all only: bytes[OF i])
  qed simp
  then obtain edges where edges: "derive_binding_edges table groups (map stamp_of groups) = Ok edges" by blast
  note R0 = derived_relation[OF edges0] and R = derived_relation[OF edges]
  have "relabels order edges0 edges"
    unfolding relabels_def
  proof (intro conjI allI impI)
    show "distinct order" "set order = {..<length order}" using o n by simp_all
    show "\<forall>e \<in> set edges0. names_two_distinct_groups (length order) e" using R0(1) n by simp
    show "\<forall>e \<in> set edges. names_two_distinct_groups (length order) e" using R(1) len by simp
    fix i j assume i: "i < length order" and j: "j < length order"
    have "i \<noteq> j \<longleftrightarrow> order ! i \<noteq> order ! j" using i j o(1) by (simp add: nth_eq_iff_index_eq)
    then show "(i, j) \<in> edge_relation edges \<longleftrightarrow> (order ! i, order ! j) \<in> edge_relation edges0"
      unfolding R0(2) R(2) len bytes[OF i] hashes[OF j] using i j k[OF i] k[OF j] by simp
  qed
  with edges show ?thesis by blast
qed

text \<open>C28: what the stamper binds, the verifier accepts: resolved in the same repository by their commit annotations,
  the groups of a new stamp reproduce all their double hashes, and they stand in the canonical order of the binding
  relation derived from the resolved stamps. Object ids read back from their text, a token tree has no two entries of
  one name, and no two bound manifests collide under SHA-256.\<close>

theorem bound_groups_are_accepted:
  assumes bound: "bind_stamps r table d parent_ids = Some (Ok groups)"
    and hex: "\<And>g. g \<in> set groups \<Longrightarrow> from_hex (bg_commit g) = Ok (bg_commit g)"
    and names: "\<And>g. g \<in> set groups \<Longrightarrow> distinct (map te_filename (token_entries r (bg_commit g)))"
    and distinct: "distinct (map (\<lambda>g. sha256 (manifest_hashes g)) groups)"
  shows "\<exists>resolved edges. traverse (resolve_binding from_hex r) groups = Ok resolved \<and>
    verify_binding_linkage d groups (map bound_stamp_of resolved) = Ok () \<and>
    derive_binding_edges table groups (map bound_stamp_of resolved) = Ok edges \<and>
    verify_binding_order groups edges = Ok ()"
proof -
  obtain claiming reads where reads: "list_all2 (\<lambda>c stamp. read_bound_stamp r d c = Ok stamp) claiming reads"
    and ordered: "order_stamps table (deduplicate_stamps reads) = Ok groups"
    using bind_stamps_Ok[OF bound] .
  define kept where "kept = deduplicate_stamps reads"
  obtain edges0 where edges0: "derive_binding_edges table (map rd_group kept)
       (map (\<lambda>stamp. \<lparr>bs_manifest_bytes = rd_manifest_bytes stamp, bs_tokens = []\<rparr>) kept) = Ok edges0"
    and ordered0: "order_binding_groups (map rd_group kept) edges0 = Ok groups"
    using order_stamps_Ok[OF ordered[folded kept_def]] .
  obtain order where order: "valid_order edges0 (length kept) order" "groups = map ((!) (map rd_group kept)) order"
    "greedy_from edges0 (length kept) (index_key (map rd_group kept)) [] order"
    using order_binding_groups_Ok[OF ordered0] by (metis length_map)
  have o: "distinct order" "set order = {..<length kept}" using order(1) by (simp_all add: valid_order_def)
  then have n: "length order = length kept" by (metis card_lessThan distinct_card)
  define artifacts_of where "artifacts_of g = (case read_claim_artifacts r (bg_commit g) of Ok a \<Rightarrow> a | Err _ \<Rightarrow> undefined)" for g :: binding_group
  have kept_reads: "read_claim_artifacts r (bg_commit (rd_group stamp)) = Ok (artifacts_of (rd_group stamp)) \<and>
      rd_group stamp = bound_group_of d (bg_commit (rd_group stamp)) (artifacts_of (rd_group stamp)) \<and>
      rd_manifest_bytes stamp = ca_manifest_bytes (artifacts_of (rd_group stamp))" if "stamp \<in> set kept" for stamp
    using kept_stamp_reads[OF reads that[unfolded kept_def]] by (auto simp: artifacts_of_def)
  have from_kept: "\<exists>stamp \<in> set kept. g = rd_group stamp" if "g \<in> set groups" for g
    using that order_stamps_permutes(1)[OF ordered] unfolding kept_def by auto
  have read: "read_claim_artifacts r (bg_commit g) = Ok (artifacts_of g) \<and>
      g = bound_group_of d (bg_commit g) (artifacts_of g) \<and> distinct (map tf_site (ca_tokens (artifacts_of g)))"
    if g: "g \<in> set groups" for g
    using from_kept[OF g] kept_reads artifact_sites_distinct[OF _ names[OF g]] by metis
  let ?resolved = "map artifacts_of groups"
  have resolved: "traverse (resolve_binding from_hex r) groups = Ok ?resolved"
  proof (rule traverse_all_ok)
    fix g assume g: "g \<in> set groups"
    have "predecessor_origin g = None" using read[OF g] by (metis binding_group.select_convs(2) bound_group_of_def)
    with read[OF g] hex[OF g] show "resolve_binding from_hex r g = Ok (artifacts_of g)"
      by (simp add: resolve_binding_Ok)
  qed
  have linked: "verify_binding_linkage d groups (map bound_stamp_of ?resolved) = Ok ()"
    using linkage_of_bound_groups[of groups r artifacts_of d, OF read] by (simp add: comp_def)
  have "bs_manifest_bytes (bound_stamp_of (artifacts_of (rd_group stamp))) = rd_manifest_bytes stamp" if "stamp \<in> set kept" for stamp
    using kept_reads[OF that] by (simp add: bound_stamp_of_def)
  from edges_of_resolved_groups[OF edges0 order(1) this order(2)] obtain edges
    where edges: "derive_binding_edges table groups (map bound_stamp_of ?resolved) = Ok edges"
      and relabelled: "relabels order edges0 edges" by (auto simp: comp_def)
  have "distinct (map (\<lambda>g. sha256 (manifest_hashes g)) (map rd_group kept))"
  proof -
    have "mset order = mset [0..<length kept]" 
      using mset_set_set[OF o(1)] o(2) by (simp add: lessThan_atLeast0)
    then have "mset groups = mset (map ((!) (map rd_group kept)) [0..<length kept])"
      unfolding order(2) by (metis mset_map)
    also have "map ((!) (map rd_group kept)) [0..<length kept] = map rd_group kept" by (metis length_map map_nth)
    finally have "mset (map rd_group kept) = mset groups" by simp
    then show ?thesis using distinct by (metis mset_eq_imp_distinct_iff mset_map)
  qed
  from relabelled_order_is_canonical[OF ordered0 order(2) _ _ this relabelled] order(1,3)
  have "order_binding_groups groups edges = Ok groups" by simp
  then have "verify_binding_order groups edges = Ok ()" by (auto simp: verify_binding_order_Ok)
  with resolved linked edges show ?thesis by blast
qed

lemma bound_groups_are_accepted_witness:
  "\<exists>groups resolved. bind_stamps toy_repository [(0, 32)] toy_digests [''c2''] = Some (Ok groups) \<and> groups \<noteq> [] \<and>
     traverse (resolve_binding Ok toy_repository) groups = Ok resolved \<and>
     verify_binding_linkage toy_digests groups (map bound_stamp_of resolved) = Ok ()"
proof -
  obtain g where g: "bind_stamps toy_repository [(0, 32)] toy_digests [''c2''] = Some (Ok [g])" "bg_commit g = ''c1''"
    using toy_bound by blast
  have "token_entries toy_repository ''c1'' = [\<lparr>te_mode = 33188, te_object_id = ''k'', te_filename = ''site.tsr''\<rparr>]"
    by (simp add: token_entries_def tree_of_def toy_repository_def toy_tree_def layout_defs map_filter_simps)
  with bound_groups_are_accepted[OF g(1), of Ok] g show ?thesis by auto
qed

end
