(* ===== verification/Transport.thy ===== *)
theory Transport
  imports Tsp Utf8
begin

text \<open>
  \<open>crates/tydence/src/transport.rs\<close>: the exchange with a timestamp
  authority and the plain fetch of trust material. The HTTP client \<open>ureq\<close> is a parameter that acts on a network of
  any type; what the code adds is the retry of interrupted requests, the size cap and the screening of the media type.
\<close>

section \<open>Retrying interrupted requests\<close>

datatype io_kind = Interrupted | OtherIoKind
datatype http_error = HttpIo io_kind string | HttpFailed string

fun http_text :: "http_error \<Rightarrow> string" where
  "http_text (HttpIo _ cause) = cause"
| "http_text (HttpFailed cause) = cause"

definition INTERRUPT_RETRIES :: nat where "INTERRUPT_RETRIES = 32"
definition MAX_RESPONSE_BYTES :: nat where "MAX_RESPONSE_BYTES = 1024 * 1024"
definition EXCHANGE_TIMEOUT_SECS :: nat where "EXCHANGE_TIMEOUT_SECS = 30"
definition REQUEST_CONTENT_TYPE :: string where "REQUEST_CONTENT_TYPE = ''application/timestamp-query''"
definition REPLY_CONTENT_TYPE :: string where "REPLY_CONTENT_TYPE = ''application/timestamp-reply''"

fun is_interrupted :: "http_error \<Rightarrow> bool" where
  "is_interrupted (HttpIo Interrupted _) = True"
| "is_interrupted _ = False"

text \<open>The loop of \<open>with_interrupt_retry\<close>, on the retries that remain; the operation acts on a state of any type.\<close>

fun retry_loop :: "('w \<Rightarrow> (http_error, 'a) result \<times> 'w) \<Rightarrow> nat \<Rightarrow> 'w \<Rightarrow> (http_error, 'a) result \<times> 'w" where
  "retry_loop operation remaining w =
     (case operation w of
        (Err e, w') \<Rightarrow>
          if is_interrupted e \<and> 0 < remaining then retry_loop operation (remaining - 1) w' else (Err e, w')
      | (Ok x, w') \<Rightarrow> (Ok x, w'))"

declare retry_loop.simps [simp del]

definition with_interrupt_retry :: "('w \<Rightarrow> (http_error, 'a) result \<times> 'w) \<Rightarrow> 'w \<Rightarrow> (http_error, 'a) result \<times> 'w" where
  "with_interrupt_retry operation w = retry_loop operation INTERRUPT_RETRIES w"

section \<open>The client\<close>

datatype root_certs = PlatformVerifier | WebPki

record agent =
  http_status_as_error :: bool
  timeout_global_secs :: "nat option"
  agent_root_certs :: root_certs

definition standard_agent :: agent where
  "standard_agent =
     \<lparr>http_status_as_error = True, timeout_global_secs = Some EXCHANGE_TIMEOUT_SECS, agent_root_certs = PlatformVerifier\<rparr>"

text \<open>What \<open>ureq\<close> does: a call yields a response, whose header values are octets and whose body is read under a limit.\<close>

record ('w, 'resp) http_client =
  http_get :: "agent \<Rightarrow> 'w \<Rightarrow> string \<Rightarrow> (http_error, 'resp) result \<times> 'w"
  http_post :: "agent \<Rightarrow> 'w \<Rightarrow> string \<Rightarrow> (string \<times> string) list \<Rightarrow> bytes \<Rightarrow> (http_error, 'resp) result \<times> 'w"
  resp_header :: "'resp \<Rightarrow> string \<Rightarrow> bytes option"
  header_to_str :: "bytes \<Rightarrow> string option"
  read_to_vec :: "'w \<Rightarrow> 'resp \<Rightarrow> nat \<Rightarrow> (http_error, bytes) result \<times> 'w"
  http_debug :: "string \<Rightarrow> string"

definition ascii_lowercase :: "byte \<Rightarrow> byte" where
  "ascii_lowercase b = (if is_ascii_uppercase b then char_of (byte_code b + 32 :: nat) else b)"

definition eq_ignore_ascii_case :: "string \<Rightarrow> string \<Rightarrow> bool" where
  "eq_ignore_ascii_case s t \<longleftrightarrow> map ascii_lowercase s = map ascii_lowercase t"

definition is_timestamp_reply :: "string \<Rightarrow> bool" where
  "is_timestamp_reply content_type =
     eq_ignore_ascii_case (str_trim (hd (split_on (CHR '';'') content_type))) REPLY_CONTENT_TYPE"

definition read_body :: "('w, 'resp) http_client \<Rightarrow> 'w \<Rightarrow> 'resp \<Rightarrow> (http_error, bytes) result \<times> 'w" where
  "read_body h w response = read_to_vec h w response MAX_RESPONSE_BYTES"

definition fetch_once :: "('w, 'resp) http_client \<Rightarrow> agent \<Rightarrow> string \<Rightarrow> 'w \<Rightarrow> (http_error, bytes) result \<times> 'w" where
  "fetch_once h used_agent url w =
     (case http_get h used_agent w url of (Err e, w) \<Rightarrow> (Err e, w) | (Ok response, w) \<Rightarrow> read_body h w response)"

definition fetch :: "('w, 'resp) http_client \<Rightarrow> 'w \<Rightarrow> string \<Rightarrow> (string, bytes) result \<times> 'w" where
  "fetch h w url =
     (let (outcome, w) = with_interrupt_retry (fetch_once h standard_agent url) w in (map_err http_text outcome, w))"

section \<open>The exchange\<close>

record 'w https_transport =
  tr_agent :: agent
  tr_url :: string
  tr_network :: 'w  \<comment> \<open>the network the transport acts on\<close>

definition https_transport_new :: "'w \<Rightarrow> string \<Rightarrow> 'w https_transport" where
  "https_transport_new w url = \<lparr>tr_agent = standard_agent, tr_url = url, tr_network = w\<rparr>"

definition declared_content_type :: "('w, 'resp) http_client \<Rightarrow> 'resp \<Rightarrow> string" where
  "declared_content_type h response =
     (case resp_header h response ''content-type'' of None \<Rightarrow> []
      | Some value \<Rightarrow> (case header_to_str h value of None \<Rightarrow> [] | Some t \<Rightarrow> t))"

definition exchange_once ::
  "('w, 'resp) http_client \<Rightarrow> agent \<Rightarrow> string \<Rightarrow> bytes \<Rightarrow> 'w \<Rightarrow> (http_error, string \<times> bytes) result \<times> 'w" where
  "exchange_once h used_agent url request_bytes w =
     (case http_post h used_agent w url [(''Content-Type'', REQUEST_CONTENT_TYPE)] request_bytes of
        (Err e, w) \<Rightarrow> (Err e, w)
      | (Ok response, w) \<Rightarrow>
          (let content_type = declared_content_type h response
           in case read_body h w response of (Err e, w) \<Rightarrow> (Err e, w) | (Ok body, w) \<Rightarrow> (Ok (content_type, body), w)))"

definition exchange ::
  "('w, 'resp) http_client \<Rightarrow> 'w https_transport \<Rightarrow> bytes \<Rightarrow> (string, bytes) result \<times> 'w https_transport" where
  "exchange h transport request_bytes =
     (let (outcome, w) = with_interrupt_retry (exchange_once h (tr_agent transport) (tr_url transport) request_bytes)
            (tr_network transport)
      in (and_then (map_err http_text outcome) (\<lambda>(content_type, body).
            if \<not> is_timestamp_reply content_type
            then Err (''the TSA answered with content type '' @ http_debug h content_type @ '' where '' @
              http_debug h REPLY_CONTENT_TYPE @ '' is required'')
            else Ok body),
          transport\<lparr>tr_network := w\<rparr>))"

section \<open>What a retried request returns\<close>

text \<open>The state after so many attempts, and the attempt that counts: all before it were interrupted, and it was not,
  or no retry is left.\<close>

definition after_attempts :: "('w \<Rightarrow> 'o \<times> 'w) \<Rightarrow> nat \<Rightarrow> 'w \<Rightarrow> 'w" where
  "after_attempts operation k w = ((\<lambda>w. snd (operation w)) ^^ k) w"

definition interrupted :: "(http_error, 'a) result \<Rightarrow> bool" where
  "interrupted outcome \<longleftrightarrow> (\<exists>e. outcome = Err e \<and> is_interrupted e)"

definition counting_attempt :: "('w \<Rightarrow> (http_error, 'a) result \<times> 'w) \<Rightarrow> nat \<Rightarrow> 'w \<Rightarrow> nat \<Rightarrow> bool" where
  "counting_attempt operation retries w k \<longleftrightarrow> k \<le> retries \<and>
     (\<forall>i < k. interrupted (fst (operation (after_attempts operation i w)))) \<and>
     (k < retries \<longrightarrow> \<not> interrupted (fst (operation (after_attempts operation k w))))"

lemma after_attempts_Suc: "after_attempts operation (Suc k) w = after_attempts operation k (snd (operation w))"
  by (simp add: after_attempts_def funpow_Suc_right del: funpow.simps)

lemma retry_loop_counts: "\<exists>k. counting_attempt operation remaining w k \<and>
    retry_loop operation remaining w = operation (after_attempts operation k w)"
proof (induction operation remaining w rule: retry_loop.induct)
  case (1 operation remaining w)
  obtain outcome w' where step: "operation w = (outcome, w')" by (cases "operation w") auto
  show ?case
  proof (cases "interrupted outcome \<and> 0 < remaining")
    case True
    then obtain e where e: "outcome = Err e" "is_interrupted e" "0 < remaining" by (auto simp: interrupted_def)
    from 1[OF step[symmetric] e(1)] e obtain k where
      k: "counting_attempt operation (remaining - 1) w' k" "retry_loop operation (remaining - 1) w' = operation (after_attempts operation k w')"
      by auto
    have "counting_attempt operation remaining w (Suc k)"
      using k(1) e step True by (auto simp: counting_attempt_def after_attempts_Suc less_Suc_eq_0_disj after_attempts_def[of _ 0])
    moreover have "retry_loop operation remaining w = operation (after_attempts operation (Suc k) w)"
      using k(2) e step by (simp add: retry_loop.simps[of _ _ w] after_attempts_Suc)
    ultimately show ?thesis by blast
  next
    case False
    then have "counting_attempt operation remaining w 0" using step by (auto simp: counting_attempt_def after_attempts_def)
    moreover have "retry_loop operation remaining w = operation w"
      using False step by (auto simp: retry_loop.simps[of _ _ w] interrupted_def split: sum.splits)
    ultimately show ?thesis by (intro exI[of _ 0]) (simp add: after_attempts_def)
  qed
qed

lemma counting_attempt_unique:
  assumes "counting_attempt operation retries w k" "counting_attempt operation retries w k'"
  shows "k = k'"
proof -
  have False if "counting_attempt operation retries w i" "counting_attempt operation retries w j" "i < j" for i j
    using that unfolding counting_attempt_def by auto
  with assms show ?thesis by (metis linorder_neqE_nat)
qed

text \<open>A request is made at most 33 times, and only while every earlier attempt was interrupted: the outcome
  is that of the first attempt that was not, or of the thirty-third. The loop ends whatever the network does.\<close>

theorem retry_is_bounded:
  "\<exists>!k. counting_attempt operation 32 w k \<and> with_interrupt_retry operation w = operation (after_attempts operation k w)"
proof -
  obtain k where "counting_attempt operation 32 w k" "with_interrupt_retry operation w = operation (after_attempts operation k w)"
    using retry_loop_counts[of operation 32 w] by (auto simp: with_interrupt_retry_def INTERRUPT_RETRIES_def)
  then show ?thesis by (intro ex1I[of _ k] conjI) (auto intro: counting_attempt_unique)
qed

lemma exchange_of_outcome:
  assumes "with_interrupt_retry (exchange_once h (tr_agent transport) (tr_url transport) request_bytes)
    (tr_network transport) = (outcome, w)"
  shows "snd (exchange h transport request_bytes) = transport\<lparr>tr_network := w\<rparr>"
    "fst (exchange h transport request_bytes) = Ok body \<longleftrightarrow>
       (\<exists>content_type. outcome = Ok (content_type, body) \<and> is_timestamp_reply content_type)"
proof -
  show "snd (exchange h transport request_bytes) = transport\<lparr>tr_network := w\<rparr>" using assms by (simp add: exchange_def)
  show "fst (exchange h transport request_bytes) = Ok body \<longleftrightarrow>
       (\<exists>content_type. outcome = Ok (content_type, body) \<and> is_timestamp_reply content_type)"
    unfolding exchange_def Let_def assms by (cases outcome) (auto split: if_splits)
qed

lemma exchange_once_Ok:
  "exchange_once h used_agent url request_bytes w = (Ok (content_type, body), w') \<longleftrightarrow>
     (\<exists>response w1. http_post h used_agent w url [(''Content-Type'', REQUEST_CONTENT_TYPE)] request_bytes = (Ok response, w1) \<and>
        content_type = declared_content_type h response \<and> read_to_vec h w1 response MAX_RESPONSE_BYTES = (Ok body, w'))"
  by (auto simp: exchange_once_def Let_def read_body_def split: prod.splits sum.splits)

text \<open>C24: a body the live transport hands to the anchor was the answer of one request to the site's URL, posted as a
  timestamp query by an agent that fails on error statuses, read whole under the cap of one mebibyte, and declared as
  a timestamp reply; every request before it was interrupted, and there were at most 32 of those.\<close>

theorem exchanged_body_is_a_reply:
  assumes "exchange h (https_transport_new w url) request_bytes = (Ok body, transport')"
  shows "\<exists>k response w1. counting_attempt (exchange_once h standard_agent url request_bytes) 32 w k \<and>
    http_status_as_error standard_agent \<and>
    http_post h standard_agent (after_attempts (exchange_once h standard_agent url request_bytes) k w) url
      [(''Content-Type'', ''application/timestamp-query'')] request_bytes = (Ok response, w1) \<and>
    read_to_vec h w1 response (2 ^ 20) = (Ok body, tr_network transport') \<and>
    is_timestamp_reply (declared_content_type h response)"
proof -
  let ?once = "exchange_once h standard_agent url request_bytes"
  obtain outcome w' where retried: "with_interrupt_retry ?once w = (outcome, w')" by fastforce
  note out = exchange_of_outcome[of h "https_transport_new w url", unfolded https_transport_new_def https_transport.simps, OF retried]
  from out(2)[of body] assms obtain content_type where outcome: "outcome = Ok (content_type, body)" "is_timestamp_reply content_type"
    by (auto simp: https_transport_new_def)
  have end_state: "tr_network transport' = w'" using out(1) assms by (simp add: https_transport_new_def)
  obtain k where k: "counting_attempt ?once 32 w k" "?once (after_attempts ?once k w) = (Ok (content_type, body), w')"
    using retry_loop_counts[of ?once 32 w] retried outcome(1)
    by (auto simp: with_interrupt_retry_def INTERRUPT_RETRIES_def)
  from k(2)[unfolded exchange_once_Ok] k(1) outcome(2) end_state show ?thesis
    by (auto simp: REQUEST_CONTENT_TYPE_def MAX_RESPONSE_BYTES_def standard_agent_def)
qed

section \<open>A concrete network\<close>

text \<open>A network that interrupts as many requests as its state says and then answers.\<close>

definition toy_http :: "(nat, string \<times> bytes) http_client" where
  "toy_http =
     \<lparr>http_get = \<lambda>_ w _. (Err (HttpFailed ''no resource''), w),
      http_post = \<lambda>_ w _ _ request.
        if 0 < w then (Err (HttpIo Interrupted ''signal''), w - 1)
        else (Ok (''Application/Timestamp-Reply; v=1'', ''re:'' @ request), w),
      resp_header = \<lambda>response _. Some (fst response), header_to_str = Some,
      read_to_vec = \<lambda>w response limit. if length (snd response) \<le> limit then (Ok (snd response), w) else (Err (HttpFailed ''too large''), w),
      http_debug = \<lambda>s. s\<rparr>"

lemma toy_reply: "is_timestamp_reply ''Application/Timestamp-Reply; v=1''"
  by (simp add: is_timestamp_reply_def eq_ignore_ascii_case_def str_trim_def utf8_next_ascii is_whitespace_def
      REPLY_CONTENT_TYPE_def ascii_lowercase_def is_ascii_uppercase_def char_of_def bit_0)

lemma toy_exchanged: "exchange toy_http (https_transport_new 2 ''https://t'') ''q'' = (Ok ''re:q'', https_transport_new 0 ''https://t'')"
  by (simp add: exchange_def with_interrupt_retry_def retry_loop.simps exchange_once_def read_body_def toy_http_def
      https_transport_new_def declared_content_type_def INTERRUPT_RETRIES_def MAX_RESPONSE_BYTES_def toy_reply Let_def)

lemma exchanged_body_is_a_reply_witness:
  "\<exists>k. counting_attempt (exchange_once toy_http standard_agent ''https://t'' ''q'') 32 2 k"
  using exchanged_body_is_a_reply[OF toy_exchanged] by blast

end
