(* ===== verification/Effects.thy ===== *)
theory Effects
  imports Files
begin

text \<open>
  Code that reads and changes a state and may return early with an error. An action returns its result with the
  state it leaves, also when it fails; \<open>act_bind\<close> is the question mark operator between two actions. Below,
  the file system as a state, and the contract of a keyed store.
\<close>

section \<open>Actions\<close>

type_synonym ('s, 'e, 'a) action = "'s \<Rightarrow> ('e, 'a) result \<times> 's"

definition act_return :: "'a \<Rightarrow> ('s, 'e, 'a) action" where
  "act_return x s = (Ok x, s)"

definition act_bind :: "('s, 'e, 'a) action \<Rightarrow> ('a \<Rightarrow> ('s, 'e, 'b) action) \<Rightarrow> ('s, 'e, 'b) action" where
  "act_bind m f s = (case m s of (Err e, s) \<Rightarrow> (Err e, s) | (Ok x, s) \<Rightarrow> f x s)"

text \<open>A result that needs no state, \<open>map_err\<close>, and an action on a part of the state.\<close>

definition act_lift :: "('e, 'a) result \<Rightarrow> ('s, 'e, 'a) action" where
  "act_lift r s = (r, s)"

definition act_map_err :: "('e \<Rightarrow> 'f) \<Rightarrow> ('s, 'e, 'a) action \<Rightarrow> ('s, 'f, 'a) action" where
  "act_map_err g m s = (case m s of (r, s) \<Rightarrow> (map_err g r, s))"

definition on_fst :: "('s, 'e, 'a) action \<Rightarrow> ('s \<times> 't, 'e, 'a) action" where
  "on_fst m s = (case m (fst s) of (r, s') \<Rightarrow> (r, (s', snd s)))"

definition on_snd :: "('t, 'e, 'a) action \<Rightarrow> ('s \<times> 't, 'e, 'a) action" where
  "on_snd m s = (case m (snd s) of (r, s') \<Rightarrow> (r, (fst s, s')))"

text \<open>A \<open>for\<close> loop with an accumulator whose body may return early.\<close>

fun act_fold :: "('b \<Rightarrow> 'a \<Rightarrow> ('s, 'e, 'b) action) \<Rightarrow> 'b \<Rightarrow> 'a list \<Rightarrow> ('s, 'e, 'b) action" where
  "act_fold f acc [] = act_return acc"
| "act_fold f acc (x # xs) = act_bind (f acc x) (\<lambda>acc. act_fold f acc xs)"

named_theorems action_simps \<open>characterisations of the action combinators\<close>

lemma act_bind_cong [fundef_cong]:
  "m s = m' s \<Longrightarrow> (\<And>x t. m' s = (Ok x, t) \<Longrightarrow> f x t = f' x t) \<Longrightarrow> act_bind m f s = act_bind m' f' s"
  by (auto simp: act_bind_def split: prod.splits sum.splits)

lemma act_return_eq [action_simps]: "act_return x s = (r, t) \<longleftrightarrow> r = Ok x \<and> t = s"
  by (auto simp: act_return_def)

lemma act_bind_Ok [action_simps]: "act_bind m f s = (Ok y, t) \<longleftrightarrow> (\<exists>x u. m s = (Ok x, u) \<and> f x u = (Ok y, t))"
  by (auto simp: act_bind_def split: prod.splits sum.splits)

lemma act_bind_Err:
  "act_bind m f s = (Err e, t) \<longleftrightarrow> m s = (Err e, t) \<or> (\<exists>x u. m s = (Ok x, u) \<and> f x u = (Err e, t))"
  by (auto simp: act_bind_def split: prod.splits sum.splits)

lemma act_lift_eq [action_simps]: "act_lift r s = (r', t) \<longleftrightarrow> r = r' \<and> t = s"
  by (auto simp: act_lift_def)

lemma act_map_err_Ok [action_simps]: "act_map_err g m s = (Ok x, t) \<longleftrightarrow> m s = (Ok x, t)"
  by (auto simp: act_map_err_def result_simps split: prod.splits)

lemma act_map_err_Err: "act_map_err g m s = (Err e, t) \<longleftrightarrow> (\<exists>d. m s = (Err d, t) \<and> e = g d)"
  by (auto simp: act_map_err_def result_simps split: prod.splits)

lemma on_fst_eq [action_simps]: "on_fst m s = (r, t) \<longleftrightarrow> (\<exists>u. m (fst s) = (r, u) \<and> t = (u, snd s))"
  by (auto simp: on_fst_def split: prod.splits)

lemma on_snd_eq [action_simps]: "on_snd m s = (r, t) \<longleftrightarrow> (\<exists>u. m (snd s) = (r, u) \<and> t = (fst s, u))"
  by (auto simp: on_snd_def split: prod.splits)

lemmas action_defs = act_return_def act_bind_def act_lift_def act_map_err_def on_fst_def on_snd_def

text \<open>An invariant of a loop, and one that survives a failing body.\<close>

lemma act_fold_invariant:
  assumes "act_fold f acc xs s = (Ok acc', t)" "I acc s"
    and "\<And>x acc s acc' t. x \<in> set xs \<Longrightarrow> I acc s \<Longrightarrow> f acc x s = (Ok acc', t) \<Longrightarrow> I acc' t"
  shows "I acc' t"
  using assms
proof (induction xs arbitrary: acc s)
  case (Cons x xs)
  from Cons.prems(1) obtain acc1 u where step: "f acc x s = (Ok acc1, u)" "act_fold f acc1 xs u = (Ok acc', t)"
    by (auto simp: action_simps)
  have "I acc1 u" by (rule Cons.prems(3)[OF _ Cons.prems(2) step(1)]) simp
  then show ?case by (rule Cons.IH[OF step(2)]) (rule Cons.prems(3), auto)
qed (simp add: action_simps)

lemma act_fold_snoc: "act_fold f acc (xs @ [x]) = act_bind (act_fold f acc xs) (\<lambda>acc. f acc x)"
proof (induction xs arbitrary: acc)
  case (Cons y xs)
  show ?case by (rule ext) (simp add: Cons act_bind_def split: prod.split sum.split)
qed (rule ext, simp add: act_bind_def act_return_def split: prod.split sum.split)

section \<open>What an action leaves alone\<close>

text \<open>Every run of an action, a failing one included, relates the state before to the state after. For a preorder
  this composes as actions do.\<close>

definition act_within :: "('s \<Rightarrow> 's \<Rightarrow> bool) \<Rightarrow> ('s, 'e, 'a) action \<Rightarrow> bool" where
  "act_within R m \<longleftrightarrow> (\<forall>s. R s (snd (m s)))"

lemma act_withinD: "act_within R m \<Longrightarrow> m s = (x, t) \<Longrightarrow> R s t"
  unfolding act_within_def by (metis snd_conv)

text \<open>The same of the runs that fail, where a step after which nothing can fail may do more.\<close>

definition fails_within :: "('s \<Rightarrow> 's \<Rightarrow> bool) \<Rightarrow> ('s, 'e, 'a) action \<Rightarrow> bool" where
  "fails_within R m \<longleftrightarrow> (\<forall>s e t. m s = (Err e, t) \<longrightarrow> R s t)"

lemma fails_withinD: "fails_within R m \<Longrightarrow> m s = (Err e, t) \<Longrightarrow> R s t"
  by (auto simp: fails_within_def)

locale state_preorder =
  fixes R :: "'s \<Rightarrow> 's \<Rightarrow> bool"
  assumes reflexive: "R s s" and transitive: "R s t \<Longrightarrow> R t u \<Longrightarrow> R s u"
begin

lemma pure [intro]: "act_within R (act_lift x)" "act_within R (act_return y)" "act_within R (\<lambda>s. (f s, s))"
  by (simp_all add: act_within_def act_lift_def act_return_def reflexive)

lemma renamed [intro]: "act_within R m \<Longrightarrow> act_within R (act_map_err e m)"
  by (simp add: act_within_def act_map_err_def split_def)

lemma bound [intro]: "act_within R m \<Longrightarrow> (\<And>x. act_within R (f x)) \<Longrightarrow> act_within R (act_bind m f)"
  unfolding act_within_def act_bind_def split_def by (auto split: sum.split intro: transitive)

lemma folded [intro]: "(\<And>acc x. x \<in> set xs \<Longrightarrow> act_within R (f acc x)) \<Longrightarrow> act_within R (act_fold f acc xs)"
  by (induction xs arbitrary: acc) auto

lemma failing:
  assumes "act_within R m" "\<And>x. fails_within R (f x)"
  shows "fails_within R (act_bind m f)"
proof -
  have "R s t" if run: "act_bind m f s = (Err e, t)" for s e t
    using run act_withinD[OF assms(1)] fails_withinD[OF assms(2)] unfolding act_bind_Err by (elim disjE exE conjE) (blast intro: transitive)+
  then show ?thesis by (simp add: fails_within_def)
qed

lemma never_failing: "act_within R m \<Longrightarrow> fails_within R m"
  unfolding fails_within_def by (metis act_withinD)

lemma on_parts:
  "act_within R m \<Longrightarrow> act_within (\<lambda>s t. R (fst s) (fst t)) (on_fst m)" "act_within (\<lambda>s t. R (fst s) (fst t)) (on_snd n)"
  by (simp_all add: act_within_def on_fst_def on_snd_def split_def reflexive)

end

section \<open>A keyed store\<close>

text \<open>What a sequence of updates leaves: the last one of each key.\<close>

locale keyed_store =
  fixes lookup :: "'s \<Rightarrow> 'k \<Rightarrow> 'v option" and update :: "'k \<Rightarrow> 'v \<Rightarrow> ('s, 'e, unit) action"
  assumes lookup_update: "update k v s = (Ok u, t) \<Longrightarrow> lookup t k' = (if k' = k then Some v else lookup s k')"
begin

definition updates :: "('k \<times> 'v) list \<Rightarrow> ('s, 'e, unit) action" where
  "updates kvs = act_fold (\<lambda>_ kv. update (fst kv) (snd kv)) () kvs"

lemma lookup_updates:
  "updates kvs s = (Ok u, t) \<Longrightarrow> lookup t k = (case map_of (rev kvs) k of None \<Rightarrow> lookup s k | Some v \<Rightarrow> Some v)"
  unfolding updates_def
proof (induction kvs arbitrary: u t rule: rev_induct)
  case (snoc kv kvs)
  from snoc.prems obtain t' where "act_fold (\<lambda>_ kv. update (fst kv) (snd kv)) () kvs s = (Ok (), t')" "update (fst kv) (snd kv) t' = (Ok u, t)"
    by (auto simp: act_fold_snoc action_simps)
  with snoc.IH lookup_update show ?case by (cases kv) (auto split: option.splits)
qed (simp add: action_simps)

end

section \<open>Writing files\<close>

text \<open>What fails is the system's business: the cause and what reading the path then yields.\<close>

record file_writer =
  write_failure :: "file_system \<Rightarrow> string \<Rightarrow> bytes \<Rightarrow> (io_error \<times> (io_error, bytes) result) option"
  create_failure :: "file_system \<Rightarrow> string \<Rightarrow> io_error option"
  remove_failure :: "file_system \<Rightarrow> string \<Rightarrow> io_error option"

definition set_content :: "string \<Rightarrow> (io_error, bytes) result \<Rightarrow> file_system \<Rightarrow> file_system" where
  "set_content path content fs =
     fs\<lparr>fs_is_file := (fs_is_file fs)(path := is_ok content), fs_read := (fs_read fs)(path := content)\<rparr>"

text \<open>\<open>std::fs::write\<close> and \<open>create_dir_all\<close>. A path names one file: no two paths of the sources are links to one
  another. The listing of a directory is not changed by a write; the sources list a directory before they write.\<close>

definition write_file :: "file_writer \<Rightarrow> string \<Rightarrow> bytes \<Rightarrow> (file_system, io_error, unit) action" where
  "write_file fw path content fs =
     (case write_failure fw fs path content of
        None \<Rightarrow> (Ok (), set_content path (Ok content) fs)
      | Some (e, left) \<Rightarrow> (Err e, set_content path left fs))"

definition create_dir_all :: "file_writer \<Rightarrow> string \<Rightarrow> (file_system, io_error, unit) action" where
  "create_dir_all fw path fs =
     (case create_failure fw fs path of
        Some e \<Rightarrow> (Err e, fs)
      | None \<Rightarrow>
          (Ok (), case fs_read_dir fs path of
             Err (NotFound _) \<Rightarrow> fs\<lparr>fs_read_dir := (fs_read_dir fs)(path := Ok [])\<rparr>
           | _ \<Rightarrow> fs))"

text \<open>\<open>std::fs::remove_file\<close>.\<close>

definition remove_file :: "file_writer \<Rightarrow> string \<Rightarrow> (file_system, io_error, unit) action" where
  "remove_file fw path fs =
     (case remove_failure fw fs path of
        Some e \<Rightarrow> (Err e, fs)
      | None \<Rightarrow> (Ok (), set_content path (Err (NotFound [])) fs))"

definition file_content :: "file_system \<Rightarrow> string \<Rightarrow> bytes option" where
  "file_content fs path = ok (fs_read fs path)"

lemma file_content_set [simp]: "file_content (set_content path content fs) path' = (if path' = path then ok content else file_content fs path')"
  by (simp add: file_content_def set_content_def)

lemma create_dir_all_content: "file_content (snd (create_dir_all fw path fs)) = file_content fs"
  by (auto simp: create_dir_all_def file_content_def fun_eq_iff split: option.split sum.split io_error.split)

interpretation files: keyed_store file_content "write_file fw" for fw
  by unfold_locales (auto simp: write_file_def split: option.splits prod.splits)

text \<open>Files outside a set keep their content.\<close>

definition kept_outside :: "string set \<Rightarrow> file_system \<Rightarrow> file_system \<Rightarrow> bool" where
  "kept_outside paths fs fs' \<longleftrightarrow> (\<forall>path. path \<notin> paths \<longrightarrow> file_content fs' path = file_content fs path)"

interpretation disk: state_preorder "kept_outside paths" for paths
  by unfold_locales (simp_all add: kept_outside_def)

lemma writes_kept:
  "path \<in> paths \<Longrightarrow> act_within (kept_outside paths) (write_file fw path content)"
  "act_within (kept_outside paths) (create_dir_all fw path)"
  "path \<in> paths \<Longrightarrow> act_within (kept_outside paths) (remove_file fw path)"
  by (auto simp: act_within_def kept_outside_def create_dir_all_content write_file_def remove_file_def split: option.split)

end
