(* ===== verification/Ltv.thy ===== *)
theory Ltv
  imports Trust_Files Transport Effects Hex
begin

text \<open>
  \<open>crates/tydence/src/stamp/ltv.rs\<close>: the chain a token carries and the CRLs that cover it are harvested in memory,
  recorded in the working tree when the token verified, and refreshed before the next stamp. The state is the file
  system and the network. The encoders and decoders of the crates are a parameter, the record \<open>ltv_codec\<close>.
\<close>

section \<open>Errors\<close>

datatype ltv_error =
  LtvMalformedToken string
  | LtvNotSignedData oid
  | LtvWrongSignerCount nat
  | UnkeyableSigner
  | LtvMissingCertificates
  | ForeignCertificateForm
  | MalformedDistributionPoints string
  | UnusableDistributionPoints string
  | LtvEncoding string
  | LtvFilesystem string io_error
  | ForeignRecord string
  | MalformedChainFile string string
  | CrlUnavailable string string
  | MalformedCrl string
  | LtvPanic  \<comment> \<open>not a variant of the source: a panic, which is never displayed\<close>

fun ltv_error_display :: "(string \<Rightarrow> string) \<Rightarrow> (string \<Rightarrow> string) \<Rightarrow> ltv_error \<Rightarrow> string" where
  "ltv_error_display debug_str display (LtvMalformedToken _) = ''the token fails to parse''"
| "ltv_error_display debug_str display (LtvNotSignedData content_type) =
     ''the token is not a CMS SignedData (content type '' @ content_type @ '')''"
| "ltv_error_display debug_str display (LtvWrongSignerCount count) =
     ''the token carries '' @ decimal count @ '' signer infos where RFC 3161 requires exactly one''"
| "ltv_error_display debug_str display UnkeyableSigner = ''the token identifies its signer without an issuer name''"
| "ltv_error_display debug_str display LtvMissingCertificates = ''the token embeds no certificates''"
| "ltv_error_display debug_str display ForeignCertificateForm =
     ''the token embeds certificate material that is not a plain certificate''"
| "ltv_error_display debug_str display (MalformedDistributionPoints _) =
     ''a certificate's CRL distribution points do not parse''"
| "ltv_error_display debug_str display (UnusableDistributionPoints subject) =
     ''no distribution point of '' @ debug_str subject @ '' is in a fetchable shape''"
| "ltv_error_display debug_str display (LtvEncoding _) = ''the trust material failed to encode''"
| "ltv_error_display debug_str display (LtvFilesystem path _) = ''cannot read or write '' @ display path"
| "ltv_error_display debug_str display (ForeignRecord path) = display path @ '' is not a recorded certificate chain''"
| "ltv_error_display debug_str display (MalformedChainFile path _) =
     ''the recorded chain '' @ display path @ '' does not parse''"
| "ltv_error_display debug_str display (CrlUnavailable subject _) =
     ''no distribution point of '' @ debug_str subject @ '' yielded a CRL''"
| "ltv_error_display debug_str display (MalformedCrl _) = ''a fetched CRL does not parse''"
| "ltv_error_display debug_str display LtvPanic = []"

section \<open>Data\<close>

definition CRL_DISTRIBUTION_POINTS :: oid where "CRL_DISTRIBUTION_POINTS = ''2.5.29.31''"

datatype point_name = UniformResourceIdentifier string | OtherPointName
datatype distribution_point_name = FullName "point_name list" | NameRelativeToCrlIssuer

text \<open>A distribution point is its optional \<open>distribution_point\<close> field.\<close>

record ltv_codec =
  name_to_der :: "name \<Rightarrow> (string, bytes) result"
  distribution_points_from_der :: "bytes \<Rightarrow> (string, distribution_point_name option list) result"
  certificate_to_pem :: "certificate \<Rightarrow> (string, string) result"
  encode_pem :: "string \<Rightarrow> bytes \<Rightarrow> (string, string) result"

text \<open>What the module calls: the DER and CMS decoders, the PEM coders, the name display, the HTTP client, the disk.\<close>

record ('w, 'resp) ltv_tools =
  lt_cms :: cms
  lt_pki :: pki
  lt_pem :: pem
  lt_codec :: ltv_codec
  lt_http :: "('w, 'resp) http_client"
  lt_writer :: file_writer

record fetched_crl =
  fc_issuer_key :: string
  fc_der_bytes :: bytes

record recorded_crl =
  rcl_repository_path :: string
  rcl_pem_bytes :: bytes
  rcl_der_bytes :: bytes

record recorded_chain =
  rch_repository_path :: string
  rch_pem_bytes :: bytes

record ltv_records =
  lr_chains :: "recorded_chain list"
  lr_crls :: "recorded_crl list"

record harvest =
  chain_repository_path :: string
  chain_pem_text :: string
  fetched_crls :: "fetched_crl list"

definition crl_ders :: "harvest \<Rightarrow> bytes list" where
  "crl_ders h = map fc_der_bytes (fetched_crls h)"

section \<open>Fetching\<close>

definition issuer_key :: "('w, 'resp) ltv_tools \<Rightarrow> name \<Rightarrow> (ltv_error, string) result" where
  "issuer_key tools issuer =
     and_then (map_err LtvEncoding (name_to_der (lt_codec tools) issuer)) (\<lambda>issuer_der.
     Ok (hex_encode LOWERCASE (sha256_of (lt_cms tools) issuer_der)))"

fun uris_of_point :: "distribution_point_name option \<Rightarrow> string list" where
  "uris_of_point (Some (FullName names)) =
     concat (map (\<lambda>n. case n of UniformResourceIdentifier uri \<Rightarrow> [uri] | OtherPointName \<Rightarrow> []) names)"
| "uris_of_point _ = []"

definition distribution_uris :: "('w, 'resp) ltv_tools \<Rightarrow> certificate \<Rightarrow> (ltv_error, string list option) result" where
  "distribution_uris tools certificate =
     (case cert_extensions certificate of None \<Rightarrow> Ok None
      | Some exts \<Rightarrow>
          (case List.find (\<lambda>ext. extn_id ext = CRL_DISTRIBUTION_POINTS) exts of None \<Rightarrow> Ok None
           | Some ext \<Rightarrow>
               and_then (map_err MalformedDistributionPoints (distribution_points_from_der (lt_codec tools) (extn_value ext)))
                 (\<lambda>points. Ok (Some (concat (map uris_of_point points))))))"

definition crl_der_of :: "('w, 'resp) ltv_tools \<Rightarrow> bytes \<Rightarrow> (ltv_error, bytes) result" where
  "crl_der_of tools fetched_bytes =
     (if \<not> starts_with ''-----BEGIN'' fetched_bytes then Ok fetched_bytes
      else
        and_then (map_err MalformedCrl (decode_pem (lt_pem tools) fetched_bytes)) (\<lambda>(label, der_bytes).
        if label \<noteq> CRL_PEM_LABEL
        then Err (MalformedCrl (''PEM label '' @ pem_debug (lt_pem tools) label @ '' is not '' @
          pem_debug (lt_pem tools) CRL_PEM_LABEL))
        else Ok der_bytes))"

definition fetched_crl_of :: "('w, 'resp) ltv_tools \<Rightarrow> bytes \<Rightarrow> (ltv_error, fetched_crl) result" where
  "fetched_crl_of tools fetched_bytes =
     and_then (crl_der_of tools fetched_bytes) (\<lambda>der_bytes.
     and_then (map_err MalformedCrl (crl_from_der (lt_cms tools) der_bytes)) (\<lambda>crl.
     and_then (issuer_key tools (crl_issuer crl)) (\<lambda>key.
     Ok \<lparr>fc_issuer_key = key, fc_der_bytes = der_bytes\<rparr>)))"

text \<open>The loop over the URIs: the first that answers decides.\<close>

fun try_uris ::
  "('w, 'resp) ltv_tools \<Rightarrow> string \<Rightarrow> string option \<Rightarrow> string list \<Rightarrow> ('w, ltv_error, fetched_crl option) action" where
  "try_uris tools subject maybe_last_failure [] w =
     (case maybe_last_failure of None \<Rightarrow> (Err LtvPanic, w) | Some source \<Rightarrow> (Err (CrlUnavailable subject source), w))"
| "try_uris tools subject maybe_last_failure (uri # uris) w =
     (case fetch (lt_http tools) w uri of
        (Ok fetched_bytes, w) \<Rightarrow> (and_then (fetched_crl_of tools fetched_bytes) (\<lambda>crl. Ok (Some crl)), w)
      | (Err source, w) \<Rightarrow> try_uris tools subject (Some source) uris w)"

definition fetch_crl :: "('w, 'resp) ltv_tools \<Rightarrow> certificate \<Rightarrow> ('w, ltv_error, fetched_crl option) action" where
  "fetch_crl tools certificate =
     act_bind (act_lift (distribution_uris tools certificate)) (\<lambda>maybe_uris.
     case maybe_uris of None \<Rightarrow> act_return None
     | Some uris \<Rightarrow>
         (let subject = name_to_string (lt_pki tools) (cert_subject certificate)
          in if uris = [] then act_lift (Err (UnusableDistributionPoints subject))
             else try_uris tools subject None uris))"

definition keep_crl :: "fetched_crl list \<Rightarrow> fetched_crl option \<Rightarrow> fetched_crl list" where
  "keep_crl held maybe_fetched =
     (case maybe_fetched of None \<Rightarrow> held
      | Some fetched \<Rightarrow>
          if list_ex (\<lambda>other. fc_issuer_key other = fc_issuer_key fetched) held then held else held @ [fetched])"

definition fetch_chain_crls :: "('w, 'resp) ltv_tools \<Rightarrow> certificate list \<Rightarrow> ('w, ltv_error, fetched_crl list) action" where
  "fetch_chain_crls tools chain =
     act_fold (\<lambda>held certificate.
       act_bind (fetch_crl tools certificate) (\<lambda>maybe_fetched. act_return (keep_crl held maybe_fetched))) [] chain"

section \<open>Recording\<close>

definition materialize_record_directories ::
  "('w, 'resp) ltv_tools \<Rightarrow> string \<Rightarrow> (file_system, ltv_error, unit) action" where
  "materialize_record_directories tools worktree =
     act_fold (\<lambda>_ directory_path.
       let directory = path_join worktree directory_path
       in act_map_err (LtvFilesystem directory) (create_dir_all (lt_writer tools) directory))
       () [LTV_CERTS_PATH, LTV_CRLS_PATH]"

definition write_text_file :: "('w, 'resp) ltv_tools \<Rightarrow> string \<Rightarrow> string \<Rightarrow> (file_system, ltv_error, unit) action" where
  "write_text_file tools file_path content =
     act_map_err (LtvFilesystem file_path) (write_file (lt_writer tools) file_path content)"

definition crl_record_path :: "fetched_crl \<Rightarrow> string" where
  "crl_record_path fetched = LTV_CRLS_PATH @ ''/'' @ fc_issuer_key fetched @ CRL_FILE_SUFFIX"

definition record_chain_crls ::
  "('w, 'resp) ltv_tools \<Rightarrow> string \<Rightarrow> fetched_crl list \<Rightarrow> (file_system, ltv_error, recorded_crl list) action" where
  "record_chain_crls tools worktree crls =
     act_fold (\<lambda>recorded fetched.
       act_bind (act_lift (map_err LtvEncoding (encode_pem (lt_codec tools) CRL_PEM_LABEL (fc_der_bytes fetched))))
         (\<lambda>pem_text.
       act_bind (write_text_file tools (path_join worktree (crl_record_path fetched)) pem_text) (\<lambda>_.
       act_return (recorded @ [\<lparr>rcl_repository_path = crl_record_path fetched, rcl_pem_bytes = pem_text,
         rcl_der_bytes = fc_der_bytes fetched\<rparr>]))))
       [] crls"

definition signed_chain :: "signed_data \<Rightarrow> (ltv_error, name \<times> certificate list) result" where
  "signed_chain signed =
     (case sd_signer_infos signed of
        [signer] \<Rightarrow>
          (case si_sid signer of
             IssuerAndSerialNumber issuer _ \<Rightarrow>
               and_then (ok_or LtvMissingCertificates (sd_certificates signed)) (\<lambda>embedded.
               and_then (traverse (\<lambda>choice. case choice of CertificateChoice certificate \<Rightarrow> Ok certificate
                 | OtherChoice _ \<Rightarrow> Err ForeignCertificateForm) embedded) (\<lambda>chain.
               if chain = [] then Err LtvMissingCertificates else Ok (issuer, chain)))
           | SubjectKeyIdentifierSid _ \<Rightarrow> Err UnkeyableSigner)
      | signers \<Rightarrow> Err (LtvWrongSignerCount (length signers)))"

definition token_chain :: "('w, 'resp) ltv_tools \<Rightarrow> bytes \<Rightarrow> (ltv_error, name \<times> certificate list) result" where
  "token_chain tools token_bytes =
     and_then (map_err LtvMalformedToken (content_info_from_der (lt_cms tools) token_bytes)) (\<lambda>content.
     and_then (ensure (ci_content_type content = ID_SIGNED_DATA) (LtvNotSignedData (ci_content_type content))) (\<lambda>_.
     and_then (map_err LtvMalformedToken (signed_data_of (lt_cms tools) (ci_content content))) signed_chain))"

definition ltv_harvest :: "('w, 'resp) ltv_tools \<Rightarrow> bytes \<Rightarrow> ('w, ltv_error, harvest) action" where
  "ltv_harvest tools token_bytes =
     act_bind (act_lift (token_chain tools token_bytes)) (\<lambda>(signer_issuer, chain).
     act_bind (act_lift (traverse (\<lambda>certificate. map_err LtvEncoding (certificate_to_pem (lt_codec tools) certificate)) chain))
       (\<lambda>blocks.
     act_bind (act_lift (issuer_key tools signer_issuer)) (\<lambda>key.
     act_bind (fetch_chain_crls tools chain) (\<lambda>crls.
     act_return \<lparr>chain_repository_path = LTV_CERTS_PATH @ ''/'' @ key @ CHAIN_FILE_SUFFIX,
       chain_pem_text = concat blocks, fetched_crls = crls\<rparr>))))"

definition ltv_record :: "('w, 'resp) ltv_tools \<Rightarrow> string \<Rightarrow> harvest \<Rightarrow> (file_system, ltv_error, unit) action" where
  "ltv_record tools worktree h =
     act_bind (materialize_record_directories tools worktree) (\<lambda>_.
     act_bind (write_text_file tools (path_join worktree (chain_repository_path h)) (chain_pem_text h)) (\<lambda>_.
     act_bind (record_chain_crls tools worktree (fetched_crls h)) (\<lambda>_. act_return ())))"

section \<open>Refreshing\<close>

definition chain_record_name :: "string \<Rightarrow> string option" where
  "chain_record_name file_path =
     (case path_file_name file_path of None \<Rightarrow> None
      | Some file_name \<Rightarrow>
          (case ok (from_utf8 file_name) of None \<Rightarrow> None
           | Some t \<Rightarrow> if ends_with CHAIN_FILE_SUFFIX t then Some t else None))"

definition load_chain_file :: "('w, 'resp) ltv_tools \<Rightarrow> string \<Rightarrow> bytes \<Rightarrow> (ltv_error, certificate list) result" where
  "load_chain_file tools file_path pem_bytes =
     and_then (ok_or LtvPanic (load_pem_chain (lt_pem tools) pem_bytes)) (\<lambda>loaded.
     and_then (map_err (MalformedChainFile file_path) loaded) (\<lambda>chain.
     if chain = [] then Err (MalformedChainFile file_path ''the file holds no certificate blocks'') else Ok chain))"

text \<open>The body of the loop over the chain files.\<close>

definition refresh_chain ::
  "('w, 'resp) ltv_tools \<Rightarrow> string \<Rightarrow> ltv_records \<Rightarrow> (io_error, string) result
    \<Rightarrow> (file_system \<times> 'w, ltv_error, ltv_records) action" where
  "refresh_chain tools worktree records maybe_entry =
     act_bind (act_lift (map_err (LtvFilesystem (path_join worktree LTV_CERTS_PATH)) maybe_entry)) (\<lambda>file_path.
     act_bind (act_lift (ok_or (ForeignRecord file_path) (chain_record_name file_path))) (\<lambda>record_name.
     act_bind (\<lambda>s. (map_err (LtvFilesystem file_path) (fs_read (fst s) file_path), s)) (\<lambda>pem_bytes.
     act_bind (act_lift (load_chain_file tools file_path pem_bytes)) (\<lambda>chain.
     act_bind (on_snd (fetch_chain_crls tools chain)) (\<lambda>crls.
     act_bind (on_fst (record_chain_crls tools worktree crls)) (\<lambda>recorded.
     act_return \<lparr>lr_chains = lr_chains records @
         [\<lparr>rch_repository_path = LTV_CERTS_PATH @ ''/'' @ record_name, rch_pem_bytes = pem_bytes\<rparr>],
       lr_crls = lr_crls records @ recorded\<rparr>))))))"

definition ltv_refresh :: "('w, 'resp) ltv_tools \<Rightarrow> string \<Rightarrow> (file_system \<times> 'w, ltv_error, ltv_records) action" where
  "ltv_refresh tools worktree s =
     (let certs_directory = path_join worktree LTV_CERTS_PATH
      in case fs_read_dir (fst s) certs_directory of
           Err (NotFound _) \<Rightarrow> (Ok \<lparr>lr_chains = [], lr_crls = []\<rparr>, s)
         | Err e \<Rightarrow> (Err (LtvFilesystem certs_directory e), s)
         | Ok entries \<Rightarrow>
             act_bind (on_fst (materialize_record_directories tools worktree)) (\<lambda>_.
             act_fold (refresh_chain tools worktree) \<lparr>lr_chains = [], lr_crls = []\<rparr> entries) s)"


section \<open>What is fetched\<close>

definition fetched_from :: "('w, 'resp) ltv_tools \<Rightarrow> certificate \<Rightarrow> fetched_crl \<Rightarrow> bool" where
  "fetched_from tools certificate crl \<longleftrightarrow>
     (\<exists>uris uri w fetched_bytes w'. distribution_uris tools certificate = Ok (Some uris) \<and> uri \<in> set uris \<and>
        fetch (lt_http tools) w uri = (Ok fetched_bytes, w') \<and> fetched_crl_of tools fetched_bytes = Ok crl)"

lemma try_uris_Ok:
  "try_uris tools subject failure uris w = (Ok found, w') \<Longrightarrow>
     \<exists>uri \<in> set uris. \<exists>v fetched_bytes v' crl. fetch (lt_http tools) v uri = (Ok fetched_bytes, v') \<and>
       fetched_crl_of tools fetched_bytes = Ok crl \<and> found = Some crl"
proof (induction tools subject failure uris w rule: try_uris.induct)
  case (2 tools subject failure uri uris w)
  show ?case
  proof (cases "fetch (lt_http tools) w uri")
    case (Pair outcome v)
    with 2 show ?thesis by (cases outcome) (force simp: result_simps)+
  qed
qed (simp split: option.splits)

lemma try_uris_never_panics:
  "uris \<noteq> [] \<or> failure \<noteq> None \<Longrightarrow> \<forall>fetched_bytes. fetched_crl_of tools fetched_bytes \<noteq> Err LtvPanic \<Longrightarrow>
     fst (try_uris tools subject failure uris w) \<noteq> Err LtvPanic"
proof (induction tools subject failure uris w rule: try_uris.induct)
  case (2 tools subject failure uri uris w)
  show ?case
  proof (cases "fetch (lt_http tools) w uri")
    case (Pair outcome v)
    with 2 show ?thesis by (cases outcome) (auto simp: result_simps)
  qed
qed (auto split: option.splits)

lemma fetch_crl_Ok:
  assumes "fetch_crl tools certificate w = (Ok found, w')"
  shows "found = None \<and> distribution_uris tools certificate = Ok None \<or> (\<exists>crl. found = Some crl \<and> fetched_from tools certificate crl)"
proof -
  obtain maybe_uris where uris: "distribution_uris tools certificate = Ok maybe_uris"
    using assms by (auto simp: fetch_crl_def action_simps)
  show ?thesis
  proof (cases maybe_uris)
    case None
    with assms uris show ?thesis by (simp add: fetch_crl_def action_simps)
  next
    case (Some us)
    with assms uris have "try_uris tools (name_to_string (lt_pki tools) (cert_subject certificate)) None us w = (Ok found, w')"
      by (auto simp: fetch_crl_def action_simps Let_def split: if_splits)
    from try_uris_Ok[OF this] uris Some show ?thesis unfolding fetched_from_def by blast
  qed
qed

lemma keep_crl_keys:
  "fc_issuer_key ` set (keep_crl held (Some crl)) = insert (fc_issuer_key crl) (fc_issuer_key ` set held)"
  "set (keep_crl held (Some crl)) \<subseteq> insert crl (set held)"
  "distinct (map fc_issuer_key (keep_crl held (Some crl))) = distinct (map fc_issuer_key held)"
  by (auto simp: keep_crl_def list_ex_iff image_iff) metis+

text \<open>The CRLs of a chain: one per issuer, each from a distribution point of the chain, and each certificate that
  advertises any is covered by the CRL of the issuer that answered for it.\<close>

definition covers_chain :: "('w, 'resp) ltv_tools \<Rightarrow> certificate list \<Rightarrow> fetched_crl list \<Rightarrow> bool" where
  "covers_chain tools chain crls \<longleftrightarrow> distinct (map fc_issuer_key crls) \<and>
     (\<forall>crl \<in> set crls. \<exists>certificate \<in> set chain. fetched_from tools certificate crl) \<and>
     (\<forall>certificate \<in> set chain. distribution_uris tools certificate = Ok None \<or>
        (\<exists>crl. fetched_from tools certificate crl \<and> fc_issuer_key crl \<in> fc_issuer_key ` set crls))"

lemma fetch_chain_crls_Ok:
  "fetch_chain_crls tools chain w = (Ok crls, w') \<Longrightarrow> covers_chain tools chain crls"
  unfolding fetch_chain_crls_def
proof (induction chain arbitrary: crls w' rule: rev_induct)
  case (snoc certificate chain)
  from snoc.prems obtain held v found where held: "act_fold (\<lambda>held certificate.
       act_bind (fetch_crl tools certificate) (\<lambda>maybe_fetched. act_return (keep_crl held maybe_fetched))) [] chain w = (Ok held, v)"
    and found: "fetch_crl tools certificate v = (Ok found, w')" and crls: "crls = keep_crl held found"
    by (auto simp: act_fold_snoc action_simps)
  from snoc.IH[OF held] have IH: "covers_chain tools chain held" .
  from fetch_crl_Ok[OF found] show ?case
  proof (elim disjE exE conjE)
    fix crl assume "found = Some crl" "fetched_from tools certificate crl"
    then have kept: "crls = keep_crl held (Some crl)" and own: "fetched_from tools certificate crl" using crls by simp_all
    have "\<exists>c \<in> set (chain @ [certificate]). fetched_from tools c x" if "x \<in> set crls" for x
      using that keep_crl_keys(2)[of held crl] kept own IH by (auto simp: covers_chain_def)
    moreover have "\<exists>x. fetched_from tools c x \<and> fc_issuer_key x \<in> fc_issuer_key ` set crls"
      if "c \<in> set (chain @ [certificate])" "distribution_uris tools c \<noteq> Ok None" for c
    proof (cases "c = certificate")
      case False
      with that IH obtain x where "fetched_from tools c x" "fc_issuer_key x \<in> fc_issuer_key ` set held"
        unfolding covers_chain_def by auto
      then show ?thesis unfolding kept keep_crl_keys(1) by blast
    qed (use own in \<open>auto simp: kept keep_crl_keys(1)\<close>)
    ultimately show ?thesis
      using IH keep_crl_keys(3)[of held crl] kept unfolding covers_chain_def by metis
  next
    assume "found = None" "distribution_uris tools certificate = Ok None"
    with IH crls show ?thesis by (auto simp: covers_chain_def keep_crl_def)
  qed
qed (simp add: covers_chain_def action_simps)


section \<open>What is recorded\<close>

text \<open>A recorded CRL as the write it made.\<close>

definition crl_write :: "string \<Rightarrow> recorded_crl \<Rightarrow> string \<times> bytes" where
  "crl_write worktree crl = (path_join worktree (rcl_repository_path crl), rcl_pem_bytes crl)"

lemma updates_append:
  "files.updates fw (kvs @ kvs') s = (Ok u, t) \<longleftrightarrow>
     (\<exists>v. files.updates fw kvs s = (Ok (), v) \<and> files.updates fw kvs' v = (Ok u, t))"
  unfolding files.updates_def by (induction kvs arbitrary: s) (auto simp: action_simps)

lemma updates_single: "files.updates fw [kv] s = (Ok u, t) \<longleftrightarrow> write_file fw (fst kv) (snd kv) s = (Ok (), t)"
  by (auto simp: files.updates_def action_simps)

lemma record_chain_crls_Ok:
  "record_chain_crls tools worktree crls fs = (Ok recorded, fs') \<Longrightarrow>
     files.updates (lt_writer tools) (map (crl_write worktree) recorded) fs = (Ok (), fs') \<and>
     list_all2 (\<lambda>crl r. rcl_repository_path r = crl_record_path crl \<and> rcl_der_bytes r = fc_der_bytes crl \<and>
       encode_pem (lt_codec tools) CRL_PEM_LABEL (fc_der_bytes crl) = Ok (rcl_pem_bytes r)) crls recorded"
  unfolding record_chain_crls_def
proof (induction crls arbitrary: recorded fs' rule: rev_induct)
  case Nil
  then show ?case by (simp add: action_simps files.updates_def)
next
  case (snoc crl crls)
  from snoc.prems obtain front v pem_text where front: "act_fold (\<lambda>recorded fetched.
       act_bind (act_lift (map_err LtvEncoding (encode_pem (lt_codec tools) CRL_PEM_LABEL (fc_der_bytes fetched))))
         (\<lambda>pem_text.
       act_bind (write_text_file tools (path_join worktree (crl_record_path fetched)) pem_text) (\<lambda>_.
       act_return (recorded @ [\<lparr>rcl_repository_path = crl_record_path fetched, rcl_pem_bytes = pem_text,
         rcl_der_bytes = fc_der_bytes fetched\<rparr>])))) [] crls fs = (Ok front, v)"
    and pem: "encode_pem (lt_codec tools) CRL_PEM_LABEL (fc_der_bytes crl) = Ok pem_text"
    and written: "write_file (lt_writer tools) (path_join worktree (crl_record_path crl)) pem_text v = (Ok (), fs')"
    and recorded: "recorded = front @ [\<lparr>rcl_repository_path = crl_record_path crl, rcl_pem_bytes = pem_text,
         rcl_der_bytes = fc_der_bytes crl\<rparr>]"
    by (auto simp: act_fold_snoc action_simps result_simps write_text_file_def)
  from snoc.IH[OF front] pem written show ?case
    unfolding recorded by (auto simp: updates_append updates_single crl_write_def intro!: list_all2_appendI)
qed

lemma materialize_content:
  "materialize_record_directories tools worktree fs = (r, fs') \<Longrightarrow> file_content fs' = file_content fs"
  using create_dir_all_content
  by (auto simp: materialize_record_directories_def act_bind_def act_return_def act_map_err_def Let_def
      split: prod.splits sum.splits) (metis snd_conv)+


lemma materialize_succeeds:
  assumes "create_failure (lt_writer tools) = (\<lambda>_ _. None)"
  shows "\<exists>fs'. materialize_record_directories tools worktree fs = (Ok (), fs')"
  using assms by (simp add: materialize_record_directories_def act_bind_def act_return_def act_map_err_def create_dir_all_def Let_def)

section \<open>What a harvest holds\<close>

text \<open>The chain of a token: the certificates it embeds, all of them plain, under its only signer's issuer.\<close>

definition carries_chain :: "('w, 'resp) ltv_tools \<Rightarrow> bytes \<Rightarrow> name \<Rightarrow> certificate list \<Rightarrow> bool" where
  "carries_chain tools token_bytes issuer chain \<longleftrightarrow>
     (\<exists>content signed signer serial. content_info_from_der (lt_cms tools) token_bytes = Ok content \<and>
        ci_content_type content = ID_SIGNED_DATA \<and> signed_data_of (lt_cms tools) (ci_content content) = Ok signed \<and>
        sd_signer_infos signed = [signer] \<and> si_sid signer = IssuerAndSerialNumber issuer serial \<and>
        sd_certificates signed = Some (map CertificateChoice chain) \<and> chain \<noteq> [])"

lemma plain_choices:
  "traverse (\<lambda>choice. case choice of CertificateChoice certificate \<Rightarrow> Ok certificate
     | OtherChoice _ \<Rightarrow> Err ForeignCertificateForm) embedded = Ok chain \<longleftrightarrow> embedded = map CertificateChoice chain"
  by (induction embedded arbitrary: chain) (auto simp: result_simps split: certificate_choice.splits)

lemma signed_chain_Ok:
  "signed_chain signed = Ok (issuer, chain) \<longleftrightarrow>
     (\<exists>signer serial. sd_signer_infos signed = [signer] \<and> si_sid signer = IssuerAndSerialNumber issuer serial \<and>
        sd_certificates signed = Some (map CertificateChoice chain) \<and> chain \<noteq> [])"
proof (cases "\<exists>signer. sd_signer_infos signed = [signer]")
  case True
  then show ?thesis by (auto simp: signed_chain_def result_simps plain_choices split: signer_identifier.splits if_splits)
qed (auto simp: signed_chain_def split: list.splits)

lemma token_chain_Ok: "token_chain tools token_bytes = Ok (issuer, chain) \<longleftrightarrow> carries_chain tools token_bytes issuer chain"
  unfolding token_chain_def carries_chain_def by (auto simp: result_simps signed_chain_Ok)

text \<open>C23: a harvest is what the token brought: the PEM of exactly the certificates it embeds, keyed by the issuer that
  names its only signer, and CRLs that cover this chain, one per CRL issuer, each fetched from a distribution point
  of the chain. A certificate that advertises distribution points is never left without a CRL.\<close>

theorem harvest_covers_chain:
  assumes "ltv_harvest tools token_bytes w = (Ok h, w')"
  shows "\<exists>issuer chain blocks key. carries_chain tools token_bytes issuer chain \<and>
    traverse (certificate_to_pem (lt_codec tools)) chain = Ok blocks \<and> chain_pem_text h = concat blocks \<and>
    issuer_key tools issuer = Ok key \<and> chain_repository_path h = LTV_CERTS_PATH @ ''/'' @ key @ CHAIN_FILE_SUFFIX \<and>
    covers_chain tools chain (fetched_crls h)"
proof -
  obtain issuer chain blocks key crls where parts: "token_chain tools token_bytes = Ok (issuer, chain)"
    "traverse (\<lambda>certificate. map_err LtvEncoding (certificate_to_pem (lt_codec tools) certificate)) chain = Ok blocks"
    "issuer_key tools issuer = Ok key" "fetch_chain_crls tools chain w = (Ok crls, w')"
    "h = \<lparr>chain_repository_path = LTV_CERTS_PATH @ ''/'' @ key @ CHAIN_FILE_SUFFIX, chain_pem_text = concat blocks,
       fetched_crls = crls\<rparr>"
    using assms by (auto simp: ltv_harvest_def action_simps split: prod.splits)
  from parts(2) have "traverse (certificate_to_pem (lt_codec tools)) chain = Ok blocks"
    by (simp add: traverse_eq_Inr result_simps)
  with parts fetch_chain_crls_Ok[OF parts(4)] show ?thesis by (auto simp: token_chain_Ok)
qed

section \<open>What a refresh reports\<close>

text \<open>The state of the loop: the files are those of the start with the reported CRLs written over them in order, and
  the chain files read so far are reported with their content.\<close>

definition refreshed :: "('w, 'resp) ltv_tools \<Rightarrow> string \<Rightarrow> file_system \<Rightarrow> ltv_records \<Rightarrow> file_system \<Rightarrow> bool" where
  "refreshed tools worktree fs records fs' \<longleftrightarrow>
     files.updates (lt_writer tools) (map (crl_write worktree) (lr_crls records)) fs = (Ok (), fs') \<and>
     (\<forall>crl \<in> set (lr_crls records). \<exists>key. rcl_repository_path crl = LTV_CRLS_PATH @ ''/'' @ key @ CRL_FILE_SUFFIX)"

lemma refresh_chain_refreshed:
  assumes "refresh_chain tools worktree records maybe_entry (fs1, w) = (Ok records', (fs2, w'))" "refreshed tools worktree fs records fs1"
  shows "refreshed tools worktree fs records' fs2"
proof -
  from assms(1) obtain crls recorded where "record_chain_crls tools worktree crls fs1 = (Ok recorded, fs2)"
    "lr_crls records' = lr_crls records @ recorded"
    by (auto simp: refresh_chain_def action_simps)
  with record_chain_crls_Ok[of tools worktree crls fs1 recorded fs2] assms(2) show ?thesis
    by (auto simp: refreshed_def updates_append crl_record_path_def dest: list_all2_right)
qed

lemma refresh_chain_reads:
  assumes "refresh_chain tools worktree records maybe_entry (fs1, w) = (Ok records', s)"
  obtains file_path record_name pem_bytes where "maybe_entry = Ok file_path" "chain_record_name file_path = Some record_name"
    "file_content fs1 file_path = Some pem_bytes"
    "lr_chains records' = lr_chains records @ [\<lparr>rch_repository_path = LTV_CERTS_PATH @ ''/'' @ record_name, rch_pem_bytes = pem_bytes\<rparr>]"
  using assms by (auto simp: refresh_chain_def action_simps result_simps file_content_def)


text \<open>Paths below the working tree: joining a relative path is injective, and a name in a directory is one path.\<close>

lemma ltv_paths_relative [simp]:
  "\<not> starts_with ''/'' (LTV_CERTS_PATH @ rest)" "\<not> starts_with ''/'' (LTV_CRLS_PATH @ rest)"
  "LTV_CERTS_PATH @ ''/'' @ rest \<noteq> LTV_CRLS_PATH @ ''/'' @ rest'"
  by (simp_all add: layout_defs starts_with_iff)

lemma path_join_below:
  assumes "CHR ''/'' \<notin> set name"
  shows "path_join (path_join worktree LTV_CERTS_PATH) name = path_join worktree (LTV_CERTS_PATH @ ''/'' @ name)"
proof -
  have "\<not> starts_with ''/'' name" using assms by (auto simp: starts_with_iff)
  moreover have "\<not> ends_with ''/'' (path_join worktree LTV_CERTS_PATH)" "path_join worktree LTV_CERTS_PATH \<noteq> []"
    by (auto simp: path_join_def layout_defs ends_with_def strip_suffix_def)
  ultimately show ?thesis
    using ltv_paths_relative(1)[of "[]"] ltv_paths_relative(1)[of "''/'' @ name"] by (simp add: path_join_relative)
qed

text \<open>A directory is listed as the paths of the names in it.\<close>

definition lists_names :: "string \<Rightarrow> (io_error, string) result list \<Rightarrow> bool" where
  "lists_names directory entries \<longleftrightarrow>
     (\<forall>path. Ok path \<in> set entries \<longrightarrow>
        (\<exists>name. path = path_join directory name \<and> CHR ''/'' \<notin> set name \<and> name \<notin> {[], ''.'', ''..''}))"

text \<open>A chain file that is reported: its content of the start, its certificates, and the CRLs that cover them.\<close>

definition chain_renewed ::
  "('w, 'resp) ltv_tools \<Rightarrow> string \<Rightarrow> file_system \<Rightarrow> recorded_crl list \<Rightarrow> (io_error, string) result \<Rightarrow> recorded_chain \<Rightarrow> bool" where
  "chain_renewed tools worktree fs recorded entry chain \<longleftrightarrow>
     (\<exists>name. rch_repository_path chain = LTV_CERTS_PATH @ ''/'' @ name) \<and>
     (\<exists>certificates crls. entry = Ok (path_join worktree (rch_repository_path chain)) \<and>
        file_content fs (path_join worktree (rch_repository_path chain)) = Some (rch_pem_bytes chain) \<and>
        load_chain_file tools (path_join worktree (rch_repository_path chain)) (rch_pem_bytes chain) = Ok certificates \<and>
        covers_chain tools certificates crls \<and>
        (\<forall>crl \<in> set crls. \<exists>r \<in> set recorded. rcl_repository_path r = crl_record_path crl \<and> rcl_der_bytes r = fc_der_bytes crl))"

lemma refreshed_content:
  assumes "refreshed tools worktree fs records fs'"
  shows "file_content fs' path = (case map_of (rev (map (crl_write worktree) (lr_crls records))) path of
      None \<Rightarrow> file_content fs path | Some content \<Rightarrow> Some content)"
    "file_content fs' (path_join worktree (LTV_CERTS_PATH @ ''/'' @ name)) =
     file_content fs (path_join worktree (LTV_CERTS_PATH @ ''/'' @ name))"
proof -
  show all: "file_content fs' path = (case map_of (rev (map (crl_write worktree) (lr_crls records))) path of
      None \<Rightarrow> file_content fs path | Some content \<Rightarrow> Some content)" for path
    using assms files.lookup_updates unfolding refreshed_def by blast
  have "path_join worktree (LTV_CERTS_PATH @ ''/'' @ name) \<notin> fst ` set (map (crl_write worktree) (lr_crls records))"
  proof
    assume "path_join worktree (LTV_CERTS_PATH @ ''/'' @ name) \<in> fst ` set (map (crl_write worktree) (lr_crls records))"
    then obtain crl where "crl \<in> set (lr_crls records)"
      "path_join worktree (LTV_CERTS_PATH @ ''/'' @ name) = path_join worktree (rcl_repository_path crl)"
      by (auto simp: crl_write_def)
    moreover from calculation(1) obtain key where "rcl_repository_path crl = LTV_CRLS_PATH @ ''/'' @ key @ CRL_FILE_SUFFIX"
      using assms by (auto simp: refreshed_def)
    ultimately have "path_join worktree (LTV_CERTS_PATH @ ''/'' @ name) =
        path_join worktree (LTV_CRLS_PATH @ ''/'' @ key @ CRL_FILE_SUFFIX)" by simp
    then have "LTV_CERTS_PATH @ ''/'' @ name = LTV_CRLS_PATH @ ''/'' @ key @ CRL_FILE_SUFFIX"
      by (rule iffD1[OF path_join_inject[OF ltv_paths_relative(1,2)]])
    with ltv_paths_relative(3) show False by blast
  qed
  then have "map_of (rev (map (crl_write worktree) (lr_crls records))) (path_join worktree (LTV_CERTS_PATH @ ''/'' @ name)) = None"
    by (simp add: map_of_eq_None_iff)
  then show "file_content fs' (path_join worktree (LTV_CERTS_PATH @ ''/'' @ name)) =
     file_content fs (path_join worktree (LTV_CERTS_PATH @ ''/'' @ name))" by (simp add: all)
qed

lemma refresh_chain_renews:
  assumes step: "refresh_chain tools worktree records entry (fs1, w) = (Ok records', (fs2, w'))"
    and before: "refreshed tools worktree fs records fs1" and listed: "lists_names (path_join worktree LTV_CERTS_PATH) [entry]"
  shows "\<exists>chain recorded. lr_chains records' = lr_chains records @ [chain] \<and> lr_crls records' = lr_crls records @ recorded \<and>
    chain_renewed tools worktree fs recorded entry chain"
proof -
  obtain path name pem_bytes chain crls recorded v where parts: "entry = Ok path" "chain_record_name path = Some name"
    "fs_read fs1 path = Ok pem_bytes" "load_chain_file tools path pem_bytes = Ok chain"
    "fetch_chain_crls tools chain w = (Ok crls, v)" "record_chain_crls tools worktree crls fs1 = (Ok recorded, fs2)"
    "records' = \<lparr>lr_chains = lr_chains records @
         [\<lparr>rch_repository_path = LTV_CERTS_PATH @ ''/'' @ name, rch_pem_bytes = pem_bytes\<rparr>],
       lr_crls = lr_crls records @ recorded\<rparr>"
    using step by (auto simp: refresh_chain_def action_simps result_simps)
  from listed parts(1) obtain n where n: "path = path_join (path_join worktree LTV_CERTS_PATH) n" "CHR ''/'' \<notin> set n"
    "n \<notin> {[], ''.'', ''..''}" by (auto simp: lists_names_def)
  with parts(2) file_name_below[of n] have "name = n"
    by (auto simp: chain_record_name_def from_utf8_Ok result_simps split: option.splits if_splits)
  then have path: "path = path_join worktree (LTV_CERTS_PATH @ ''/'' @ name)" using n by (simp add: path_join_below)
  have "file_content fs path = Some pem_bytes"
    using refreshed_content(2)[OF before, of name] parts(3) path unfolding file_content_def by (metis ok_simps(2))
  then show ?thesis
    using parts path fetch_chain_crls_Ok[OF parts(5)] record_chain_crls_Ok[OF parts(6)]
    unfolding chain_renewed_def by (fastforce dest: list_all2_left)
qed


lemma refresh_fold:
  assumes "lists_names (path_join worktree LTV_CERTS_PATH) entries"
    and "act_fold (refresh_chain tools worktree) \<lparr>lr_chains = [], lr_crls = []\<rparr> entries (fs, w) = (Ok records, (fs', w'))"
  shows "refreshed tools worktree fs records fs' \<and>
    list_all2 (chain_renewed tools worktree fs (lr_crls records)) entries (lr_chains records)"
  using assms
proof (induction entries arbitrary: records fs' w' rule: rev_induct)
  case Nil
  then show ?case by (simp add: action_simps refreshed_def files.updates_def)
next
  case (snoc entry entries)
  from snoc.prems(2) obtain front fs1 w1 where
    front: "act_fold (refresh_chain tools worktree) \<lparr>lr_chains = [], lr_crls = []\<rparr> entries (fs, w) = (Ok front, (fs1, w1))"
    and step: "refresh_chain tools worktree front entry (fs1, w1) = (Ok records, (fs', w'))"
    by (auto simp: act_fold_snoc action_simps)
  from snoc.prems(1) have listed: "lists_names (path_join worktree LTV_CERTS_PATH) entries"
    "lists_names (path_join worktree LTV_CERTS_PATH) [entry]" by (auto simp: lists_names_def)
  note IH = snoc.IH[OF listed(1) front]
  from refresh_chain_renews[OF step conjunct1[OF IH] listed(2)] obtain chain recorded where
    new: "lr_chains records = lr_chains front @ [chain]" "lr_crls records = lr_crls front @ recorded"
    "chain_renewed tools worktree fs recorded entry chain" by blast
  have "list_all2 (chain_renewed tools worktree fs (lr_crls records)) entries (lr_chains front)"
    using conjunct2[OF IH] by (rule list_all2_mono) (unfold chain_renewed_def new(2) set_append, blast)
  moreover have "chain_renewed tools worktree fs (lr_crls records) entry chain"
    using new(3) unfolding chain_renewed_def new(2) set_append by blast
  ultimately show ?case
    using refresh_chain_refreshed[OF step conjunct1[OF IH]] new(1) by (simp add: list_all2_appendI)
qed

lemma ltv_refresh_cases:
  assumes "ltv_refresh tools worktree (fs, w) = (Ok records, (fs', w'))"
  obtains (Absent) cause where "fs_read_dir fs (path_join worktree LTV_CERTS_PATH) = Err (NotFound cause)"
      "records = \<lparr>lr_chains = [], lr_crls = []\<rparr>" "fs' = fs" "w' = w"
  | (Listed) entries fs1 where "fs_read_dir fs (path_join worktree LTV_CERTS_PATH) = Ok entries"
      "file_content fs1 = file_content fs"
      "act_fold (refresh_chain tools worktree) \<lparr>lr_chains = [], lr_crls = []\<rparr> entries (fs1, w) = (Ok records, (fs', w'))"
  using assms
  by (auto simp: ltv_refresh_def Let_def action_simps dest: materialize_content split: sum.splits io_error.splits)

text \<open>C22: a refresh reports the working tree as it leaves it: one chain record per file of the chain directory, with its
  content, and every CRL it wrote with the bytes that are on disk now, where one issuer's CRL was fetched for several
  chains the last one; no other file changes. Every chain on record is covered anew: each certificate that advertises
  distribution points has the CRL of an issuer that answered for it.\<close>

theorem refresh_reports_working_tree:
  assumes "ltv_refresh tools worktree (fs, w) = (Ok records, (fs', w'))"
    and "fs_read_dir fs (path_join worktree LTV_CERTS_PATH) = Ok entries"
    and "lists_names (path_join worktree LTV_CERTS_PATH) entries"
  shows "list_all2 (chain_renewed tools worktree fs' (lr_crls records)) entries (lr_chains records) \<and>
    (\<forall>path. file_content fs' path = (case map_of (rev (map (crl_write worktree) (lr_crls records))) path of
       None \<Rightarrow> file_content fs path | Some content \<Rightarrow> Some content))"
proof -
  from ltv_refresh_cases[OF assms(1)] assms(2) obtain fs1 where fs1: "file_content fs1 = file_content fs"
    and run: "act_fold (refresh_chain tools worktree) \<lparr>lr_chains = [], lr_crls = []\<rparr> entries (fs1, w) = (Ok records, (fs', w'))"
    by (metis Inl_Inr_False Inr_inject)
  note R = refresh_fold[OF assms(3) run]
  have "list_all2 (chain_renewed tools worktree fs' (lr_crls records)) entries (lr_chains records)"
    using conjunct2[OF R]
  proof (rule list_all2_mono)
    fix entry chain assume renewed: "chain_renewed tools worktree fs1 (lr_crls records) entry chain"
    then obtain name where "rch_repository_path chain = LTV_CERTS_PATH @ ''/'' @ name"
      by (auto simp: chain_renewed_def)
    with renewed refreshed_content(2)[OF conjunct1[OF R], of name]
    show "chain_renewed tools worktree fs' (lr_crls records) entry chain" by (simp add: chain_renewed_def)
  qed
  with refreshed_content(1)[OF conjunct1[OF R]] show ?thesis unfolding fs1 by blast
qed


lemma refresh_panics:
  assumes "fs_read_dir fs (path_join worktree LTV_CERTS_PATH) = Ok (Ok file_path # entries)"
    and "chain_record_name file_path = Some record_name" "file_content fs file_path = Some []"
    and "create_failure (lt_writer tools) = (\<lambda>_ _. None)" "load_pem_chain (lt_pem tools) [] = None"
  shows "fst (ltv_refresh tools worktree (fs, w)) = Err LtvPanic"
proof -
  obtain fs1 where made: "materialize_record_directories tools worktree fs = (Ok (), fs1)"
    using materialize_succeeds[OF assms(4)] by blast
  from materialize_content[OF made] assms(3) have "fs_read fs1 file_path = Ok []"
    by (metis file_content_def ok_eq_Some)
  with assms(1,2,5) made show ?thesis
    by (simp add: ltv_refresh_def refresh_chain_def load_chain_file_def act_bind_def act_lift_def on_fst_def)
qed

text \<open>C26: a chain file that \<open>load_pem_chain\<close> panics on, an empty one, makes the whole refresh panic: \<open>refresh\<close> calls it
  without the guard that \<open>certificates_from_pem\<close> puts before the same call, although an unusable file has the error
  \<open>MalformedChainFile\<close>.\<close>

theorem empty_chain_file_panics_refresh:
  assumes "fs_read_dir fs (path_join worktree LTV_CERTS_PATH) = Ok (Ok file_path # entries)"
    and "chain_record_name file_path = Some record_name" "file_content fs file_path = Some []"
    and "create_failure (lt_writer tools) = (\<lambda>_ _. None)" "load_pem_chain (lt_pem tools) [] = None"
  shows "fst (ltv_refresh tools worktree (fs, w)) = Err LtvPanic \<and>
    certificates_from_pem (lt_pem tools) (lt_cms tools) [] description = Err (TrustEmpty description)"
proof
  show "fst (ltv_refresh tools worktree (fs, w)) = Err LtvPanic" by (rule refresh_panics[OF assms])
  show "certificates_from_pem (lt_pem tools) (lt_cms tools) [] description = Err (TrustEmpty description)"
    by (simp add: certificates_from_pem_def)
qed


section \<open>A concrete working tree\<close>

text \<open>One chain file whose certificate advertises \<open>http://c\<close>, which serves a CRL of the issuer \<open>root\<close>.\<close>

definition toy_advertising :: certificate where
  "toy_advertising = toy_certificate ''3'' ''root'' ''R'' ''ca'' ''C''
     (Some [\<lparr>extn_id = CRL_DISTRIBUTION_POINTS, ext_critical = False, extn_value = []\<rparr>])"

type_synonym 'w toy_tools = "('w, string \<times> bytes) ltv_tools"

definition toy_ltv :: "'w toy_tools" where
  "toy_ltv =
     \<lparr>lt_cms = toy_cms, lt_pki = toy_pki,
      lt_pem = \<lparr>load_pem_chain = \<lambda>bs. if bs = [] then None else Some (Ok [if bs = ''root'' then toy_root else toy_advertising]),
        decode_pem = \<lambda>bs. Ok (CRL_PEM_LABEL, bs), pem_debug = \<lambda>s. s\<rparr>,
      lt_codec = \<lparr>name_to_der = Ok, distribution_points_from_der = \<lambda>_. Ok [Some (FullName [UniformResourceIdentifier ''http://c''])],
        certificate_to_pem = \<lambda>c. Ok (''PEM of '' @ cert_subject c), encode_pem = \<lambda>_ bs. Ok (''PEM of '' @ bs)\<rparr>,
      lt_http = \<lparr>http_get = \<lambda>_ w _. (Ok ([], ''der''), w), http_post = \<lambda>_ w _ _ _. (Err (HttpFailed ''no resource''), w),
        resp_header = \<lambda>response _. Some (fst response), header_to_str = Some,
        read_to_vec = \<lambda>w response limit. (Ok (snd response), w), http_debug = \<lambda>s. s\<rparr>,
      lt_writer = \<lparr>write_failure = \<lambda>_ _ _. None, create_failure = \<lambda>_ _. None, remove_failure = \<lambda>_ _. None\<rparr>\<rparr>"

definition toy_disk :: "bytes \<Rightarrow> file_system" where
  "toy_disk chain_file =
     \<lparr>fs_read_dir = \<lambda>path. if path = ''/w/.tydence/ltv/certs'' then Ok [Ok ''/w/.tydence/ltv/certs/x.cer''] else Err (NotFound []),
      fs_is_file = \<lambda>path. path = ''/w/.tydence/ltv/certs/x.cer'',
      fs_read = \<lambda>path. if path = ''/w/.tydence/ltv/certs/x.cer'' then Ok chain_file
        else if path = ''/root.pem'' then Ok ''root'' else Err (NotFound []),
      fs_display = \<lambda>path. path\<rparr>"

lemmas toy_ltv_defs = toy_ltv_def toy_disk_def toy_cms_def toy_pki_def toy_advertising_def toy_certificate_def
  toy_crl_def layout_defs path_join_def starts_with_def ends_with_def strip_suffix_def

lemma toy_record_name: "chain_record_name ''/w/.tydence/ltv/certs/x.cer'' = Some ''x.cer''"
proof -
  have "is_utf8 ''x.cer''" by (rule is_utf8_ascii) simp
  then show ?thesis
    by (simp add: chain_record_name_def path_file_name_def from_utf8_valid layout_defs ends_with_def strip_suffix_def)
qed

lemma toy_certs_path: "path_join ''/w'' LTV_CERTS_PATH = ''/w/.tydence/ltv/certs''"
  by (simp add: path_join_def layout_defs starts_with_def ends_with_def strip_suffix_def)

lemma toy_fetched:
  "fetch_chain_crls toy_ltv [toy_advertising] w = (Ok [\<lparr>fc_issuer_key = hex_encode LOWERCASE ''d'', fc_der_bytes = ''der''\<rparr>], w)"
  by (simp add: fetch_chain_crls_def fetch_crl_def distribution_uris_def fetch_def with_interrupt_retry_def retry_loop.simps
      fetch_once_def read_body_def fetched_crl_of_def crl_der_of_def issuer_key_def keep_crl_def MAX_RESPONSE_BYTES_def
      toy_ltv_defs act_bind_def act_return_def act_lift_def)

lemma toy_harvested:
  "ltv_harvest toy_ltv ''t'' w =
     (Ok \<lparr>chain_repository_path = LTV_CERTS_PATH @ ''/'' @ hex_encode LOWERCASE ''d'' @ CHAIN_FILE_SUFFIX,
        chain_pem_text = ''PEM of tsa'', fetched_crls = []\<rparr>, w)"
  by (simp add: ltv_harvest_def token_chain_def signed_chain_def fetch_chain_crls_def fetch_crl_def distribution_uris_def
      issuer_key_def keep_crl_def toy_ltv_def toy_cms_def toy_pki_def toy_content_info_def toy_signed_data_def toy_any_def
      toy_signer_info_def toy_tsa_def toy_certificate_def CRL_DISTRIBUTION_POINTS_def EXTENDED_KEY_USAGE_def act_bind_def
      act_return_def act_lift_def)

lemma harvest_covers_chain_witness:
  "\<exists>chain. carries_chain (toy_ltv :: nat toy_tools) ''t'' ''root'' chain \<and> covers_chain (toy_ltv :: nat toy_tools) chain []"
proof -
  from harvest_covers_chain[OF toy_harvested[of "0 :: nat"]] obtain issuer chain where
    "carries_chain (toy_ltv :: nat toy_tools) ''t'' issuer chain" "covers_chain (toy_ltv :: nat toy_tools) chain []" by auto
  moreover from this(1) have "issuer = ''root''"
    by (auto simp: carries_chain_def toy_ltv_def toy_cms_def toy_content_info_def toy_signed_data_def toy_signer_info_def)
  ultimately show ?thesis by blast
qed

lemma toy_refreshed:
  "\<exists>fs'. ltv_refresh toy_ltv ''/w'' (toy_disk ''chain'', w :: 'w) =
     (Ok \<lparr>lr_chains = [\<lparr>rch_repository_path = LTV_CERTS_PATH @ ''/x.cer'', rch_pem_bytes = ''chain''\<rparr>],
        lr_crls = [\<lparr>rcl_repository_path = crl_record_path \<lparr>fc_issuer_key = hex_encode LOWERCASE ''d'', fc_der_bytes = ''der''\<rparr>,
          rcl_pem_bytes = ''PEM of der'', rcl_der_bytes = ''der''\<rparr>]\<rparr>, (fs', w))"
proof -
  let ?tools = "toy_ltv :: 'w toy_tools"
  have "create_failure (lt_writer ?tools) = (\<lambda>_ _. None)" by (simp add: toy_ltv_def)
  from materialize_succeeds[OF this] obtain fs1 where
    made: "materialize_record_directories ?tools ''/w'' (toy_disk ''chain'') = (Ok (), fs1)" by blast
  have "file_content fs1 ''/w/.tydence/ltv/certs/x.cer'' = Some ''chain''"
    unfolding materialize_content[OF made] by (simp add: file_content_def toy_disk_def)
  then have content: "fs_read fs1 ''/w/.tydence/ltv/certs/x.cer'' = Ok ''chain''" by (simp add: file_content_def ok_eq_Some)
  have listed: "fs_read_dir (toy_disk ''chain'') ''/w/.tydence/ltv/certs'' = Ok [Ok ''/w/.tydence/ltv/certs/x.cer'']"
    by (simp add: toy_disk_def)
  have loaded: "load_chain_file ?tools path ''chain'' = Ok [toy_advertising]" for path
    by (simp add: load_chain_file_def toy_ltv_def)
  have written: "write_file (lt_writer ?tools) path bs fs = (Ok (), set_content path (Ok bs) fs)" for path bs fs
    by (simp add: write_file_def toy_ltv_def)
  have encoded: "encode_pem (lt_codec ?tools) label bs = Ok (''PEM of '' @ bs)" for label bs by (simp add: toy_ltv_def)
  have recorded: "record_chain_crls ?tools ''/w'' [crl] fs = (Ok [\<lparr>rcl_repository_path = crl_record_path crl,
      rcl_pem_bytes = ''PEM of '' @ fc_der_bytes crl, rcl_der_bytes = fc_der_bytes crl\<rparr>],
      set_content (path_join ''/w'' (crl_record_path crl)) (Ok (''PEM of '' @ fc_der_bytes crl)) fs)" for crl fs
    by (simp add: record_chain_crls_def encoded write_text_file_def written act_bind_def act_lift_def act_return_def act_map_err_def)
  have step: "\<exists>fs2. refresh_chain ?tools ''/w'' \<lparr>lr_chains = [], lr_crls = []\<rparr> (Ok ''/w/.tydence/ltv/certs/x.cer'') (fs1, w) =
     (Ok \<lparr>lr_chains = [\<lparr>rch_repository_path = LTV_CERTS_PATH @ ''/x.cer'', rch_pem_bytes = ''chain''\<rparr>],
        lr_crls = [\<lparr>rcl_repository_path = crl_record_path \<lparr>fc_issuer_key = hex_encode LOWERCASE ''d'', fc_der_bytes = ''der''\<rparr>,
          rcl_pem_bytes = ''PEM of der'', rcl_der_bytes = ''der''\<rparr>]\<rparr>, (fs2, w))"
    by (simp add: refresh_chain_def act_bind_def act_lift_def act_return_def on_fst_def on_snd_def content toy_record_name
        loaded toy_fetched recorded)
  then show ?thesis
    by (auto simp: ltv_refresh_def toy_certs_path listed made action_defs)
qed

lemma refresh_reports_working_tree_witness:
  "\<exists>(records :: ltv_records) (fs' :: file_system). list_all2 (chain_renewed (toy_ltv :: nat toy_tools) ''/w'' fs' (lr_crls records)) [Ok ''/w/.tydence/ltv/certs/x.cer''] (lr_chains records)"
proof -
  obtain records fs' where run: "ltv_refresh toy_ltv ''/w'' (toy_disk ''chain'', 0 :: nat) = (Ok records, (fs', 0))"
    using toy_refreshed[of "0 :: nat"] by blast
  have a: "fs_read_dir (toy_disk ''chain'') (path_join ''/w'' LTV_CERTS_PATH) = Ok [Ok ''/w/.tydence/ltv/certs/x.cer'']"
    by (simp add: toy_certs_path toy_disk_def)
  have b: "lists_names (path_join ''/w'' LTV_CERTS_PATH) [Ok ''/w/.tydence/ltv/certs/x.cer'']"
    unfolding toy_certs_path lists_names_def
    by (auto simp: path_join_def starts_with_def ends_with_def strip_suffix_def intro!: exI[of _ "''x.cer''"])
  from conjunct1[OF refresh_reports_working_tree[OF run a b]] show ?thesis by blast
qed

lemma empty_chain_file_panics_refresh_witness:
  "fst (ltv_refresh toy_ltv ''/w'' (toy_disk [], 0 :: nat)) = Err LtvPanic"
  by (rule conjunct1[OF empty_chain_file_panics_refresh[where file_path = "''/w/.tydence/ltv/certs/x.cer''"]])
    (simp_all add: toy_certs_path toy_disk_def toy_record_name file_content_def toy_ltv_def)

end
