(* ===== verification/Trailers.thy ===== *)
theory Trailers
  imports Manifest_Model
begin

text \<open>
  The message of a stamp commit, the pure part of \<open>crates/tydence/src/stamp/create.rs\<close>: the stamp trailers are
  appended, stale ones are dropped, and an existing trailer block is joined. A message is a Rust \<open>String\<close>: its
  bytes are valid UTF-8.
\<close>

section \<open>The message\<close>

definition STAMP_TRAILER_TOKEN :: string where "STAMP_TRAILER_TOKEN = ''Tydence-Stamp:''"

text \<open>\<open>s.rsplit_once(sep)\<close>: split at the last occurrence.\<close>

fun rsplit_once :: "string \<Rightarrow> string \<Rightarrow> (string \<times> string) option" where
  "rsplit_once sep [] = None"
| "rsplit_once sep (x # xs) =
     (case rsplit_once sep xs of
        Some (l, r) \<Rightarrow> Some (x # l, r)
      | None \<Rightarrow> map_option (\<lambda>r. ([], r)) (strip_prefix sep (x # xs)))"

text \<open>\<open>token.chars().all\<close>: every character of a multi-byte sequence fails the test, as every one of its bytes does.\<close>

definition is_trailer_line :: "string \<Rightarrow> bool" where
  "is_trailer_line line =
     (case split_once (CHR '':'') line of None \<Rightarrow> False
      | Some (token, value) \<Rightarrow>
          token \<noteq> [] \<and> list_all (\<lambda>piece. is_ascii_alphanumeric piece \<or> piece = CHR ''-'') token \<and> str_trim value \<noteq> [])"

definition ends_with_trailer_block :: "string \<Rightarrow> bool" where
  "ends_with_trailer_block message =
     (case rsplit_once [CHR 0x0A, CHR 0x0A] message of None \<Rightarrow> False
      | Some (_, last_paragraph) \<Rightarrow> last_paragraph \<noteq> [] \<and> list_all is_trailer_line (str_lines last_paragraph))"

definition message_body :: "string \<Rightarrow> string" where
  "message_body message =
     str_trim_end (join_with [CHR 0x0A] (filter (\<lambda>line. \<not> starts_with STAMP_TRAILER_TOKEN line) (str_lines message)))"

definition stamp_trailers :: "payload_hashes \<Rightarrow> string list" where
  "stamp_trailers hashes =
     [STAMP_TRAILER_TOKEN @ '' sha256:'' @ hex_encode LOWERCASE (sha256 hashes),
      STAMP_TRAILER_TOKEN @ '' sha3-256:'' @ hex_encode LOWERCASE (sha3_256 hashes)]"

definition message_with_trailers :: "string \<Rightarrow> payload_hashes \<Rightarrow> string" where
  "message_with_trailers message hashes =
     (let body = message_body message;
          separator = (if ends_with_trailer_block body then [CHR 0x0A] else [CHR 0x0A, CHR 0x0A])
      in body @ separator @ concat (map (\<lambda>line. line @ [CHR 0x0A]) (stamp_trailers hashes)))"

section \<open>Trimming valid text\<close>

abbreviation white :: "nat \<times> bytes \<Rightarrow> bool" where "white \<equiv> \<lambda>(cp, _). is_whitespace cp"

lemma chars_of_front:
  "is_utf8 s \<Longrightarrow> chars_of s = front @ back \<Longrightarrow> is_utf8 (concat (map snd front)) \<and> chars_of (concat (map snd front)) = front"
proof (induction arbitrary: front rule: is_utf8_induct)
  case (Char b bs cp n)
  show ?case
  proof (cases front)
    case (Cons c front')
    with Char(1,6) have c: "c = (cp, b # take (n - 1) bs)" and rest: "chars_of (drop (n - 1) bs) = front' @ back" by auto
    from Char(5)[OF rest] show ?thesis
      using Cons c chars_of_append[OF one_char(1)[OF Char(1)]] one_char[OF Char(1)]
        is_utf8_append[OF one_char(1)[OF Char(1)]] by simp
  qed simp
qed simp

lemma dropWhile_rev_split: "xs = rev (dropWhile P (rev xs)) @ rev (takeWhile P (rev xs))"
  by (metis rev_append rev_rev_ident takeWhile_dropWhile_id)

lemma chars_of_trim_end:
  assumes "is_utf8 s"
  shows "is_utf8 (str_trim_end s)" "chars_of (str_trim_end s) = rev (dropWhile white (rev (chars_of s)))"
  using chars_of_front[OF assms dropWhile_rev_split[of "chars_of s" white]] by (simp_all add: str_trim_end_def)

lemma str_trim_end_idem [simp]: "is_utf8 s \<Longrightarrow> str_trim_end (str_trim_end s) = str_trim_end s"
  by (simp add: str_trim_end_def[of "str_trim_end s"] chars_of_trim_end dropWhile_idem)
    (simp add: str_trim_end_def)

lemma str_trim_end_snoc:
  assumes "is_utf8 s" "byte_code b < (128 :: nat)"
  shows "str_trim_end (s @ [b]) = (if is_whitespace (byte_code b) then str_trim_end s else s @ [b])"
  using assms concat_chars[OF assms(1)]
  by (simp add: str_trim_end_def chars_of_append utf8_next_ascii)

lemma str_trim_end_front:
  assumes "is_utf8 s"
  obtains w where "s = str_trim_end s @ w"
  using concat_chars[OF assms] dropWhile_rev_split[of "chars_of s" white]
  by (metis concat_append map_append str_trim_end_def)

lemma in_dropWhile: "x \<in> set xs \<Longrightarrow> \<not> P x \<Longrightarrow> x \<in> set (dropWhile P xs)"
  by (induction xs) auto

lemma str_trim_keeps:
  assumes "is_utf8 s" "b \<in> set s" "byte_code b < (128 :: nat)" "\<not> is_whitespace (byte_code b)"
  shows "b \<in> set (str_trim s)"
proof -
  have "(byte_code b, [b]) \<in> set (rev (dropWhile white (rev (dropWhile white (chars_of s)))))"
    using ascii_is_char[OF assms(1-3)] assms(4) by (auto intro!: in_dropWhile)
  then show ?thesis unfolding str_trim_def by force
qed

text \<open>A valid text falls apart into valid texts at an ASCII byte.\<close>

lemma is_utf8_cut:
  "is_utf8 s \<Longrightarrow> s = a @ b # c \<Longrightarrow> byte_code b < (128 :: nat) \<Longrightarrow> is_utf8 a \<and> is_utf8 c"
proof (induction arbitrary: a rule: is_utf8_induct)
  case (Char x bs cp n)
  show ?case
  proof (cases a)
    case Nil
    with Char(6) have x: "x = b" "bs = c" by auto
    with Char(1,7) have "n = 1" by (simp add: utf8_next_ascii)
    with Char(4) x Nil show ?thesis by simp
  next
    case (Cons y a')
    with Char(6) have y: "y = x" and bs: "bs = a' @ b # c" by auto
    have n: "n - 1 \<le> length a'"
    proof (rule ccontr)
      assume "\<not> n - 1 \<le> length a'"
      then have "length a' < n - 1" by simp
      then have "b \<in> set (take (n - 1) bs)" using bs by (cases "n - 1 - length a'") auto
      with \<open>length a' < n - 1\<close> have "b \<in> set (x # take (n - 1) bs)" "1 < n" by simp_all
      with utf8_next_multibyte_tail[OF Char(1), of b] Char(7) show False by simp
    qed
    then have rest: "drop (n - 1) bs = drop (n - 1) a' @ b # c" using bs by simp
    have "utf8_next x a' = Scalar cp n"
      using utf8_next_Scalar_local[OF Char(1), of "drop (n - 1) a'"] n bs by simp
    with Char(5)[OF rest Char(7)] Cons y show ?thesis by (auto simp: is_utf8_Cons)
  qed
qed simp


lemma is_utf8_pieces:
  "is_utf8 s \<Longrightarrow> byte_code c < (128 :: nat) \<Longrightarrow> w \<in> set (split_on c s) \<Longrightarrow> is_utf8 w"
proof (induction "length s" arbitrary: s rule: less_induct)
  case less
  show ?case
  proof (cases "c \<in> set s")
    case True
    then obtain a b where s: "s = a @ c # b" "c \<notin> set a" by (meson split_list_first)
    with is_utf8_cut[OF less.prems(1) s(1) less.prems(2)] less.hyps[of b] less.prems(2,3) show ?thesis
      by (auto simp: split_on_append)
  next
    case False
    with less.prems show ?thesis by (simp add: split_on_no_sep)
  qed
qed

lemma is_utf8_join: "(\<And>w. w \<in> set ws \<Longrightarrow> is_utf8 w) \<Longrightarrow> is_utf8 sep \<Longrightarrow> is_utf8 (join_with sep ws)"
  by (induction sep ws rule: join_with.induct) (simp_all add: is_utf8_append)

section \<open>Lines\<close>

lemma strip_cr_plain: "CHR 0x0D \<notin> set l \<Longrightarrow> strip_cr l = l"
  by (auto simp: strip_cr_def strip_suffix_iff split: option.split)

lemma str_lines_plain:
  assumes "CHR 0x0D \<notin> set s"
  shows "str_lines s = (let pieces = split_on (CHR 0x0A) s in butlast pieces @ (if last pieces = [] then [] else [last pieces]))"
proof -
  have "map strip_cr (butlast (split_on (CHR 0x0A) s)) = butlast (split_on (CHR 0x0A) s)"
  proof (rule map_idI)
    fix l assume "l \<in> set (butlast (split_on (CHR 0x0A) s))"
    then have "l \<in> set (split_on (CHR 0x0A) s)" by (rule in_set_butlastD)
    with join_split[of "CHR 0x0A" s] assms have "CHR 0x0D \<notin> set l"
      using set_split_on by fastforce
    then show "strip_cr l = l" by (rule strip_cr_plain)
  qed
  then show ?thesis by (simp add: str_lines_def Let_def)
qed


lemma split_on_front:
  assumes "p \<in> set (split_on c a)"
  shows "\<exists>q \<in> set (split_on c (a @ w)). \<exists>r. q = p @ r"
proof -
  have "split_on c a = butlast (split_on c a) @ [last (split_on c a)]" by simp
  then have "p = last (split_on c a) \<or> p \<in> set (butlast (split_on c a))"
    using assms by (metis Un_iff empty_iff insert_iff list.set set_append)
  then show ?thesis
  proof
    assume "p \<in> set (butlast (split_on c a))"
    then show ?thesis by (intro bexI[of _ p]) (simp_all add: split_on_glue)
  qed (auto simp: split_on_glue)
qed

section \<open>Restamping\<close>

lemma stamp_trailer_lines:
  assumes "line \<in> set (stamp_trailers hashes)"
  shows "starts_with STAMP_TRAILER_TOKEN line" "CHR 0x0A \<notin> set line" "CHR 0x0D \<notin> set line" "is_utf8 line" "line \<noteq> []"
    "is_trailer_line line"
proof -
  have hex: "b \<in> set (hex_encode LOWERCASE bs) \<Longrightarrow> is_ascii_graphic b" for b bs by (rule hex_lower_graphic)
  obtain family bs where line: "line = STAMP_TRAILER_TOKEN @ CHR '' '' # family @ hex_encode LOWERCASE bs"
    and family: "family = ''sha256:'' \<or> family = ''sha3-256:''"
  proof -
    from assms consider "line = STAMP_TRAILER_TOKEN @ CHR '' '' # ''sha256:'' @ hex_encode LOWERCASE (sha256 hashes)"
      | "line = STAMP_TRAILER_TOKEN @ CHR '' '' # ''sha3-256:'' @ hex_encode LOWERCASE (sha3_256 hashes)"
      by (auto simp: stamp_trailers_def)
    then show thesis by cases (use that in blast)+
  qed
  have plain: "b \<in> set line \<Longrightarrow> b = CHR '' '' \<or> is_ascii_graphic b" for b
    using family hex by (auto simp: line STAMP_TRAILER_TOKEN_def is_ascii_graphic_def)
  then show "CHR 0x0A \<notin> set line" "CHR 0x0D \<notin> set line" by (auto simp: is_ascii_graphic_def dest!: plain)
  show "is_utf8 line" using plain by (intro is_utf8_ascii) (auto simp: is_ascii_graphic_def dest!: plain)
  show "starts_with STAMP_TRAILER_TOKEN line" "line \<noteq> []" by (auto simp: line starts_with_iff STAMP_TRAILER_TOKEN_def)
  let ?remainder = "CHR '' '' # family @ hex_encode LOWERCASE bs"
  have "split_once (CHR '':'') line = Some (''Tydence-Stamp'', ?remainder)"
    using split_once_append[of "CHR '':''" "''Tydence-Stamp''" ?remainder] by (simp add: line STAMP_TRAILER_TOKEN_def)
  moreover have "CHR ''s'' \<in> set (str_trim ?remainder)"
  proof (rule str_trim_keeps)
    have "b \<in> set ?remainder \<Longrightarrow> byte_code b < (128 :: nat)" for b
      using plain[of b] by (auto simp: line is_ascii_graphic_def)
    then show "is_utf8 ?remainder" by (intro is_utf8_ascii ballI)
    show "CHR ''s'' \<in> set ?remainder" using family by auto
  qed (simp_all add: is_whitespace_def)
  then have "str_trim ?remainder \<noteq> []" by force
  moreover have "list_all (\<lambda>piece. is_ascii_alphanumeric piece \<or> piece = CHR ''-'') ''Tydence-Stamp''"
    by (simp add: is_ascii_alphanumeric_def is_ascii_digit_def is_ascii_uppercase_def is_ascii_lowercase_def)
  ultimately show "is_trailer_line line" by (simp add: is_trailer_line_def)
qed


lemma split_on_lines:
  "(\<And>l. l \<in> set ls \<Longrightarrow> c \<notin> set l) \<Longrightarrow> split_on c (concat (map (\<lambda>l. l @ [c]) ls)) = ls @ [[]]"
  by (induction ls) (simp_all add: split_on_append)

abbreviation trailer_text :: "payload_hashes \<Rightarrow> string" where
  "trailer_text hashes \<equiv> concat (map (\<lambda>line. line @ [CHR 0x0A]) (stamp_trailers hashes))"

lemma trailer_pieces: "split_on (CHR 0x0A) (trailer_text hashes) = stamp_trailers hashes @ [[]]"
  by (rule split_on_lines) (rule stamp_trailer_lines(2))

lemma trailer_text_plain: "CHR 0x0D \<notin> set (trailer_text hashes)"
  using stamp_trailer_lines(3)[of _ hashes] by auto

text \<open>The body of a message without carriage returns: its pieces hold no stamp trailer, and it ends in no white space.\<close>

lemma message_body_facts:
  assumes "is_utf8 message" "CHR 0x0D \<notin> set message"
  defines "body \<equiv> message_body message"
  shows "is_utf8 body" "CHR 0x0D \<notin> set body" "str_trim_end body = body"
    "p \<in> set (split_on (CHR 0x0A) body) \<Longrightarrow> \<not> starts_with STAMP_TRAILER_TOKEN p"
proof -
  let ?kept = "filter (\<lambda>line. \<not> starts_with STAMP_TRAILER_TOKEN line) (str_lines message)"
  let ?joined = "join_with [CHR 0x0A] ?kept"
  have pieces: "l \<in> set (split_on (CHR 0x0A) message)" if "l \<in> set ?kept" for l
    using that assms(2) by (auto simp: str_lines_plain Let_def split: if_splits dest: in_set_butlastD)
  have joined: "is_utf8 ?joined"
    by (rule is_utf8_join) (use is_utf8_pieces[OF assms(1), of "CHR 0x0A"] pieces in \<open>auto simp: is_utf8_ascii\<close>)
  then show "is_utf8 body" "str_trim_end body = body" by (simp_all add: body_def message_body_def chars_of_trim_end)
  obtain w where w: "?joined = body @ w" using str_trim_end_front[OF joined] by (auto simp: body_def message_body_def)
  have "CHR 0x0D \<notin> set ?joined"
    using set_join_with[of "[CHR 0x0A]" ?kept] set_split_on[OF pieces] assms(2) by fastforce
  with w show "CHR 0x0D \<notin> set body" by simp
  assume p: "p \<in> set (split_on (CHR 0x0A) body)"
  show "\<not> starts_with STAMP_TRAILER_TOKEN p"
  proof (cases "?kept = []")
    case True
    with w p show ?thesis by (auto simp: starts_with_iff STAMP_TRAILER_TOKEN_def)
  next
    case False
    then have "split_on (CHR 0x0A) ?joined = ?kept"
      by (rule split_join) (use pieces split_on_pieces in blast)
    with split_on_front[OF p, of w] w show ?thesis by (auto simp: starts_with_iff)
  qed
qed

lemma sealed_message_lines:
  assumes "is_utf8 message" "CHR 0x0D \<notin> set message"
  shows "str_lines (message_with_trailers message hashes) =
    split_on (CHR 0x0A) (message_body message) @
      (if ends_with_trailer_block (message_body message) then [] else [[]]) @ stamp_trailers hashes"
proof -
  have "CHR 0x0D \<notin> set (message_with_trailers message hashes)"
    using message_body_facts(2)[OF assms] trailer_text_plain by (auto simp: message_with_trailers_def Let_def)
  then show ?thesis
    by (simp add: str_lines_plain message_with_trailers_def Let_def split_on_join trailer_pieces butlast_append)
qed

lemma restamped_body:
  assumes "is_utf8 message" "CHR 0x0D \<notin> set message"
  shows "message_body (message_with_trailers message hashes) = message_body message"
proof -
  let ?body = "message_body message"
  note facts = message_body_facts[OF assms]
  have "filter (\<lambda>line. \<not> starts_with STAMP_TRAILER_TOKEN line) (str_lines (message_with_trailers message hashes)) =
      split_on (CHR 0x0A) ?body @ (if ends_with_trailer_block ?body then [] else [[]])"
    unfolding sealed_message_lines[OF assms]
    using facts(4) stamp_trailer_lines(1)[of _ hashes]
    by (auto simp: filter_id_conv filter_empty_conv starts_with_iff STAMP_TRAILER_TOKEN_def)
  moreover have "join_with [CHR 0x0A] (split_on (CHR 0x0A) ?body @ [[]]) = ?body @ [CHR 0x0A]"
    by (metis append_Nil2 join_split split_on.simps(1) split_on_join)
  ultimately show ?thesis
    using facts(1,3) by (simp add: message_body_def[of "message_with_trailers message hashes"] join_split
        str_trim_end_snoc is_whitespace_def)
qed


section \<open>The trailer block\<close>

text \<open>A blank line: two line feeds in a row.\<close>

fun doubled :: "byte \<Rightarrow> string \<Rightarrow> bool" where
  "doubled c (x # y # s) \<longleftrightarrow> x = c \<and> y = c \<or> doubled c (y # s)"
| "doubled c s \<longleftrightarrow> False"

lemma doubled_append:
  "doubled c (a @ b) \<longleftrightarrow> doubled c a \<or> doubled c b \<or> a \<noteq> [] \<and> b \<noteq> [] \<and> last a = c \<and> hd b = c"
  by (induction c a rule: doubled.induct) (cases b, auto)+

lemma doubled_plain: "c \<notin> set s \<Longrightarrow> \<not> doubled c s"
  by (induction c s rule: doubled.induct) auto

lemma rsplit_once_None: "rsplit_once [c, c] s = None \<longleftrightarrow> \<not> doubled c s"
  by (induction c s rule: doubled.induct) (auto split: option.splits)

lemma rsplit_once_Some: "rsplit_once [c, c] s = Some (l, r) \<longleftrightarrow> s = l @ c # c # r \<and> \<not> doubled c (c # r)"
proof (induction s arbitrary: l r)
  case (Cons x s)
  show ?case
  proof (cases "rsplit_once [c, c] s")
    case None
    then have "\<not> doubled c s" by (simp add: rsplit_once_None)
    with None show ?thesis
      by (cases s; cases l) (auto simp: doubled_append)
  next
    case (Some halves)
    then have twice: "doubled c s" by (metis rsplit_once_None option.distinct(1))
    obtain a b where h: "rsplit_once [c, c] s = Some (a, b)" using Some by (cases halves) auto
    then have "rsplit_once [c, c] (x # s) = Some (x # a, b)" by simp
    then show ?thesis using h twice Cons.IH[of "tl l" r] by (cases l) auto
  qed
qed simp

lemma trailer_text_shape:
  "\<not> doubled (CHR 0x0A) (CHR 0x0A # trailer_text hashes)" "trailer_text hashes \<noteq> []"
  "str_lines (trailer_text hashes) = stamp_trailers hashes"
proof -
  have lines: "CHR 0x0A \<notin> set l" "l \<noteq> []" if "l \<in> set (stamp_trailers hashes)" for l
    using stamp_trailer_lines[OF that] by simp_all
  have step: "\<not> doubled c (c # concat (map (\<lambda>l. l @ [c]) ls))" if "\<And>l. l \<in> set ls \<Longrightarrow> c \<notin> set l \<and> l \<noteq> []" for c ls
    using that
  proof (induction ls)
    case (Cons l ls)
    then have l: "c \<notin> set l" "l \<noteq> []" by auto
    then have "hd l \<noteq> c" "last l \<noteq> c" by (metis hd_in_set, metis last_in_set)
    with Cons l show ?case
      using doubled_append[of c "[c] @ l" "c # concat (map (\<lambda>l. l @ [c]) ls)"] doubled_append[of c "[c]" l]
      by (simp add: doubled_plain)
  qed simp
  show "\<not> doubled (CHR 0x0A) (CHR 0x0A # trailer_text hashes)" by (rule step) (use lines in blast)
  show "trailer_text hashes \<noteq> []" by (simp add: stamp_trailers_def)
  show "str_lines (trailer_text hashes) = stamp_trailers hashes"
    by (simp add: str_lines_plain[OF trailer_text_plain] trailer_pieces Let_def)
qed

lemma trimmed_last:
  assumes "is_utf8 s" "str_trim_end s = s"
  shows "s = [] \<or> last s \<noteq> CHR 0x0A"
proof (rule ccontr)
  assume "\<not> ?thesis"
  then obtain t where t: "s = t @ [CHR 0x0A]" by (metis append_butlast_last_id)
  with assms(1) have valid: "is_utf8 t" using is_utf8_cut[OF assms(1), of t "CHR 0x0A" "[]"] by simp
  then have "str_trim_end t = t @ [CHR 0x0A]" using assms(2) t by (simp add: str_trim_end_snoc is_whitespace_def)
  moreover obtain w where "t = str_trim_end t @ w" using str_trim_end_front[OF valid] .
  ultimately have "length t = Suc (length t) + length w" by (metis length_append length_append_singleton)
  then show False by simp
qed

lemma sealed_message_block:
  assumes "is_utf8 message" "CHR 0x0D \<notin> set message"
  shows "ends_with_trailer_block (message_with_trailers message hashes)"
proof -
  let ?body = "message_body message"
  let ?lf = "CHR 0x0A"
  note facts = message_body_facts[OF assms]
  have fresh: "list_all is_trailer_line (stamp_trailers hashes)"
    using stamp_trailer_lines(6) by (auto simp: list_all_iff)
  show ?thesis
  proof (cases "ends_with_trailer_block ?body")
    case False
    have "rsplit_once [?lf, ?lf] (message_with_trailers message hashes) = Some (?body, trailer_text hashes)"
      unfolding rsplit_once_Some using False trailer_text_shape(1) by (simp add: message_with_trailers_def Let_def)
    with fresh trailer_text_shape(2,3) show ?thesis by (simp add: ends_with_trailer_block_def)
  next
    case True
    then obtain front block where block: "rsplit_once [?lf, ?lf] ?body = Some (front, block)" "block \<noteq> []"
      "list_all is_trailer_line (str_lines block)"
      by (auto simp: ends_with_trailer_block_def split: option.splits)
    from block(1) have body: "?body = front @ ?lf # ?lf # block" and once: "\<not> doubled ?lf (?lf # block)"
      by (simp_all add: rsplit_once_Some)
    have ends: "last block \<noteq> ?lf" using trimmed_last[OF facts(1,3)] body block(2) by auto
    have cr: "CHR 0x0D \<notin> set block" using facts(2) body by auto
    have "\<not> doubled ?lf ((?lf # block) @ ?lf # trailer_text hashes)"
      using once trailer_text_shape(1) ends block(2) by (simp only: doubled_append) auto
    then have "rsplit_once [?lf, ?lf] (message_with_trailers message hashes) = Some (front, block @ ?lf # trailer_text hashes)"
      unfolding rsplit_once_Some using True by (simp add: message_with_trailers_def Let_def body)
    moreover have "str_lines (block @ ?lf # trailer_text hashes) = split_on ?lf block @ stamp_trailers hashes"
      using cr trailer_text_plain by (simp add: str_lines_plain Let_def split_on_join trailer_pieces butlast_append)
    moreover have "last (split_on ?lf block) \<noteq> []"
      using split_on_glue[of ?lf "butlast block" "[last block]"] ends block(2) by simp
    then have "str_lines block = split_on ?lf block" using cr by (simp add: str_lines_plain Let_def)
    ultimately show ?thesis using block(3) fresh by (simp add: ends_with_trailer_block_def)
  qed
qed


text \<open>C25: stamping a message again replaces its trailers: what an earlier stamp appended leaves no trace, the two
  lines of the new manifest hashes are the only stamp trailers, and the message ends in a trailer block, whatever
  the message was. Messages with carriage returns are apart, as \<open>lines\<close> strips them a second time.\<close>

theorem restamping_replaces_trailers:
  assumes "is_utf8 message" "CHR 0x0D \<notin> set message"
  shows "message_with_trailers (message_with_trailers message stale) hashes = message_with_trailers message hashes \<and>
    filter (starts_with STAMP_TRAILER_TOKEN) (str_lines (message_with_trailers message hashes)) = stamp_trailers hashes \<and>
    ends_with_trailer_block (message_with_trailers message hashes)"
proof (intro conjI)
  show "message_with_trailers (message_with_trailers message stale) hashes = message_with_trailers message hashes"
    by (simp add: message_with_trailers_def[of "message_with_trailers message stale"] restamped_body[OF assms])
      (simp add: message_with_trailers_def)
  show "filter (starts_with STAMP_TRAILER_TOKEN) (str_lines (message_with_trailers message hashes)) = stamp_trailers hashes"
    unfolding sealed_message_lines[OF assms]
    using message_body_facts(4)[OF assms] stamp_trailer_lines(1)[of _ hashes]
    by (auto simp: filter_id_conv filter_empty_conv starts_with_iff STAMP_TRAILER_TOKEN_def)
  show "ends_with_trailer_block (message_with_trailers message hashes)" by (rule sealed_message_block[OF assms])
qed

text \<open>A message with an author's trailer: the stamp joins the block.\<close>

definition toy_message :: string where
  "toy_message = ''fix: it'' @ [CHR 0x0A, CHR 0x0A] @ ''Co-Authored-By: A'' @ [CHR 0x0A]"

lemma toy_body: "message_body toy_message = ''fix: it'' @ [CHR 0x0A, CHR 0x0A] @ ''Co-Authored-By: A''"
  by (simp add: toy_message_def message_body_def str_lines_def strip_cr_def strip_suffix_def starts_with_def
      STAMP_TRAILER_TOKEN_def str_trim_end_def utf8_next_ascii is_whitespace_def)

lemma restamping_replaces_trailers_witness:
  "message_with_trailers (message_with_trailers toy_message \<lparr>sha256 = [CHR 0xAB], sha3_256 = [CHR 0xCD]\<rparr>)
     \<lparr>sha256 = [CHR 0x01], sha3_256 = [CHR 0x02]\<rparr> =
   ''fix: it'' @ [CHR 0x0A, CHR 0x0A] @ ''Co-Authored-By: A'' @ [CHR 0x0A] @
   ''Tydence-Stamp: sha256:01'' @ [CHR 0x0A] @ ''Tydence-Stamp: sha3-256:02'' @ [CHR 0x0A]"
proof -
  have valid: "is_utf8 toy_message" "CHR 0x0D \<notin> set toy_message"
    by (auto simp: toy_message_def intro!: is_utf8_ascii)
  have block: "ends_with_trailer_block (''fix: it'' @ [CHR 0x0A, CHR 0x0A] @ ''Co-Authored-By: A'')"
    by (simp add: ends_with_trailer_block_def str_lines_def strip_cr_def is_trailer_line_def is_ascii_alphanumeric_def
        is_ascii_digit_def is_ascii_uppercase_def is_ascii_lowercase_def str_trim_def utf8_next_ascii is_whitespace_def)
  show ?thesis
    unfolding conjunct1[OF restamping_replaces_trailers[OF valid]]
    using block unfolding message_with_trailers_def toy_body Let_def by (simp add: stamp_trailers_def STAMP_TRAILER_TOKEN_def hex_encode_def LOWERCASE_def)
qed

end
