(* ===== verification/Seal.thy ===== *)
theory Seal
  imports Snapshot Acquire Effects "HOL-Library.AList"
begin

text \<open>
  \<open>crates/tydence/src/stamp/seal.rs\<close>: the stamp tree and its commit are written into the object database, then the
  branch reference moves, under the caller's expectation. The state is the repository; what \<open>gix\<close> does to it is a
  parameter, the record \<open>git_writer\<close>, and \<open>sound_writer\<close> states what of its documented behaviour the code relies on.
\<close>

section \<open>Writing to a repository\<close>

record commit_object =
  co_tree :: object_id
  co_parents :: "object_id list"
  co_author :: string
  co_committer :: string
  co_encoding :: "string option"
  co_message :: string
  co_extra_headers :: "(string \<times> string) list"

datatype previous_value =
  AnyValue | MustExist | MustNotExist | MustExistAndMatch object_id | ExistingMustMatch object_id

record ref_edit =
  re_name :: string
  re_expected :: previous_value
  re_new :: object_id
  re_reflog :: string
  re_force_create_reflog :: bool
  re_deref :: bool

text \<open>An editor \<open>'ed\<close> holds a tree under edit; \<open>ed_files\<close> is the mode and the blob of each file it holds, by path.\<close>

record ('r, 'ed) git_writer =
  edit_tree :: "'r \<Rightarrow> object_id \<Rightarrow> (string, 'ed) result"
  ed_remove :: "'ed \<Rightarrow> string \<Rightarrow> (string, 'ed) result"
  ed_upsert_blob :: "'ed \<Rightarrow> string \<Rightarrow> object_id \<Rightarrow> (string, 'ed) result"
  ed_files :: "'ed \<Rightarrow> string \<Rightarrow> (nat \<times> object_id) option"
  write_blob :: "bytes \<Rightarrow> ('r, string, object_id) action"
  write_tree :: "'ed \<Rightarrow> ('r, string, object_id) action"
  write_commit :: "commit_object \<Rightarrow> ('r, string, object_id) action"
  full_name :: "string \<Rightarrow> (string, string) result"
  edit_reference :: "ref_edit \<Rightarrow> ('r, string, unit) action"
  references :: "'r \<Rightarrow> string \<Rightarrow> object_id option"

section \<open>Sealing\<close>

datatype seal_error = TreeEdit string | ObjectWrite string | ReferenceUpdate string

fun seal_error_display :: "seal_error \<Rightarrow> string" where
  "seal_error_display (TreeEdit _) = ''the stamp tree could not be built''"
| "seal_error_display (ObjectWrite _) = ''the stamp objects could not be written''"
| "seal_error_display (ReferenceUpdate _) = ''the branch reference did not move''"

record seal_inputs =
  sl_base_tree_id :: object_id
  sl_manifest_bytes :: bytes
  sl_tokens :: "acquired_token list"
  sl_parent_ids :: "object_id list"
  sl_message :: string
  sl_author :: string
  sl_committer :: string
  sl_reference_name :: string
  sl_expected :: previous_value

definition token_path :: "string \<Rightarrow> string" where
  "token_path site_name = TOKENS_PATH @ ''/'' @ site_name @ TOKEN_FILE_SUFFIX"

text \<open>The body of the loop over the tokens.\<close>

definition place_token :: "('r, 'ed) git_writer \<Rightarrow> 'ed \<Rightarrow> acquired_token \<Rightarrow> ('r, seal_error, 'ed) action" where
  "place_token gw editor token =
     act_bind (act_map_err ObjectWrite (write_blob gw (at_bytes token))) (\<lambda>token_blob.
     act_lift (map_err TreeEdit (ed_upsert_blob gw editor (token_path (at_site_name token)) token_blob)))"

definition stamp_tree_id :: "('r, 'ed) git_writer \<Rightarrow> seal_inputs \<Rightarrow> ('r, seal_error, object_id) action" where
  "stamp_tree_id gw inputs =
     act_bind (\<lambda>r. (map_err TreeEdit (edit_tree gw r (sl_base_tree_id inputs)), r)) (\<lambda>editor.
     act_bind (act_lift (map_err TreeEdit (ed_remove gw editor TOKENS_PATH))) (\<lambda>editor.
     act_bind (act_map_err ObjectWrite (write_blob gw (sl_manifest_bytes inputs))) (\<lambda>manifest_blob.
     act_bind (act_lift (map_err TreeEdit (ed_upsert_blob gw editor MANIFEST_PATH manifest_blob))) (\<lambda>editor.
     act_bind (act_fold (place_token gw) editor (sl_tokens inputs)) (\<lambda>editor.
     act_map_err ObjectWrite (write_tree gw editor))))))"

definition stamp_commit :: "seal_inputs \<Rightarrow> object_id \<Rightarrow> commit_object" where
  "stamp_commit inputs tree_id =
     \<lparr>co_tree = tree_id, co_parents = sl_parent_ids inputs, co_author = sl_author inputs, co_committer = sl_committer inputs,
      co_encoding = None, co_message = sl_message inputs, co_extra_headers = []\<rparr>"

definition stamp_ref_edit :: "seal_inputs \<Rightarrow> string \<Rightarrow> object_id \<Rightarrow> ref_edit" where
  "stamp_ref_edit inputs reference_name commit_id =
     \<lparr>re_name = reference_name, re_expected = sl_expected inputs, re_new = commit_id, re_reflog = ''tydence: seal stamp'',
      re_force_create_reflog = False, re_deref = False\<rparr>"

definition seal_run :: "('r, 'ed) git_writer \<Rightarrow> seal_inputs \<Rightarrow> ('r, seal_error, object_id) action" where
  "seal_run gw inputs =
     act_bind (stamp_tree_id gw inputs) (\<lambda>tree_id.
     act_bind (act_map_err ObjectWrite (write_commit gw (stamp_commit inputs tree_id))) (\<lambda>commit_id.
     act_bind (act_lift (map_err ReferenceUpdate (full_name gw (sl_reference_name inputs)))) (\<lambda>reference_name.
     act_bind (act_map_err ReferenceUpdate (edit_reference gw (stamp_ref_edit inputs reference_name commit_id))) (\<lambda>_.
     act_return commit_id))))"

section \<open>What the object database promises\<close>

text \<open>Writing adds objects and takes none away; a commit whose tree was missing may gain it.\<close>

definition same_commit :: "git_commit \<Rightarrow> git_commit \<Rightarrow> bool" where
  "same_commit c1 c2 \<longleftrightarrow> gc_tree_id c2 = gc_tree_id c1 \<and> gc_parents c2 = gc_parents c1 \<and>
     (\<forall>tree. gc_tree c1 = Ok tree \<longrightarrow> gc_tree c2 = Ok tree)"

definition extends :: "git_repository \<Rightarrow> git_repository \<Rightarrow> bool" where
  "extends o1 o2 \<longleftrightarrow>
     (\<forall>i x. gr_find_blob o1 i = Ok x \<longrightarrow> gr_find_blob o2 i = Ok x) \<and>
     (\<forall>i x. gr_find_tree o1 i = Ok x \<longrightarrow> gr_find_tree o2 i = Ok x) \<and>
     (\<forall>i x. gr_find_commit o1 i = Ok x \<longrightarrow> (\<exists>y. gr_find_commit o2 i = Ok y \<and> same_commit x y)) \<and>
     gr_is_tree o1 = gr_is_tree o2 \<and> gr_is_blob o1 = gr_is_blob o2"

text \<open>A path below a directory.\<close>

definition below :: "string \<Rightarrow> string \<Rightarrow> bool" where
  "below directory path \<longleftrightarrow> (\<exists>rest. path = directory @ ''/'' @ rest)"

text \<open>How a tree that holds these files reads: a file is found at its path, nothing is found where there is no file
  and no directory, and a directory that holds files only is found and lists them, each once.\<close>

definition lists_directory :: "git_repository \<Rightarrow> git_tree \<Rightarrow> (string \<Rightarrow> (nat \<times> object_id) option) \<Rightarrow> string \<Rightarrow> bool" where
  "lists_directory objects tree files directory \<longleftrightarrow>
     (\<exists>e sub children. gt_lookup tree directory = Ok (Some e) \<and> gr_is_tree objects (te_mode e) \<and>
        gr_find_tree objects (te_object_id e) = Ok sub \<and> gt_iter sub = map Ok children \<and>
        distinct (map te_filename children) \<and>
        set children = {\<lparr>te_mode = mode, te_object_id = i, te_filename = n\<rparr> |mode i n.
          files (directory @ ''/'' @ n) = Some (mode, i)})"

definition reads_as :: "git_repository \<Rightarrow> git_tree \<Rightarrow> (string \<Rightarrow> (nat \<times> object_id) option) \<Rightarrow> bool" where
  "reads_as objects tree files \<longleftrightarrow>
     (\<forall>path mode i. files path = Some (mode, i) \<longrightarrow>
        (\<exists>n. gt_lookup tree path = Ok (Some \<lparr>te_mode = mode, te_object_id = i, te_filename = n\<rparr>))) \<and>
     (\<forall>path. files path = None \<longrightarrow> (\<forall>p. files p \<noteq> None \<longrightarrow> \<not> below path p) \<longrightarrow> gt_lookup tree path = Ok None) \<and>
     (\<forall>directory. files directory = None \<longrightarrow> (\<exists>p. files p \<noteq> None \<and> below directory p) \<longrightarrow>
        (\<forall>p. files p \<noteq> None \<longrightarrow> below directory p \<longrightarrow> (\<exists>n. p = directory @ ''/'' @ n \<and> CHR ''/'' \<notin> set n)) \<longrightarrow>
        lists_directory objects tree files directory)"

fun expectation_holds :: "previous_value \<Rightarrow> object_id option \<Rightarrow> bool" where
  "expectation_holds AnyValue _ = True"
| "expectation_holds MustExist current = (current \<noteq> None)"
| "expectation_holds MustNotExist current = (current = None)"
| "expectation_holds (MustExistAndMatch i) current = (current = Some i)"
| "expectation_holds (ExistingMustMatch i) current = (current = None \<or> current = Some i)"

text \<open>A write that only adds objects: the references stand.\<close>

definition adds_objects :: "'r gix \<Rightarrow> ('r, 'ed) git_writer \<Rightarrow> 'r \<Rightarrow> 'r \<Rightarrow> bool" where
  "adds_objects g gw r r' \<longleftrightarrow> extends (gx_objects g r) (gx_objects g r') \<and> references gw r' = references gw r"

definition sound_blobs :: "'r gix \<Rightarrow> ('r, 'ed) git_writer \<Rightarrow> bool" where
  "sound_blobs g gw \<longleftrightarrow> (\<forall>bs r x r'. write_blob gw bs r = (x, r') \<longrightarrow> adds_objects g gw r r' \<and>
     (\<forall>i. x = Ok i \<longrightarrow> gr_find_blob (gx_objects g r') i = Ok bs))"

definition sound_trees :: "'r gix \<Rightarrow> ('r, 'ed) git_writer \<Rightarrow> bool" where
  "sound_trees g gw \<longleftrightarrow> (\<forall>ed r x r'. write_tree gw ed r = (x, r') \<longrightarrow> adds_objects g gw r r' \<and>
     (\<forall>i. x = Ok i \<longrightarrow> (\<exists>tree. gr_find_tree (gx_objects g r') i = Ok tree \<and> reads_as (gx_objects g r') tree (ed_files gw ed))))"

definition sound_commits :: "'r gix \<Rightarrow> ('r, 'ed) git_writer \<Rightarrow> bool" where
  "sound_commits g gw \<longleftrightarrow> (\<forall>co r x r'. write_commit gw co r = (x, r') \<longrightarrow> adds_objects g gw r r' \<and>
     (\<forall>i. x = Ok i \<longrightarrow> (\<exists>commit. gr_find_commit (gx_objects g r') i = Ok commit \<and>
        gc_tree commit = gr_find_tree (gx_objects g r') (co_tree co) \<and> gc_tree_id commit = Ok (co_tree co) \<and>
        gc_parents commit = co_parents co)))"

text \<open>A reference edit is a compare-and-swap on one reference.\<close>

definition sound_references :: "'r gix \<Rightarrow> ('r, 'ed) git_writer \<Rightarrow> bool" where
  "sound_references g gw \<longleftrightarrow> (\<forall>e r x r'. edit_reference gw e r = (x, r') \<longrightarrow>
     extends (gx_objects g r) (gx_objects g r') \<and>
     references gw r' = (if x = Ok () then (references gw r)(re_name e := Some (re_new e)) else references gw r) \<and>
     (x = Ok () \<longrightarrow> expectation_holds (re_expected e) (references gw r (re_name e))))"

definition sound_editor :: "('r, 'ed) git_writer \<Rightarrow> bool" where
  "sound_editor gw \<longleftrightarrow>
     (\<forall>ed path ed'. ed_remove gw ed path = Ok ed' \<longrightarrow>
        ed_files gw ed' = (\<lambda>p. if p = path \<or> below path p then None else ed_files gw ed p)) \<and>
     (\<forall>ed path i ed'. ed_upsert_blob gw ed path i = Ok ed' \<longrightarrow>
        ed_files gw ed' = (\<lambda>p. if p = path then Some (REGULAR_FILE_MODE, i)
          else if below path p \<or> below p path then None else ed_files gw ed p))"

definition sound_writer :: "'r gix \<Rightarrow> ('r, 'ed) git_writer \<Rightarrow> bool" where
  "sound_writer g gw \<longleftrightarrow>
     sound_blobs g gw \<and> sound_trees g gw \<and> sound_commits g gw \<and> sound_references g gw \<and> sound_editor gw"

lemma extends_refl [simp]: "extends o1 o1"
  by (auto simp: extends_def same_commit_def)

lemma same_commit_trans: "same_commit c1 c2 \<Longrightarrow> same_commit c2 c3 \<Longrightarrow> same_commit c1 c3"
  by (simp add: same_commit_def)

lemma extends_trans: "extends o1 o2 \<Longrightarrow> extends o2 o3 \<Longrightarrow> extends o1 o3"
  by (simp add: extends_def) (meson same_commit_trans)

lemma extendsD:
  assumes "extends o1 o2"
  shows "gr_find_blob o1 i = Ok x \<Longrightarrow> gr_find_blob o2 i = Ok x" "gr_find_tree o1 i = Ok t \<Longrightarrow> gr_find_tree o2 i = Ok t"
    "gr_find_commit o1 i = Ok c \<Longrightarrow> \<exists>c'. gr_find_commit o2 i = Ok c' \<and> same_commit c c'" "gr_is_tree o1 = gr_is_tree o2" "gr_is_blob o1 = gr_is_blob o2"
  using assms by (simp_all add: extends_def)

lemma reads_asD:
  assumes "reads_as objects tree files"
  shows "files path = Some (mode, i) \<Longrightarrow> \<exists>n. gt_lookup tree path = Ok (Some \<lparr>te_mode = mode, te_object_id = i, te_filename = n\<rparr>)"
    and "files path = None \<Longrightarrow> (\<And>p. files p \<noteq> None \<Longrightarrow> \<not> below path p) \<Longrightarrow> gt_lookup tree path = Ok None"
    and "files directory = None \<Longrightarrow> files p \<noteq> None \<Longrightarrow> below directory p \<Longrightarrow>
      (\<And>p. files p \<noteq> None \<Longrightarrow> below directory p \<Longrightarrow> \<exists>n. p = directory @ ''/'' @ n \<and> CHR ''/'' \<notin> set n) \<Longrightarrow>
      lists_directory objects tree files directory"
  using assms unfolding reads_as_def by blast+

lemma adds_objects_refl [simp]: "adds_objects g gw r r"
  by (simp add: adds_objects_def)

lemma adds_objects_trans: "adds_objects g gw r1 r2 \<Longrightarrow> adds_objects g gw r2 r3 \<Longrightarrow> adds_objects g gw r1 r3"
  by (auto simp: adds_objects_def intro: extends_trans)

lemma write_blob_sound:
  assumes "sound_writer g gw" "write_blob gw bs r = (x, r')"
  shows "adds_objects g gw r r'" "x = Ok i \<Longrightarrow> gr_find_blob (gx_objects g r') i = Ok bs"
  using assms by (simp_all add: sound_writer_def sound_blobs_def)

lemma write_tree_sound:
  assumes "sound_writer g gw" "write_tree gw ed r = (x, r')"
  shows "adds_objects g gw r r'"
    "x = Ok i \<Longrightarrow> \<exists>tree. gr_find_tree (gx_objects g r') i = Ok tree \<and> reads_as (gx_objects g r') tree (ed_files gw ed)"
  using assms by (simp_all add: sound_writer_def sound_trees_def)

lemma write_commit_sound:
  assumes "sound_writer g gw" "write_commit gw co r = (x, r')"
  shows "adds_objects g gw r r'"
    "x = Ok i \<Longrightarrow> \<exists>commit. gr_find_commit (gx_objects g r') i = Ok commit \<and>
       gc_tree commit = gr_find_tree (gx_objects g r') (co_tree co) \<and> gc_tree_id commit = Ok (co_tree co) \<and>
       gc_parents commit = co_parents co"
  using assms by (simp_all add: sound_writer_def sound_commits_def)

lemma edit_reference_sound:
  assumes "sound_writer g gw" "edit_reference gw e r = (x, r')"
  shows "extends (gx_objects g r) (gx_objects g r')"
    "references gw r' = (if x = Ok () then (references gw r)(re_name e := Some (re_new e)) else references gw r)"
    "x = Ok () \<Longrightarrow> expectation_holds (re_expected e) (references gw r (re_name e))"
  using assms by (simp_all add: sound_writer_def sound_references_def)

lemma editor_sound:
  assumes "sound_writer g gw"
  shows "ed_remove gw ed path = Ok ed' \<Longrightarrow>
      ed_files gw ed' = (\<lambda>p. if p = path \<or> below path p then None else ed_files gw ed p)"
    and "ed_upsert_blob gw ed path i = Ok ed' \<Longrightarrow>
      ed_files gw ed' = (\<lambda>p. if p = path then Some (REGULAR_FILE_MODE, i)
        else if below path p \<or> below p path then None else ed_files gw ed p)"
  using assms by (simp_all add: sound_writer_def sound_editor_def)

interpretation adding: state_preorder "adds_objects g gw" for g gw
  by unfold_locales (simp, rule adds_objects_trans)

lemma adding_writes:
  assumes "sound_writer g gw"
  shows "act_within (adds_objects g gw) (write_blob gw bs)" "act_within (adds_objects g gw) (write_tree gw ed)"
    "act_within (adds_objects g gw) (write_commit gw co)"
  using write_blob_sound(1)[OF assms] write_tree_sound(1)[OF assms] write_commit_sound(1)[OF assms]
  by (simp_all add: act_within_def prod_eq_iff)

section \<open>The reference moves last\<close>

lemma stamp_tree_adds:
  assumes "sound_writer g gw"
  shows "act_within (adds_objects g gw) (place_token gw ed token)" "act_within (adds_objects g gw) (stamp_tree_id gw inputs)"
proof -
  show place: "act_within (adds_objects g gw) (place_token gw ed token)" for ed token
    unfolding place_token_def by (intro adding.bound adding.pure adding.renamed adding_writes[OF assms])
  show "act_within (adds_objects g gw) (stamp_tree_id gw inputs)"
    unfolding stamp_tree_id_def by (intro adding.bound adding.pure adding.renamed adding.folded place adding_writes[OF assms])
qed

text \<open>When a seal fails, wherever it fails, every reference stands as before; when it succeeds, exactly the named branch
  moved, to the new commit, and it held what the caller expected. Either way no object is lost.\<close>

lemma seal_run_references:
  assumes "sound_writer g gw" "seal_run gw inputs r = (outcome, r')"
  shows "extends (gx_objects g r) (gx_objects g r') \<and>
    (case outcome of
       Err _ \<Rightarrow> references gw r' = references gw r
     | Ok commit_id \<Rightarrow> \<exists>name. full_name gw (sl_reference_name inputs) = Ok name \<and>
         references gw r' = (references gw r)(name := Some commit_id) \<and>
         expectation_holds (sl_expected inputs) (references gw r name))"
proof -
  let ?prefix = "act_bind (stamp_tree_id gw inputs) (\<lambda>tree_id.
     act_bind (act_map_err ObjectWrite (write_commit gw (stamp_commit inputs tree_id))) (\<lambda>commit_id.
     act_bind (act_lift (map_err ReferenceUpdate (full_name gw (sl_reference_name inputs)))) (\<lambda>name.
     act_return (commit_id, name))))"
  have run: "seal_run gw inputs r = act_bind ?prefix (\<lambda>(commit_id, name).
      act_bind (act_map_err ReferenceUpdate (edit_reference gw (stamp_ref_edit inputs name commit_id))) (\<lambda>_. act_return commit_id)) r"
    by (simp add: seal_run_def act_bind_def act_return_def split: prod.split sum.split)
  obtain x r1 where before: "?prefix r = (x, r1)" by fastforce
  have "act_within (adds_objects g gw) ?prefix" by (intro adding.bound adding.pure adding.renamed stamp_tree_adds[OF assms(1)] adding_writes[OF assms(1)])
  with before have added: "adds_objects g gw r r1" by (metis act_withinD)
  show ?thesis
  proof (cases x)
    case (Inl e)
    with assms(2) before added show ?thesis unfolding run by (auto simp: act_bind_def[of ?prefix] adds_objects_def)
  next
    case (Inr found)
    then obtain commit_id name where x: "x = Ok (commit_id, name)" by (cases found) auto
    with before have name: "full_name gw (sl_reference_name inputs) = Ok name" by (auto simp: action_simps result_simps)
    obtain y r2 where moved: "edit_reference gw (stamp_ref_edit inputs name commit_id) r1 = (y, r2)" by fastforce
    have "r' = r2" "outcome = (case y of Err e \<Rightarrow> Err (ReferenceUpdate e) | Ok _ \<Rightarrow> Ok commit_id)"
      using assms(2) before x moved unfolding run
      by (auto simp: act_bind_def[of ?prefix]) (auto simp: action_defs split: sum.splits)
    with added name edit_reference_sound[OF assms(1) moved] show ?thesis
      by (cases y) (auto simp: stamp_ref_edit_def adds_objects_def intro: extends_trans)
  qed
qed

section \<open>A sealed claim reads back\<close>

text \<open>Names of sites that make token files of their own.\<close>

definition sealable_names :: "acquired_token list \<Rightarrow> bool" where
  "sealable_names tokens \<longleftrightarrow> distinct (map at_site_name tokens) \<and>
     (\<forall>t \<in> set tokens. at_site_name t \<noteq> [] \<and> CHR ''/'' \<notin> set (at_site_name t) \<and> is_utf8 (at_site_name t))"

lemma below_iff: "below directory path \<longleftrightarrow> take (Suc (length directory)) path = directory @ ''/''"
proof
  assume "take (Suc (length directory)) path = directory @ ''/''"
  then have "path = directory @ ''/'' @ drop (Suc (length directory)) path"
    by (metis append.assoc append_take_drop_id)
  then show "below directory path" unfolding below_def by blast
qed (auto simp: below_def)

lemma below_plain [simp]:
  "below MANIFEST_PATH (token_path s) = False" "below (token_path s) MANIFEST_PATH = False"
  "below TOKENS_PATH MANIFEST_PATH = False" "MANIFEST_PATH = token_path s \<longleftrightarrow> False" "token_path s = MANIFEST_PATH \<longleftrightarrow> False"
  "MANIFEST_PATH = TOKENS_PATH \<longleftrightarrow> False" "TOKENS_PATH = MANIFEST_PATH \<longleftrightarrow> False" "below MANIFEST_PATH TOKENS_PATH = False"
  "TOKENS_PATH = token_path s \<longleftrightarrow> False" "below (token_path s) TOKENS_PATH = False"
  by (auto simp: below_def token_path_def layout_defs)

lemma token_path_below [simp]: "below TOKENS_PATH (token_path s)"
  by (auto simp: below_def token_path_def)

lemma token_path_inject [simp]: "token_path s = token_path s' \<longleftrightarrow> s = s'"
  by (simp add: token_path_def)

lemma below_token_path: "CHR ''/'' \<notin> set s' \<Longrightarrow> \<not> below (token_path s) (token_path s')"
proof
  assume "CHR ''/'' \<notin> set s'" "below (token_path s) (token_path s')"
  then obtain rest where "s' @ ''.tsr'' = s @ ''.tsr'' @ ''/'' @ rest"
    by (auto simp: below_def token_path_def TOKEN_FILE_SUFFIX_def)
  from arg_cong[OF this, of "\<lambda>p. CHR ''/'' \<in> set p"] \<open>CHR ''/'' \<notin> set s'\<close> show False by simp
qed

lemma below_comparable: "below p q \<Longrightarrow> below d q \<Longrightarrow> p = d \<or> below p d \<or> below d p"
  unfolding below_def by (auto simp: append_eq_append_conv2 Cons_eq_append_conv append_eq_Cons_conv)

lemma below_trans: "below p q \<Longrightarrow> below q r \<Longrightarrow> below p r"
  unfolding below_def by auto

text \<open>The artifacts in the tree under edit once these tokens are placed.\<close>

definition placed_artifacts ::
  "('r, 'ed) git_writer \<Rightarrow> git_repository \<Rightarrow> bytes \<Rightarrow> acquired_token list \<Rightarrow> 'ed \<Rightarrow> bool" where
  "placed_artifacts gw objects manifest_bytes tokens ed \<longleftrightarrow>
     ed_files gw ed TOKENS_PATH = None \<and>
     (\<exists>i. ed_files gw ed MANIFEST_PATH = Some (REGULAR_FILE_MODE, i) \<and> gr_find_blob objects i = Ok manifest_bytes) \<and>
     (\<forall>t \<in> set tokens. \<exists>i. ed_files gw ed (token_path (at_site_name t)) = Some (REGULAR_FILE_MODE, i) \<and>
        gr_find_blob objects i = Ok (at_bytes t)) \<and>
     (\<forall>p. below TOKENS_PATH p \<longrightarrow> ed_files gw ed p \<noteq> None \<longrightarrow> p \<in> token_path ` at_site_name ` set tokens)"

text \<open>A path whose file sealing replaces: an artifact, or one that stands in the way of an artifact.\<close>

definition artifact_place :: "string \<Rightarrow> bool" where
  "artifact_place p \<longleftrightarrow> p \<in> {MANIFEST_PATH, TOKENS_PATH} \<or> below MANIFEST_PATH p \<or> below TOKENS_PATH p \<or>
     below p MANIFEST_PATH \<or> below p TOKENS_PATH"

lemma placed_extends:
  "placed_artifacts gw o1 m tokens ed \<Longrightarrow> extends o1 o2 \<Longrightarrow> placed_artifacts gw o2 m tokens ed"
  unfolding placed_artifacts_def by (meson extendsD(1))

lemma token_places: "below p (token_path s) \<Longrightarrow> artifact_place p" "below (token_path s) p \<Longrightarrow> artifact_place p" "artifact_place (token_path s)"
  using below_comparable[OF _ token_path_below, of p s] below_trans[OF token_path_below, of s p]
  by (auto simp: artifact_place_def)

lemma place_token_placed:
  assumes "sound_writer g gw" "place_token gw ed t r = (Ok ed', r')" "CHR ''/'' \<notin> set (at_site_name t)"
    and "\<forall>u \<in> set tokens. at_site_name u \<noteq> at_site_name t \<and> CHR ''/'' \<notin> set (at_site_name u)"
    and "placed_artifacts gw (gx_objects g r) m tokens ed"
  shows "placed_artifacts gw (gx_objects g r') m (tokens @ [t]) ed'"
    and "\<not> artifact_place p \<Longrightarrow> ed_files gw ed' p = ed_files gw ed p"
proof -
  obtain i where i: "write_blob gw (at_bytes t) r = (Ok i, r')"
    and ed': "ed_upsert_blob gw ed (token_path (at_site_name t)) i = Ok ed'"
    using assms(2) by (auto simp: place_token_def action_simps result_simps)
  have blob: "gr_find_blob (gx_objects g r') i = Ok (at_bytes t)" and ext: "extends (gx_objects g r) (gx_objects g r')"
    using write_blob_sound[OF assms(1) i] by (simp_all add: adds_objects_def)
  note files = editor_sound(2)[OF assms(1) ed']
  show "placed_artifacts gw (gx_objects g r') m (tokens @ [t]) ed'"
    using placed_extends[OF assms(5) ext] blob assms(3,4)
    unfolding placed_artifacts_def files by (auto simp: below_token_path)
  show "\<not> artifact_place p \<Longrightarrow> ed_files gw ed' p = ed_files gw ed p"
    using token_places by (auto simp: files)
qed

lemma place_tokens_placed:
  assumes "sound_writer g gw" "act_fold (place_token gw) ed tokens r = (Ok ed', r')"
    and "placed_artifacts gw (gx_objects g r) m prior ed" "sealable_names (prior @ tokens)"
  shows "placed_artifacts gw (gx_objects g r') m (prior @ tokens) ed' \<and>
    (\<forall>p. \<not> artifact_place p \<longrightarrow> ed_files gw ed' p = ed_files gw ed p)"
  using assms(2-4)
proof (induction tokens arbitrary: ed r prior)
  case (Cons t tokens)
  from Cons.prems(1) obtain ed1 r1 where step: "place_token gw ed t r = (Ok ed1, r1)"
    and rest: "act_fold (place_token gw) ed1 tokens r1 = (Ok ed', r')" by (auto simp: action_simps)
  from Cons.prems(3) have names: "CHR ''/'' \<notin> set (at_site_name t)"
    "\<forall>u \<in> set prior. at_site_name u \<noteq> at_site_name t \<and> CHR ''/'' \<notin> set (at_site_name u)"
    by (auto simp: sealable_names_def) (metis image_eqI)
  note placed = place_token_placed[OF assms(1) step names Cons.prems(2)]
  from Cons.IH[OF rest placed(1)] Cons.prems(3) placed(2) show ?case by simp
qed (simp add: action_simps)

lemma stamp_tree_placed:
  assumes "sound_writer g gw" "stamp_tree_id gw inputs r = (Ok tree_id, r')" "sealable_names (sl_tokens inputs)"
  shows "\<exists>base ed tree. edit_tree gw r (sl_base_tree_id inputs) = Ok base \<and>
    (\<exists>r2. write_tree gw ed r2 = (Ok tree_id, r')) \<and> gr_find_tree (gx_objects g r') tree_id = Ok tree \<and> reads_as (gx_objects g r') tree (ed_files gw ed) \<and>
    placed_artifacts gw (gx_objects g r') (sl_manifest_bytes inputs) (sl_tokens inputs) ed \<and>
    (\<forall>p. \<not> artifact_place p \<longrightarrow> ed_files gw ed p = ed_files gw base p)"
proof -
  obtain base cleared i r1 ed1 ed r2 where base: "edit_tree gw r (sl_base_tree_id inputs) = Ok base"
    and cleared: "ed_remove gw base TOKENS_PATH = Ok cleared"
    and blob: "write_blob gw (sl_manifest_bytes inputs) r = (Ok i, r1)"
    and ed1: "ed_upsert_blob gw cleared MANIFEST_PATH i = Ok ed1"
    and loop: "act_fold (place_token gw) ed1 (sl_tokens inputs) r1 = (Ok ed, r2)"
    and written: "write_tree gw ed r2 = (Ok tree_id, r')"
    using assms(2) by (auto simp: stamp_tree_id_def action_simps result_simps)
  note files = editor_sound(1)[OF assms(1) cleared] editor_sound(2)[OF assms(1) ed1]
  have "placed_artifacts gw (gx_objects g r1) (sl_manifest_bytes inputs) [] ed1"
    using write_blob_sound(2)[OF assms(1) blob] by (auto simp: placed_artifacts_def files)
  from place_tokens_placed[OF assms(1) loop this] assms(3)
  have placed: "placed_artifacts gw (gx_objects g r2) (sl_manifest_bytes inputs) (sl_tokens inputs) ed"
    and kept: "\<forall>p. \<not> artifact_place p \<longrightarrow> ed_files gw ed p = ed_files gw ed1 p" by simp_all
  have "\<forall>p. \<not> artifact_place p \<longrightarrow> ed_files gw ed1 p = ed_files gw base p"
    by (auto simp: files artifact_place_def)
  with kept have elsewhere: "\<forall>p. \<not> artifact_place p \<longrightarrow> ed_files gw ed p = ed_files gw base p" by simp
  obtain tree where tree: "gr_find_tree (gx_objects g r') tree_id = Ok tree" "reads_as (gx_objects g r') tree (ed_files gw ed)"
    using write_tree_sound(2)[OF assms(1) written] by blast
  have "placed_artifacts gw (gx_objects g r') (sl_manifest_bytes inputs) (sl_tokens inputs) ed"
    using placed_extends[OF placed] write_tree_sound(1)[OF assms(1) written] by (simp add: adds_objects_def)
  with base written tree elsewhere show ?thesis by (intro exI[of _ base] exI[of _ ed] exI[of _ tree] conjI exI[of _ r2])
qed

lemma suffix_utf8: "is_utf8 TOKEN_FILE_SUFFIX"
  using is_utf8_ascii[of "''.tsr''"] by (simp add: TOKEN_FILE_SUFFIX_def)

text \<open>Reading the artifacts of a tree in which they are placed.\<close>

lemma placed_artifacts_read:
  assumes tree: "tree_of objects c = Ok tree" and reads: "reads_as objects tree (ed_files gw ed)"
    and placed: "placed_artifacts gw objects m tokens ed" and names: "sealable_names tokens" "tokens \<noteq> []"
  shows "\<exists>artifacts. read_claim_artifacts objects c = Ok artifacts \<and> ca_manifest_bytes artifacts = m \<and>
    distinct (map tf_site (ca_tokens artifacts)) \<and>
    (\<lambda>f. (tf_site f, tf_bytes f)) ` set (ca_tokens artifacts) = (\<lambda>t. (at_site_name t, at_bytes t)) ` set tokens"
proof -
  let ?files = "ed_files gw ed"
  obtain i n where manifest: "gt_lookup tree MANIFEST_PATH = Ok (Some \<lparr>te_mode = REGULAR_FILE_MODE, te_object_id = i, te_filename = n\<rparr>)"
    "gr_find_blob objects i = Ok m"
    using placed reads_asD(1)[OF reads] unfolding placed_artifacts_def by metis
  have flat: "\<exists>n. p = TOKENS_PATH @ ''/'' @ n \<and> CHR ''/'' \<notin> set n" if "?files p \<noteq> None" "below TOKENS_PATH p" for p
  proof -
    from that placed obtain t where "t \<in> set tokens" "p = token_path (at_site_name t)"
      unfolding placed_artifacts_def by auto
    with names show ?thesis by (auto simp: sealable_names_def token_path_def TOKEN_FILE_SUFFIX_def)
  qed
  from names(2) obtain t where t: "t \<in> set tokens" by (cases tokens) auto
  with placed have some: "?files (token_path (at_site_name t)) \<noteq> None" unfolding placed_artifacts_def by auto
  have "?files TOKENS_PATH = None" using placed unfolding placed_artifacts_def by simp
  from reads_asD(3)[OF reads this some token_path_below flat] obtain e sub children
    where e: "gt_lookup tree TOKENS_PATH = Ok (Some e)" "gr_is_tree objects (te_mode e)"
      "gr_find_tree objects (te_object_id e) = Ok sub" "gt_iter sub = map Ok children" "distinct (map te_filename children)"
    and children: "set children = {\<lparr>te_mode = mode, te_object_id = i, te_filename = n\<rparr> |mode i n.
        ?files (TOKENS_PATH @ ''/'' @ n) = Some (mode, i)}"
    unfolding lists_directory_def by blast
  have child: "\<exists>t \<in> set tokens. te_filename ch = at_site_name t @ TOKEN_FILE_SUFFIX \<and>
      token_file_of objects c (Ok ch) = Ok \<lparr>tf_site = at_site_name t, tf_bytes = at_bytes t\<rparr>"
    if "ch \<in> set children" for ch
  proof -
    from that children obtain mode j n where ch: "ch = \<lparr>te_mode = mode, te_object_id = j, te_filename = n\<rparr>"
      "?files (TOKENS_PATH @ ''/'' @ n) = Some (mode, j)" by blast
    then have "TOKENS_PATH @ ''/'' @ n \<in> token_path ` at_site_name ` set tokens"
      using placed unfolding placed_artifacts_def by (auto simp: below_def)
    then obtain t where t: "t \<in> set tokens" "n = at_site_name t @ TOKEN_FILE_SUFFIX" by (auto simp: token_path_def)
    then obtain k where "?files (TOKENS_PATH @ ''/'' @ n) = Some (REGULAR_FILE_MODE, k)" "gr_find_blob objects k = Ok (at_bytes t)"
      using placed unfolding placed_artifacts_def by (auto simp: token_path_def)
    with ch t names(1) show ?thesis
      by (intro bexI[of _ t]) (auto simp: token_file_of_Ok site_of_file_name_Some sealable_names_def is_utf8_append suffix_utf8)
  qed
  then obtain pick where pick: "ch \<in> set children \<Longrightarrow> pick ch \<in> set tokens"
      "ch \<in> set children \<Longrightarrow> te_filename ch = at_site_name (pick ch) @ TOKEN_FILE_SUFFIX"
      "ch \<in> set children \<Longrightarrow> token_file_of objects c (Ok ch) = Ok \<lparr>tf_site = at_site_name (pick ch), tf_bytes = at_bytes (pick ch)\<rparr>"
    for ch by metis
  let ?read = "map (\<lambda>ch. \<lparr>tf_site = at_site_name (pick ch), tf_bytes = at_bytes (pick ch)\<rparr>) children"
  have "traverse (token_file_of objects c) (map Ok children) = Ok ?read"
    using pick(3) by (simp add: traverse_eq_Inr list_all2_conv_all_nth)
  then have "try_fold (read_token_file objects c) [] (map Ok children) = Ok ?read"
    by (simp add: try_fold_collect[OF read_token_file_step])
  then have "read_claim_artifacts objects c = Ok \<lparr>ca_manifest_bytes = m, ca_tokens = ?read\<rparr>"
    using tree manifest e(1-4) by (simp add: read_claim_artifacts_def find_manifest_entry_def read_token_files_def)
  moreover have "map te_filename children = map (\<lambda>s. s @ TOKEN_FILE_SUFFIX) (map tf_site ?read)"
    using pick(2) by simp
  with e(5) have "distinct (map tf_site ?read)" by (metis distinct_map)
  moreover have picked: "pick ` set children = set tokens"
  proof (intro equalityI subsetI)
    fix t assume t: "t \<in> set tokens"
    with placed obtain j where "?files (token_path (at_site_name t)) = Some (REGULAR_FILE_MODE, j)"
      unfolding placed_artifacts_def by blast
    with children have ch: "\<lparr>te_mode = REGULAR_FILE_MODE, te_object_id = j, te_filename = at_site_name t @ TOKEN_FILE_SUFFIX\<rparr> \<in> set children"
      (is "?ch \<in> _") by (auto simp: token_path_def)
    from pick(1,2)[OF ch] t names(1) have "pick ?ch = t" by (auto simp: sealable_names_def distinct_map dest: inj_onD)
    with ch show "t \<in> pick ` set children" by (metis imageI)
  qed (use pick(1) in blast)
  ultimately show ?thesis by (intro exI[of _ "\<lparr>ca_manifest_bytes = m, ca_tokens = ?read\<rparr>"]) (simp add: image_image flip: picked)
qed

lemma reads_elsewhere:
  assumes "extends o1 o2" "reads_as o1 tree files"
  shows "reads_as o2 tree files"
proof -
  have "lists_directory o2 tree files directory" if "lists_directory o1 tree files directory" for directory
    using that extendsD(2)[OF assms(1)] extendsD(4)[OF assms(1)] unfolding lists_directory_def by (elim exE conjE) auto
  with assms(2) show ?thesis unfolding reads_as_def by blast
qed

lemma seal_run_steps:
  assumes "sound_writer g gw" "seal_run gw inputs r = (Ok commit_id, r')"
  obtains tree_id r1 commit where
    "stamp_tree_id gw inputs r = (Ok tree_id, r1)" "extends (gx_objects g r1) (gx_objects g r')"
    "gr_find_commit (gx_objects g r') commit_id = Ok commit" "gc_parents commit = sl_parent_ids inputs"
    "gc_tree_id commit = Ok tree_id" "\<forall>tree. gr_find_tree (gx_objects g r1) tree_id = Ok tree \<longrightarrow> gc_tree commit = Ok tree"
proof -
  obtain tree_id r1 r2 name where tree_id: "stamp_tree_id gw inputs r = (Ok tree_id, r1)"
    and commit_id: "write_commit gw (stamp_commit inputs tree_id) r1 = (Ok commit_id, r2)"
    and moved: "edit_reference gw (stamp_ref_edit inputs name commit_id) r2 = (Ok (), r')"
    using assms(2) by (auto simp: seal_run_def action_simps result_simps)
  let ?o1 = "gx_objects g r1" and ?o2 = "gx_objects g r2" and ?o3 = "gx_objects g r'"
  have ext: "extends ?o1 ?o2" "extends ?o2 ?o3"
    using write_commit_sound(1)[OF assms(1) commit_id] edit_reference_sound(1)[OF assms(1) moved]
    by (simp_all add: adds_objects_def)
  obtain written where written: "gr_find_commit ?o2 commit_id = Ok written" "gc_tree written = gr_find_tree ?o2 tree_id"
    "gc_parents written = sl_parent_ids inputs" "gc_tree_id written = Ok tree_id"
    using write_commit_sound(2)[OF assms(1) commit_id] by (auto simp: stamp_commit_def)
  obtain commit where "gr_find_commit ?o3 commit_id = Ok commit" "same_commit written commit"
    using extendsD(3)[OF ext(2) written(1)] by blast
  with that[OF tree_id extends_trans[OF ext]] extendsD(2)[OF ext(1)] written(2-4) show thesis
    by (simp add: same_commit_def)
qed

lemma seal_run_Ok:
  assumes "sound_writer g gw" "sealable_names (sl_tokens inputs)" "seal_run gw inputs r = (Ok commit_id, r')"
  obtains commit tree base ed where
    "gr_find_commit (gx_objects g r') commit_id = Ok commit" "gc_parents commit = sl_parent_ids inputs"
    "gc_tree commit = Ok tree" "reads_as (gx_objects g r') tree (ed_files gw ed)"
    "placed_artifacts gw (gx_objects g r') (sl_manifest_bytes inputs) (sl_tokens inputs) ed"
    "edit_tree gw r (sl_base_tree_id inputs) = Ok base" "\<forall>p. \<not> artifact_place p \<longrightarrow> ed_files gw ed p = ed_files gw base p"
proof -
  obtain tree_id r1 commit where tree_id: "stamp_tree_id gw inputs r = (Ok tree_id, r1)"
    and ext: "extends (gx_objects g r1) (gx_objects g r')" and commit: "gr_find_commit (gx_objects g r') commit_id = Ok commit"
      "gc_parents commit = sl_parent_ids inputs" and "gc_tree_id commit = Ok tree_id"
    and of_tree: "\<forall>tree. gr_find_tree (gx_objects g r1) tree_id = Ok tree \<longrightarrow> gc_tree commit = Ok tree"
    by (rule seal_run_steps[OF assms(1,3)])
  obtain base ed tree where base: "edit_tree gw r (sl_base_tree_id inputs) = Ok base"
    and tree: "gr_find_tree (gx_objects g r1) tree_id = Ok tree" "reads_as (gx_objects g r1) tree (ed_files gw ed)"
    and placed: "placed_artifacts gw (gx_objects g r1) (sl_manifest_bytes inputs) (sl_tokens inputs) ed"
    and kept: "\<forall>p. \<not> artifact_place p \<longrightarrow> ed_files gw ed p = ed_files gw base p"
    using stamp_tree_placed[OF assms(1) tree_id assms(2)] by blast
  from that[OF commit of_tree[rule_format, OF tree(1)] reads_elsewhere[OF ext tree(2)] placed_extends[OF placed ext] base kept] show thesis .
qed

text \<open>C11: a sealed claim reads back: the new commit stands on the given parents, reading its artifacts yields the
  manifest bytes and the tokens that were sealed, one file per site, whatever artifacts the base tree held; and its
  tree reads as the base tree everywhere else.\<close>

theorem sealed_claim_reads_back:
  assumes "sound_writer g gw" "sealable_names (sl_tokens inputs)" "sl_tokens inputs \<noteq> []"
    and "seal_run gw inputs r = (Ok commit_id, r')"
  shows "\<exists>commit tree base files artifacts.
    gr_find_commit (gx_objects g r') commit_id = Ok commit \<and> gc_parents commit = sl_parent_ids inputs \<and>
    read_claim_artifacts (gx_objects g r') commit_id = Ok artifacts \<and>
    ca_manifest_bytes artifacts = sl_manifest_bytes inputs \<and>
    distinct (map tf_site (ca_tokens artifacts)) \<and>
    (\<lambda>f. (tf_site f, tf_bytes f)) ` set (ca_tokens artifacts) =
      (\<lambda>t. (at_site_name t, at_bytes t)) ` set (sl_tokens inputs) \<and>
    gc_tree commit = Ok tree \<and> reads_as (gx_objects g r') tree files \<and>
    edit_tree gw r (sl_base_tree_id inputs) = Ok base \<and>
    (\<forall>p. \<not> artifact_place p \<longrightarrow> files p = ed_files gw base p)"
proof -
  obtain commit tree base ed where sealed: "gr_find_commit (gx_objects g r') commit_id = Ok commit"
    "gc_parents commit = sl_parent_ids inputs" "gc_tree commit = Ok tree" "reads_as (gx_objects g r') tree (ed_files gw ed)"
    "placed_artifacts gw (gx_objects g r') (sl_manifest_bytes inputs) (sl_tokens inputs) ed"
    "edit_tree gw r (sl_base_tree_id inputs) = Ok base" "\<forall>p. \<not> artifact_place p \<longrightarrow> ed_files gw ed p = ed_files gw base p"
    using seal_run_Ok[OF assms(1,2,4)] .
  then have "tree_of (gx_objects g r') commit_id = Ok tree" by (simp add: tree_of_def)
  from placed_artifacts_read[OF this sealed(4,5) assms(2,3)] sealed show ?thesis by blast
qed

section \<open>A concrete repository\<close>

text \<open>Objects are kept in the order they were written; the tree of a directory is its root and the directory.\<close>

type_synonym toy_files = "(string \<times> nat \<times> object_id) list"

record toy_store =
  ts_blobs :: "bytes list"
  ts_trees :: "toy_files list"
  ts_commits :: "commit_object list"
  ts_references :: "string \<Rightarrow> object_id option"

definition toy_id :: "nat \<Rightarrow> object_id" where
  "toy_id n = CHR ''o'' # replicate n CHR ''x''"

definition nth_object :: "'a list \<Rightarrow> object_id \<Rightarrow> (string, 'a) result" where
  "nth_object xs i = (if length (tl i) < length xs then Ok (xs ! length (tl i)) else Err ''no such object'')"

definition toy_children :: "toy_files \<Rightarrow> string \<Rightarrow> tree_entry list" where
  "toy_children files directory =
     map (\<lambda>n. case the (map_of files (directory @ ''/'' @ n)) of (mode, i) \<Rightarrow> \<lparr>te_mode = mode, te_object_id = i, te_filename = n\<rparr>)
       (remdups (List.map_filter (\<lambda>(p, _). strip_prefix (directory @ ''/'') p) files))"

definition toy_sealed_tree :: "nat \<Rightarrow> toy_files \<Rightarrow> git_tree" where
  "toy_sealed_tree n files =
     \<lparr>gt_lookup = \<lambda>path. Ok (case map_of files path of
          Some (mode, i) \<Rightarrow> Some \<lparr>te_mode = mode, te_object_id = i, te_filename = path\<rparr>
        | None \<Rightarrow> if list_ex (\<lambda>(p, _). below path p) files
            then Some \<lparr>te_mode = 16384, te_object_id = toy_id n @ ''/'' @ path, te_filename = path\<rparr> else None),
      gt_iter = [],
      gt_files = Ok (map (\<lambda>(p, mode, i). \<lparr>fr_mode = mode, fr_filepath = p, fr_oid = i\<rparr>) (AList.clearjunk files))\<rparr>"

definition toy_find_tree :: "toy_files list \<Rightarrow> object_id \<Rightarrow> (string, git_tree) result" where
  "toy_find_tree trees i =
     (case split_once (CHR ''/'') i of
        None \<Rightarrow> and_then (nth_object trees i) (\<lambda>files. Ok (toy_sealed_tree (length (tl i)) files))
      | Some (root, directory) \<Rightarrow> and_then (nth_object trees root) (\<lambda>files.
          Ok ((toy_sealed_tree (length (tl root)) [])\<lparr>gt_iter := map Ok (toy_children files directory)\<rparr>)))"

definition toy_store_gix :: "toy_store gix" where
  "toy_store_gix =
     \<lparr>gx_objects = \<lambda>r. \<lparr>gr_find_commit = \<lambda>i. and_then (nth_object (ts_commits r) i) (\<lambda>co.
            Ok \<lparr>gc_tree = toy_find_tree (ts_trees r) (co_tree co), gc_tree_id = Ok (co_tree co), gc_parents = co_parents co\<rparr>),
          gr_find_tree = toy_find_tree (ts_trees r), gr_find_blob = nth_object (ts_blobs r),
          gr_is_tree = \<lambda>mode. mode = 16384, gr_is_blob = \<lambda>mode. mode = REGULAR_FILE_MODE, gr_display = \<lambda>bs. bs\<rparr>,
      gx_common_dir = \<lambda>_. ''/w/.git'', gx_workdir = \<lambda>_. Some ''/w'', gx_open = \<lambda>_. Err ''no repository'',
      gx_modules = \<lambda>_. Err ''no modules''\<rparr>"

definition toy_writer :: "(toy_store, toy_files) git_writer" where
  "toy_writer =
     \<lparr>edit_tree = \<lambda>r i. if CHR ''/'' \<in> set i then Err ''not a tree of its own'' else nth_object (ts_trees r) i,
      ed_remove = \<lambda>files path. Ok (filter (\<lambda>(p, _). \<not> (p = path \<or> below path p)) files),
      ed_upsert_blob = \<lambda>files path i. Ok ((path, REGULAR_FILE_MODE, i) #
        filter (\<lambda>(p, _). \<not> (p = path \<or> below path p \<or> below p path)) files),
      ed_files = map_of,
      write_blob = \<lambda>bs r. (Ok (toy_id (length (ts_blobs r))), r\<lparr>ts_blobs := ts_blobs r @ [bs]\<rparr>),
      write_tree = \<lambda>files r. (Ok (toy_id (length (ts_trees r))), r\<lparr>ts_trees := ts_trees r @ [files]\<rparr>),
      write_commit = \<lambda>co r. (Ok (toy_id (length (ts_commits r))), r\<lparr>ts_commits := ts_commits r @ [co]\<rparr>),
      full_name = \<lambda>n. Ok n,
      edit_reference = \<lambda>e r. if expectation_holds (re_expected e) (ts_references r (re_name e))
        then (Ok (), r\<lparr>ts_references := (ts_references r)(re_name e := Some (re_new e))\<rparr>) else (Err ''moved'', r),
      references = ts_references\<rparr>"

lemma toy_writes:
  "CHR ''/'' \<notin> set i \<Longrightarrow> edit_tree toy_writer r i = nth_object (ts_trees r) i"
  "ed_remove toy_writer files path = Ok (filter (\<lambda>(p, _). \<not> (p = path \<or> below path p)) files)"
  "\<exists>ed. ed_upsert_blob toy_writer files path i = Ok ed"
  "write_blob toy_writer bs r = (Ok (toy_id (length (ts_blobs r))), r\<lparr>ts_blobs := ts_blobs r @ [bs]\<rparr>)"
  "write_tree toy_writer files r = (Ok (toy_id (length (ts_trees r))), r\<lparr>ts_trees := ts_trees r @ [files]\<rparr>)"
  "write_commit toy_writer co r = (Ok (toy_id (length (ts_commits r))), r\<lparr>ts_commits := ts_commits r @ [co]\<rparr>)"
  "full_name toy_writer n = Ok n"
  "expectation_holds (re_expected e) (ts_references r (re_name e)) \<Longrightarrow> \<exists>r'. edit_reference toy_writer e r = (Ok (), r')"
  by (simp_all add: toy_writer_def)

lemma toy_id_length [simp]: "length (toy_id n) = Suc n" "CHR ''/'' \<in> set (toy_id n) \<longleftrightarrow> False"
  by (auto simp: toy_id_def)

lemma nth_object_append: "nth_object xs i = Ok x \<Longrightarrow> nth_object (xs @ ys) i = Ok x"
  by (auto simp: nth_object_def nth_append split: if_splits)

lemma nth_object_new [simp]: "nth_object (xs @ [x]) (toy_id (length xs)) = Ok x"
  by (simp add: nth_object_def)

lemma toy_find_tree_append: "toy_find_tree trees i = Ok t \<Longrightarrow> toy_find_tree (trees @ others) i = Ok t"
  by (auto simp: toy_find_tree_def result_simps nth_object_append split: option.splits)

lemma toy_children_listed:
  "distinct (map te_filename (toy_children files d))"
  "set (toy_children files d) = {\<lparr>te_mode = mode, te_object_id = i, te_filename = n\<rparr> |mode i n.
     map_of files (d @ ''/'' @ n) = Some (mode, i)}"
proof -
  let ?names = "remdups (List.map_filter (\<lambda>(p, _). strip_prefix (d @ ''/'') p) files)"
  have names: "n \<in> set ?names \<longleftrightarrow> map_of files (d @ ''/'' @ n) \<noteq> None" for n
  proof (induction files)
    case (Cons f files)
    obtain p v where "f = (p, v)" by (cases f)
    then show ?case
    proof (cases "\<exists>rest. p = (d @ ''/'') @ rest")
      case True
      then obtain rest where "p = d @ ''/'' @ rest" by auto
      with Cons \<open>f = (p, v)\<close> strip_prefix_append[of "d @ ''/''" rest] show ?thesis by auto
    next
      case False
      then have "strip_prefix (d @ ''/'') p = None" by (meson strip_prefix_iff option.exhaust)
      with Cons False show ?thesis by (auto simp: \<open>f = (p, v)\<close>)
    qed
  qed simp
  have "map te_filename (toy_children files d) = ?names"
    by (simp add: toy_children_def comp_def split_def)
  then show "distinct (map te_filename (toy_children files d))" by simp
  show "set (toy_children files d) = {\<lparr>te_mode = mode, te_object_id = i, te_filename = n\<rparr> |mode i n.
     map_of files (d @ ''/'' @ n) = Some (mode, i)}"
    unfolding toy_children_def set_map using names by (force simp: image_iff)
qed

lemma toy_reads_as:
  assumes "nth_object (ts_trees r) (toy_id n) = Ok files"
  shows "reads_as (gx_objects toy_store_gix r) (toy_sealed_tree n files) (map_of files)"
proof -
  have "lists_directory (gx_objects toy_store_gix r) (toy_sealed_tree n files) (map_of files) d"
    if "map_of files d = None" "map_of files p \<noteq> None" "below d p" for d p
  proof -
    have "list_ex (\<lambda>(p, _). below d p) files"
      using that(2,3) map_of_SomeD[of files p] by (force simp: list_ex_iff)
    with that(1) have "gt_lookup (toy_sealed_tree n files) d =
        Ok (Some \<lparr>te_mode = 16384, te_object_id = toy_id n @ ''/'' @ d, te_filename = d\<rparr>)" (is "_ = Ok (Some ?e)")
      by (simp add: toy_sealed_tree_def)
    moreover have "gr_find_tree (gx_objects toy_store_gix r) (te_object_id ?e) =
        Ok ((toy_sealed_tree n [])\<lparr>gt_iter := map Ok (toy_children files d)\<rparr>)"
      using assms by (simp add: toy_store_gix_def toy_find_tree_def split_once_append)
    ultimately show ?thesis
      unfolding lists_directory_def using toy_children_listed[of files d]
      by (intro exI[of _ ?e] exI[of _ "(toy_sealed_tree n [])\<lparr>gt_iter := map Ok (toy_children files d)\<rparr>"]
        exI[of _ "toy_children files d"]) (simp add: toy_store_gix_def)
  qed
  moreover have "\<not> list_ex (\<lambda>(p, _). below path p) files" if "\<forall>p. map_of files p \<noteq> None \<longrightarrow> \<not> below path p" for path
    using that by (auto simp: list_ex_iff map_of_eq_None_iff)
  ultimately show ?thesis
    unfolding reads_as_def by (auto simp: toy_sealed_tree_def)
qed

lemma toy_adds:
  assumes "ts_blobs r' = ts_blobs r @ bs" "ts_trees r' = ts_trees r @ ts" "ts_commits r' = ts_commits r @ cs"
  shows "extends (gx_objects toy_store_gix r) (gx_objects toy_store_gix r')"
  unfolding extends_def same_commit_def toy_store_gix_def
  by (auto simp: assms result_simps nth_object_append toy_find_tree_append)

lemma map_of_kept: "map_of (filter (\<lambda>(p, _). P p) files) p = (if P p then map_of files p else None)"
  by (induction files) auto

lemma toy_writer_sound: "sound_writer toy_store_gix toy_writer"
proof -
  have "sound_blobs toy_store_gix toy_writer"
    unfolding sound_blobs_def adds_objects_def
    by (auto simp: toy_writer_def intro!: toy_adds) (simp add: toy_store_gix_def)
  moreover have "sound_trees toy_store_gix toy_writer"
    unfolding sound_trees_def adds_objects_def
  proof (intro allI impI)
    fix files r x r'
    assume "write_tree toy_writer files r = (x, r')"
    then have x: "x = Ok (toy_id (length (ts_trees r)))" "r' = r\<lparr>ts_trees := ts_trees r @ [files]\<rparr>" by (simp_all add: toy_writer_def)
    have "toy_find_tree (ts_trees r') (toy_id (length (ts_trees r))) = Ok (toy_sealed_tree (length (ts_trees r)) files)"
      by (simp add: toy_find_tree_def x split_once_None[THEN iffD2])
    moreover have "reads_as (gx_objects toy_store_gix r') (toy_sealed_tree (length (ts_trees r)) files) (map_of files)"
      by (rule toy_reads_as) (simp add: x)
    ultimately show "(extends (gx_objects toy_store_gix r) (gx_objects toy_store_gix r') \<and> references toy_writer r' = references toy_writer r) \<and>
        (\<forall>i. x = Ok i \<longrightarrow> (\<exists>tree. gr_find_tree (gx_objects toy_store_gix r') i = Ok tree \<and>
          reads_as (gx_objects toy_store_gix r') tree (ed_files toy_writer files)))"
      using toy_adds[of r' r "[]" "[files]" "[]"] by (simp add: x) (simp add: toy_writer_def toy_store_gix_def)
  qed
  moreover have "sound_commits toy_store_gix toy_writer"
    unfolding sound_commits_def adds_objects_def
    by (auto simp: toy_writer_def intro!: toy_adds) (simp add: toy_store_gix_def)
  moreover have "sound_references toy_store_gix toy_writer"
    unfolding sound_references_def by (auto simp: toy_writer_def intro!: toy_adds split: if_splits)
  moreover have "sound_editor toy_writer"
    unfolding sound_editor_def toy_writer_def by (auto simp: map_of_kept fun_eq_iff)
  ultimately show ?thesis by (simp add: sound_writer_def)
qed

text \<open>A branch whose tree holds a file and a stale token is stamped with one token.\<close>

definition toy_unsealed :: toy_store where
  "toy_unsealed =
     \<lparr>ts_blobs = [''text'', ''stale''],
      ts_trees = [[(''README'', REGULAR_FILE_MODE, toy_id 0), (''.tydence/tokens/old.tsr'', REGULAR_FILE_MODE, toy_id 1)]],
      ts_commits = [\<lparr>co_tree = toy_id 0, co_parents = [], co_author = ''a'', co_committer = ''a'', co_encoding = None,
        co_message = ''base'', co_extra_headers = []\<rparr>],
      ts_references = [''refs/heads/main'' \<mapsto> toy_id 0]\<rparr>"

definition toy_seal :: seal_inputs where
  "toy_seal =
     \<lparr>sl_base_tree_id = toy_id 0, sl_manifest_bytes = ''manifest'',
      sl_tokens = [\<lparr>at_site_name = ''b'', at_bytes = ''token''\<rparr>], sl_parent_ids = [toy_id 0], sl_message = ''stamp'',
      sl_author = ''a'', sl_committer = ''a'', sl_reference_name = ''refs/heads/main'',
      sl_expected = MustExistAndMatch (toy_id 0)\<rparr>"

definition toy_sealed :: toy_store where
  "toy_sealed =
     \<lparr>ts_blobs = [''text'', ''stale'', ''manifest'', ''token''],
      ts_trees = ts_trees toy_unsealed @ [[(''.tydence/tokens/b.tsr'', REGULAR_FILE_MODE, toy_id 3),
        (MANIFEST_PATH, REGULAR_FILE_MODE, toy_id 2), (''README'', REGULAR_FILE_MODE, toy_id 0)]],
      ts_commits = ts_commits toy_unsealed @ [stamp_commit toy_seal (toy_id 1)],
      ts_references = [''refs/heads/main'' \<mapsto> toy_id 1]\<rparr>"

lemma toy_seal_run: "seal_run toy_writer toy_seal toy_unsealed = (Ok (toy_id 1), toy_sealed)"
  unfolding seal_run_def stamp_tree_id_def place_token_def action_defs
  by (simp add: toy_writer_def toy_seal_def toy_unsealed_def toy_sealed_def nth_object_def toy_id_def below_iff layout_defs
      token_path_def stamp_commit_def stamp_ref_edit_def action_defs numeral_3_eq_3 numeral_2_eq_2)

lemma sealed_claim_reads_back_witness:
  "\<exists>artifacts. read_claim_artifacts (gx_objects toy_store_gix toy_sealed) (toy_id 1) = Ok artifacts \<and>
     ca_manifest_bytes artifacts = ''manifest'' \<and> (\<lambda>f. (tf_site f, tf_bytes f)) ` set (ca_tokens artifacts) = {(''b'', ''token'')}"
proof -
  have "sealable_names (sl_tokens toy_seal)" "sl_tokens toy_seal \<noteq> []"
    using is_utf8_ascii[of "''b''"] by (simp_all add: sealable_names_def toy_seal_def)
  from sealed_claim_reads_back[OF toy_writer_sound this toy_seal_run] show ?thesis by (auto simp: toy_seal_def)
qed

end
