(* ===== verification/Snapshot_Types.thy ===== *)
theory Snapshot_Types
  imports Seal
begin

text \<open>
  What the entries of a snapshot are: well-formed entries of a manifest, each path once. The walk keeps the prefixes
  of the trees still to be visited apart from one another and from what was listed.
\<close>

section \<open>What a tree of git lists\<close>

text \<open>The records of one tree: their paths are nonempty and distinct, and only a directory has others below it. No file
  that is listed has 2^64 bytes.\<close>

definition sound_listing :: "git_repository \<Rightarrow> file_record list \<Rightarrow> bool" where
  "sound_listing r records \<longleftrightarrow> distinct (map fr_filepath records) \<and> (\<forall>file \<in> set records. fr_filepath file \<noteq> []) \<and>
     (\<forall>a \<in> set records. \<forall>b \<in> set records. below (fr_filepath a) (fr_filepath b) \<longrightarrow> gr_is_tree r (fr_mode a))"

definition listed_soundly :: "'r gix \<Rightarrow> 'r \<Rightarrow> object_id \<Rightarrow> bool" where
  "listed_soundly g repository root_id \<longleftrightarrow> (\<forall>t. placed g repository root_id t \<longrightarrow>
     (\<forall>records. tree_records g t = Ok records \<longrightarrow> sound_listing (gx_objects g (rt_repository t)) records \<and>
       (\<forall>f \<in> set (files_of g t records). \<forall>blob. find_blob_in g (rt_repository t) (fr_oid f) = Ok blob \<longrightarrow> length blob < 2 ^ 64)))"

text \<open>A tree without gitlinks is the only one.\<close>

lemma listed_alone:
  assumes records: "tree_records g (root_tree r i) = Ok records" and "sound_listing (gx_objects g r) records"
    and links: "gitlinks_of g (root_tree r i) records = []"
    and "\<forall>f \<in> set (files_of g (root_tree r i) records). \<forall>blob. find_blob_in g r (fr_oid f) = Ok blob \<longrightarrow> length blob < 2 ^ 64"
  shows "listed_soundly g r i"
proof -
  have only: "t = root_tree r i" if "placed g r i t" for t
    using that
  proof induction
    case (placed_submodule t records' link t')
    with records links show ?case by simp
  qed simp
  have "rt_repository (root_tree r i) = r" by (simp add: root_tree_def)
  with assms show ?thesis unfolding listed_soundly_def by (auto dest!: only)
qed

section \<open>Prefixes\<close>

definition apart :: "bytes \<Rightarrow> bytes \<Rightarrow> bool" where
  "apart p q \<longleftrightarrow> \<not> starts_with p q \<and> \<not> starts_with q p"

lemma apart_sym: "apart p q \<Longrightarrow> apart q p"
  by (simp add: apart_def)

lemma apart_extend: "apart p q \<Longrightarrow> apart (p @ x) q"
  by (auto simp: apart_def starts_with_iff append_eq_append_conv2)

lemma apart_below: "apart p q \<Longrightarrow> starts_with p path \<Longrightarrow> \<not> starts_with q path"
  by (auto simp: apart_def starts_with_iff append_eq_append_conv2)

text \<open>Two gitlinks of a tree lead to prefixes apart, and no file of the tree is under the prefix of a gitlink.\<close>

lemma below_slash: "starts_with (d @ ''/'') path \<longleftrightarrow> below d path"
  by (auto simp: starts_with_iff below_def)

lemma links_apart:
  assumes "sound_listing r records" "a \<in> set records" "b \<in> set records" "fr_filepath a \<noteq> fr_filepath b"
    "\<not> gr_is_tree r (fr_mode a)" "\<not> gr_is_tree r (fr_mode b)"
  shows "apart (fr_filepath a @ ''/'') (fr_filepath b @ ''/'')"
proof -
  have "\<not> starts_with (p @ ''/'') (q @ ''/'')" if "p \<noteq> q" "\<not> below p q" for p q :: bytes
    using that by (auto simp: starts_with_iff below_def append_eq_append_conv2 Cons_eq_append_conv append_eq_Cons_conv)
  moreover have "\<not> below (fr_filepath a) (fr_filepath b)" "\<not> below (fr_filepath b) (fr_filepath a)"
    using assms unfolding sound_listing_def by blast+
  ultimately show ?thesis using assms(4) by (simp add: apart_def)
qed

section \<open>The invariant of the walk\<close>

definition walk_ok :: "'r gix \<Rightarrow> 'r \<Rightarrow> object_id \<Rightarrow> entry list \<Rightarrow> 'r repository_tree list \<Rightarrow> bool" where
  "walk_ok g repository root_id es pending \<longleftrightarrow> list_all entry_ok es \<and> distinct (map entry_path es) \<and>
     (\<forall>t \<in> set pending. placed g repository root_id t \<and> (\<forall>e \<in> set es. \<not> starts_with (rt_path_prefix t) (entry_path e))) \<and>
     sorted_wrt (\<lambda>t t'. apart (rt_path_prefix t) (rt_path_prefix t')) pending"

lemma visited_entries:
  assumes "digests_ok d" "sound_listing (gx_objects g (rt_repository t)) records"
    and "\<forall>f \<in> set (files_of g t records). \<forall>blob. find_blob_in g (rt_repository t) (fr_oid f) = Ok blob \<longrightarrow> length blob < 2 ^ 64"
    and "list_all2 (covers_record g d t) (files_of g t records) out"
  shows "list_all entry_ok out" "map entry_path out = map (\<lambda>f. rt_path_prefix t @ fr_filepath f) (files_of g t records)"
    "distinct (map entry_path out)"
proof -
  have each: "entry_ok e \<and> entry_path e = rt_path_prefix t @ fr_filepath f"
    if "covers_record g d t f e" "f \<in> set (files_of g t records)" for f e
    using that assms(1-3) hash_payload_ok[OF assms(1)] by (auto simp: covers_record_def entry_ok_def sound_listing_def files_of_def)
  have "list_all2 (\<lambda>f e. entry_ok e \<and> entry_path e = rt_path_prefix t @ fr_filepath f) (files_of g t records) out"
    by (rule list.rel_mono_strong[OF assms(4)]) (use each in auto)
  then show "list_all entry_ok out" and paths: "map entry_path out = map (\<lambda>f. rt_path_prefix t @ fr_filepath f) (files_of g t records)"
    by (induction rule: list_all2_induct) auto
  have "distinct (map fr_filepath (files_of g t records))"
    using assms(2) by (simp add: sound_listing_def files_of_def distinct_map_filter)
  then show "distinct (map entry_path out)" unfolding paths by (simp add: distinct_map inj_on_def)
qed

lemma links_sorted:
  assumes "sound_listing r records" "\<forall>f \<in> set links. f \<in> set records \<and> \<not> gr_is_tree r (fr_mode f)" "distinct (map fr_filepath links)"
  shows "sorted_wrt (\<lambda>a b. apart (p @ fr_filepath a @ ''/'') (p @ fr_filepath b @ ''/'')) links"
  using assms(2,3)
proof (induction links)
  case (Cons a links)
  have "apart (p @ fr_filepath a @ ''/'') (p @ fr_filepath b @ ''/'')" if "b \<in> set links" for b
  proof -
    have "apart (fr_filepath a @ ''/'') (fr_filepath b @ ''/'')"
      by (rule links_apart[OF assms(1)]) (use Cons.prems that in auto)
    then show ?thesis by (simp add: apart_def starts_with_iff)
  qed
  with Cons show ?case by simp
qed simp

lemma walk_step:
  assumes d: "digests_ok d" and sound: "listed_soundly g repository root_id"
    and before: "walk_ok g repository root_id es (t # rest)" and visit: "visit_tree g d t = Ok (out, found)"
  shows "walk_ok g repository root_id (es @ out) (rest @ found)"
proof -
  obtain records where records: "tree_records g t = Ok records"
    and files: "list_all2 (covers_record g d t) (files_of g t records) out"
    and links: "list_all2 (submodule_at g t records) (gitlinks_of g t records) found"
    using visit by (auto simp: visit_tree_Ok)
  have t: "placed g repository root_id t" using before by (simp add: walk_ok_def)
  with sound records have listing: "sound_listing (gx_objects g (rt_repository t)) records"
    and blobs: "\<forall>f \<in> set (files_of g t records). \<forall>blob. find_blob_in g (rt_repository t) (fr_oid f) = Ok blob \<longrightarrow> length blob < 2 ^ 64"
    by (auto simp: listed_soundly_def)
  note entries = visited_entries[OF d listing blobs files]
  have out: "\<exists>f \<in> set records. entry_path e = rt_path_prefix t @ fr_filepath f" if "e \<in> set out" for e
  proof -
    from that have "entry_path e \<in> set (map entry_path out)" by simp
    then show ?thesis unfolding entries(2) by (auto simp: files_of_def)
  qed
  have link: "\<exists>f \<in> set records. \<not> gr_is_tree (gx_objects g (rt_repository t)) (fr_mode f) \<and>
      rt_path_prefix t' = rt_path_prefix t @ fr_filepath f @ ''/'' \<and> placed g repository root_id t'" if "t' \<in> set found" for t'
  proof -
    from list_all2_right[OF links that] obtain f where f: "f \<in> set (gitlinks_of g t records)" "submodule_at g t records f t'" by blast
    from placed_submodule[OF t records f] f show ?thesis
      by (auto simp: submodule_at_def gitlinks_of_def included_def)
  qed
  have prefixes: "map rt_path_prefix found = map (\<lambda>f. rt_path_prefix t @ fr_filepath f @ ''/'') (gitlinks_of g t records)"
    using links by (induction rule: list_all2_induct) (auto simp: submodule_at_def)
  have "distinct (map fr_filepath (gitlinks_of g t records))"
    using listing by (simp add: sound_listing_def gitlinks_of_def distinct_map_filter)
  then have "sorted_wrt (\<lambda>a b. apart (rt_path_prefix t @ fr_filepath a @ ''/'') (rt_path_prefix t @ fr_filepath b @ ''/'')) (gitlinks_of g t records)"
    by (intro links_sorted[OF listing]) (auto simp: gitlinks_of_def included_def)
  then have found_apart: "sorted_wrt (\<lambda>a b. apart (rt_path_prefix a) (rt_path_prefix b)) found"
    using prefixes unfolding sorted_wrt_map[of apart rt_path_prefix, symmetric] by (simp add: sorted_wrt_map)
  have rest_apart: "apart (rt_path_prefix q) (rt_path_prefix t')" if "q \<in> set rest" "t' \<in> set found" for q t'
    using link[OF that(2)] before that(1) apart_extend apart_sym by (auto simp: walk_ok_def)
  have "distinct (map entry_path (es @ out))"
    using before entries(3) out by (fastforce simp: walk_ok_def starts_with_iff)
  moreover have "\<not> starts_with (rt_path_prefix q) (entry_path e)" if "q \<in> set (rest @ found)" "e \<in> set (es @ out)" for q e
  proof (cases "q \<in> set rest")
    case True
    show ?thesis
    proof (cases "e \<in> set es")
      case False
      with that(2) have "e \<in> set out" by simp
      from out[OF this] obtain f :: file_record where "entry_path e = rt_path_prefix t @ fr_filepath f" by blast
      moreover have "apart (rt_path_prefix t) (rt_path_prefix q)" using before True by (simp add: walk_ok_def)
      ultimately show ?thesis using apart_below by (simp add: starts_with_iff)
    qed (use before True in \<open>simp add: walk_ok_def\<close>)
  next
    case False
    with that(1) have "q \<in> set found" by simp
    from link[OF this] obtain f where f: "f \<in> set records" "\<not> gr_is_tree (gx_objects g (rt_repository t)) (fr_mode f)"
      "rt_path_prefix q = rt_path_prefix t @ fr_filepath f @ ''/''" by blast
    show ?thesis
    proof (cases "e \<in> set es")
      case True
      with before f(3) show ?thesis by (auto simp: walk_ok_def starts_with_iff)
    next
      case False
      with that(2) have "e \<in> set out" by simp
      from out[OF this] obtain b where "b \<in> set records" "entry_path e = rt_path_prefix t @ fr_filepath b" by blast
      with listing f show ?thesis by (auto simp: sound_listing_def below_slash[symmetric] starts_with_iff)
    qed
  qed
  moreover have "placed g repository root_id q" if "q \<in> set (rest @ found)" for q
    using that before link by (auto simp: walk_ok_def)
  moreover have "list_all entry_ok (es @ out)" using before entries(1) by (simp add: walk_ok_def)
  moreover have "sorted_wrt (\<lambda>a b. apart (rt_path_prefix a) (rt_path_prefix b)) (rest @ found)"
    using before found_apart rest_apart by (simp add: walk_ok_def sorted_wrt_append)
  ultimately show ?thesis by (simp add: walk_ok_def)
qed

lemma snapshot_typed:
  assumes "digests_ok d" "listed_soundly g repository root_id" "snapshot_run g d repository root_id = Some (Ok es)"
  shows "list_all entry_ok es \<and> distinct (map entry_path es)"
proof -
  have start: "walk_ok g repository root_id [] [root_tree repository root_id]"
    by (simp add: walk_ok_def placed_root)
  have "walk_ok g repository root_id es []"
    by (rule snapshot.drain_invariant[where I = "walk_ok g repository root_id", OF assms(3)[unfolded snapshot_run_def] start])
      (rule walk_step[OF assms(1,2)])
  then show ?thesis by (simp add: walk_ok_def)
qed

text \<open>C20: the entries of a snapshot are well-formed entries of a manifest, and no two of them have one path: paths are
  nonempty, sizes fit 64 bits, hashes have their lengths, and files of different submodules never meet. It rests on
  what git guarantees of a tree: distinct nonempty names, and only directories with something below them.\<close>

theorem snapshot_is_well_typed:
  assumes "digests_ok d" "listed_soundly g repository root_id" "snapshot_run g d repository root_id = Some (Ok es)"
  shows "list_all entry_ok es \<and> distinct (map entry_path es)"
  using snapshot_typed[OF assms] .

section \<open>A concrete superproject\<close>

lemma toy_listed_soundly: "listed_soundly toy_gix 0 ''t1''"
proof -
  have "rt_tree_id t \<in> {''t1'', ''t9''}" if "placed toy_gix 0 ''t1'' t" for t
    using that toy_chain by (auto simp: chain_ids_def)
  moreover have "sound_listing (gx_objects toy_gix (rt_repository t)) records \<and>
      (\<forall>f \<in> set (files_of toy_gix t records). \<forall>blob. find_blob_in toy_gix (rt_repository t) (fr_oid f) = Ok blob \<longrightarrow> length blob < 2 ^ 64)"
    if "tree_records toy_gix t = Ok records" "rt_tree_id t \<in> {''t1'', ''t9''}" for t records
    using that by (auto simp: sound_listing_def below_def tree_records_def toy_gix_def toy_objects_def files_of_def)
  ultimately show ?thesis unfolding listed_soundly_def by blast
qed

lemma snapshot_is_well_typed_witness:
  "snapshot_run toy_gix toy_digests 0 ''t1'' = Some (Ok (toy_entries toy_digests)) \<and> distinct (map entry_path (toy_entries toy_digests))"
proof -
  have run: "snapshot_run toy_gix toy_digests 0 ''t1'' = Some (Ok (toy_entries toy_digests))" by (simp add: toy_snapshot)
  from snapshot_is_well_typed[OF toy_digests_ok toy_listed_soundly run] run show ?thesis by simp
qed

end
