(* ===== verification/Create.thy ===== *)
theory Create
  imports Seal Ltv Trailers Bind Transport
begin

text \<open>
  \<open>crates/tydence/src/stamp/create.rs\<close>: the whole stamping flow over a repository. The state is the repository, the
  file system and the world the anchors and the HTTP client act on; the configuration is read from the content being
  stamped. The snapshot and the walk to the bound stamps may not end, then neither does the flow (\<open>None\<close>).
\<close>

section \<open>Errors\<close>

datatype create_error =
  BareRepository
  | CreateObjectAccess string
  | MissingConfig
  | UnreadableConfig string
  | ConfigFailure config_error
  | LtvFailure ltv_error
  | CreateSnapshot snapshot_error
  | CreateBind bind_error
  | CreateUnprintable unprintable_field
  | AcquireFailure acquire_error
  | SealFailure seal_error
  | CreatePanic  \<comment> \<open>\<open>expect("every acquired token was supplemented")\<close>\<close>

text \<open>How the debug formats of Rust spell a text, a path and a moment, and the crates' own displays.\<close>

record debug_formats =
  debug_text :: "string \<Rightarrow> string"
  path_text :: "string \<Rightarrow> string"
  debug_bytes :: "bytes \<Rightarrow> string"
  debug_moment :: "system_time \<Rightarrow> string"

definition unprintable_display :: "(string \<Rightarrow> string) \<Rightarrow> unprintable_field \<Rightarrow> string" where
  "unprintable_display debug_str field =
     uf_field field @ '' '' @ debug_str (uf_value field) @ '' is not a bare printable token''"

fun create_error_display :: "debug_formats \<Rightarrow> create_error \<Rightarrow> string" where
  "create_error_display df BareRepository = ''the repository has no working tree to record LTV material in''"
| "create_error_display df (CreateObjectAccess _) = ''cannot read or write git objects''"
| "create_error_display df MissingConfig = ''the content being stamped carries no '' @ CONFIG_PATH"
| "create_error_display df (UnreadableConfig _) =
     CONFIG_PATH @ '' in the content being stamped is not a regular UTF-8 text file''"
| "create_error_display df (ConfigFailure cause) = ''the configuration does not parse: '' @ config_error_display cause"
| "create_error_display df (LtvFailure cause) =
     ''the LTV material did not settle: '' @ ltv_error_display (debug_text df) (path_text df) cause"
| "create_error_display df (CreateSnapshot cause) =
     ''the snapshot does not enumerate: '' @ snapshot_error_display (debug_bytes df) cause"
| "create_error_display df (CreateBind cause) = ''the binding set does not build: '' @ bind_error_display (debug_text df) cause"
| "create_error_display df (CreateUnprintable cause) = ''the manifest cannot be spelled: '' @ unprintable_display (debug_text df) cause"
| "create_error_display df (AcquireFailure cause) =
     ''token acquisition failed: '' @ acquire_error_display (debug_text df) (debug_moment df) cause"
| "create_error_display df (SealFailure cause) = ''the stamp did not seal: '' @ seal_error_display cause"
| "create_error_display df CreatePanic = ''every acquired token was supplemented''"

section \<open>Inputs and parameters\<close>

record create_inputs =
  cr_base_tree_id :: object_id
  cr_profile_name :: string
  cr_anchor_certificates :: "bytes list"
  cr_parent_ids :: "object_id list"
  cr_message :: string
  cr_author :: string
  cr_committer :: string
  cr_reference_name :: string
  cr_expected :: previous_value

record created_stamp =
  cs_commit_id :: object_id
  cs_manifest_hashes :: payload_hashes
  cs_warnings :: "site_failure list"

text \<open>\<open>make_anchor\<close> and the anchor's \<open>acquire_token\<close>, on the world they act on.\<close>

record ('w, 'a) anchor_maker =
  am_make :: "'w \<Rightarrow> string \<Rightarrow> site \<Rightarrow> 'a \<times> 'w"
  am_acquire :: "'w \<Rightarrow> 'a \<Rightarrow> bytes \<Rightarrow> (string, bytes) result \<times> 'w"

record ('r, 'ed, 'w, 'resp, 'a) creator =
  ct_gix :: "'r gix"
  ct_writer :: "('r, 'ed) git_writer"
  ct_ltv :: "('w, 'resp) ltv_tools"
  ct_table :: ranges
  ct_digests :: digests
  ct_anchors :: "('w, 'a) anchor_maker"
  ct_debug :: debug_formats

type_synonym ('r, 'w) creation = "'r \<times> file_system \<times> 'w"

section \<open>The content being stamped\<close>

definition record_files :: "ltv_records \<Rightarrow> (string \<times> bytes) list" where
  "record_files records =
     map (\<lambda>chain. (rch_repository_path chain, rch_pem_bytes chain)) (lr_chains records) @
     map (\<lambda>crl. (rcl_repository_path crl, rcl_pem_bytes crl)) (lr_crls records)"

definition mirror_file ::
  "('r, 'ed) git_writer \<Rightarrow> 'ed \<Rightarrow> string \<times> bytes \<Rightarrow> ('r, create_error, 'ed) action" where
  "mirror_file gw editor f =
     act_bind (act_map_err CreateObjectAccess (write_blob gw (snd f))) (\<lambda>blob.
     act_lift (map_err CreateObjectAccess (ed_upsert_blob gw editor (fst f) blob)))"

definition apply_ltv_records ::
  "('r, 'ed) git_writer \<Rightarrow> object_id \<Rightarrow> ltv_records \<Rightarrow> ('r, create_error, object_id) action" where
  "apply_ltv_records gw base_tree_id records =
     (if lr_chains records = [] \<and> lr_crls records = [] then act_return base_tree_id
      else
        act_bind (\<lambda>r. (map_err CreateObjectAccess (edit_tree gw r base_tree_id), r)) (\<lambda>editor.
        act_bind (act_fold (mirror_file gw) editor (record_files records)) (\<lambda>editor.
        act_map_err CreateObjectAccess (write_tree gw editor))))"

definition read_config :: "git_repository \<Rightarrow> object_id \<Rightarrow> (create_error, config) result" where
  "read_config r content_tree_id =
     and_then (map_err CreateObjectAccess (gr_find_tree r content_tree_id)) (\<lambda>tree.
     and_then (map_err CreateObjectAccess (gt_lookup tree CONFIG_PATH)) (\<lambda>maybe_entry.
     and_then (ok_or MissingConfig maybe_entry) (\<lambda>e.
     if \<not> gr_is_blob r (te_mode e) then Err (UnreadableConfig ''the path names no regular file'')
     else
       and_then (map_err CreateObjectAccess (gr_find_blob r (te_object_id e))) (\<lambda>blob.
       and_then (map_err (\<lambda>source. UnreadableConfig (utf8_error_display source)) (from_utf8 blob)) (\<lambda>config_text.
       map_err ConfigFailure (parse_config config_text))))))"

section \<open>Live anchors\<close>

definition live_anchor :: "'w \<Rightarrow> 'env \<Rightarrow> site \<Rightarrow> ('w https_transport, 'env) rfc3161_anchor" where
  "live_anchor network environment s =
     \<lparr>anchor_transport = https_transport_new network (site_url s), anchor_environment = environment,
      anchor_imprint = site_imprint s\<rparr>"

text \<open>\<open>run\<close> with \<open>|_, site| live_anchor(site)\<close>: the network and the environment are the world.\<close>

definition live_anchors ::
  "cms \<Rightarrow> 'env stamp_environment \<Rightarrow> ('w, 'resp) http_client \<Rightarrow> (tsp_error \<Rightarrow> string) \<Rightarrow> ('w \<times> 'env, site) anchor_maker" where
  "live_anchors c env h tsp_display =
     \<lparr>am_make = \<lambda>world site_name s. (s, world),
      am_acquire = \<lambda>(network, environment) s payload.
        (case acquire_token c env (exchange h) (live_anchor network environment s) payload of (outcome, anchor) \<Rightarrow>
           (map_err tsp_display outcome, (tr_network (anchor_transport anchor), anchor_environment anchor)))\<rparr>"

section \<open>The flow\<close>

definition prepare ::
  "('r, 'ed, 'w, 'resp, 'a) creator \<Rightarrow> create_inputs
    \<Rightarrow> (('r, 'w) creation, create_error, string \<times> ltv_records \<times> object_id \<times> config) action" where
  "prepare ct inputs =
     act_bind (\<lambda>s. (ok_or BareRepository (gx_workdir (ct_gix ct) (fst s)), s)) (\<lambda>worktree.
     act_bind (act_map_err LtvFailure (on_snd (ltv_refresh (ct_ltv ct) worktree))) (\<lambda>records.
     act_bind (on_fst (apply_ltv_records (ct_writer ct) (cr_base_tree_id inputs) records)) (\<lambda>content_tree_id.
     act_bind (\<lambda>s. (read_config (gx_objects (ct_gix ct) (fst s)) content_tree_id, s)) (\<lambda>cfg.
     act_return (worktree, records, content_tree_id, cfg)))))"

definition fix_manifest ::
  "('r, 'ed, 'w, 'resp, 'a) creator \<Rightarrow> create_inputs \<Rightarrow> object_id \<Rightarrow> 'r \<Rightarrow> (create_error, string) result option" where
  "fix_manifest ct inputs content_tree_id r =
     (case snapshot_run (ct_gix ct) (ct_digests ct) r content_tree_id of
        None \<Rightarrow> None
      | Some (Err e) \<Rightarrow> Some (Err (CreateSnapshot e))
      | Some (Ok file_entries) \<Rightarrow>
          map_option (\<lambda>bound.
            and_then (map_err CreateBind bound) (\<lambda>groups.
            map_err CreateUnprintable (serialize (ct_table ct)
              \<lparr>parents = cr_parent_ids inputs, binding_groups = groups, entries = file_entries\<rparr>)))
          (bind_stamps (gx_objects (ct_gix ct) r) (ct_table ct) (ct_digests ct) (cr_parent_ids inputs)))"

text \<open>The closure that supplements the trust: the harvests it makes are part of the world.\<close>

type_synonym 'w acquiring = "'w \<times> (string \<Rightarrow> harvest option)"

definition supplement_harvest ::
  "('w, 'resp) ltv_tools \<Rightarrow> (ltv_error \<Rightarrow> string) \<Rightarrow> 'w acquiring \<Rightarrow> string \<Rightarrow> bytes
    \<Rightarrow> (string, bytes list) result \<times> 'w acquiring" where
  "supplement_harvest tools ltv_display world site_name token_bytes =
     (case ltv_harvest tools token_bytes (fst world) of
        (Err e, w) \<Rightarrow> (Err (ltv_display e), (w, snd world))
      | (Ok h, w) \<Rightarrow> (Ok (crl_ders h), (w, (snd world)(site_name := Some h))))"

definition creation_environment ::
  "('r, 'ed, 'w, 'resp, 'a) creator \<Rightarrow> ('w acquiring, 'a) acquire_environment" where
  "creation_environment ct =
     \<lparr>make_anchor = \<lambda>world site_name s. (case am_make (ct_anchors ct) (fst world) site_name s of (a, w) \<Rightarrow> (a, (w, snd world))),
      anchor_acquires = \<lambda>world a payload.
        (case am_acquire (ct_anchors ct) (fst world) a payload of (outcome, w) \<Rightarrow> (outcome, (w, snd world))),
      supplement_trust = supplement_harvest (ct_ltv ct)
        (ltv_error_display (debug_text (ct_debug ct)) (path_text (ct_debug ct)))\<rparr>"

definition creation_acquires :: "create_inputs \<Rightarrow> ltv_records \<Rightarrow> config \<Rightarrow> string \<Rightarrow> acquire_inputs" where
  "creation_acquires inputs records cfg manifest_text =
     \<lparr>ai_config = cfg, ai_profile_name = cr_profile_name inputs, ai_manifest_bytes = manifest_text,
      ai_trust = \<lparr>td_anchor_certificates = cr_anchor_certificates inputs, td_companion_certificates = [],
        td_crls = map rcl_der_bytes (lr_crls records)\<rparr>\<rparr>"

definition acquire_harvesting ::
  "('r, 'ed, 'w, 'resp, 'a) creator \<Rightarrow> acquire_inputs
    \<Rightarrow> ('w, create_error, acquisition \<times> (string \<Rightarrow> harvest option)) action" where
  "acquire_harvesting ct inputs w =
     (case acquire_run (lt_pki (ct_ltv ct)) (lt_cms (ct_ltv ct)) (creation_environment ct) inputs (w, \<lambda>_. None) of
        (outcome, (w, harvests)) \<Rightarrow>
          (and_then (map_err AcquireFailure outcome) (\<lambda>acquired. Ok (acquired, harvests)), w))"

text \<open>The body of the loop that records the harvests of the acquired tokens.\<close>

definition deposit_harvest ::
  "('w, 'resp) ltv_tools \<Rightarrow> string \<Rightarrow> (string \<Rightarrow> harvest option) \<Rightarrow> acquired_token
    \<Rightarrow> (file_system, create_error, string \<Rightarrow> harvest option) action" where
  "deposit_harvest tools worktree harvests token =
     act_bind (act_lift (ok_or CreatePanic (harvests (at_site_name token)))) (\<lambda>h.
     act_bind (act_map_err LtvFailure (ltv_record tools worktree h)) (\<lambda>_.
     act_return (harvests(at_site_name token := None))))"

definition sealing_of :: "create_inputs \<Rightarrow> digests \<Rightarrow> object_id \<Rightarrow> string \<Rightarrow> acquired_token list \<Rightarrow> seal_inputs" where
  "sealing_of inputs d content_tree_id manifest_text tokens =
     \<lparr>sl_base_tree_id = content_tree_id, sl_manifest_bytes = manifest_text, sl_tokens = tokens,
      sl_parent_ids = cr_parent_ids inputs,
      sl_message = message_with_trailers (cr_message inputs) (hash_payload d manifest_text),
      sl_author = cr_author inputs, sl_committer = cr_committer inputs,
      sl_reference_name = cr_reference_name inputs, sl_expected = cr_expected inputs\<rparr>"

definition seal_manifest ::
  "('r, 'ed, 'w, 'resp, 'a) creator \<Rightarrow> create_inputs \<Rightarrow> string \<Rightarrow> ltv_records \<Rightarrow> object_id \<Rightarrow> config \<Rightarrow> string
    \<Rightarrow> (('r, 'w) creation, create_error, created_stamp) action" where
  "seal_manifest ct inputs worktree records content_tree_id cfg manifest_text =
     act_bind (on_snd (on_snd (acquire_harvesting ct (creation_acquires inputs records cfg manifest_text))))
       (\<lambda>(acquired, harvests).
     act_bind (on_snd (on_fst (act_fold (deposit_harvest (ct_ltv ct) worktree) harvests (acq_tokens acquired)))) (\<lambda>_.
     act_bind (act_map_err SealFailure (on_fst (seal_run (ct_writer ct)
       (sealing_of inputs (ct_digests ct) content_tree_id manifest_text (acq_tokens acquired))))) (\<lambda>commit_id.
     act_return \<lparr>cs_commit_id = commit_id, cs_manifest_hashes = hash_payload (ct_digests ct) manifest_text,
       cs_warnings = acq_warnings acquired\<rparr>)))"

definition create_run ::
  "('r, 'ed, 'w, 'resp, 'a) creator \<Rightarrow> create_inputs \<Rightarrow> ('r, 'w) creation
    \<Rightarrow> ((create_error, created_stamp) result \<times> ('r, 'w) creation) option" where
  "create_run ct inputs s =
     (case prepare ct inputs s of
        (Err e, s) \<Rightarrow> Some (Err e, s)
      | (Ok (worktree, records, content_tree_id, cfg), s) \<Rightarrow>
          map_option (\<lambda>fixed.
            act_bind (act_lift fixed) (seal_manifest ct inputs worktree records content_tree_id cfg) s)
          (fix_manifest ct inputs content_tree_id (fst s)))"

section \<open>No token without its harvest\<close>

text \<open>What an acquisition that starts from these harvests leaves: each token it returns verified, and its harvest is
  kept under its site.\<close>

lemma supplement_harvest_Ok:
  "supplement_harvest tools ltv_display world site_name token_bytes = (Ok crls, world') \<longleftrightarrow>
     (\<exists>h w. ltv_harvest tools token_bytes (fst world) = (Ok h, w) \<and> crls = crl_ders h \<and>
        world' = (w, (snd world)(site_name := Some h)))"
  by (auto simp: supplement_harvest_def split: prod.splits sum.splits)

definition harvested :: "('w, 'resp) ltv_tools \<Rightarrow> (string \<Rightarrow> harvest option) \<Rightarrow> string \<Rightarrow> bytes \<Rightarrow> bool" where
  "harvested tools harvests site_name token_bytes \<longleftrightarrow>
     (\<exists>h w w'. harvests site_name = Some h \<and> ltv_harvest tools token_bytes w = (Ok h, w'))"

lemma creation_world:
  "make_anchor (creation_environment ct) world site_name s = (a, world') \<Longrightarrow> snd world' = snd world"
  "anchor_acquires (creation_environment ct) world a payload = (outcome, world') \<Longrightarrow> snd world' = snd world"
  by (auto simp: creation_environment_def split: prod.splits)

lemma sealable_token_harvested:
  assumes "sealable_token p c (creation_environment ct) inputs world site_name a = (outcome, world')"
  shows "\<forall>n. n \<noteq> site_name \<longrightarrow> snd world' n = snd world n"
    and "outcome = Ok token_bytes \<Longrightarrow> harvested (ct_ltv ct) (snd world') site_name token_bytes"
proof -
  obtain answer w1 where answer: "anchor_acquires (creation_environment ct) world a (ai_manifest_bytes inputs) = (answer, w1)"
    by (metis surj_pair)
  note kept = creation_world(2)[OF answer]
  have "(\<forall>n. n \<noteq> site_name \<longrightarrow> snd world' n = snd world n) \<and>
      (\<forall>token_bytes. outcome = Ok token_bytes \<longrightarrow> harvested (ct_ltv ct) (snd world') site_name token_bytes)"
  proof (cases answer)
    case (Inl e)
    with assms answer kept show ?thesis by (auto simp: sealable_token_def)
  next
    case (Inr bytes)
    obtain supplemented w2 where supp: "supplement_trust (creation_environment ct) w1 site_name bytes = (supplemented, w2)"
      by (metis surj_pair)
    then have w2: "\<forall>n. n \<noteq> site_name \<longrightarrow> snd w2 n = snd w1 n"
      by (auto simp: creation_environment_def supplement_harvest_def split: prod.splits sum.splits)
    show ?thesis
    proof (cases supplemented)
      case (Inl e)
      with assms answer \<open>answer = Ok bytes\<close> supp w2 kept show ?thesis by (auto simp: sealable_token_def)
    next
      case (Inr crls)
      with supp obtain h w where "ltv_harvest (ct_ltv ct) bytes (fst w1) = (Ok h, w)" "snd w2 site_name = Some h"
        by (auto simp: creation_environment_def supplement_harvest_Ok)
      then have "harvested (ct_ltv ct) (snd w2) site_name bytes" unfolding harvested_def by blast
      with assms answer \<open>answer = Ok bytes\<close> supp w2 kept Inr show ?thesis
        by (auto simp: sealable_token_def result_simps)
    qed
  qed
  then show "\<forall>n. n \<noteq> site_name \<longrightarrow> snd world' n = snd world n"
    and "outcome = Ok token_bytes \<Longrightarrow> harvested (ct_ltv ct) (snd world') site_name token_bytes" by blast+
qed

lemma acquire_sites_harvested:
  assumes "acquire_sites p c (creation_environment ct) inputs world tokens warnings resolved = (Ok (tokens', warnings'), world')"
    and "distinct (map (us_site_name \<circ> fst) resolved)"
    and "\<forall>t \<in> set tokens. at_site_name t \<notin> (us_site_name \<circ> fst) ` set resolved"
    and "\<forall>t \<in> set tokens. harvested (ct_ltv ct) (snd world) (at_site_name t) (at_bytes t)"
  shows "\<forall>t \<in> set tokens'. harvested (ct_ltv ct) (snd world') (at_site_name t) (at_bytes t)"
  using assms
proof (induction resolved arbitrary: world tokens warnings)
  case (Cons selected resolved)
  obtain s x where selected: "selected = (s, x)" by (cases selected)
  obtain a w1 where anchor: "make_anchor (creation_environment ct) world (us_site_name s) x = (a, w1)" by (metis surj_pair)
  obtain outcome w2 where outcome: "sealable_token p c (creation_environment ct) inputs w1 (us_site_name s) a = (outcome, w2)"
    by (metis surj_pair)
  note fresh = Cons.prems(2,3)
  have kept: "\<forall>t \<in> set tokens. harvested (ct_ltv ct) (snd w2) (at_site_name t) (at_bytes t)"
    using Cons.prems(3,4) sealable_token_harvested(1)[OF outcome] creation_world(1)[OF anchor]
    by (auto simp: selected harvested_def)
  show ?case
  proof (cases outcome)
    case (Inl cause)
    with Cons.prems(1) have "\<exists>warnings. acquire_sites p c (creation_environment ct) inputs w2 tokens warnings resolved = (Ok (tokens', warnings'), world')"
      by (auto simp: selected anchor outcome Let_def split: if_splits)
    with Cons.IH[OF _ _ _ kept] fresh show ?thesis by (auto simp: selected)
  next
    case (Inr token_bytes)
    let ?t = "\<lparr>at_site_name = us_site_name s, at_bytes = token_bytes\<rparr>"
    from Cons.prems(1) have rest: "acquire_sites p c (creation_environment ct) inputs w2 (tokens @ [?t]) warnings resolved =
        (Ok (tokens', warnings'), world')"
      by (simp add: selected anchor outcome Inr)
    have "\<forall>t \<in> set (tokens @ [?t]). harvested (ct_ltv ct) (snd w2) (at_site_name t) (at_bytes t)"
      using kept sealable_token_harvested(2)[OF outcome Inr] by simp
    from Cons.IH[OF rest _ _ this] fresh show ?thesis by (auto simp: selected)
  qed
qed simp

lemma acquire_harvesting_Ok:
  assumes "acquire_harvesting ct inputs w = (Ok (acquired, harvests), w')"
  shows "\<forall>t \<in> set (acq_tokens acquired). harvested (ct_ltv ct) harvests (at_site_name t) (at_bytes t)"
    and "distinct (map at_site_name (acq_tokens acquired))"
    and "\<exists>w''. acquire_run (lt_pki (ct_ltv ct)) (lt_cms (ct_ltv ct)) (creation_environment ct) inputs (w, \<lambda>_. None) = (Ok acquired, w'')"
proof -
  let ?run = "acquire_run (lt_pki (ct_ltv ct)) (lt_cms (ct_ltv ct)) (creation_environment ct) inputs (w, \<lambda>_. None)"
  from assms have run: "?run = (Ok acquired, (w', harvests))"
    by (auto simp: acquire_harvesting_def result_simps split: prod.splits)
  then show "\<exists>w''. ?run = (Ok acquired, w'')" by blast
  obtain resolved where resolved: "resolve_selections inputs = Ok resolved"
    and sites: "acquire_sites (lt_pki (ct_ltv ct)) (lt_cms (ct_ltv ct)) (creation_environment ct) inputs (w, \<lambda>_. None) [] [] resolved =
      (Ok (acq_tokens acquired, acq_warnings acquired), (w', harvests))"
    using run by (auto simp: acquire_run_def split: sum.splits prod.splits if_splits)
  from resolve_selections_Ok[OF resolved] obtain chosen :: profile where chosen: "map fst resolved = selections chosen"
    "distinct (map us_site_name (selections chosen))" by (elim exE conjE)
  then have distinct: "distinct (map (us_site_name \<circ> fst) resolved)" by (metis map_map)
  from acquire_sites_harvested[OF sites distinct]
  show "\<forall>t \<in> set (acq_tokens acquired). harvested (ct_ltv ct) harvests (at_site_name t) (at_bytes t)" by simp
  from acquire_sites_Ok[OF sites] chosen(1)
  have "sorted_out (lt_pki (ct_ltv ct)) (lt_cms (ct_ltv ct)) inputs (selections chosen) (acq_tokens acquired) (acq_warnings acquired)"
    by simp
  from sorted_out_names[OF this chosen(2)] chosen(2) show "distinct (map at_site_name (acq_tokens acquired))" by simp
qed

section \<open>The branch moves last\<close>

interpretation creating: state_preorder "\<lambda>s t. adds_objects g gw (fst s) (fst t)" for g gw
  by unfold_locales (simp, rule adds_objects_trans)

lemma apply_ltv_records_adds:
  assumes "sound_writer g gw"
  shows "act_within (adds_objects g gw) (apply_ltv_records gw base_tree_id records)"
  unfolding apply_ltv_records_def mirror_file_def
  by (cases "lr_chains records = [] \<and> lr_crls records = []")
    (auto intro!: adding.bound adding.pure adding.renamed adding.folded adding_writes[OF assms])

lemma prepare_adds:
  assumes "sound_writer (ct_gix ct) (ct_writer ct)"
  shows "act_within (\<lambda>s t. adds_objects (ct_gix ct) (ct_writer ct) (fst s) (fst t)) (prepare ct inputs)"
  unfolding prepare_def
  by (intro creating.bound creating.pure creating.renamed adding.on_parts apply_ltv_records_adds[OF assms])

text \<open>What comes before the seal, once the manifest is fixed.\<close>

definition gather_tokens ::
  "('r, 'ed, 'w, 'resp, 'a) creator \<Rightarrow> create_inputs \<Rightarrow> string \<Rightarrow> ltv_records \<Rightarrow> config \<Rightarrow> string
    \<Rightarrow> (('r, 'w) creation, create_error, acquisition) action" where
  "gather_tokens ct inputs worktree records cfg manifest_text =
     act_bind (on_snd (on_snd (acquire_harvesting ct (creation_acquires inputs records cfg manifest_text))))
       (\<lambda>(acquired, harvests).
     act_bind (on_snd (on_fst (act_fold (deposit_harvest (ct_ltv ct) worktree) harvests (acq_tokens acquired)))) (\<lambda>_.
     act_return acquired))"

lemma seal_manifest_parts:
  "seal_manifest ct inputs worktree records content_tree_id cfg manifest_text =
     act_bind (gather_tokens ct inputs worktree records cfg manifest_text) (\<lambda>acquired.
     act_bind (act_map_err SealFailure (on_fst (seal_run (ct_writer ct)
       (sealing_of inputs (ct_digests ct) content_tree_id manifest_text (acq_tokens acquired))))) (\<lambda>commit_id.
     act_return \<lparr>cs_commit_id = commit_id, cs_manifest_hashes = hash_payload (ct_digests ct) manifest_text,
       cs_warnings = acq_warnings acquired\<rparr>))"
  unfolding seal_manifest_def gather_tokens_def
  by (rule ext) (simp add: act_bind_def act_return_def split: prod.split sum.split)

lemma gather_tokens_repository: "gather_tokens ct inputs worktree records cfg manifest_text s = (x, t) \<Longrightarrow> fst t = fst s"
  by (auto simp: gather_tokens_def act_bind_def act_return_def on_snd_def split: prod.splits sum.splits)

text \<open>How a run of the flow ends.\<close>

lemma create_run_cases:
  assumes "create_run ct inputs s = Some (outcome, s')"
  obtains (Early) e where "prepare ct inputs s = (Err e, s')" "outcome = Err e"
  | (Unfixed) worktree records content_tree_id cfg e where "prepare ct inputs s = (Ok (worktree, records, content_tree_id, cfg), s')"
      "fix_manifest ct inputs content_tree_id (fst s') = Some (Err e)" "outcome = Err e"
  | (Ungathered) worktree records content_tree_id cfg s1 manifest_text e where
      "prepare ct inputs s = (Ok (worktree, records, content_tree_id, cfg), s1)"
      "fix_manifest ct inputs content_tree_id (fst s1) = Some (Ok manifest_text)"
      "gather_tokens ct inputs worktree records cfg manifest_text s1 = (Err e, s')" "outcome = Err e"
  | (Sealing) worktree records content_tree_id cfg s1 manifest_text acquired s2 x r where
      "prepare ct inputs s = (Ok (worktree, records, content_tree_id, cfg), s1)"
      "fix_manifest ct inputs content_tree_id (fst s1) = Some (Ok manifest_text)"
      "gather_tokens ct inputs worktree records cfg manifest_text s1 = (Ok acquired, s2)"
      "seal_run (ct_writer ct) (sealing_of inputs (ct_digests ct) content_tree_id manifest_text (acq_tokens acquired)) (fst s2) = (x, r)"
      "s' = (r, snd s2)"
      "outcome = (case x of Err e \<Rightarrow> Err (SealFailure e) | Ok commit_id \<Rightarrow> Ok \<lparr>cs_commit_id = commit_id,
         cs_manifest_hashes = hash_payload (ct_digests ct) manifest_text, cs_warnings = acq_warnings acquired\<rparr>)"
proof -
  obtain prepared s1 where prepared: "prepare ct inputs s = (prepared, s1)" by (metis surj_pair)
  show ?thesis
  proof (cases prepared)
    case (Inl e)
    with assms prepared Early show ?thesis by (simp add: create_run_def)
  next
    case (Inr parts)
    then obtain worktree records content_tree_id cfg where parts: "prepared = Ok (worktree, records, content_tree_id, cfg)"
      by (cases parts) auto
    with assms prepared obtain fixed where fixed: "fix_manifest ct inputs content_tree_id (fst s1) = Some fixed"
      and rest: "act_bind (act_lift fixed) (seal_manifest ct inputs worktree records content_tree_id cfg) s1 = (outcome, s')"
      by (auto simp: create_run_def)
    show ?thesis
    proof (cases fixed)
      case (Inl e)
      with Unfixed[of worktree records content_tree_id cfg e] rest prepared parts fixed show ?thesis
        by (simp add: act_bind_def act_lift_def)
    next
      case (Inr manifest_text)
      obtain gathered s2 where gathered: "gather_tokens ct inputs worktree records cfg manifest_text s1 = (gathered, s2)"
        by (metis surj_pair)
      show ?thesis
      proof (cases gathered)
        case (Inl e)
        with Ungathered[of worktree records content_tree_id cfg s1 manifest_text e] rest prepared parts fixed gathered
          \<open>fixed = Ok manifest_text\<close> show ?thesis
          by (simp add: act_bind_def act_lift_def seal_manifest_parts)
      next
        case (Inr acquired)
        obtain x r where "seal_run (ct_writer ct) (sealing_of inputs (ct_digests ct) content_tree_id manifest_text (acq_tokens acquired))
          (fst s2) = (x, r)" by (metis surj_pair)
        with Sealing[of worktree records content_tree_id cfg s1 manifest_text acquired s2 x r] rest prepared parts fixed gathered
          \<open>fixed = Ok manifest_text\<close> Inr show ?thesis
          by (cases x) (auto simp: act_bind_def act_lift_def act_return_def act_map_err_def on_fst_def seal_manifest_parts)
      qed
    qed
  qed
qed

lemma create_run_references:
  assumes "sound_writer (ct_gix ct) (ct_writer ct)" "create_run ct inputs s = Some (outcome, s')"
  shows "extends (gx_objects (ct_gix ct) (fst s)) (gx_objects (ct_gix ct) (fst s')) \<and>
    (case outcome of
       Err _ \<Rightarrow> references (ct_writer ct) (fst s') = references (ct_writer ct) (fst s)
     | Ok created \<Rightarrow> \<exists>name. full_name (ct_writer ct) (cr_reference_name inputs) = Ok name \<and>
         references (ct_writer ct) (fst s') = (references (ct_writer ct) (fst s))(name := Some (cs_commit_id created)) \<and>
         expectation_holds (cr_expected inputs) (references (ct_writer ct) (fst s) name))"
  using assms(2)
proof (cases rule: create_run_cases)
  case (Early e)
  with act_withinD[OF prepare_adds[OF assms(1)] Early(1)] show ?thesis by (simp add: adds_objects_def)
next
  case (Unfixed worktree records content_tree_id cfg e)
  with act_withinD[OF prepare_adds[OF assms(1)] Unfixed(1)] show ?thesis by (simp add: adds_objects_def)
next
  case (Ungathered worktree records content_tree_id cfg s1 manifest_text e)
  with act_withinD[OF prepare_adds[OF assms(1)] Ungathered(1)] gather_tokens_repository[OF Ungathered(3)]
  show ?thesis by (simp add: adds_objects_def)
next
  case (Sealing worktree records content_tree_id cfg s1 manifest_text acquired s2 x r)
  have before: "adds_objects (ct_gix ct) (ct_writer ct) (fst s) (fst s2)"
    using act_withinD[OF prepare_adds[OF assms(1)] Sealing(1)] gather_tokens_repository[OF Sealing(3)] by simp
  from seal_run_references[OF assms(1) Sealing(4)] before Sealing(5,6) show ?thesis
    by (cases x) (auto simp: adds_objects_def sealing_of_def intro: extends_trans)
qed

text \<open>C9: the stamp lands last or not at all: when creating a stamp fails at any step, every reference of the repository
  stands as before; when it succeeds, exactly the named branch moved, to the new commit, and it held what the caller
  expected. Either way no object is lost.\<close>

theorem create_moves_branch_last:
  assumes "sound_writer (ct_gix ct) (ct_writer ct)" "create_run ct inputs s = Some (outcome, s')"
  shows "extends (gx_objects (ct_gix ct) (fst s)) (gx_objects (ct_gix ct) (fst s')) \<and>
    (case outcome of
       Err _ \<Rightarrow> references (ct_writer ct) (fst s') = references (ct_writer ct) (fst s)
     | Ok created \<Rightarrow> \<exists>name. full_name (ct_writer ct) (cr_reference_name inputs) = Ok name \<and>
         references (ct_writer ct) (fst s') = (references (ct_writer ct) (fst s))(name := Some (cs_commit_id created)) \<and>
         expectation_holds (cr_expected inputs) (references (ct_writer ct) (fst s) name))"
  using create_run_references[OF assms] .

section \<open>What lands on disk\<close>

definition record_paths :: "string \<Rightarrow> harvest \<Rightarrow> string set" where
  "record_paths worktree h = insert (path_join worktree (chain_repository_path h))
     ((\<lambda>crl. path_join worktree (crl_record_path crl)) ` set (fetched_crls h))"

lemma ltv_record_kept:
  assumes "record_paths worktree h \<subseteq> paths"
  shows "act_within (kept_outside paths) (ltv_record tools worktree h)"
proof -
  have "act_within (kept_outside paths) (materialize_record_directories tools worktree)"
    unfolding materialize_record_directories_def Let_def
    by (intro disk.folded disk.renamed writes_kept)
  moreover have "act_within (kept_outside paths) (write_text_file tools (path_join worktree (chain_repository_path h)) (chain_pem_text h))"
    using assms unfolding write_text_file_def record_paths_def by (intro disk.renamed writes_kept) auto
  moreover have "act_within (kept_outside paths) (record_chain_crls tools worktree (fetched_crls h))"
    using assms unfolding record_chain_crls_def write_text_file_def record_paths_def
    by (intro disk.folded disk.bound disk.pure disk.renamed writes_kept) auto
  ultimately show ?thesis unfolding ltv_record_def by (intro disk.bound disk.pure)
qed

text \<open>Depositing the harvests of distinct sites never panics, and writes to their record paths only.\<close>

lemma deposits_kept:
  assumes "act_fold (deposit_harvest tools worktree) harvests tokens fs = (x, fs')" "distinct (map at_site_name tokens)"
    and "\<forall>t \<in> set tokens. \<exists>h. harvests (at_site_name t) = Some h \<and> record_paths worktree h \<subseteq> paths"
  shows "kept_outside paths fs fs' \<and> x \<noteq> Err CreatePanic"
  using assms
proof (induction tokens arbitrary: harvests fs)
  case (Cons t tokens)
  from Cons.prems(3) obtain h where h: "harvests (at_site_name t) = Some h" "record_paths worktree h \<subseteq> paths" by auto
  obtain y fs1 where recorded: "ltv_record tools worktree h fs = (y, fs1)" by (metis surj_pair)
  have first: "kept_outside paths fs fs1" by (rule act_withinD[OF ltv_record_kept[OF h(2)] recorded])
  show ?case
  proof (cases y)
    case (Inl e)
    with Cons.prems(1) h recorded first show ?thesis
      by (auto simp: deposit_harvest_def action_defs)
  next
    case (Inr u)
    with h recorded have "deposit_harvest tools worktree harvests t fs = (Ok (harvests(at_site_name t := None)), fs1)"
      by (simp add: deposit_harvest_def action_defs)
    with Cons.prems(1) have rest:
      "act_fold (deposit_harvest tools worktree) (harvests(at_site_name t := None)) tokens fs1 = (x, fs')"
      by (simp add: act_bind_def)
    have "kept_outside paths fs1 fs' \<and> x \<noteq> Err CreatePanic"
      by (rule Cons.IH[OF rest]) (use Cons.prems(2,3) in \<open>auto simp: image_iff\<close>)
    with first show ?thesis using disk.transitive by blast
  qed
qed (auto simp: act_return_def disk.reflexive)

lemma deposits_fail:
  "act_fold (deposit_harvest tools worktree) harvests tokens fs = (Err e, fs') \<Longrightarrow> e = CreatePanic \<or> (\<exists>d. e = LtvFailure d)"
proof (induction tokens arbitrary: harvests fs)
  case (Cons t tokens)
  then show ?case
    by (auto simp: act_bind_Err deposit_harvest_def act_map_err_Err act_lift_eq act_return_eq result_simps)
qed (simp add: act_return_def)

lemma acquired_sealable:
  assumes "acquire_run p c env inputs w = (Ok acquired, w')" "t \<in> set (acq_tokens acquired)"
  shows "sealable p c inputs (at_bytes t)"
proof -
  obtain resolved where "acquire_sites p c env inputs w [] [] resolved = (Ok (acq_tokens acquired, acq_warnings acquired), w')"
    using assms(1) by (auto simp: acquire_run_def split: sum.splits prod.splits if_splits)
  from acquire_sites_Ok[OF this] sorted_out_sealable assms(2) show ?thesis by fastforce
qed

text \<open>The paths an acquisition may write: the records of harvests of tokens that verified over the manifest.\<close>

definition verified_records ::
  "('w, 'resp) ltv_tools \<Rightarrow> string \<Rightarrow> acquire_inputs \<Rightarrow> string set" where
  "verified_records tools worktree inputs =
     {path. \<exists>token_bytes h w w'. sealable (lt_pki tools) (lt_cms tools) inputs token_bytes \<and>
        ltv_harvest tools token_bytes w = (Ok h, w') \<and> path \<in> record_paths worktree h}"

lemma gather_tokens_kept:
  assumes "gather_tokens ct inputs worktree records cfg manifest_text s = (x, t)"
  shows "kept_outside (verified_records (ct_ltv ct) worktree (creation_acquires inputs records cfg manifest_text))
      (fst (snd s)) (fst (snd t)) \<and> x \<noteq> Err CreatePanic \<and>
    (\<forall>e. x = Err (AcquireFailure e) \<longrightarrow> fst (snd t) = fst (snd s))"
proof -
  let ?inputs = "creation_acquires inputs records cfg manifest_text"
  obtain r fs w where s: "s = (r, fs, w)" by (metis prod_cases3)
  obtain y w1 where acquiring: "acquire_harvesting ct ?inputs w = (y, w1)" by (metis surj_pair)
  show ?thesis
  proof (cases y)
    case (Inl e)
    with acquiring have "\<exists>d. e = AcquireFailure d" by (auto simp: acquire_harvesting_def result_simps split: prod.splits)
    with assms s acquiring Inl show ?thesis
      by (auto simp: gather_tokens_def act_bind_def on_snd_def disk.reflexive)
  next
    case (Inr parts)
    then obtain acquired harvests where y: "y = Ok (acquired, harvests)" by (cases parts) auto
    note A = acquire_harvesting_Ok[OF acquiring[unfolded y]]
    obtain z fs1 where deposits: "act_fold (deposit_harvest (ct_ltv ct) worktree) harvests (acq_tokens acquired) fs = (z, fs1)"
      by (metis surj_pair)
    have t: "t = (r, fs1, w1)" "x = (case z of Err e \<Rightarrow> Err e | Ok _ \<Rightarrow> Ok acquired)"
      using assms s acquiring y deposits
      by (auto simp: gather_tokens_def action_defs split: sum.splits)
    from A(3) obtain w2 where run: "acquire_run (lt_pki (ct_ltv ct)) (lt_cms (ct_ltv ct)) (creation_environment ct) ?inputs
      (w, \<lambda>_. None) = (Ok acquired, w2)" by blast
    have "\<forall>t \<in> set (acq_tokens acquired). \<exists>h. harvests (at_site_name t) = Some h \<and>
        record_paths worktree h \<subseteq> verified_records (ct_ltv ct) worktree ?inputs"
      using A(1) acquired_sealable[OF run] unfolding harvested_def verified_records_def by blast
    from deposits_kept[OF deposits A(2) this] have kept: "kept_outside (verified_records (ct_ltv ct) worktree ?inputs) fs fs1"
      and "z \<noteq> Err CreatePanic" by simp_all
    moreover have "\<forall>e. z \<noteq> Err (AcquireFailure e)" using deposits_fail deposits by blast
    ultimately show ?thesis by (cases z) (auto simp: s t)
  qed
qed

lemma apply_ltv_records_fail:
  assumes "apply_ltv_records gw base_tree_id records r = (Err e, r')"
  shows "\<exists>cause. e = CreateObjectAccess cause"
proof -
  have loop: "act_fold (mirror_file gw) editor files r = (Err e, r') \<Longrightarrow> \<exists>cause. e = CreateObjectAccess cause" for editor files r
    by (induction files arbitrary: editor r)
      (auto simp: act_bind_Err mirror_file_def act_map_err_Err act_lift_eq act_return_eq result_simps)
  from assms show ?thesis
    by (auto simp: apply_ltv_records_def act_bind_Err act_map_err_Err act_return_eq result_simps dest: loop split: if_splits)
qed

lemma read_config_fail: "read_config objects i \<noteq> Err CreatePanic" "read_config objects i \<noteq> Err (AcquireFailure d)"
  by (auto simp: read_config_def result_simps split: if_splits)

text \<open>C10: only verified material becomes a record: creating a stamp changes no file outside the refresh of the records
  on disk but the records harvested from tokens that verified over the manifest being stamped; a refused token leaves
  none, and when the acquisition fails the working tree stands as the refresh left it. The harvest the code expects
  for every acquired token is there: it never panics.\<close>

theorem only_verified_material_is_recorded:
  assumes "create_run ct inputs (r, fs, w) = Some (outcome, (r', fs', w'))"
    and "gx_workdir (ct_gix ct) r = Some worktree"
    and "ltv_refresh (ct_ltv ct) worktree (fs, w) = (refresh, (fs1, w1))"
  shows "outcome \<noteq> Err CreatePanic \<and> (\<forall>e. outcome = Err (AcquireFailure e) \<longrightarrow> fs' = fs1) \<and>
    (\<forall>path. file_content fs' path \<noteq> file_content fs1 path \<longrightarrow>
      (\<exists>records cfg manifest_text. refresh = Ok records \<and>
         path \<in> verified_records (ct_ltv ct) worktree (creation_acquires inputs records cfg manifest_text)))"
proof -
  have prepared: "fst (snd s1) = fs1 \<and> x \<noteq> Err CreatePanic \<and> (\<forall>e. x \<noteq> Err (AcquireFailure e)) \<and>
      (\<forall>wt records content_tree_id cfg. x = Ok (wt, records, content_tree_id, cfg) \<longrightarrow> wt = worktree \<and> refresh = Ok records)"
    if "prepare ct inputs (r, fs, w) = (x, s1)" for x s1
  proof (cases refresh)
    case (Inl e)
    with that assms(2,3) show ?thesis
      by (auto simp: prepare_def act_bind_def on_snd_def act_map_err_def)
  next
    case (Inr records)
    obtain y r1 where applied: "apply_ltv_records (ct_writer ct) (cr_base_tree_id inputs) records r = (y, r1)" by (metis surj_pair)
    then have parts: "prepare ct inputs (r, fs, w) = (case y of Err e \<Rightarrow> (Err e, (r1, fs1, w1))
      | Ok content_tree_id \<Rightarrow> (case read_config (gx_objects (ct_gix ct) r1) content_tree_id of Err e \<Rightarrow> (Err e, (r1, fs1, w1))
          | Ok cfg \<Rightarrow> (Ok (worktree, records, content_tree_id, cfg), (r1, fs1, w1))))"
      using assms(2,3) Inr
      by (simp only: prepare_def act_bind_def on_snd_def on_fst_def act_map_err_def act_return_def fst_conv snd_conv prod.case
        ok_or_simps sum.case map_err_simps)
    have "\<exists>cause. e = CreateObjectAccess cause" if "y = Err e" for e
      using applied unfolding that by (rule apply_ltv_records_fail)
    with parts that Inr read_config_fail show ?thesis by (auto split: sum.splits)
  qed
  from assms(1) show ?thesis
  proof (cases rule: create_run_cases)
    case (Early e)
    with prepared[OF Early(1)] show ?thesis by auto
  next
    case (Unfixed wt records content_tree_id cfg e)
    have "e \<noteq> CreatePanic" "\<forall>d. e \<noteq> AcquireFailure d"
      using Unfixed(2) by (auto simp: fix_manifest_def result_simps split: option.splits sum.splits)
    with Unfixed prepared[OF Unfixed(1)] show ?thesis by auto
  next
    case (Ungathered wt records content_tree_id cfg s1 manifest_text e)
    with prepared[OF Ungathered(1)] gather_tokens_kept[OF Ungathered(3)] show ?thesis
      unfolding kept_outside_def by auto
  next
    case (Sealing wt records content_tree_id cfg s1 manifest_text acquired s2 x r2)
    have disk: "fst (snd s2) = fs'" "outcome \<noteq> Err CreatePanic" "\<forall>e. outcome \<noteq> Err (AcquireFailure e)"
      using Sealing(5,6) by (auto simp: prod_eq_iff split: sum.splits)
    with prepared[OF Sealing(1)] gather_tokens_kept[OF Sealing(3)] show ?thesis
      unfolding kept_outside_def by auto
  qed
qed

end
