(* ===== verification/Create_Verified.thy ===== *)
theory Create_Verified
  imports Create Bind_Verified Snapshot_Types
begin

text \<open>
  Stamping against verification: the manifest that \<open>stamp/create.rs\<close> fixes is read back by the parser, its groups link
  to the stamps they bind, and what is sealed passes \<open>verify_stamp\<close> on the content that was stamped.
\<close>

section \<open>A serialised manifest reads back\<close>

lemma concat_utf8: "(\<forall>w \<in> set ws. is_utf8 w) \<Longrightarrow> is_utf8 (concat ws)"
  by (induction ws) (auto intro: is_utf8_append)

lemma spaced_utf8: "(\<forall>w \<in> set ws. is_utf8 w) \<Longrightarrow> is_utf8 (spaced ws)"
proof (induction ws)
  case (Cons w ws)
  have "is_utf8 '' ''" by (rule is_utf8_ascii) simp
  with Cons show ?case by (cases "ws = []") (auto simp: join_Cons intro!: is_utf8_append[of w] is_utf8_append[of "'' ''", simplified])
qed simp

lemma text_of_utf8: "(\<forall>l \<in> set ls. is_utf8 l) \<Longrightarrow> is_utf8 (text_of ls)"
proof -
  have "is_utf8 [CHR 0x0A]" by (rule is_utf8_ascii) simp
  then show "(\<forall>l \<in> set ls. is_utf8 l) \<Longrightarrow> is_utf8 (text_of ls)"
    unfolding text_of_def by (intro concat_utf8) (auto intro: is_utf8_append)
qed

lemma graphic_utf8: "(\<forall>b \<in> set s. is_ascii_graphic b) \<Longrightarrow> is_utf8 s"
  by (rule is_utf8_ascii) (auto simp: is_ascii_graphic_def byte_le_iff)

lemma bare_token_utf8: "is_bare_token s \<Longrightarrow> is_utf8 s"
  by (rule graphic_utf8) (auto simp: is_bare_token_def list_all_iff)

lemma hash_fields_utf8: "w \<in> set (hash_fields_of h) \<Longrightarrow> is_utf8 w"
proof -
  have "is_utf8 ''sha256:''" "is_utf8 ''sha3-256:''" by (rule is_utf8_ascii, simp)+
  then have "is_utf8 (''sha256:'' @ hex_encode LOWERCASE bs)" "is_utf8 (''sha3-256:'' @ hex_encode LOWERCASE bs)" for bs
    using hex_lower_graphic by (blast intro: is_utf8_append graphic_utf8)+
  moreover assume "w \<in> set (hash_fields_of h)"
  ultimately show "is_utf8 w" unfolding hash_fields_of_def by auto
qed

lemma decimal_utf8: "is_utf8 (decimal n)"
  by (rule graphic_utf8) (auto dest!: decimal_digits simp: is_ascii_digit_def is_ascii_graphic_def byte_le_iff)

lemma words_utf8 [simp]:
  "is_utf8 ''entry''" "is_utf8 ''--path''" "is_utf8 ''--mode''" "is_utf8 ''--size''" "is_utf8 ''--''" "is_utf8 ''parents''"
  "is_utf8 ''predecessor''" "is_utf8 ''--commit''" "is_utf8 ''past-manifest''" "is_utf8 ''past-token''" "is_utf8 ''--spec''"
  "is_utf8 ''--site''" "is_utf8 ''tydence-manifest/v1''"
  by (rule is_utf8_ascii, simp)+

lemma file_mode_utf8: "is_utf8 (file_mode_str mode)"
  by (rule is_utf8_ascii) (cases mode, simp_all)

lemma record_lines_utf8:
  assumes "ascii_table table" "printable m" "l \<in> set (record_lines table m)"
  shows "is_utf8 l"
proof -
  have entry: "is_utf8 (entry_line table e)" for e
    unfolding entry_line_tokens entry_tokens_def
    by (rule spaced_utf8) (auto simp: encode_path_utf8[OF assms(1)] hash_fields_utf8 decimal_utf8 file_mode_utf8)
  have group: "is_utf8 l" if "printable_group g" "l \<in> set (group_lines table g)" for g l
  proof -
    have "\<forall>w \<in> set (predecessor_tokens table (bg_commit g) origin). is_utf8 w" "\<forall>w \<in> set (past_manifest_tokens g). is_utf8 w"
      "t \<in> set (bg_tokens g) \<Longrightarrow> \<forall>w \<in> set (past_token_tokens (bg_commit g) t). is_utf8 w" for origin t
      using that(1) by (auto simp: predecessor_tokens_def past_manifest_tokens_def past_token_tokens_def printable_group_def
        encode_path_utf8[OF assms(1)] hash_fields_utf8 bare_token_utf8)
    with that(2) show ?thesis
      unfolding group_lines_def by (auto intro!: spaced_utf8 split: option.splits)
  qed
  have "is_utf8 l" if "l \<in> set (parents_lines (parents m))"
  proof -
    have "is_utf8 (spaced (''parents'' # ''--'' # parents m))"
      by (rule spaced_utf8) (use assms(2) in \<open>auto simp: printable_def list_all_iff bare_token_utf8\<close>)
    with that show ?thesis unfolding parents_lines_def by (simp split: if_splits)
  qed
  with assms(2,3) entry group show ?thesis
    by (auto simp: record_lines_def printable_def list_all_iff)
qed

lemma serialize_utf8: "ascii_table table \<Longrightarrow> serialize table m = Ok text \<Longrightarrow> is_utf8 text"
  unfolding serialize_Ok by (elim conjE, hypsubst, rule text_of_utf8) (use record_lines_utf8 words_utf8 in auto)

lemma parse_serialized:
  assumes "ascii_table table" "serialize table m = Ok manifest_text" "fields_ok m" "covers_once m"
  shows "parse_manifest table manifest_text = Ok (canonical_form table m)"
proof -
  have "lines_sorted table (canonical_form table m)"
    by (auto simp: lines_sorted_def canonical_form_def ordered_tokens_def)
  moreover have "covers_once (canonical_form table m)"
    using assms(4) by (auto simp: covers_once_def canonical_form_def list_all_iff one_token_per_site_def ordered_tokens_def comp_def
      distinct_map)
  ultimately have "canonical_manifest table (canonical_form table m)"
    using fields_ok_canonical_form[OF assms(3)] by (simp add: canonical_manifest_def)
  from accepts_canonical[OF assms(1) this] assms(2) show ?thesis
    by (simp add: serialize_Ok record_lines_canonical_form)
qed

section \<open>Claims stay readable\<close>

lemma read_claim_extends:
  assumes "extends o1 o2" "read_claim_artifacts o1 c = Ok artifacts"
  shows "read_claim_artifacts o2 c = Ok artifacts"
proof -
  from assms(2) obtain tree e where tree: "tree_of o1 c = Ok tree" and e: "gt_lookup tree MANIFEST_PATH = Ok (Some e)"
    "te_mode e = REGULAR_FILE_MODE" "gr_find_blob o1 (te_object_id e) = Ok (ca_manifest_bytes artifacts)"
    and tokens: "read_token_files o1 tree c = Ok (ca_tokens artifacts)"
    by (auto simp: read_claim_artifacts_def find_manifest_entry_def result_simps split: if_splits)
  from tree extendsD(3)[OF assms(1)] have tree2: "tree_of o2 c = Ok tree"
    by (auto simp: tree_of_def result_simps same_commit_def) metis
  have "token_file_of o2 c x = Ok f" if "token_file_of o1 c x = Ok f" for x f
    using that extendsD(1)[OF assms(1)] by (auto simp: token_file_of_Ok)
  then have "traverse (token_file_of o2 c) xs = Ok fs" if "traverse (token_file_of o1 c) xs = Ok fs" for xs fs
    using that unfolding traverse_eq_Inr by (auto elim!: list_all2_mono)
  moreover obtain maybe where "gt_lookup tree TOKENS_PATH = Ok maybe"
    using tokens by (auto simp: read_token_files_def result_simps)
  ultimately have "read_token_files o2 tree c = Ok (ca_tokens artifacts)"
    using tokens extendsD(2,4)[OF assms(1)]
    by (cases maybe) (auto simp: read_token_files_def result_simps try_fold_collect[OF read_token_file_step] split: if_splits)
  with tree2 e extendsD(1)[OF assms(1)] show ?thesis
    by (simp add: read_claim_artifacts_def find_manifest_entry_def)
qed

section \<open>The manifest of a new stamp\<close>

lemma bound_groups_link:
  assumes bound: "bind_stamps r table d parent_ids = Some (Ok groups)"
    and hex: "\<And>g. g \<in> set groups \<Longrightarrow> from_hex (bg_commit g) = Ok (bg_commit g)"
    and names: "\<And>g. g \<in> set groups \<Longrightarrow> distinct (map te_filename (token_entries r (bg_commit g)))"
  obtains artifacts_of where "verify_binding_linkage d groups (map (\<lambda>g. bound_stamp_of (artifacts_of g)) groups) = Ok ()"
    "\<And>g. g \<in> set groups \<Longrightarrow> read_claim_artifacts r (bg_commit g) = Ok (artifacts_of g)"
    "\<And>g. g \<in> set groups \<Longrightarrow> g = bound_group_of d (bg_commit g) (artifacts_of g)"
    "\<And>g. g \<in> set groups \<Longrightarrow> distinct (map tf_site (ca_tokens (artifacts_of g)))"
proof -
  have "\<exists>artifacts. read_claim_artifacts r (bg_commit g) = Ok artifacts \<and> g = bound_group_of d (bg_commit g) artifacts \<and>
      distinct (map tf_site (ca_tokens artifacts))" if "g \<in> set groups" for g
    using bound_groups(2)[OF bound that] artifact_sites_distinct names[OF that] unfolding bindable_def by blast
  then obtain artifacts_of where "\<And>g. g \<in> set groups \<Longrightarrow> read_claim_artifacts r (bg_commit g) = Ok (artifacts_of g) \<and>
      g = bound_group_of d (bg_commit g) (artifacts_of g) \<and> distinct (map tf_site (ca_tokens (artifacts_of g)))"
    by metis
  with linkage_of_bound_groups[of groups r artifacts_of d] that[of artifacts_of] show thesis by blast
qed

lemma new_manifest_fields:
  assumes "digests_ok d" "serialize table \<lparr>parents = ps, binding_groups = groups, entries = es\<rparr> = Ok manifest_text"
    and "list_all entry_ok es" "distinct (map entry_path es)" "distinct (map (\<lambda>g. sha256 (manifest_hashes g)) groups)"
    and bound: "\<And>g. g \<in> set groups \<Longrightarrow> g = bound_group_of d (bg_commit g) (artifacts_of g)"
    and sites: "\<And>g. g \<in> set groups \<Longrightarrow> distinct (map tf_site (ca_tokens (artifacts_of g)))"
  shows "fields_ok \<lparr>parents = ps, binding_groups = groups, entries = es\<rparr> \<and>
    covers_once \<lparr>parents = ps, binding_groups = groups, entries = es\<rparr>"
proof -
  have printable: "list_all is_bare_token ps" "\<And>g. g \<in> set groups \<Longrightarrow> printable_group g"
    using assms(2) by (auto simp: serialize_Ok printable_def list_all_iff)
  have "group_fields_ok g \<and> one_token_per_site g" if g: "g \<in> set groups" for g
  proof -
    let ?a = "artifacts_of g"
    have parts: "predecessor_origin g = None" "manifest_hashes g = hash_payload d (ca_manifest_bytes ?a)"
      "bg_tokens g = map (past_token_of d) (ca_tokens ?a)"
      by (subst bound[OF g], simp add: bound_group_of_def)+
    have "distinct (map token_key (bg_tokens g))"
      using sites[OF g] unfolding parts(3) by (simp add: comp_def token_key_def past_token_of_def distinct_map inj_on_def)
    moreover have "list_all token_ok (bg_tokens g)"
      using printable(2)[OF g] unfolding printable_group_def parts(3)
      by (auto simp: list_all_iff token_ok_def past_token_of_def hash_payload_ok[OF assms(1)])
    ultimately show ?thesis
      using printable(2)[OF g] parts(1,2) hash_payload_ok[OF assms(1)]
      by (simp add: group_fields_ok_def one_token_per_site_def printable_group_def)
  qed
  with printable(1) assms(3-5) show ?thesis
    by (auto simp: fields_ok_def covers_once_def list_all_iff group_key_def[abs_def])
qed

section \<open>What was acquired can be sealed\<close>

lemma valid_name_seals: "is_valid_name n \<Longrightarrow> n \<noteq> [] \<and> CHR ''/'' \<notin> set n \<and> is_utf8 n"
proof (intro conjI)
  assume n: "is_valid_name n"
  then show "n \<noteq> []" by (simp add: is_valid_name_def)
  have chars: "\<forall>b \<in> set n. is_ascii_alphanumeric b \<or> b = CHR ''-'' \<or> b = CHR ''_''"
    using n by (simp add: is_valid_name_def list_all_iff)
  then show "CHR ''/'' \<notin> set n"
    by (auto simp: is_ascii_alphanumeric_def is_ascii_digit_def is_ascii_uppercase_def is_ascii_lowercase_def)
  from chars show "is_utf8 n"
    by (intro is_utf8_ascii) (auto simp: is_ascii_alphanumeric_def is_ascii_digit_def is_ascii_uppercase_def
      is_ascii_lowercase_def byte_le_iff)
qed

lemma acquired_names:
  assumes "acquire_run p c env inputs w = (Ok acquired, w')" "config_ok (ai_config inputs)"
  shows "sealable_names (acq_tokens acquired) \<and> acq_tokens acquired \<noteq> []"
proof -
  obtain resolved where resolved: "resolve_selections inputs = Ok resolved"
    and run: "acquire_sites p c env inputs w [] [] resolved = (Ok (acq_tokens acquired, acq_warnings acquired), w')"
    and some: "acq_tokens acquired \<noteq> []"
    using assms(1) by (auto simp: acquire_run_def split: sum.splits prod.splits if_splits)
  from resolve_selections_Ok[OF resolved] obtain chosen :: profile
    where chosen: "map fst resolved = selections chosen" "distinct (map us_site_name (selections chosen))"
      and known: "\<forall>(s, x) \<in> set resolved. sites (ai_config inputs) (us_site_name s) = Some x" by (elim exE conjE)
  have "sorted_out p c inputs (selections chosen) (acq_tokens acquired) (acq_warnings acquired)"
    using acquire_sites_Ok[OF run] chosen(1) by simp
  from sorted_out_names[OF this chosen(2)]
  have names: "map at_site_name (acq_tokens acquired) =
    filter (\<lambda>n. n \<notin> sf_site_name ` set (acq_warnings acquired)) (map us_site_name (selections chosen))" .
  have "is_valid_name (at_site_name t)" if "t \<in> set (acq_tokens acquired)" for t
  proof -
    have "at_site_name t \<in> set (map at_site_name (acq_tokens acquired))" using that by simp
    then obtain s where "s \<in> set (map fst resolved)" "at_site_name t = us_site_name s"
      unfolding names chosen(1) by auto
    with known assms(2) show ?thesis by (auto simp: config_ok_def site_ok_def)
  qed
  moreover have "distinct (map at_site_name (acq_tokens acquired))" unfolding names using chosen(2) by simp
  ultimately show ?thesis using some valid_name_seals by (auto simp: sealable_names_def)
qed

lemma prepare_Ok:
  assumes "prepare ct inputs s = (Ok (worktree, records, content_tree_id, cfg), s1)"
  shows "config_ok cfg"
proof -
  from assms have "read_config (gx_objects (ct_gix ct) (fst s1)) content_tree_id = Ok cfg"
    by (auto simp: prepare_def action_simps)
  then show ?thesis by (auto simp: read_config_def result_simps parse_config_ok split: if_splits)
qed

section \<open>The created stamp verifies\<close>

text \<open>The trust a token was accepted under before the seal.\<close>

definition sealing_trust :: "create_inputs \<Rightarrow> ltv_records \<Rightarrow> bytes list \<Rightarrow> trust_data" where
  "sealing_trust inputs records supplemented =
     \<lparr>td_anchor_certificates = cr_anchor_certificates inputs, td_companion_certificates = [],
      td_crls = map rcl_der_bytes (lr_crls records) @ supplemented\<rparr>"

lemma acquired_under_sealing_trust:
  assumes "sealable p c (creation_acquires inputs records cfg manifest_text) token_bytes"
  shows "\<exists>supplemented. is_ok (verify_token p c token_bytes
    \<lparr>vb_manifest_bytes = manifest_text, vb_trust = sealing_trust inputs records supplemented\<rparr>)"
  using assms by (simp add: sealable_def sealing_basis_def creation_acquires_def sealing_trust_def)

lemma create_run_seals:
  assumes created: "create_run ct inputs s = Some (Ok created, s')"
    and prepared: "prepare ct inputs s = (Ok (worktree, records, content_tree_id, cfg), s1)"
  obtains manifest_text acquired w w' where
    "fix_manifest ct inputs content_tree_id (fst s1) = Some (Ok manifest_text)"
    "acquire_run (lt_pki (ct_ltv ct)) (lt_cms (ct_ltv ct)) (creation_environment ct)
       (creation_acquires inputs records cfg manifest_text) w = (Ok acquired, w')"
    "sealable_names (acq_tokens acquired)" "acq_tokens acquired \<noteq> []"
    "seal_run (ct_writer ct) (sealing_of inputs (ct_digests ct) content_tree_id manifest_text (acq_tokens acquired)) (fst s1)
       = (Ok (cs_commit_id created), fst s')"
    "cs_manifest_hashes created = hash_payload (ct_digests ct) manifest_text"
proof -
  from created obtain manifest_text acquired s2 r commit_id where
    fixed: "fix_manifest ct inputs content_tree_id (fst s1) = Some (Ok manifest_text)"
    and gathered: "gather_tokens ct inputs worktree records cfg manifest_text s1 = (Ok acquired, s2)"
    and sealed: "seal_run (ct_writer ct) (sealing_of inputs (ct_digests ct) content_tree_id manifest_text (acq_tokens acquired)) (fst s2)
      = (Ok commit_id, r)"
    and s': "s' = (r, snd s2)" "created = \<lparr>cs_commit_id = commit_id, cs_manifest_hashes = hash_payload (ct_digests ct) manifest_text,
      cs_warnings = acq_warnings acquired\<rparr>"
    by (cases rule: create_run_cases) (use prepared in \<open>auto split: sum.splits\<close>)
  have repo: "fst s2 = fst s1" by (rule gather_tokens_repository[OF gathered])
  obtain harvests w w' where harvesting: "acquire_harvesting ct (creation_acquires inputs records cfg manifest_text) w = (Ok (acquired, harvests), w')"
    using gathered by (auto simp: gather_tokens_def action_simps)
  from acquire_harvesting_Ok(3)[OF harvesting] obtain w'' where
    run: "acquire_run (lt_pki (ct_ltv ct)) (lt_cms (ct_ltv ct)) (creation_environment ct)
      (creation_acquires inputs records cfg manifest_text) (w, \<lambda>_. None) = (Ok acquired, w'')"
    by (elim exE)
  have acquired: "sealable_names (acq_tokens acquired)" "acq_tokens acquired \<noteq> []"
    using acquired_names[OF run] prepare_Ok[OF prepared] by (simp_all add: creation_acquires_def)
  with that[OF fixed run] sealed s' repo show thesis by simp
qed

lemma create_run_parts:
  assumes sound: "sound_writer (ct_gix ct) (ct_writer ct)"
    and created: "create_run ct inputs s = Some (Ok created, s')"
    and prepared: "prepare ct inputs s = (Ok (worktree, records, content_tree_id, cfg), s1)"
  obtains manifest_text acquired w w' artifacts where
    "fix_manifest ct inputs content_tree_id (fst s1) = Some (Ok manifest_text)"
    "acquire_run (lt_pki (ct_ltv ct)) (lt_cms (ct_ltv ct)) (creation_environment ct)
       (creation_acquires inputs records cfg manifest_text) w = (Ok acquired, w')"
    "read_claim_artifacts (gx_objects (ct_gix ct) (fst s')) (cs_commit_id created) = Ok artifacts"
    "ca_manifest_bytes artifacts = manifest_text"
    "cs_manifest_hashes created = hash_payload (ct_digests ct) manifest_text"
    "(\<lambda>f. (tf_site f, tf_bytes f)) ` set (ca_tokens artifacts) = (\<lambda>t. (at_site_name t, at_bytes t)) ` set (acq_tokens acquired)"
    "acq_tokens acquired \<noteq> []"
    "extends (gx_objects (ct_gix ct) (fst s1)) (gx_objects (ct_gix ct) (fst s'))"
proof -
  let ?o1 = "gx_objects (ct_gix ct) (fst s1)" and ?o' = "gx_objects (ct_gix ct) (fst s')"
  let ?c = "cs_commit_id created"
  obtain manifest_text acquired w w' where
    fixed: "fix_manifest ct inputs content_tree_id (fst s1) = Some (Ok manifest_text)"
    and run: "acquire_run (lt_pki (ct_ltv ct)) (lt_cms (ct_ltv ct)) (creation_environment ct)
      (creation_acquires inputs records cfg manifest_text) w = (Ok acquired, w')"
    and acquired: "sealable_names (acq_tokens acquired)" "acq_tokens acquired \<noteq> []"
    and sealed: "seal_run (ct_writer ct) (sealing_of inputs (ct_digests ct) content_tree_id manifest_text (acq_tokens acquired)) (fst s1)
      = (Ok ?c, fst s')"
    and hashes: "cs_manifest_hashes created = hash_payload (ct_digests ct) manifest_text"
    by (rule create_run_seals[OF created prepared])
  have "sealable_names (sl_tokens (sealing_of inputs (ct_digests ct) content_tree_id manifest_text (acq_tokens acquired)))"
    using acquired(1) by (simp add: sealing_of_def)
  from seal_run_Ok[OF sound this sealed] obtain commit tree base ed where seal: "gr_find_commit ?o' ?c = Ok commit" "gc_tree commit = Ok tree"
    "reads_as ?o' tree (ed_files (ct_writer ct) ed)" "placed_artifacts (ct_writer ct) ?o' manifest_text (acq_tokens acquired) ed"
    unfolding sealing_of_def seal_inputs.simps by metis
  then have "tree_of ?o' ?c = Ok tree" by (simp add: tree_of_def)
  from placed_artifacts_read[OF this seal(3,4) acquired] obtain artifacts where
    artifacts: "read_claim_artifacts ?o' ?c = Ok artifacts" "ca_manifest_bytes artifacts = manifest_text"
    "(\<lambda>f. (tf_site f, tf_bytes f)) ` set (ca_tokens artifacts) = (\<lambda>t. (at_site_name t, at_bytes t)) ` set (acq_tokens acquired)"
    by blast
  have "extends ?o1 ?o'" using seal_run_references[OF sound sealed] by simp
  with that[OF fixed run artifacts(1,2) hashes artifacts(3) acquired(2)] show thesis by simp
qed

lemma bound_groups_resolve:
  assumes bound: "bind_stamps repo tab d pids = Some (Ok groups)" and ext: "extends repo repo'"
    and hex: "\<And>g. g \<in> set groups \<Longrightarrow> from_hex (bg_commit g) = Ok (bg_commit g)"
    and names: "\<And>g. g \<in> set groups \<Longrightarrow> distinct (map te_filename (token_entries repo (bg_commit g)))"
  obtains artifacts_of where
    "\<forall>g \<in> set groups. g = bound_group_of d (bg_commit g) (artifacts_of g)"
    "\<forall>g \<in> set groups. distinct (map tf_site (ca_tokens (artifacts_of g)))"
    "traverse (resolve_binding from_hex repo') (map (\<lambda>g. g\<lparr>bg_tokens := ordered_tokens (bg_tokens g)\<rparr>) groups) = Ok (map artifacts_of groups)"
    "verify_binding_linkage d (map (\<lambda>g. g\<lparr>bg_tokens := ordered_tokens (bg_tokens g)\<rparr>) groups)
      (map bound_stamp_of (map artifacts_of groups)) = Ok ()"
proof -
  obtain artifacts_of where link: "verify_binding_linkage d groups (map (\<lambda>g. bound_stamp_of (artifacts_of g)) groups) = Ok ()"
    and read: "\<And>g. g \<in> set groups \<Longrightarrow> read_claim_artifacts repo (bg_commit g) = Ok (artifacts_of g)"
    and group: "\<And>g. g \<in> set groups \<Longrightarrow> g = bound_group_of d (bg_commit g) (artifacts_of g)"
    and sites: "\<And>g. g \<in> set groups \<Longrightarrow> distinct (map tf_site (ca_tokens (artifacts_of g)))"
    using bound_groups_link[OF bound hex names] by metis
  have "resolve_binding from_hex repo' (g\<lparr>bg_tokens := ordered_tokens (bg_tokens g)\<rparr>) = Ok (artifacts_of g)" if g: "g \<in> set groups" for g
  proof -
    have "predecessor_origin g = None" by (subst group[OF g], simp add: bound_group_of_def)
    with hex[OF g] read_claim_extends[OF ext read[OF g]] show ?thesis by (simp add: resolve_binding_def)
  qed
  then have "traverse (resolve_binding from_hex repo') (map (\<lambda>g. g\<lparr>bg_tokens := ordered_tokens (bg_tokens g)\<rparr>) groups) = Ok (map artifacts_of groups)"
    by (simp add: traverse_eq_Inr list_all2_map1 list_all2_map2 list.rel_refl_strong)
  with that[of artifacts_of] group sites link show thesis by (simp add: verify_binding_linkage_Ok)
qed

text \<open>Against a tree that lists what was stamped, a created stamp verifies: read back from the new commit, its manifest is
  canonical and lists the content, its groups resolve in the repository and link to the stamps they bind, and at least
  one of its tokens is accepted, under the trust the stamping itself judged with.\<close>

lemma created_claim_verifies:
  assumes table: "ascii_table (ct_table ct)" and d: "digests_ok (ct_digests ct)"
    and sound: "sound_writer (ct_gix ct) (ct_writer ct)"
    and created: "create_run ct inputs s = Some (Ok created, s')"
    and prepared: "prepare ct inputs s = (Ok (worktree, records, content_tree_id, cfg), s1)"
    and snapshot: "snapshot_run (ct_gix ct) (ct_digests ct) (fst s1) content_tree_id = Some (Ok es)"
    and listing: "listed_soundly (ct_gix ct) (fst s1) content_tree_id"
    and bound: "bind_stamps (gx_objects (ct_gix ct) (fst s1)) (ct_table ct) (ct_digests ct) (cr_parent_ids inputs) = Some (Ok groups)"
    and hex: "\<And>g. g \<in> set groups \<Longrightarrow> from_hex (bg_commit g) = Ok (bg_commit g)"
    and names: "\<And>g. g \<in> set groups \<Longrightarrow> distinct (map te_filename (token_entries (gx_objects (ct_gix ct) (fst s1)) (bg_commit g)))"
    and distinct: "distinct (map (\<lambda>g. sha256 (manifest_hashes g)) groups)"
    and content: "set tree_entries = set es" "distinct (map entry_path tree_entries)"
  shows "\<exists>artifacts resolved supplemented.
    read_claim_artifacts (gx_objects (ct_gix ct) (fst s')) (cs_commit_id created) = Ok artifacts \<and>
    cs_manifest_hashes created = hash_payload (ct_digests ct) (ca_manifest_bytes artifacts) \<and>
    traverse (resolve_binding from_hex (gx_objects (ct_gix ct) (fst s')))
      (groups_to_resolve (ct_table ct) (ca_manifest_bytes artifacts)) = Ok resolved \<and>
    is_ok (verify_stamp (ct_table ct) (ct_digests ct) (lt_pki (ct_ltv ct)) (lt_cms (ct_ltv ct))
      (stamp_inputs_of artifacts tree_entries resolved (sealing_trust inputs records supplemented)))"
proof -
  let ?d = "ct_digests ct" and ?p = "lt_pki (ct_ltv ct)" and ?c = "lt_cms (ct_ltv ct)" and ?o' = "gx_objects (ct_gix ct) (fst s')"
  let ?m = "\<lparr>parents = cr_parent_ids inputs, binding_groups = groups, entries = es\<rparr>"
  let ?groups = "map (\<lambda>g. g\<lparr>bg_tokens := ordered_tokens (bg_tokens g)\<rparr>) groups"
  obtain manifest_text acquired w w' artifacts where
    fixed: "fix_manifest ct inputs content_tree_id (fst s1) = Some (Ok manifest_text)"
    and run: "acquire_run ?p ?c (creation_environment ct) (creation_acquires inputs records cfg manifest_text) w = (Ok acquired, w')"
    and artifacts: "read_claim_artifacts ?o' (cs_commit_id created) = Ok artifacts" "ca_manifest_bytes artifacts = manifest_text"
      "cs_manifest_hashes created = hash_payload ?d manifest_text"
      "(\<lambda>f. (tf_site f, tf_bytes f)) ` set (ca_tokens artifacts) = (\<lambda>t. (at_site_name t, at_bytes t)) ` set (acq_tokens acquired)"
    and acquired: "acq_tokens acquired \<noteq> []" and ext: "extends (gx_objects (ct_gix ct) (fst s1)) ?o'"
    by (rule create_run_parts[OF sound created prepared])
  from fixed snapshot bound have serialized: "serialize (ct_table ct) ?m = Ok manifest_text"
    by (simp add: fix_manifest_def result_simps)
  obtain artifacts_of where group: "\<forall>g \<in> set groups. g = bound_group_of ?d (bg_commit g) (artifacts_of g)"
    and sites: "\<forall>g \<in> set groups. distinct (map tf_site (ca_tokens (artifacts_of g)))"
    and resolved: "traverse (resolve_binding from_hex ?o') ?groups = Ok (map artifacts_of groups)"
    and linked: "verify_binding_linkage ?d ?groups (map bound_stamp_of (map artifacts_of groups)) = Ok ()"
    by (rule bound_groups_resolve[OF bound ext hex names])
  have es: "list_all entry_ok es" "distinct (map entry_path es)" using snapshot_typed[OF d listing snapshot] by simp_all
  have "fields_ok ?m" "covers_once ?m"
    using new_manifest_fields[OF d serialized es distinct bspec[OF group] bspec[OF sites]] by simp_all
  then have parsed: "parse_manifest (ct_table ct) manifest_text = Ok (canonical_form (ct_table ct) ?m)"
    by (rule parse_serialized[OF table serialized])
  have utf8: "is_utf8 manifest_text" by (rule serialize_utf8[OF table serialized])
  from acquired obtain t where t: "t \<in> set (acq_tokens acquired)" by (cases "acq_tokens acquired") auto
  obtain supplemented where
    accepted: "is_ok (verify_token ?p ?c (at_bytes t) \<lparr>vb_manifest_bytes = manifest_text, vb_trust = sealing_trust inputs records supplemented\<rparr>)"
    using acquired_under_sealing_trust[OF acquired_sealable[OF run t]] by blast
  have "(at_site_name t, at_bytes t) \<in> (\<lambda>f. (tf_site f, tf_bytes f)) ` set (ca_tokens artifacts)"
    using t artifacts(4) by blast
  then obtain f where f: "f \<in> set (ca_tokens artifacts)" "tf_bytes f = at_bytes t" by auto
  let ?inputs = "stamp_inputs_of artifacts tree_entries (map artifacts_of groups) (sealing_trust inputs records supplemented)"
  have "accepted_of ?p ?c (basis_of ?inputs) (in_tokens ?inputs) \<noteq> []"
    using f accepted artifacts(2) unfolding accepted_of_empty by (auto simp: stamp_inputs_of_def basis_of_def intro!: bexI[of _ f])
  moreover have "verify_tree (entries (canonical_form (ct_table ct) ?m)) tree_entries = Ok ()"
    using es(2) content by (simp add: verify_tree_Ok canonical_form_def distinct_map)
  ultimately have "is_ok (verify_stamp (ct_table ct) ?d ?p ?c ?inputs)"
    using utf8 parsed linked artifacts(2)
    by (auto simp: is_ok_iff verify_stamp_Ok stamp_inputs_of_def canonical_form_def)
  moreover have "groups_to_resolve (ct_table ct) manifest_text = ?groups"
    using utf8 parsed by (simp add: groups_to_resolve_def from_utf8_valid canonical_form_def)
  ultimately show ?thesis using artifacts(1,2,3) resolved by auto
qed

end
