(* ===== verification/Create_Example.thy ===== *)
theory Create_Example
  imports Create_Verified
begin

text \<open>
  A creation run to its end: a branch over a readme and a configuration of one site, stamped in a working tree with
  one chain on record. It shows that what the theorems about \<open>create\<close> assume can hold.
\<close>

section \<open>A concrete creation\<close>

text \<open>A branch over a readme and a configuration of one site, stamped in a working tree with one chain on record.\<close>

definition toy_config_bytes :: bytes where
  "toy_config_bytes = config_text [(''one'', sample_site)] [(''p'', sample_profile)]"

definition toy_base_files :: toy_files where
  "toy_base_files = [(''README'', REGULAR_FILE_MODE, toy_id 0), (CONFIG_PATH, REGULAR_FILE_MODE, toy_id 1)]"

definition toy_unstamped :: toy_store where
  "toy_unstamped =
     \<lparr>ts_blobs = [''text'', toy_config_bytes], ts_trees = [toy_base_files],
      ts_commits = [\<lparr>co_tree = toy_id 0, co_parents = [], co_author = ''a'', co_committer = ''a'', co_encoding = None,
        co_message = ''base'', co_extra_headers = []\<rparr>],
      ts_references = [''refs/heads/main'' \<mapsto> toy_id 0]\<rparr>"

text \<open>Any anchors that answer with the token, on any world; then those of a constant answer.\<close>

definition toy_creator_of :: "('w, 'a) anchor_maker \<Rightarrow> (toy_store, toy_files, 'w, string \<times> bytes, 'a) creator" where
  "toy_creator_of anchors =
     \<lparr>ct_gix = toy_store_gix, ct_writer = toy_writer, ct_ltv = toy_ltv, ct_table = [(0, 32)], ct_digests = toy_digests,
      ct_anchors = anchors,
      ct_debug = \<lparr>debug_text = \<lambda>s. s, path_text = \<lambda>s. s, debug_bytes = \<lambda>s. s, debug_moment = \<lambda>_. []\<rparr>\<rparr>"

definition answers_toy_token :: "('w, 'a) anchor_maker \<Rightarrow> bool" where
  "answers_toy_token anchors \<longleftrightarrow> (\<forall>w. \<exists>a w1. am_make anchors w ''one'' sample_site = (a, w1) \<and>
     (\<forall>payload. \<exists>w2. am_acquire anchors w1 a payload = (Ok toy_token, w2)))"

definition toy_creator :: "(toy_store, toy_files, nat, string \<times> bytes, unit) creator" where
  "toy_creator = toy_creator_of \<lparr>am_make = \<lambda>w n s. ((), w), am_acquire = \<lambda>w a payload. (Ok toy_token, w)\<rparr>"

lemma toy_creator_parts:
  "ct_gix (toy_creator_of anchors) = toy_store_gix" "ct_writer (toy_creator_of anchors) = toy_writer"
  "ct_ltv (toy_creator_of anchors) = toy_ltv" "ct_table (toy_creator_of anchors) = [(0, 32)]"
  "ct_digests (toy_creator_of anchors) = toy_digests" "ct_anchors (toy_creator_of anchors) = anchors"
  by (simp_all add: toy_creator_of_def)

definition toy_create :: create_inputs where
  "toy_create =
     \<lparr>cr_base_tree_id = toy_id 0, cr_profile_name = ''p'', cr_anchor_certificates = [''root''], cr_parent_ids = [toy_id 0],
      cr_message = ''stamp'', cr_author = ''a'', cr_committer = ''a'', cr_reference_name = ''refs/heads/main'',
      cr_expected = MustExistAndMatch (toy_id 0)\<rparr>"

definition toy_crl_path :: string where
  "toy_crl_path = crl_record_path \<lparr>fc_issuer_key = hex_encode LOWERCASE ''d'', fc_der_bytes = ''der''\<rparr>"

definition toy_records :: ltv_records where
  "toy_records = \<lparr>lr_chains = [\<lparr>rch_repository_path = LTV_CERTS_PATH @ ''/x.cer'', rch_pem_bytes = ''chain''\<rparr>],
     lr_crls = [\<lparr>rcl_repository_path = toy_crl_path, rcl_pem_bytes = ''PEM of der'', rcl_der_bytes = ''der''\<rparr>]\<rparr>"

definition toy_mirrored :: toy_store where
  "toy_mirrored = toy_unstamped
     \<lparr>ts_blobs := [''text'', toy_config_bytes, ''chain'', ''PEM of der''],
      ts_trees := [toy_base_files, (toy_crl_path, REGULAR_FILE_MODE, toy_id 3) #
        (LTV_CERTS_PATH @ ''/x.cer'', REGULAR_FILE_MODE, toy_id 2) # toy_base_files]\<rparr>"

lemma toy_hex: "hex_encode LOWERCASE ''d'' = ''64''"
  by (simp add: hex_encode_def LOWERCASE_def)

lemma toy_mirrors: "apply_ltv_records toy_writer (toy_id 0) toy_records toy_unstamped = (Ok (toy_id 1), toy_mirrored)"
  unfolding apply_ltv_records_def mirror_file_def action_defs
  by (simp add: toy_writer_def toy_records_def toy_unstamped_def toy_mirrored_def toy_base_files_def nth_object_def toy_id_def
      toy_crl_path_def crl_record_path_def toy_hex below_iff layout_defs record_files_def action_defs numeral_3_eq_3 numeral_2_eq_2)

definition toy_config :: config where
  "toy_config = \<lparr>sites = [''one'' \<mapsto> sample_site], profiles = [''p'' \<mapsto> sample_profile]\<rparr>"

lemma toy_reads_config: "read_config (gx_objects toy_store_gix toy_mirrored) (toy_id 1) = Ok toy_config"
proof -
  have parsed: "parse_config toy_config_bytes = Ok toy_config"
    using parse_printed[of "[(''one'', sample_site)]" "[(''p'', sample_profile)]"] sample_config_ok
    by (simp add: toy_config_bytes_def toy_config_def)
  have "is_utf8 toy_config_bytes"
    by (rule is_utf8_ascii) (simp add: toy_config_bytes_def config_text_def site_lines_def profile_lines_def use_site_line_def
      sample_site_def sample_profile_def)
  then have "from_utf8 toy_config_bytes = Ok toy_config_bytes" by (rule from_utf8_valid)
  with parsed show ?thesis
    by (simp add: read_config_def toy_store_gix_def toy_mirrored_def toy_find_tree_def split_once_None[THEN iffD2]
      nth_object_def toy_sealed_tree_def toy_base_files_def toy_crl_path_def crl_record_path_def layout_defs toy_hex)
qed


lemma toy_prepared:
  "\<exists>fs'. ltv_refresh toy_ltv ''/w'' (toy_disk ''chain'', w :: 'w) = (Ok toy_records, (fs', w)) \<and>
     prepare (toy_creator_of anchors) toy_create (toy_unstamped, toy_disk ''chain'', w) =
       (Ok (''/w'', toy_records, toy_id 1, toy_config), (toy_mirrored, fs', w))"
proof -
  obtain fs' where refresh: "ltv_refresh toy_ltv ''/w'' (toy_disk ''chain'', w) = (Ok toy_records, (fs', w))"
    using toy_refreshed[of w] unfolding toy_records_def toy_crl_path_def by blast
  moreover have "gx_workdir toy_store_gix toy_unstamped = Some ''/w''" by (simp add: toy_store_gix_def)
  ultimately show ?thesis
    by (simp add: prepare_def action_defs toy_creator_parts toy_create_def toy_mirrors toy_reads_config del: One_nat_def)
qed

definition toy_stamped_entries :: "entry list" where
  "toy_stamped_entries = map (\<lambda>(p, bs). \<lparr>entry_path = p, entry_mode = Regular, entry_size = length bs,
     content_hashes = hash_payload toy_digests bs\<rparr>)
     [(toy_crl_path, ''PEM of der''), (LTV_CERTS_PATH @ ''/x.cer'', ''chain''), (''README'', ''text''), (CONFIG_PATH, toy_config_bytes)]"

lemma toy_stamped_snapshot:
  "snapshot_run toy_store_gix toy_digests toy_mirrored (toy_id 1) = Some (Ok toy_stamped_entries)"
  by (simp add: snapshot_run_def drain_Cons traverse_repository_tree_def tree_records_def root_tree_def screen_record_def
      read_tree_entry_def decode_file_mode_def GITLINK_MODE_def is_excluded_from_root_def layout_defs join_path_def
      toy_store_gix_def toy_mirrored_def toy_find_tree_def split_once_None[THEN iffD2] nth_object_def toy_sealed_tree_def
      toy_base_files_def toy_crl_path_def crl_record_path_def toy_hex REGULAR_FILE_MODE_def toy_stamped_entries_def Let_def)

lemma toy_config_small: "length toy_config_bytes < 2 ^ 64"
  by (simp add: toy_config_bytes_def config_text_def site_lines_def profile_lines_def use_site_line_def sample_site_def
    sample_profile_def)

lemma toy_mirror_listed: "listed_soundly toy_store_gix toy_mirrored (toy_id 1)"
proof (rule listed_alone)
  let ?files = "[\<lparr>fr_mode = REGULAR_FILE_MODE, fr_filepath = toy_crl_path, fr_oid = toy_id 3\<rparr>,
    \<lparr>fr_mode = REGULAR_FILE_MODE, fr_filepath = LTV_CERTS_PATH @ ''/x.cer'', fr_oid = toy_id 2\<rparr>,
    \<lparr>fr_mode = REGULAR_FILE_MODE, fr_filepath = ''README'', fr_oid = toy_id 0\<rparr>,
    \<lparr>fr_mode = REGULAR_FILE_MODE, fr_filepath = CONFIG_PATH, fr_oid = toy_id 1\<rparr>]"
  show "tree_records toy_store_gix (root_tree toy_mirrored (toy_id 1)) = Ok ?files"
    by (simp add: tree_records_def root_tree_def toy_store_gix_def toy_mirrored_def toy_find_tree_def split_once_None[THEN iffD2]
      nth_object_def toy_sealed_tree_def toy_base_files_def toy_crl_path_def crl_record_path_def layout_defs toy_hex)
  show "sound_listing (gx_objects toy_store_gix toy_mirrored) ?files"
    by (simp add: sound_listing_def below_def toy_crl_path_def crl_record_path_def toy_hex layout_defs)
  show "gitlinks_of toy_store_gix (root_tree toy_mirrored (toy_id 1)) ?files = []"
    by (simp add: gitlinks_of_def REGULAR_FILE_MODE_def GITLINK_MODE_def)
  show "\<forall>f \<in> set (files_of toy_store_gix (root_tree toy_mirrored (toy_id 1)) ?files).
      \<forall>blob. find_blob_in toy_store_gix toy_mirrored (fr_oid f) = Ok blob \<longrightarrow> length blob < 2 ^ 64"
    using toy_config_small by (simp add: files_of_def toy_store_gix_def toy_mirrored_def nth_object_def)
qed

lemma toy_nothing_bound: "bind_stamps (gx_objects toy_store_gix toy_mirrored) [(0, 32)] toy_digests [toy_id 0] = Some (Ok [])"
proof -
  have "visit_commit (gx_objects toy_store_gix toy_mirrored) (toy_id 0) = Ok (Some [])"
    by (simp add: visit_commit_def tree_of_def find_manifest_entry_def toy_store_gix_def toy_mirrored_def toy_unstamped_def
      toy_find_tree_def split_once_None[THEN iffD2] nth_object_def toy_sealed_tree_def toy_base_files_def below_iff layout_defs)
  then have "nearest_claiming_commits (gx_objects toy_store_gix toy_mirrored) [toy_id 0] = Some (Ok [])"
    by (simp add: nearest_claiming_commits_def search.simps)
  then show ?thesis
    by (simp add: bind_stamps_def deduplicate_stamps_def order_stamps_def derive_binding_edges_def ensure_stamp_counts_match_def
      order_binding_groups_def order_loop.simps)
qed

lemma toy_fixed:
  obtains manifest_text where "fix_manifest (toy_creator_of anchors) toy_create (toy_id 1) toy_mirrored = Some (Ok manifest_text)"
proof -
  have "printable \<lparr>parents = [toy_id 0], binding_groups = [], entries = toy_stamped_entries\<rparr>"
    by (simp add: printable_def toy_id_def is_bare_token_def is_ascii_graphic_def)
  then obtain manifest_text where
    "serialize [(0, 32)] \<lparr>parents = [toy_id 0], binding_groups = [], entries = toy_stamped_entries\<rparr> = Ok manifest_text"
    by (auto simp: serialize_Ok)
  then show thesis
    using that toy_stamped_snapshot toy_nothing_bound by (simp add: fix_manifest_def toy_creator_parts toy_create_def)
qed


definition toy_harvest :: harvest where
  "toy_harvest = \<lparr>chain_repository_path = LTV_CERTS_PATH @ ''/'' @ hex_encode LOWERCASE ''d'' @ CHAIN_FILE_SUFFIX,
     chain_pem_text = ''PEM of tsa'', fetched_crls = []\<rparr>"

lemma toy_token_harvested: "ltv_harvest toy_ltv toy_token w = (Ok toy_harvest, w)"
  by (simp add: ltv_harvest_def token_chain_def signed_chain_def fetch_chain_crls_def fetch_crl_def distribution_uris_def
      issuer_key_def keep_crl_def toy_ltv_def toy_cms_def toy_pki_def toy_content_info_def toy_signed_data_def toy_any_def
      toy_signer_info_def toy_tsa_def toy_certificate_def CRL_DISTRIBUTION_POINTS_def EXTENDED_KEY_USAGE_def act_bind_def
      act_return_def act_lift_def toy_harvest_def)

lemma toy_recorded: "\<exists>fs'. ltv_record (toy_ltv :: 'w toy_tools) ''/w'' toy_harvest fs = (Ok (), fs')"
proof -
  let ?tools = "toy_ltv :: 'w toy_tools"
  have "create_failure (lt_writer ?tools) = (\<lambda>_ _. None)" "write_failure (lt_writer ?tools) = (\<lambda>_ _ _. None)"
    by (simp_all add: toy_ltv_def)
  moreover from materialize_succeeds[OF this(1)] obtain fs1 where "materialize_record_directories ?tools ''/w'' fs = (Ok (), fs1)" by blast
  ultimately show ?thesis
    by (simp add: ltv_record_def toy_harvest_def record_chain_crls_def write_text_file_def write_file_def action_defs)
qed

lemma toy_token_verified_refreshed:
  "verify_token toy_pki toy_cms toy_token \<lparr>vb_manifest_bytes = m, vb_trust = toy_trust\<lparr>td_crls := [''der'']\<rparr>\<rparr> =
     Ok \<lparr>ts_gen_time = 50, ts_imprint_algorithm = Sha256\<rparr>"
proof -
  have "parse_crl_list toy_cms [''der''] = parse_crl_list toy_cms [''crl'']" by (simp add: parse_crl_list_def toy_cms_def)
  then have "verify_token toy_pki toy_cms toy_token \<lparr>vb_manifest_bytes = m, vb_trust = toy_trust\<lparr>td_crls := [''der'']\<rparr>\<rparr> =
      verify_token toy_pki toy_cms toy_token (toy_basis m)"
    by (simp add: verify_token_def toy_basis_def toy_trust_def)
  then show ?thesis by (simp add: toy_token_verified)
qed

definition toy_acquisition_made :: acquisition where
  "toy_acquisition_made = \<lparr>acq_tokens = [\<lparr>at_site_name = ''one'', at_bytes = toy_token\<rparr>], acq_warnings = []\<rparr>"

lemma toy_harvesting:
  assumes "answers_toy_token anchors"
  shows "\<exists>w'. acquire_harvesting (toy_creator_of anchors) (creation_acquires toy_create toy_records toy_config m) (w :: 'w) =
     (Ok (toy_acquisition_made, [''one'' \<mapsto> toy_harvest]), w')"
proof -
  have "resolve_selections (creation_acquires toy_create toy_records toy_config m) =
      Ok [(\<lparr>us_site_name = ''one'', continues_on_error = True\<rparr>, sample_site)]"
    by (simp add: resolve_selections_def resolve_selection_def creation_acquires_def toy_create_def toy_config_def sample_profile_def)
  moreover have "sealing_basis (creation_acquires toy_create toy_records toy_config m) [] =
      \<lparr>vb_manifest_bytes = m, vb_trust = toy_trust\<lparr>td_crls := [''der'']\<rparr>\<rparr>"
    by (simp add: sealing_basis_def creation_acquires_def toy_create_def toy_records_def toy_trust_def)
  moreover have "lt_pki (toy_ltv :: 'w toy_tools) = toy_pki" "lt_cms (toy_ltv :: 'w toy_tools) = toy_cms" by (simp_all add: toy_ltv_def)
  moreover obtain a w1 w2 where "am_make anchors w ''one'' sample_site = (a, w1)"
    "am_acquire anchors w1 a (ai_manifest_bytes (creation_acquires toy_create toy_records toy_config m)) = (Ok toy_token, w2)"
    using assms unfolding answers_toy_token_def by metis
  ultimately show ?thesis
    by (simp add: acquire_harvesting_def acquire_run_def sealable_token_def creation_environment_def toy_creator_parts
      supplement_harvest_def toy_token_harvested crl_ders_def toy_token_verified_refreshed toy_acquisition_made_def)
      (simp add: toy_harvest_def toy_token_verified_refreshed Let_def)
qed

text \<open>The store after the seal of a manifest.\<close>

definition toy_stamping :: "bytes \<Rightarrow> seal_inputs" where
  "toy_stamping manifest_text = sealing_of toy_create toy_digests (toy_id 1) manifest_text (acq_tokens toy_acquisition_made)"

definition toy_stamped_files :: toy_files where
  "toy_stamped_files =
     [(token_path ''one'', REGULAR_FILE_MODE, toy_id 5), (MANIFEST_PATH, REGULAR_FILE_MODE, toy_id 4),
      (toy_crl_path, REGULAR_FILE_MODE, toy_id 3), (LTV_CERTS_PATH @ ''/x.cer'', REGULAR_FILE_MODE, toy_id 2)] @ toy_base_files"

definition toy_stamped :: "bytes \<Rightarrow> toy_store" where
  "toy_stamped manifest_text = toy_mirrored
     \<lparr>ts_blobs := [''text'', toy_config_bytes, ''chain'', ''PEM of der'', manifest_text, toy_token],
      ts_trees := ts_trees toy_mirrored @ [toy_stamped_files],
      ts_commits := ts_commits toy_mirrored @ [stamp_commit (toy_stamping manifest_text) (toy_id 2)],
      ts_references := [''refs/heads/main'' \<mapsto> toy_id 1]\<rparr>"

lemma toy_seals: "seal_run toy_writer (toy_stamping m) toy_mirrored = (Ok (toy_id 1), toy_stamped m)"
  unfolding seal_run_def stamp_tree_id_def place_token_def action_defs
  by (simp add: toy_writer_def toy_stamping_def sealing_of_def toy_create_def toy_mirrored_def toy_unstamped_def toy_stamped_def
      toy_stamped_files_def toy_acquisition_made_def nth_object_def toy_id_def below_iff layout_defs toy_base_files_def
      toy_crl_path_def crl_record_path_def toy_hex token_path_def TOKEN_FILE_SUFFIX_def stamp_commit_def stamp_ref_edit_def
      action_defs numeral_eq_Suc)

lemma toy_stamps_into:
  assumes "answers_toy_token anchors"
  shows "\<exists>created manifest_text fs w'. cs_commit_id created = toy_id 1 \<and>
    create_run (toy_creator_of anchors) toy_create (toy_unstamped, toy_disk ''chain'', w) = Some (Ok created, (toy_stamped manifest_text, fs, w'))"
proof -
  obtain fs1 where prepared: "prepare (toy_creator_of anchors) toy_create (toy_unstamped, toy_disk ''chain'', w) =
      (Ok (''/w'', toy_records, toy_id 1, toy_config), (toy_mirrored, fs1, w))" using toy_prepared[of w anchors] by blast
  obtain manifest_text where fixed: "fix_manifest (toy_creator_of anchors) toy_create (toy_id 1) toy_mirrored = Some (Ok manifest_text)"
    using toy_fixed .
  obtain w1 where harvesting: "acquire_harvesting (toy_creator_of anchors) (creation_acquires toy_create toy_records toy_config manifest_text) w =
      (Ok (toy_acquisition_made, [''one'' \<mapsto> toy_harvest]), w1)" using toy_harvesting[OF assms] by blast
  obtain fs2 where recorded: "ltv_record (ct_ltv (toy_creator_of anchors)) ''/w'' toy_harvest fs1 = (Ok (), fs2)"
    using toy_recorded by (auto simp: toy_creator_parts)
  have gathered: "gather_tokens (toy_creator_of anchors) toy_create ''/w'' toy_records toy_config manifest_text (toy_mirrored, fs1, w) =
      (Ok toy_acquisition_made, (toy_mirrored, fs2, w1))"
    using recorded by (simp add: gather_tokens_def action_defs harvesting toy_acquisition_made_def deposit_harvest_def)
  with prepared fixed gathered toy_seals[of manifest_text, unfolded toy_stamping_def] show ?thesis
    by (simp add: create_run_def seal_manifest_parts action_defs) (simp add: toy_creator_parts action_defs, blast)
qed

lemma toy_stamps:
  assumes "answers_toy_token anchors"
  shows "\<exists>created s'. create_run (toy_creator_of anchors) toy_create (toy_unstamped, toy_disk ''chain'', w) = Some (Ok created, s')"
  using toy_stamps_into[OF assms, of w] by blast

lemma toy_created:
  "\<exists>created s'. create_run toy_creator toy_create (toy_unstamped, toy_disk ''chain'', 0) = Some (Ok created, s')"
  unfolding toy_creator_def by (rule toy_stamps) (simp add: answers_toy_token_def)

lemma create_moves_branch_last_witness:
  "\<exists>created s'. create_run toy_creator toy_create (toy_unstamped, toy_disk ''chain'', 0) = Some (Ok created, s') \<and>
     ts_references (fst s') = [''refs/heads/main'' \<mapsto> cs_commit_id created]"
proof -
  obtain created s' where run: "create_run toy_creator toy_create (toy_unstamped, toy_disk ''chain'', 0) = Some (Ok created, s')"
    using toy_created by blast
  have "sound_writer (ct_gix toy_creator) (ct_writer toy_creator)" using toy_writer_sound by (simp add: toy_creator_def toy_creator_parts)
  from create_moves_branch_last[OF this run] run show ?thesis
    by (auto simp: toy_creator_def toy_creator_parts toy_writer_def toy_create_def toy_unstamped_def)
qed

lemma only_verified_material_is_recorded_witness:
  "\<exists>created r' fs' w' fs1. create_run toy_creator toy_create (toy_unstamped, toy_disk ''chain'', 0) = Some (Ok created, (r', fs', w')) \<and>
     (\<forall>path. file_content fs' path \<noteq> file_content fs1 path \<longrightarrow>
       (\<exists>cfg manifest_text. path \<in> verified_records (toy_ltv :: nat toy_tools) ''/w'' (creation_acquires toy_create toy_records cfg manifest_text)))"
proof -
  obtain created r' fs' w' where run: "create_run toy_creator toy_create (toy_unstamped, toy_disk ''chain'', 0) = Some (Ok created, (r', fs', w'))"
    using toy_created by (metis prod_cases3)
  obtain fs1 where refresh: "ltv_refresh (ct_ltv toy_creator) ''/w'' (toy_disk ''chain'', 0) = (Ok toy_records, (fs1, 0))"
    using toy_prepared[of 0] by (auto simp: toy_creator_def toy_creator_parts)
  have "gx_workdir (ct_gix toy_creator) toy_unstamped = Some ''/w''" by (simp add: toy_creator_def toy_creator_parts toy_store_gix_def)
  from only_verified_material_is_recorded[OF run this refresh] run show ?thesis
    by (intro exI conjI) (auto simp: toy_creator_def toy_creator_parts)
qed

end
