(* ===== verification/Sealed_Tree.thy ===== *)
theory Sealed_Tree
  imports Snapshot_Types
begin

text \<open>
  The tree a seal writes against the tree it was given: \<open>stamp/seal.rs\<close> removes and replaces paths, \<open>snapshot.rs\<close>
  leaves paths out, and where the content keeps clear of the places of the artifacts the two meet, so that the snapshot
  of the new commit lists what was stamped.
\<close>

section \<open>What an editor promises of its trees\<close>

text \<open>The listing of a tree holds the files of the editor that read or wrote it, besides directories.\<close>

definition lists_files :: "git_repository \<Rightarrow> object_id \<Rightarrow> (string \<Rightarrow> (nat \<times> object_id) option) \<Rightarrow> bool" where
  "lists_files objects tree_id files \<longleftrightarrow>
     (\<exists>tree records. gr_find_tree objects tree_id = Ok tree \<and> gt_files tree = Ok records \<and>
        (\<forall>f. \<not> gr_is_tree objects (fr_mode f) \<longrightarrow> (f \<in> set records \<longleftrightarrow> files (fr_filepath f) = Some (fr_mode f, fr_oid f))))"

definition faithful_editor :: "'r gix \<Rightarrow> ('r, 'ed) git_writer \<Rightarrow> bool" where
  "faithful_editor g gw \<longleftrightarrow>
     (\<forall>r i ed. edit_tree gw r i = Ok ed \<longrightarrow> lists_files (gx_objects g r) i (ed_files gw ed)) \<and>
     (\<forall>ed r i r'. write_tree gw ed r = (Ok i, r') \<longrightarrow> lists_files (gx_objects g r') i (ed_files gw ed)) \<and>
     (\<forall>r. gr_is_blob (gx_objects g r) REGULAR_FILE_MODE \<and>
        (\<forall>mode. gr_is_blob (gx_objects g r) mode \<longrightarrow> \<not> gr_is_tree (gx_objects g r) mode))"

lemma lists_files_extends: "lists_files o1 i files \<Longrightarrow> extends o1 o2 \<Longrightarrow> lists_files o2 i files"
  using extendsD(2)[of o1 o2 i] extendsD(4)[of o1 o2] unfolding lists_files_def by (elim exE conjE) auto

lemma lists_files_root:
  assumes "lists_files (gx_objects g r) i files"
  obtains records where "tree_records g (root_tree r i) = Ok records"
    "\<forall>f. \<not> gr_is_tree (gx_objects g r) (fr_mode f) \<longrightarrow> (f \<in> set records \<longleftrightarrow> files (fr_filepath f) = Some (fr_mode f, fr_oid f))"
  using assms that by (auto simp: lists_files_def tree_records_def root_tree_def)

section \<open>The places of the artifacts\<close>

lemma is_excluded_iff: "is_excluded_from_root p \<longleftrightarrow> p = MANIFEST_PATH \<or> below TOKENS_PATH p"
  by (auto simp: is_excluded_from_root_def below_def strip_prefix_iff split: option.splits list.splits)

lemma above_artifacts: "below p TOKENS_PATH \<longleftrightarrow> below p MANIFEST_PATH"
  by (auto simp: below_def layout_defs Cons_eq_append_conv)

text \<open>Content that keeps clear of the artifacts: no file of it stands where one is put, other than as an artifact.\<close>

definition clear_of_artifacts :: "'r gix \<Rightarrow> 'r \<Rightarrow> object_id \<Rightarrow> bool" where
  "clear_of_artifacts g r tree_id \<longleftrightarrow>
     (\<forall>records. tree_records g (root_tree r tree_id) = Ok records \<longrightarrow> (\<forall>f \<in> set records.
        \<not> gr_is_tree (gx_objects g r) (fr_mode f) \<longrightarrow> artifact_place (fr_filepath f) \<longrightarrow> is_excluded_from_root (fr_filepath f)))"

lemma sealed_tree_clear:
  assumes sound: "sound_listing objects records" and placed: "placed_artifacts gw objects m tokens ed"
    and files: "\<And>f. \<not> gr_is_tree objects (fr_mode f) \<Longrightarrow> f \<in> set records \<longleftrightarrow> ed_files gw ed (fr_filepath f) = Some (fr_mode f, fr_oid f)"
    and regular: "\<not> gr_is_tree objects REGULAR_FILE_MODE"
    and f: "f \<in> set records" "\<not> gr_is_tree objects (fr_mode f)" "artifact_place (fr_filepath f)"
  shows "is_excluded_from_root (fr_filepath f)"
proof -
  obtain i where "ed_files gw ed MANIFEST_PATH = Some (REGULAR_FILE_MODE, i)"
    using placed by (auto simp: placed_artifacts_def)
  then obtain b where b: "b \<in> set records" "\<not> gr_is_tree objects (fr_mode b)" "fr_filepath b = MANIFEST_PATH"
    using files[of "\<lparr>fr_mode = REGULAR_FILE_MODE, fr_filepath = MANIFEST_PATH, fr_oid = i\<rparr>"] regular by auto
  have "\<not> below MANIFEST_PATH (fr_filepath f)" "\<not> below (fr_filepath f) MANIFEST_PATH"
    using sound b f(1,2) unfolding sound_listing_def by metis+
  moreover have "fr_filepath f \<noteq> TOKENS_PATH"
    using placed files[of f] f(1,2) by (auto simp: placed_artifacts_def)
  ultimately show ?thesis using f(3) by (auto simp: artifact_place_def is_excluded_iff above_artifacts)
qed

section \<open>Two root trees of one content\<close>

text \<open>What the seal leaves of the repository and of the root: the files outside the artifacts are the same.\<close>

definition same_root :: "'r gix \<Rightarrow> 'r \<Rightarrow> object_id \<Rightarrow> 'r \<Rightarrow> object_id \<Rightarrow> bool" where
  "same_root g r i r' i' \<longleftrightarrow>
     gx_common_dir g r' = gx_common_dir g r \<and> gx_workdir g r' = gx_workdir g r \<and>
     extends (gx_objects g r) (gx_objects g r') \<and>
     (\<forall>mode. gr_is_blob (gx_objects g r) mode \<longrightarrow> \<not> gr_is_tree (gx_objects g r) mode) \<and>
     (\<forall>records records'. tree_records g (root_tree r i) = Ok records \<longrightarrow> tree_records g (root_tree r' i') = Ok records' \<longrightarrow>
        distinct (map fr_filepath records) \<and> distinct (map fr_filepath records') \<and>
        (\<forall>f. \<not> gr_is_tree (gx_objects g r) (fr_mode f) \<longrightarrow> \<not> is_excluded_from_root (fr_filepath f) \<longrightarrow>
           (f \<in> set records \<longleftrightarrow> f \<in> set records')))"

text \<open>A tree of the one snapshot and its counterpart in the other: the roots, or one submodule.\<close>

definition counterpart :: "'r \<Rightarrow> object_id \<Rightarrow> 'r \<Rightarrow> object_id \<Rightarrow> 'r repository_tree \<Rightarrow> 'r repository_tree \<Rightarrow> bool" where
  "counterpart r i r' i' t t' \<longleftrightarrow> t = root_tree r i \<and> t' = root_tree r' i' \<or>
     rt_repository t' = rt_repository t \<and> rt_tree_id t' = rt_tree_id t \<and> rt_path_prefix t' = rt_path_prefix t \<and>
     rt_path_prefix t \<noteq> []"

lemma find_distinct:
  assumes "distinct (map k xs)" "\<And>x. P x \<Longrightarrow> k x = v"
  shows "List.find P xs = Some x \<longleftrightarrow> x \<in> set xs \<and> P x"
  using assms(1)
proof (induction xs)
  case (Cons y ys)
  then show ?case using assms(2) by (auto simp: image_iff)
qed simp

lemma option_eqI: "(\<And>x. a = Some x \<longleftrightarrow> b = Some x) \<Longrightarrow> a = b"
  by (cases a; cases b) auto

lemma counterpart_records:
  assumes same: "same_root g r i r' i'" and t: "counterpart r i r' i' t t'"
    and records: "tree_records g t = Ok records" "tree_records g t' = Ok records'"
  shows "set (files_of g t records) = set (files_of g t' records')"
    and "set (gitlinks_of g t records) = set (gitlinks_of g t' records')"
    and "parse_gitmodules g (rt_repository t) records = Ok modules \<Longrightarrow> parse_gitmodules g (rt_repository t') records' = Ok modules"
proof -
  let ?modules_file = "\<lambda>f. gr_is_blob (gx_objects g r) (fr_mode f) \<and> fr_filepath f = ''.gitmodules''"
  have ext: "extends (gx_objects g r) (gx_objects g r')" using same by (simp add: same_root_def)
  note kinds = extendsD(4,5)[OF ext]
  have roots: "set (files_of g t records) = set (files_of g t' records') \<and> set (gitlinks_of g t records) = set (gitlinks_of g t' records') \<and>
      (parse_gitmodules g (rt_repository t) records = Ok modules \<longrightarrow> parse_gitmodules g (rt_repository t') records' = Ok modules)"
    if t: "t = root_tree r i" "t' = root_tree r' i'"
  proof -
    have distinct: "distinct (map fr_filepath records)" "distinct (map fr_filepath records')"
      and members: "\<And>f. \<not> gr_is_tree (gx_objects g r) (fr_mode f) \<Longrightarrow> \<not> is_excluded_from_root (fr_filepath f) \<Longrightarrow>
        f \<in> set records \<longleftrightarrow> f \<in> set records'"
      using same records unfolding t same_root_def by blast+
    have "List.find ?modules_file records = List.find ?modules_file records'"
    proof (rule option_eqI)
      fix f
      have "f \<in> set records \<longleftrightarrow> f \<in> set records'" if "?modules_file f"
        using that members[of f] gitmodules_included same by (simp add: same_root_def)
      then show "List.find ?modules_file records = Some f \<longleftrightarrow> List.find ?modules_file records' = Some f"
        using find_distinct[OF distinct(1), of ?modules_file "''.gitmodules''" f] find_distinct[OF distinct(2), of ?modules_file "''.gitmodules''" f]
        by blast
    qed
    then have "parse_gitmodules g r records = Ok modules \<longrightarrow> parse_gitmodules g r' records' = Ok modules"
      using extendsD(1)[OF ext] by (auto simp: parse_gitmodules_def kinds result_simps split: option.splits)
    with members show ?thesis
      by (auto simp: t files_of_def gitlinks_of_def included_def root_tree_def kinds)
  qed
  have below: "set (files_of g t records) = set (files_of g t' records') \<and> set (gitlinks_of g t records) = set (gitlinks_of g t' records') \<and>
      (parse_gitmodules g (rt_repository t) records = Ok modules \<longrightarrow> parse_gitmodules g (rt_repository t') records' = Ok modules)"
    if "rt_repository t' = rt_repository t" "rt_tree_id t' = rt_tree_id t" "rt_path_prefix t' = rt_path_prefix t"
  proof -
    have "records' = records" using records that by (simp add: tree_records_def)
    with that show ?thesis by (simp add: files_of_def gitlinks_of_def included_def)
  qed
  have "set (files_of g t records) = set (files_of g t' records') \<and> set (gitlinks_of g t records) = set (gitlinks_of g t' records') \<and>
      (parse_gitmodules g (rt_repository t) records = Ok modules \<longrightarrow> parse_gitmodules g (rt_repository t') records' = Ok modules)"
  proof (cases "t = root_tree r i \<and> t' = root_tree r' i'")
    case True
    then show ?thesis by (elim conjE) (rule roots)
  next
    case False
    then show ?thesis using t by (intro below) (auto simp: counterpart_def)
  qed
  then show "set (files_of g t records) = set (files_of g t' records')"
    "set (gitlinks_of g t records) = set (gitlinks_of g t' records')"
    "parse_gitmodules g (rt_repository t) records = Ok modules \<Longrightarrow> parse_gitmodules g (rt_repository t') records' = Ok modules"
    by (blast, blast, blast)
qed

lemma counterpart_covers:
  assumes "same_root g r i r' i'" "counterpart r i r' i' t t'" "covers_record g d t file e"
  shows "covers_record g d t' file e"
proof -
  have "find_blob_in g (rt_repository t') (fr_oid file) = Ok blob" if "find_blob_in g (rt_repository t) (fr_oid file) = Ok blob" for blob
    using assms(1,2) that extendsD(1) by (auto simp: same_root_def counterpart_def root_tree_def)
  moreover have "rt_path_prefix t' = rt_path_prefix t" using assms(2) by (auto simp: counterpart_def root_tree_def)
  ultimately show ?thesis using assms(3) by (auto simp: covers_record_def)
qed

lemma counterpart_submodule:
  assumes same: "same_root g r i r' i'" and t: "counterpart r i r' i' t t'"
    and records: "tree_records g t = Ok records" "tree_records g t' = Ok records'"
    and at: "submodule_at g t records file u" "submodule_at g t' records' file u'"
  shows "counterpart r i r' i' u u'"
proof -
  have "gx_common_dir g (rt_repository t') = gx_common_dir g (rt_repository t)" "gx_workdir g (rt_repository t') = gx_workdir g (rt_repository t)"
    and prefixes: "rt_path_prefix t' = rt_path_prefix t"
    using same t by (auto simp: same_root_def counterpart_def root_tree_def)
  then have opens: "open_module_store_repository g (rt_repository t') name = open_module_store_repository g (rt_repository t) name"
    "open_embedded_repository g (rt_repository t') path = open_embedded_repository g (rt_repository t) path" for name path
    by (simp_all add: open_module_store_repository_def open_embedded_repository_def)
  obtain modules where "parse_gitmodules g (rt_repository t) records = Ok (Some modules)" using at(1) by (auto simp: submodule_at_def)
  with counterpart_records(3)[OF same t records this] at prefixes show ?thesis
    unfolding submodule_at_def opens counterpart_def by (elim exE conjE disjE) simp_all
qed

section \<open>Their snapshots\<close>

lemma counterparts_placed:
  assumes same: "same_root g r i r' i'"
    and snapshots: "snapshot_run g d r i = Some (Ok es)" "snapshot_run g d r' i' = Some (Ok es')"
  shows "placed g r i t \<Longrightarrow> \<exists>t'. placed g r' i' t' \<and> counterpart r i r' i' t t'"
    and "placed g r' i' t' \<Longrightarrow> \<exists>t. placed g r i t \<and> counterpart r i r' i' t t'"
proof -
  have root: "counterpart r i r' i' (root_tree r i) (root_tree r' i')" by (simp add: counterpart_def)
  show "placed g r i t \<Longrightarrow> \<exists>t'. placed g r' i' t' \<and> counterpart r i r' i' t t'"
  proof (induction rule: placed.induct)
    case placed_root
    show ?case by (intro exI conjI) (rule placed.intros(1), rule root)
  next
    case (placed_submodule t records link u)
    then obtain t' where t': "placed g r' i' t'" "counterpart r i r' i' t t'" by blast
    obtain records' found where records': "tree_records g t' = Ok records'"
      and found: "list_all2 (submodule_at g t' records') (gitlinks_of g t' records') found"
      by (rule snapshot_visited[OF snapshots(2) t'(1)])
    have link: "link \<in> set (gitlinks_of g t' records')"
      using placed_submodule(3) counterpart_records(2)[OF same t'(2) placed_submodule(2) records'] by simp
    from list_all2_left[OF found link] obtain u' where u': "submodule_at g t' records' link u'" by blast
    from placed.placed_submodule[OF t'(1) records' link u'] counterpart_submodule[OF same t'(2) placed_submodule(2) records' placed_submodule(4) u']
    show ?case by blast
  qed
  show "placed g r' i' t' \<Longrightarrow> \<exists>t. placed g r i t \<and> counterpart r i r' i' t t'"
  proof (induction rule: placed.induct)
    case placed_root
    show ?case by (intro exI conjI) (rule placed.intros(1), rule root)
  next
    case (placed_submodule t' records' link u')
    then obtain t where t: "placed g r i t" "counterpart r i r' i' t t'" by blast
    obtain records found where records: "tree_records g t = Ok records"
      and found: "list_all2 (submodule_at g t records) (gitlinks_of g t records) found"
      by (rule snapshot_visited[OF snapshots(1) t(1)])
    have link: "link \<in> set (gitlinks_of g t records)"
      using placed_submodule(3) counterpart_records(2)[OF same t(2) records placed_submodule(2)] by simp
    from list_all2_left[OF found link] obtain u where u: "submodule_at g t records link u" by blast
    from placed.placed_submodule[OF t(1) records link u] counterpart_submodule[OF same t(2) records placed_submodule(2) u placed_submodule(4)]
    show ?case by blast
  qed
qed

lemma covers_unique: "covers_record g d t file e1 \<Longrightarrow> covers_record g d t file e2 \<Longrightarrow> e1 = e2"
  by (auto simp: covers_record_def)

lemma same_root_snapshots:
  assumes same: "same_root g r i r' i'"
    and snapshots: "snapshot_run g d r i = Some (Ok es)" "snapshot_run g d r' i' = Some (Ok es')"
  shows "set es' = set es"
proof (intro equalityI subsetI)
  note entries = snapshot_entries[OF snapshots(1)] snapshot_entries[OF snapshots(2)]
  fix e
  {
    assume "e \<in> set es"
    then obtain t records f where t: "placed g r i t" "tree_records g t = Ok records" "f \<in> set (files_of g t records)" "covers_record g d t f e"
      unfolding entries by blast
    from counterparts_placed(1)[OF same snapshots t(1)] obtain t' where t': "placed g r' i' t'" "counterpart r i r' i' t t'" by blast
    obtain records' where "tree_records g t' = Ok records'" by (rule snapshot_visited[OF snapshots(2) t'(1)])
    with counterpart_records(1)[OF same t'(2) t(2) this] t(3) counterpart_covers[OF same t'(2) t(4)] t'(1)
    show "e \<in> set es'" unfolding entries by blast
  }
  assume "e \<in> set es'"
  then obtain t' records' f where t': "placed g r' i' t'" "tree_records g t' = Ok records'" "f \<in> set (files_of g t' records')"
      "covers_record g d t' f e" unfolding entries by blast
  from counterparts_placed(2)[OF same snapshots t'(1)] obtain t where t: "placed g r i t" "counterpart r i r' i' t t'" by blast
  obtain records out where records: "tree_records g t = Ok records" "list_all2 (covers_record g d t) (files_of g t records) out"
    by (rule snapshot_visited[OF snapshots(1) t(1)])
  have f: "f \<in> set (files_of g t records)" using counterpart_records(1)[OF same t(2) records(1) t'(2)] t'(3) by simp
  from list_all2_left[OF records(2) f] obtain e1 where e1: "covers_record g d t f e1" by blast
  with covers_unique[OF counterpart_covers[OF same t(2) e1] t'(4)] t(1) records(1) f show "e \<in> set es"
    unfolding entries by blast
qed

section \<open>The tree of a sealed commit\<close>

lemma sealed_root:
  assumes sound: "sound_writer g gw" and faithful: "faithful_editor g gw" and names: "sealable_names (sl_tokens inputs)"
    and run: "seal_run gw inputs r = (Ok commit_id, r')"
    and place: "gx_common_dir g r' = gx_common_dir g r" "gx_workdir g r' = gx_workdir g r"
    and listed: "listed_soundly g r (sl_base_tree_id inputs)"
    and clear: "clear_of_artifacts g r (sl_base_tree_id inputs)"
  obtains commit tree_id where "gr_find_commit (gx_objects g r') commit_id = Ok commit" "gc_tree_id commit = Ok tree_id"
    "listed_soundly g r' tree_id \<Longrightarrow> same_root g r (sl_base_tree_id inputs) r' tree_id"
proof -
  let ?i = "sl_base_tree_id inputs" and ?o = "gx_objects g r" and ?o' = "gx_objects g r'"
  obtain tree_id r1 commit where tree_id: "stamp_tree_id gw inputs r = (Ok tree_id, r1)"
    and ext: "extends (gx_objects g r1) ?o'" and commit: "gr_find_commit ?o' commit_id = Ok commit" "gc_tree_id commit = Ok tree_id"
    by (rule seal_run_steps[OF sound run])
  obtain base ed r2 where base: "edit_tree gw r ?i = Ok base" and written: "write_tree gw ed r2 = (Ok tree_id, r1)"
    and placed: "placed_artifacts gw (gx_objects g r1) (sl_manifest_bytes inputs) (sl_tokens inputs) ed"
    and kept: "\<forall>p. \<not> artifact_place p \<longrightarrow> ed_files gw ed p = ed_files gw base p"
    using stamp_tree_placed[OF sound tree_id names] by blast
  have files: "lists_files ?o ?i (ed_files gw base)" "lists_files ?o' tree_id (ed_files gw ed)"
    using faithful base written lists_files_extends[OF _ ext] unfolding faithful_editor_def by blast+
  obtain records where records: "tree_records g (root_tree r ?i) = Ok records"
      "\<forall>f. \<not> gr_is_tree ?o (fr_mode f) \<longrightarrow> (f \<in> set records \<longleftrightarrow> ed_files gw base (fr_filepath f) = Some (fr_mode f, fr_oid f))"
    using lists_files_root[OF files(1)] .
  obtain records' where records': "tree_records g (root_tree r' tree_id) = Ok records'"
      "\<forall>f. \<not> gr_is_tree ?o' (fr_mode f) \<longrightarrow> (f \<in> set records' \<longleftrightarrow> ed_files gw ed (fr_filepath f) = Some (fr_mode f, fr_oid f))"
    using lists_files_root[OF files(2)] .
  have all: "extends ?o ?o'" using seal_run_references[OF sound run] by simp
  note kinds = extendsD(4)[OF all]
  have regular: "\<not> gr_is_tree ?o' REGULAR_FILE_MODE" using faithful unfolding faithful_editor_def by blast
  have "same_root g r ?i r' tree_id" if listed': "listed_soundly g r' tree_id"
  proof -
    have listing: "sound_listing ?o records" "sound_listing ?o' records'"
      using listed listed' records(1) records'(1) placed_root[of g] unfolding listed_soundly_def by (fastforce simp: root_tree_def)+
    have "f \<in> set records \<longleftrightarrow> f \<in> set records'"
      if f: "\<not> gr_is_tree ?o (fr_mode f)" "\<not> is_excluded_from_root (fr_filepath f)" for f
    proof (cases "artifact_place (fr_filepath f)")
      case True
      have "f \<notin> set records" using clear records(1) f True by (auto simp: clear_of_artifacts_def)
      moreover have "f \<notin> set records'"
        using sealed_tree_clear[OF listing(2) placed_extends[OF placed ext] records'(2)[rule_format] regular] f True kinds by metis
      ultimately show ?thesis by simp
    next
      case False
      with kept have "ed_files gw ed (fr_filepath f) = ed_files gw base (fr_filepath f)" by simp
      with spec[OF records(2), of f] spec[OF records'(2), of f] f(1) kinds show ?thesis by simp
    qed
    moreover have "\<forall>mode. gr_is_blob ?o mode \<longrightarrow> \<not> gr_is_tree ?o mode" using faithful by (simp add: faithful_editor_def)
    ultimately show ?thesis
      using place all records(1) records'(1) listing by (simp add: same_root_def sound_listing_def)
  qed
  with that[OF commit] show thesis by blast
qed

end
