(* ===== verification/Created_Audit.thy ===== *)
theory Created_Audit
  imports Create_Example Repository_Audit Sealed_Tree
begin

text \<open>
  Stamping against auditing: what \<open>stamp/create.rs\<close> seals, \<open>audit.rs\<close> accepts, on the snapshot it takes of the new
  commit itself. And where it does not: content in the places of the artifacts is sealed away.
\<close>

section \<open>A created stamp passes its audit\<close>

text \<open>An auditor that looks at a repository as the creator of its stamps does.\<close>

definition audits_for :: "('r, 'ed, 'w, 'resp, 'a) creator \<Rightarrow> 'r auditor \<Rightarrow> bool" where
  "audits_for ct a \<longleftrightarrow> au_gix a = ct_gix ct \<and> au_table a = ct_table ct \<and> au_digests a = ct_digests ct \<and>
     au_pki a = lt_pki (ct_ltv ct) \<and> au_cms a = lt_cms (ct_ltv ct)"

lemma fix_manifest_Ok:
  assumes "fix_manifest ct inputs content_tree_id r = Some (Ok manifest_text)"
  obtains es groups where "snapshot_run (ct_gix ct) (ct_digests ct) r content_tree_id = Some (Ok es)"
    "bind_stamps (gx_objects (ct_gix ct) r) (ct_table ct) (ct_digests ct) (cr_parent_ids inputs) = Some (Ok groups)"
  using assms that by (auto simp: fix_manifest_def result_simps split: option.splits sum.splits)

text \<open>C6: a created stamp passes its own audit: judged on the new commit as the audit judges it, with the snapshot of the
  commit's own tree, the bindings resolved in the repository and the trust the stamping accepted its tokens under, the
  claim is found good, and the digest it reports is the one the creation reported. The content keeps clear of the
  places of the artifacts; the trees list their files soundly and the snapshot of the new tree can be taken; object ids
  read back from their text, a token tree has no two entries of one name, and no two bound manifests collide under
  SHA-256.\<close>

theorem created_stamp_passes_its_audit:
  assumes table: "ascii_table (ct_table ct)" and d: "digests_ok (ct_digests ct)"
    and sound: "sound_writer (ct_gix ct) (ct_writer ct)" and faithful: "faithful_editor (ct_gix ct) (ct_writer ct)"
    and auditor: "audits_for ct a"
    and created: "create_run ct inputs s = Some (Ok created, s')"
    and prepared: "prepare ct inputs s = (Ok (worktree, records, content_tree_id, cfg), s1)"
    and place: "gx_common_dir (ct_gix ct) (fst s') = gx_common_dir (ct_gix ct) (fst s1)"
      "gx_workdir (ct_gix ct) (fst s') = gx_workdir (ct_gix ct) (fst s1)"
    and listing: "listed_soundly (ct_gix ct) (fst s1) content_tree_id"
    and clear: "clear_of_artifacts (ct_gix ct) (fst s1) content_tree_id"
    and groups: "\<And>groups g. bind_stamps (gx_objects (ct_gix ct) (fst s1)) (ct_table ct) (ct_digests ct) (cr_parent_ids inputs) = Some (Ok groups) \<Longrightarrow>
      distinct (map (\<lambda>g. sha256 (manifest_hashes g)) groups) \<and>
      (g \<in> set groups \<longrightarrow> au_from_hex a (bg_commit g) = Ok (bg_commit g) \<and>
        distinct (map te_filename (token_entries (gx_objects (ct_gix ct) (fst s1)) (bg_commit g))))"
    and snapshot: "\<And>commit tree_id. gr_find_commit (gx_objects (ct_gix ct) (fst s')) (cs_commit_id created) = Ok commit \<Longrightarrow>
      gc_tree_id commit = Ok tree_id \<Longrightarrow> listed_soundly (ct_gix ct) (fst s') tree_id \<and>
        (\<exists>es. snapshot_run (ct_gix ct) (ct_digests ct) (fst s') tree_id = Some (Ok es))"
  shows "\<exists>supplemented summary.
    judge_claim a (fst s') (sealing_trust inputs records supplemented) (cs_commit_id created) = Some (Ok summary) \<and>
    sum_manifest_hashes summary = cs_manifest_hashes created"
proof -
  let ?g = "ct_gix ct" and ?d = "ct_digests ct" and ?o' = "gx_objects (ct_gix ct) (fst s')"
  obtain manifest_text acquired w w' where fixed: "fix_manifest ct inputs content_tree_id (fst s1) = Some (Ok manifest_text)"
    and "acquire_run (lt_pki (ct_ltv ct)) (lt_cms (ct_ltv ct)) (creation_environment ct)
      (creation_acquires inputs records cfg manifest_text) w = (Ok acquired, w')" and acquired: "sealable_names (acq_tokens acquired)" "acq_tokens acquired \<noteq> []"
    and sealed: "seal_run (ct_writer ct) (sealing_of inputs ?d content_tree_id manifest_text (acq_tokens acquired)) (fst s1)
      = (Ok (cs_commit_id created), fst s')" (is "seal_run _ ?inputs _ = _")
    and "cs_manifest_hashes created = hash_payload ?d manifest_text"
    by (rule create_run_seals[OF created prepared])
  obtain es gs where es: "snapshot_run ?g ?d (fst s1) content_tree_id = Some (Ok es)"
    and gs: "bind_stamps (gx_objects ?g (fst s1)) (ct_table ct) ?d (cr_parent_ids inputs) = Some (Ok gs)"
    by (rule fix_manifest_Ok[OF fixed])
  have inputs: "sealable_names (sl_tokens ?inputs)" "sl_base_tree_id ?inputs = content_tree_id"
    using acquired by (simp_all add: sealing_of_def)
  obtain commit tree_id where commit: "gr_find_commit ?o' (cs_commit_id created) = Ok commit" "gc_tree_id commit = Ok tree_id"
    and "listed_soundly ?g (fst s') tree_id \<longrightarrow> same_root ?g (fst s1) content_tree_id (fst s') tree_id"
    using sealed_root[OF sound faithful inputs(1) sealed place] listing clear unfolding inputs(2) by metis
  with snapshot[OF commit] obtain es' where same: "same_root ?g (fst s1) content_tree_id (fst s') tree_id"
    and listing': "listed_soundly ?g (fst s') tree_id" and es': "snapshot_run ?g ?d (fst s') tree_id = Some (Ok es')" by blast
  have content: "set es' = set es" "distinct (map entry_path es')"
    using same_root_snapshots[OF same es es'] snapshot_typed[OF d listing' es'] by simp_all
  have "g \<in> set gs \<Longrightarrow> au_from_hex a (bg_commit g) = Ok (bg_commit g)"
    "g \<in> set gs \<Longrightarrow> distinct (map te_filename (token_entries (gx_objects ?g (fst s1)) (bg_commit g)))"
    "distinct (map (\<lambda>g. sha256 (manifest_hashes g)) gs)" for g
    using groups[OF gs] by blast+
  from created_claim_verifies[OF table d sound created prepared es listing gs this content]
  obtain artifacts resolved supplemented where read: "read_claim_artifacts ?o' (cs_commit_id created) = Ok artifacts"
    and hashes: "cs_manifest_hashes created = hash_payload ?d (ca_manifest_bytes artifacts)"
    and resolved: "traverse (resolve_binding (au_from_hex a) ?o') (groups_to_resolve (ct_table ct) (ca_manifest_bytes artifacts)) = Ok resolved"
    and verified: "is_ok (verify_stamp (ct_table ct) ?d (lt_pki (ct_ltv ct)) (lt_cms (ct_ltv ct))
      (stamp_inputs_of artifacts es' resolved (sealing_trust inputs records supplemented)))" by blast
  from verified obtain summary where summary: "verify_stamp (ct_table ct) ?d (lt_pki (ct_ltv ct)) (lt_cms (ct_ltv ct))
      (stamp_inputs_of artifacts es' resolved (sealing_trust inputs records supplemented)) = Ok summary" by (auto simp: is_ok_iff)
  then have "sum_manifest_hashes summary = cs_manifest_hashes created"
    by (auto simp: verify_stamp_Ok stamp_inputs_of_def hashes)
  moreover have "judge_claim a (fst s') (sealing_trust inputs records supplemented) (cs_commit_id created) = Some (Ok summary)"
    using auditor read commit es' resolved summary by (simp add: judge_claim_def audits_for_def)
  ultimately show ?thesis by blast
qed

section \<open>A concrete creation, audited\<close>

lemma toy_lists:
  assumes "CHR ''/'' \<notin> set i" "nth_object (ts_trees r) i = Ok files"
  shows "lists_files (gx_objects toy_store_gix r) i (map_of files)"
proof -
  have "(p, v) \<in> set (AList.clearjunk files) \<longleftrightarrow> map_of files p = Some v" for p v
    by (simp flip: map_of_eq_Some_iff[OF distinct_clearjunk] add: map_of_clearjunk)
  then have "\<lparr>fr_mode = mode, fr_filepath = p, fr_oid = oid\<rparr> \<in> (\<lambda>(p, mode, i). \<lparr>fr_mode = mode, fr_filepath = p, fr_oid = i\<rparr>) ` set (AList.clearjunk files)
      \<longleftrightarrow> map_of files p = Some (mode, oid)" for mode p oid
    by (auto simp: image_iff intro!: bexI[of _ "(p, mode, oid)"])
  then have "f \<in> (\<lambda>(p, mode, i). \<lparr>fr_mode = mode, fr_filepath = p, fr_oid = i\<rparr>) ` set (AList.clearjunk files)
      \<longleftrightarrow> map_of files (fr_filepath f) = Some (fr_mode f, fr_oid f)" for f
    by (cases f) simp
  with assms show ?thesis
    by (simp add: lists_files_def toy_store_gix_def toy_find_tree_def split_once_None[THEN iffD2] toy_sealed_tree_def)
qed

lemma toy_faithful: "faithful_editor toy_store_gix toy_writer"
proof -
  have "lists_files (gx_objects toy_store_gix r) i (map_of files)" if "edit_tree toy_writer r i = Ok files" for r i files
    using that by (intro toy_lists) (auto simp: toy_writer_def split: if_splits)
  moreover have "lists_files (gx_objects toy_store_gix r') i (map_of files)" if "write_tree toy_writer files r = (Ok i, r')" for r r' i files
    using that by (intro toy_lists) (auto simp: toy_writer_def)
  moreover have "ed_files toy_writer = map_of" by (simp add: toy_writer_def)
  ultimately show ?thesis
    unfolding faithful_editor_def by (simp add: toy_store_gix_def REGULAR_FILE_MODE_def)
qed

lemmas toy_tree_eval = tree_records_def root_tree_def toy_store_gix_def toy_find_tree_def split_once_None[THEN iffD2]
  nth_object_def toy_sealed_tree_def toy_base_files_def toy_crl_path_def crl_record_path_def layout_defs toy_hex

definition toy_stamped_records :: "file_record list" where
  "toy_stamped_records =
     map (\<lambda>(p, mode, i). \<lparr>fr_mode = mode, fr_filepath = p, fr_oid = i\<rparr>) toy_stamped_files"

lemma toy_stamped_root: "tree_records toy_store_gix (root_tree (toy_stamped m) (toy_id 2)) = Ok toy_stamped_records"
  by (simp add: toy_tree_eval toy_stamped_def toy_mirrored_def toy_stamped_records_def toy_stamped_files_def token_path_def)

lemma toy_stamped_listed: "listed_soundly toy_store_gix (toy_stamped m) (toy_id 2)"
proof (rule listed_alone[OF toy_stamped_root])
  show "sound_listing (gx_objects toy_store_gix (toy_stamped m)) toy_stamped_records"
    by (simp add: sound_listing_def below_def toy_stamped_records_def toy_stamped_files_def toy_base_files_def toy_crl_path_def
      crl_record_path_def layout_defs toy_hex token_path_def)
  show "gitlinks_of toy_store_gix (root_tree (toy_stamped m) (toy_id 2)) toy_stamped_records = []"
    by (simp add: gitlinks_of_def REGULAR_FILE_MODE_def GITLINK_MODE_def toy_stamped_records_def toy_stamped_files_def toy_base_files_def)
  show "\<forall>f \<in> set (files_of toy_store_gix (root_tree (toy_stamped m) (toy_id 2)) toy_stamped_records).
      \<forall>blob. find_blob_in toy_store_gix (toy_stamped m) (fr_oid f) = Ok blob \<longrightarrow> length blob < 2 ^ 64"
    using toy_config_small
    by (simp add: files_of_def included_def is_excluded_iff below_iff root_tree_def toy_stamped_records_def toy_stamped_files_def
      toy_base_files_def toy_store_gix_def toy_stamped_def nth_object_def toy_crl_path_def crl_record_path_def layout_defs toy_hex
      token_path_def)
qed

lemma toy_stamped_again: "snapshot_run toy_store_gix toy_digests (toy_stamped m) (toy_id 2) = Some (Ok toy_stamped_entries)"
proof -
  have "traverse_repository_tree toy_store_gix toy_digests [] (root_tree (toy_stamped m) (toy_id 2)) = Ok (toy_stamped_entries, [])"
    unfolding traverse_repository_tree_def toy_stamped_root
    by (simp add: toy_stamped_records_def toy_stamped_files_def screen_record_def is_excluded_iff below_iff token_path_def toy_tree_eval toy_stamped_def read_tree_entry_def decode_file_mode_def GITLINK_MODE_def
      REGULAR_FILE_MODE_def join_path_def toy_stamped_entries_def Let_def)
  then show ?thesis by (simp add: snapshot_run_def drain_Cons)
qed

lemma toy_content_clear: "clear_of_artifacts toy_store_gix toy_mirrored (toy_id 1)"
  by (simp add: clear_of_artifacts_def toy_tree_eval toy_mirrored_def artifact_place_def below_iff)

definition toy_stamp_auditor :: "toy_store auditor" where
  "toy_stamp_auditor =
     \<lparr>au_gix = toy_store_gix, au_table = [(0, 32)], au_digests = toy_digests, au_pki = toy_pki, au_cms = toy_cms,
      au_pem = au_pem toy_auditor, au_files = au_files toy_auditor, au_from_hex = Ok\<rparr>"

lemma created_stamp_passes_its_audit_witness:
  "\<exists>created manifest_text fs w supplemented summary.
     create_run toy_creator toy_create (toy_unstamped, toy_disk ''chain'', 0) = Some (Ok created, (toy_stamped manifest_text, fs, w)) \<and>
     judge_claim toy_stamp_auditor (toy_stamped manifest_text) (sealing_trust toy_create toy_records supplemented) (toy_id 1) =
       Some (Ok summary)"
proof -
  obtain created manifest_text fs w where id: "cs_commit_id created = toy_id 1"
    and run: "create_run toy_creator toy_create (toy_unstamped, toy_disk ''chain'', 0) = Some (Ok created, (toy_stamped manifest_text, fs, w))"
    using toy_stamps_into[of "\<lparr>am_make = \<lambda>w n s. ((), w), am_acquire = \<lambda>w a payload. (Ok toy_token, w)\<rparr>" 0]
    unfolding toy_creator_def by (auto simp: answers_toy_token_def)
  obtain fs1 where prepared: "prepare toy_creator toy_create (toy_unstamped, toy_disk ''chain'', 0) =
      (Ok (''/w'', toy_records, toy_id 1, toy_config), (toy_mirrored, fs1, 0))" using toy_prepared[of 0] unfolding toy_creator_def by blast
  have parts: "ct_gix toy_creator = toy_store_gix" "ct_writer toy_creator = toy_writer" "ct_table toy_creator = [(0, 32)]"
    "ct_digests toy_creator = toy_digests" "lt_pki (ct_ltv toy_creator) = toy_pki" "lt_cms (ct_ltv toy_creator) = toy_cms"
    by (simp_all add: toy_creator_def toy_creator_parts toy_ltv_def)
  have auditor: "audits_for toy_creator toy_stamp_auditor" by (simp add: audits_for_def parts toy_stamp_auditor_def)
  have place: "gx_common_dir toy_store_gix r = gx_common_dir toy_store_gix r2" "gx_workdir toy_store_gix r = gx_workdir toy_store_gix r2" for r r2
    by (simp_all add: toy_store_gix_def)
  have tree: "tree_id = toy_id 2" if "gr_find_commit (gx_objects toy_store_gix (toy_stamped manifest_text)) (toy_id 1) = Ok commit"
      "gc_tree_id commit = Ok tree_id" for commit tree_id
    using that by (auto simp: toy_store_gix_def toy_stamped_def toy_mirrored_def toy_unstamped_def nth_object_def stamp_commit_def result_simps)
  have bound: "cr_parent_ids toy_create = [toy_id 0]" by (simp add: toy_create_def)
  note created_stamp_passes_its_audit[OF _ _ _ _ auditor run prepared, unfolded parts bound fst_conv id, OF ascii_table_example toy_digests_ok
    toy_writer_sound toy_faithful place toy_mirror_listed toy_content_clear]
  from this[unfolded toy_nothing_bound] run tree toy_stamped_listed toy_stamped_again show ?thesis by fastforce
qed

section \<open>Content in the place of an artifact\<close>

text \<open>A regular file named as the token directory is no artifact to \<open>snapshot.rs\<close>, so the manifest lists it; \<open>seal.rs\<close> removes
  it with the stale tokens, so the commit does not hold it, and the tree and the manifest of the new stamp disagree.\<close>

definition toy_obstructed :: toy_store where
  "toy_obstructed = toy_unsealed
     \<lparr>ts_trees := [[(''README'', REGULAR_FILE_MODE, toy_id 0), (TOKENS_PATH, REGULAR_FILE_MODE, toy_id 1)]]\<rparr>"

definition toy_cleared :: "bytes \<Rightarrow> toy_store" where
  "toy_cleared m = toy_obstructed
     \<lparr>ts_blobs := [''text'', ''stale'', m, ''token''],
      ts_trees := ts_trees toy_obstructed @ [[(''.tydence/tokens/b.tsr'', REGULAR_FILE_MODE, toy_id 3),
        (MANIFEST_PATH, REGULAR_FILE_MODE, toy_id 2), (''README'', REGULAR_FILE_MODE, toy_id 0)]],
      ts_commits := ts_commits toy_obstructed @ [stamp_commit toy_seal (toy_id 1)],
      ts_references := [''refs/heads/main'' \<mapsto> toy_id 1]\<rparr>"

definition toy_listed_entry :: "bytes \<Rightarrow> bytes \<Rightarrow> entry" where
  "toy_listed_entry path bs = \<lparr>entry_path = path, entry_mode = Regular, entry_size = length bs, content_hashes = hash_payload toy_digests bs\<rparr>"

lemma toy_obstructed_seals: "seal_run toy_writer (toy_seal\<lparr>sl_manifest_bytes := m\<rparr>) toy_obstructed = (Ok (toy_id 1), toy_cleared m)"
  unfolding seal_run_def stamp_tree_id_def place_token_def action_defs
  by (simp add: toy_writer_def toy_seal_def toy_unsealed_def toy_obstructed_def toy_cleared_def nth_object_def toy_id_def below_iff
      layout_defs token_path_def stamp_commit_def stamp_ref_edit_def action_defs numeral_eq_Suc)

lemma toy_obstructed_snapshots:
  "snapshot_run toy_store_gix toy_digests toy_obstructed (toy_id 0) =
     Some (Ok [toy_listed_entry ''README'' ''text'', toy_listed_entry TOKENS_PATH ''stale''])"
  "snapshot_run toy_store_gix toy_digests (toy_cleared m) (toy_id 1) = Some (Ok [toy_listed_entry ''README'' ''text''])"
  by (simp_all add: snapshot_run_def drain_Cons traverse_repository_tree_def toy_tree_eval toy_obstructed_def toy_cleared_def
      toy_unsealed_def screen_record_def is_excluded_iff below_iff read_tree_entry_def decode_file_mode_def GITLINK_MODE_def
      REGULAR_FILE_MODE_def join_path_def toy_listed_entry_def Let_def)

theorem tokens_file_is_sealed_away:
  "\<exists>content sealed r'. seal_run toy_writer (toy_seal\<lparr>sl_manifest_bytes := m\<rparr>) toy_obstructed = (Ok (toy_id 1), r') \<and>
     snapshot_run toy_store_gix toy_digests toy_obstructed (toy_id 0) = Some (Ok content) \<and>
     snapshot_run toy_store_gix toy_digests r' (toy_id 1) = Some (Ok sealed) \<and>
     verify_tree content sealed \<noteq> Ok () \<and> \<not> clear_of_artifacts toy_store_gix toy_obstructed (toy_id 0)"
proof -
  have "verify_tree [toy_listed_entry ''README'' ''text'', toy_listed_entry TOKENS_PATH ''stale''] [toy_listed_entry ''README'' ''text''] \<noteq> Ok ()"
    by (simp add: verify_tree_Ok toy_listed_entry_def layout_defs)
  moreover have "\<not> clear_of_artifacts toy_store_gix toy_obstructed (toy_id 0)"
    by (simp add: clear_of_artifacts_def toy_tree_eval toy_obstructed_def artifact_place_def is_excluded_iff below_iff REGULAR_FILE_MODE_def)
  ultimately show ?thesis using toy_obstructed_seals[of m] toy_obstructed_snapshots by blast
qed

end
