(* ===== verification/Staging.thy ===== *)
theory Staging
  imports Seal Trust_Files Effects
begin

text \<open>
  \<open>crates/tydence/src/staging.rs\<close>: the index and the working tree around a stamp. The state is the repository, which
  holds the index file, and the file system. An index is the list of its entries; searching and sorting it, reading
  and writing the file and removing a directory are \<open>gix\<close> and the system: the record \<open>checkout\<close>.
\<close>

section \<open>Errors\<close>

datatype staging_error =
  StagingBareRepository
  | DepositsFailure deposit_error
  | IndexFailure string
  | ObjectsFailure string
  | WorktreeFailure string string

fun staging_error_display :: "(string \<Rightarrow> string) \<Rightarrow> staging_error \<Rightarrow> string" where
  "staging_error_display debug_str StagingBareRepository = ''the repository has no working tree to hold deposits''"
| "staging_error_display debug_str (DepositsFailure cause) =
     ''the deposits do not enumerate: '' @ deposit_error_display debug_str cause"
| "staging_error_display debug_str (IndexFailure _) = ''cannot read or write the index''"
| "staging_error_display debug_str (ObjectsFailure _) = ''cannot read the sealed objects''"
| "staging_error_display debug_str (WorktreeFailure path _) =
     ''cannot write or remove the working tree artifact at '' @ debug_str path"

section \<open>The index\<close>

datatype index_stat = ZeroedStat | TakenStat string

record index_entry =
  ie_path :: bytes
  ie_id :: object_id
  ie_stat :: index_stat
  ie_flags :: nat
  ie_mode :: nat

text \<open>Which optional extensions a written index carries over; the other options keep their defaults.\<close>

datatype index_extensions = AllExtensions | NoExtensions

record write_options =
  wo_extensions :: index_extensions

definition write_options_used :: write_options where
  "write_options_used = \<lparr>wo_extensions = NoExtensions\<rparr>"

record 'r checkout =
  ck_gix :: "'r gix"
  ck_write_blob :: "bytes \<Rightarrow> ('r, string, object_id) action"
  ck_head_commit :: "'r \<Rightarrow> (string, git_commit) result"
  ck_open_index :: "'r \<Rightarrow> (string, index_entry list) result"
  ck_index_or_empty :: "'r \<Rightarrow> (string, index_entry list) result"
  ck_write_index :: "write_options \<Rightarrow> index_entry list \<Rightarrow> ('r, string, unit) action"
  ck_entry_index :: "index_entry list \<Rightarrow> bytes \<Rightarrow> nat option"
  ck_sort_entries :: "index_entry list \<Rightarrow> index_entry list"
  ck_files :: file_writer
  ck_is_dir :: "file_system \<Rightarrow> string \<Rightarrow> bool"
  ck_remove_dir_all :: "string \<Rightarrow> (file_system, io_error, unit) action"

definition is_stamp_artifact :: "bytes \<Rightarrow> bool" where
  "is_stamp_artifact path \<longleftrightarrow> path = MANIFEST_PATH \<or>
     (case strip_prefix TOKENS_PATH path of None \<Rightarrow> False | Some below_tokens \<Rightarrow> take 1 below_tokens = ''/'')"

text \<open>The entry the code appends for a path, and the index with a path at a blob: \<open>None\<close> where it is there already.
  Both loops below search and change the index this way.\<close>

definition pushed_entry :: "bytes \<Rightarrow> object_id \<Rightarrow> index_entry" where
  "pushed_entry path blob_id =
     \<lparr>ie_path = path, ie_id = blob_id, ie_stat = ZeroedStat, ie_flags = 0, ie_mode = REGULAR_FILE_MODE\<rparr>"

definition queue_blob :: "'r checkout \<Rightarrow> index_entry list \<Rightarrow> bytes \<Rightarrow> object_id \<Rightarrow> index_entry list option" where
  "queue_blob ck index path blob_id =
     (case ck_entry_index ck index path of
        Some i \<Rightarrow>
          if ie_id (index ! i) = blob_id then None
          else Some (index[i := (index ! i)\<lparr>ie_id := blob_id, ie_stat := ZeroedStat\<rparr>])
      | None \<Rightarrow> Some (index @ [pushed_entry path blob_id]))"

section \<open>Queueing the deposits\<close>

definition stage_record ::
  "'r checkout \<Rightarrow> index_entry list \<times> string list \<Rightarrow> deposit_record \<Rightarrow> ('r, staging_error, index_entry list \<times> string list) action" where
  "stage_record ck acc deposit =
     act_bind (act_map_err IndexFailure (ck_write_blob ck (dr_pem_bytes deposit))) (\<lambda>blob_id.
     act_return (case queue_blob ck (fst acc) (dr_repository_path deposit) blob_id of
       None \<Rightarrow> acc
     | Some index \<Rightarrow> (index, snd acc @ [dr_repository_path deposit])))"

definition stage_deposits :: "'r checkout \<Rightarrow> ('r \<times> file_system, staging_error, string list) action" where
  "stage_deposits ck =
     act_bind (\<lambda>s. (ok_or StagingBareRepository (gx_workdir (ck_gix ck) (fst s)), s)) (\<lambda>worktree.
     act_bind (\<lambda>s. (map_err DepositsFailure (enumerate_deposits (snd s) worktree), s)) (\<lambda>records.
     if records = [] then act_return []
     else
       act_bind (\<lambda>s. (map_err IndexFailure (ck_open_index ck (fst s)), s)) (\<lambda>index.
       act_bind (on_fst (act_fold (stage_record ck) (index, []) records)) (\<lambda>(index, staged).
       if staged = [] then act_return staged
       else
         act_bind (on_fst (act_map_err IndexFailure (ck_write_index ck write_options_used (ck_sort_entries ck index)))) (\<lambda>_.
         act_return staged)))))"

section \<open>Agreeing with HEAD\<close>

definition sealed_child ::
  "git_repository \<Rightarrow> string \<Rightarrow> (string \<times> object_id) list \<Rightarrow> (string, tree_entry) result
    \<Rightarrow> (staging_error, (string \<times> object_id) list) result" where
  "sealed_child r directory found maybe_child =
     and_then (map_err ObjectsFailure maybe_child) (\<lambda>child.
     Ok (if gr_is_blob r (te_mode child)
         then found @ [(directory @ ''/'' @ gr_display r (te_filename child), te_object_id child)] else found))"

definition sealed_directory ::
  "git_repository \<Rightarrow> git_tree \<Rightarrow> (string \<times> object_id) list \<Rightarrow> string \<Rightarrow> (staging_error, (string \<times> object_id) list) result" where
  "sealed_directory r head_tree found directory =
     and_then (map_err ObjectsFailure (gt_lookup head_tree directory)) (\<lambda>maybe_entry.
     case maybe_entry of None \<Rightarrow> Ok found
     | Some e \<Rightarrow>
         if \<not> gr_is_tree r (te_mode e) then Ok found
         else and_then (map_err ObjectsFailure (gr_find_tree r (te_object_id e))) (\<lambda>tree.
           try_fold (sealed_child r directory) found (gt_iter tree)))"

definition sealed_files :: "'r checkout \<Rightarrow> 'r \<Rightarrow> (staging_error, (string \<times> object_id) list) result" where
  "sealed_files ck repository =
     (let r = gx_objects (ck_gix ck) repository in
      and_then (map_err ObjectsFailure (ck_head_commit ck repository)) (\<lambda>head_commit.
      and_then (map_err ObjectsFailure (gc_tree head_commit)) (\<lambda>head_tree.
      and_then (map_err ObjectsFailure (gt_lookup head_tree MANIFEST_PATH)) (\<lambda>maybe_manifest_entry.
      try_fold (sealed_directory r head_tree)
        (case maybe_manifest_entry of None \<Rightarrow> []
         | Some e \<Rightarrow> if gr_is_blob r (te_mode e) then [(MANIFEST_PATH, te_object_id e)] else [])
        [TOKENS_PATH, LTV_CERTS_PATH, LTV_CRLS_PATH]))))"

definition artifact_failure :: "string \<Rightarrow> io_error \<Rightarrow> staging_error" where
  "artifact_failure path e = WorktreeFailure path (io_text e)"

definition sync_file ::
  "'r checkout \<Rightarrow> string \<Rightarrow> index_entry list \<times> bool \<Rightarrow> string \<times> object_id
    \<Rightarrow> ('r \<times> file_system, staging_error, index_entry list \<times> bool) action" where
  "sync_file ck worktree acc f =
     (let file_path = path_join worktree (fst f) in
      act_bind (case path_parent file_path of None \<Rightarrow> act_return ()
        | Some parent \<Rightarrow> on_snd (act_map_err (artifact_failure (fst f)) (create_dir_all (ck_files ck) parent))) (\<lambda>_.
      act_bind (\<lambda>s. (map_err ObjectsFailure (gr_find_blob (gx_objects (ck_gix ck) (fst s)) (snd f)), s)) (\<lambda>blob.
      act_bind (on_snd (act_map_err (artifact_failure (fst f)) (write_file (ck_files ck) file_path blob))) (\<lambda>_.
      act_return (case queue_blob ck (fst acc) (fst f) (snd f) of None \<Rightarrow> acc | Some index \<Rightarrow> (index, True))))))"

definition is_stale :: "(string \<times> object_id) list \<Rightarrow> bytes \<Rightarrow> bool" where
  "is_stale found path \<longleftrightarrow> is_stamp_artifact path \<and> path \<notin> fst ` set found"

text \<open>The body of the loop over the stale paths, which carries no value.\<close>

definition remove_stale ::
  "'r checkout \<Rightarrow> string \<Rightarrow> unit \<Rightarrow> string \<Rightarrow> (file_system, staging_error, unit) action" where
  "remove_stale ck worktree _ path fs =
     (let file_path = path_join worktree path in
      if fs_is_file fs file_path then act_map_err (artifact_failure path) (remove_file (ck_files ck) file_path) fs
      else act_return () fs)"

definition stale_paths :: "'r checkout \<Rightarrow> 'r \<Rightarrow> (string \<times> object_id) list \<Rightarrow> index_entry list \<Rightarrow> string list" where
  "stale_paths ck repository found index =
     map (gr_display (gx_objects (ck_gix ck) repository)) (filter (is_stale found) (map ie_path index))"

definition without_stale :: "(string \<times> object_id) list \<Rightarrow> index_entry list \<Rightarrow> index_entry list" where
  "without_stale found index = filter (\<lambda>e. \<not> is_stale found (ie_path e)) index"

definition sync_artifacts :: "'r checkout \<Rightarrow> ('r \<times> file_system, staging_error, unit) action" where
  "sync_artifacts ck =
     act_bind (\<lambda>s. (ok_or StagingBareRepository (gx_workdir (ck_gix ck) (fst s)), s)) (\<lambda>worktree.
     act_bind (\<lambda>s. (sealed_files ck (fst s), s)) (\<lambda>found.
     act_bind (\<lambda>s. (map_err IndexFailure (ck_open_index ck (fst s)), s)) (\<lambda>index.
     act_bind (act_fold (sync_file ck worktree) (index, False) found) (\<lambda>(index, index_changed).
     act_bind (\<lambda>s. (Ok (stale_paths ck (fst s) found index), s)) (\<lambda>stale.
     act_bind (on_snd (act_fold (remove_stale ck worktree) () stale)) (\<lambda>_.
     let kept = (if stale \<noteq> [] then without_stale found index else index)
     in if stale \<noteq> [] \<or> index_changed
        then on_fst (act_map_err IndexFailure (ck_write_index ck write_options_used (ck_sort_entries ck kept)))
        else act_return ()))))))"

section \<open>Leaving the stamped state\<close>

definition staged_artifacts :: "'r checkout \<Rightarrow> 'r \<Rightarrow> (staging_error, string list) result" where
  "staged_artifacts ck repository =
     and_then (map_err IndexFailure (ck_index_or_empty ck repository)) (\<lambda>index.
     Ok (map (gr_display (gx_objects (ck_gix ck) repository)) (filter is_stamp_artifact (map ie_path index))))"

definition drop_from_index :: "'r checkout \<Rightarrow> ('r, staging_error, unit) action" where
  "drop_from_index ck =
     act_bind (\<lambda>r. (map_err IndexFailure (ck_open_index ck r), r)) (\<lambda>index.
     act_map_err IndexFailure (ck_write_index ck write_options_used (filter (\<lambda>e. \<not> is_stamp_artifact (ie_path e)) index)))"

text \<open>The two removals from the working tree, each with the path it reports.\<close>

definition drop_manifest_file :: "'r checkout \<Rightarrow> string \<Rightarrow> (file_system, staging_error, string list) action" where
  "drop_manifest_file ck worktree fs =
     (let manifest_file = path_join worktree MANIFEST_PATH in
      if fs_is_file fs manifest_file
      then act_bind (act_map_err (artifact_failure MANIFEST_PATH) (remove_file (ck_files ck) manifest_file))
        (\<lambda>_. act_return [MANIFEST_PATH]) fs
      else act_return [] fs)"

definition drop_tokens_directory :: "'r checkout \<Rightarrow> string \<Rightarrow> (file_system, staging_error, string list) action" where
  "drop_tokens_directory ck worktree fs =
     (let tokens_directory = path_join worktree TOKENS_PATH in
      if ck_is_dir ck fs tokens_directory
      then act_bind (act_map_err (artifact_failure TOKENS_PATH) (ck_remove_dir_all ck tokens_directory))
        (\<lambda>_. act_return [TOKENS_PATH @ ''/'']) fs
      else act_return [] fs)"

text \<open>\<open>Vec::sort\<close> and \<open>dedup\<close>, which drops repeated neighbours.\<close>

definition drop_artifacts :: "'r checkout \<Rightarrow> ('r \<times> file_system, staging_error, string list) action" where
  "drop_artifacts ck =
     act_bind (\<lambda>s. (staged_artifacts ck (fst s), s)) (\<lambda>spotted.
     act_bind (if spotted \<noteq> [] then on_fst (drop_from_index ck) else act_return ()) (\<lambda>_.
     act_bind (\<lambda>s. (ok_or StagingBareRepository (gx_workdir (ck_gix ck) (fst s)), s)) (\<lambda>worktree.
     act_bind (on_snd (drop_manifest_file ck worktree)) (\<lambda>manifest_dropped.
     act_bind (on_snd (drop_tokens_directory ck worktree)) (\<lambda>tokens_dropped.
     act_return (remdups_adj (sort (spotted @ manifest_dropped @ tokens_dropped))))))))"

section \<open>What the index promises\<close>

text \<open>A found position holds the path, on any list. Nothing is missed where the entries compare with the path in
  order, smaller, equal and larger ones one after the other, which is all the search can see of a list; every sorted
  list is in this order for every path. Another list promises nothing. Sorting is by path. A failed write leaves the
  index file, which is replaced as a whole.\<close>

definition index_paths :: "index_entry list \<Rightarrow> bytes set" where
  "index_paths index = ie_path ` set index"

definition index_map :: "index_entry list \<Rightarrow> bytes \<Rightarrow> object_id option" where
  "index_map index = map_of (map (\<lambda>e. (ie_path e, ie_id e)) index)"

definition clean_index :: "index_entry list \<Rightarrow> bool" where
  "clean_index index \<longleftrightarrow> sorted (map ie_path index) \<and> distinct (map ie_path index)"

definition ordered_around :: "bytes \<Rightarrow> bytes list \<Rightarrow> bool" where
  "ordered_around path paths \<longleftrightarrow> sorted_wrt (\<lambda>p q. (path \<le> p \<longrightarrow> path \<le> q) \<and> (path < p \<longrightarrow> path < q)) paths"

definition searches_index :: "'r checkout \<Rightarrow> bool" where
  "searches_index ck \<longleftrightarrow>
     (\<forall>index path i. ck_entry_index ck index path = Some i \<longrightarrow> i < length index \<and> ie_path (index ! i) = path) \<and>
     (\<forall>index path. ordered_around path (map ie_path index) \<longrightarrow> ck_entry_index ck index path = None \<longrightarrow> path \<notin> index_paths index) \<and>
     (\<forall>index. mset (ck_sort_entries ck index) = mset index \<and> sorted (map ie_path (ck_sort_entries ck index)))"

text \<open>What reading the repository shows besides the objects.\<close>

definition same_view :: "'r checkout \<Rightarrow> 'r \<Rightarrow> 'r \<Rightarrow> bool" where
  "same_view ck r r' \<longleftrightarrow> extends (gx_objects (ck_gix ck) r) (gx_objects (ck_gix ck) r') \<and>
     gr_display (gx_objects (ck_gix ck) r') = gr_display (gx_objects (ck_gix ck) r) \<and>
     gx_workdir (ck_gix ck) r' = gx_workdir (ck_gix ck) r \<and> ck_head_commit ck r' = ck_head_commit ck r"

lemma same_view_trans: "same_view ck r1 r2 \<Longrightarrow> same_view ck r2 r3 \<Longrightarrow> same_view ck r1 r3"
  by (auto simp: same_view_def intro: extends_trans)

lemma same_view_refl [simp]: "same_view ck r r"
  by (simp add: same_view_def)

definition keeps_index :: "'r checkout \<Rightarrow> bool" where
  "keeps_index ck \<longleftrightarrow>
     (\<forall>bs r x r'. ck_write_blob ck bs r = (x, r') \<longrightarrow> same_view ck r r' \<and> ck_open_index ck r' = ck_open_index ck r \<and>
        ck_index_or_empty ck r' = ck_index_or_empty ck r \<and> (\<forall>i. x = Ok i \<longrightarrow> gr_find_blob (gx_objects (ck_gix ck) r') i = Ok bs)) \<and>
     (\<forall>options index r x r'. ck_write_index ck options index r = (x, r') \<longrightarrow>
        gx_objects (ck_gix ck) r' = gx_objects (ck_gix ck) r \<and> same_view ck r r' \<and>
        (if x = Ok () then ck_open_index ck r' = Ok index \<and> ck_index_or_empty ck r' = Ok index
         else ck_open_index ck r' = ck_open_index ck r \<and> ck_index_or_empty ck r' = ck_index_or_empty ck r)) \<and>
     (\<forall>r index. ck_open_index ck r = Ok index \<longrightarrow> ck_index_or_empty ck r = Ok index)"

section \<open>One path\<close>

lemma index_map_None: "index_map index path = None \<longleftrightarrow> path \<notin> index_paths index"
  by (auto simp: index_map_def index_paths_def map_of_eq_None_iff image_image)

lemma index_map_nth: "distinct (map ie_path index) \<Longrightarrow> i < length index \<Longrightarrow> index_map index (ie_path (index ! i)) = Some (ie_id (index ! i))"
  by (auto simp: index_map_def comp_def intro!: map_of_is_SomeI)

lemma index_map_sorted:
  assumes "searches_index ck" "distinct (map ie_path index)"
  shows "index_map (ck_sort_entries ck index) = index_map index" "clean_index (ck_sort_entries ck index)"
proof -
  have same: "mset (ck_sort_entries ck index) = mset index" using assms(1) by (simp add: searches_index_def)
  then have "mset (map ie_path (ck_sort_entries ck index)) = mset (map ie_path index)" by simp
  then have "distinct (map ie_path (ck_sort_entries ck index))" using assms(2) by (metis mset_eq_imp_distinct_iff)
  moreover from same have "set (ck_sort_entries ck index) = set index" by (rule mset_eq_setD)
  ultimately show "index_map (ck_sort_entries ck index) = index_map index" "clean_index (ck_sort_entries ck index)"
    using assms by (auto simp: index_map_def map_of_inject_set comp_def clean_index_def searches_index_def)
qed

lemma sorted_ordered_around: "sorted paths \<Longrightarrow> ordered_around path paths"
  unfolding ordered_around_def by (erule sorted_wrt_mono_rel[rotated]) auto

lemma ordered_around_snoc: "ordered_around path (paths @ [new]) \<longleftrightarrow> ordered_around path paths \<and>
    (\<forall>p \<in> set paths. (path \<le> p \<longrightarrow> path \<le> new) \<and> (path < p \<longrightarrow> path < new))"
  by (simp add: ordered_around_def sorted_wrt_append)

text \<open>A search that does not miss the path it is for.\<close>

definition hits :: "index_entry list \<Rightarrow> bytes \<Rightarrow> bool" where
  "hits index path \<longleftrightarrow> (path \<in> index_paths index \<longrightarrow> ordered_around path (map ie_path index))"

lemma index_map_update:
  assumes "distinct (map ie_path index)" "k < length index" "ie_path (index ! k) = path"
  shows "index_map (index[k := (index ! k)\<lparr>ie_id := i, ie_stat := st\<rparr>]) = (index_map index)(path \<mapsto> i)"
proof -
  let ?pairs = "map (\<lambda>e. (ie_path e, ie_id e)) index"
  have paths: "map fst (?pairs[k := (path, i)]) = map fst ?pairs"
    using assms(2,3) by (simp add: map_update comp_def list_update_same_conv)
  have "map_of (?pairs[k := (path, i)]) p = ((map_of ?pairs)(path \<mapsto> i)) p" for p
  proof (cases "p \<in> fst ` set ?pairs")
    case True
    then obtain j where j: "j < length index" "ie_path (index ! j) = p" by (auto simp: in_set_conv_nth image_image)
    have "map_of (?pairs[k := (path, i)]) (fst (?pairs[k := (path, i)] ! j)) = Some (snd (?pairs[k := (path, i)] ! j))"
      using j(1) assms(1) paths by (intro map_of_is_SomeI) (auto simp: comp_def in_set_conv_nth intro!: exI[of _ j])
    moreover have "j = k \<longleftrightarrow> p = path"
      using assms j by (auto simp: distinct_conv_nth)
    ultimately show ?thesis
      using j assms index_map_nth[OF assms(1) j(1)] by (auto simp: nth_list_update index_map_def)
  next
    case False
    moreover from this have "p \<noteq> path" using assms(2,3) by (auto simp: image_image)
    moreover have "p \<notin> fst ` set (?pairs[k := (path, i)])" using False paths by (metis list.set_map)
    ultimately show ?thesis by (simp add: map_of_eq_None_iff[THEN iffD2])
  qed
  then show ?thesis using assms(3) by (auto simp: index_map_def map_update)
qed

lemma queue_blob_exact:
  assumes "searches_index ck" "distinct (map ie_path index)" "hits index path"
  shows "queue_blob ck index path i = None \<Longrightarrow> index_map index path = Some i"
    and "queue_blob ck index path i = Some index' \<Longrightarrow> index_map index path \<noteq> Some i \<and>
      index_map index' = (index_map index)(path \<mapsto> i) \<and> distinct (map ie_path index') \<and>
      index_paths index' = insert path (index_paths index) \<and>
      map ie_path index' = map ie_path index @ (if path \<in> index_paths index then [] else [path])"
proof -
  have found: "k < length index \<and> ie_path (index ! k) = path" if "ck_entry_index ck index path = Some k" for k
    using assms(1) that by (simp add: searches_index_def)
  have missed: "path \<notin> index_paths index" if "ck_entry_index ck index path = None"
    using assms(1,3) that by (auto simp: searches_index_def hits_def)
  show "index_map index path = Some i" if "queue_blob ck index path i = None"
    using that found index_map_nth[OF assms(2)] by (auto simp: queue_blob_def split: option.splits if_splits)
  assume queued: "queue_blob ck index path i = Some index'"
  show "index_map index path \<noteq> Some i \<and> index_map index' = (index_map index)(path \<mapsto> i) \<and> distinct (map ie_path index') \<and>
      index_paths index' = insert path (index_paths index) \<and>
      map ie_path index' = map ie_path index @ (if path \<in> index_paths index then [] else [path])"
  proof (cases "ck_entry_index ck index path")
    case None
    with queued have index': "index' = index @ [pushed_entry path i]" by (simp add: queue_blob_def)
    from missed[OF None] have "index_map index path = None" by (simp add: index_map_None)
    then have "index_map index' = (index_map index)(path \<mapsto> i)"
      by (auto simp: index' index_map_def map_add_def pushed_entry_def fun_eq_iff split: option.split)
    with missed[OF None] \<open>index_map index path = None\<close> assms(2) show ?thesis by (auto simp: index' index_paths_def pushed_entry_def)
  next
    case (Some k)
    with queued have index': "index' = index[k := (index ! k)\<lparr>ie_id := i, ie_stat := ZeroedStat\<rparr>]" "ie_id (index ! k) \<noteq> i"
      by (auto simp: queue_blob_def split: if_splits)
    note k = found[OF Some]
    have "map ie_path index' = map ie_path index" using k by (simp add: index'(1) map_update list_update_same_conv)
    moreover from this have "index_paths index' = index_paths index" by (metis index_paths_def list.set_map)
    moreover have "path \<in> index_paths index" using k by (auto simp: index_paths_def)
    ultimately show ?thesis
      using index_map_update[OF assms(2)] index_map_nth[OF assms(2)] k index'(2) assms(2) by (auto simp: index'(1))
  qed
qed

section \<open>Queueing, exactly\<close>

text \<open>No path the index has is preceded by a larger or equal one it lacks: then a search that follows a push sees the
  pushed entry where it belongs, behind the path it is for. This is so where the known paths come first, and where the
  unknown ones that precede them are larger, as the manifest and the tokens are larger than the LTV records.\<close>

definition new_above_known :: "index_entry list \<Rightarrow> bytes list \<Rightarrow> bool" where
  "new_above_known index paths \<longleftrightarrow>
     sorted_wrt (\<lambda>p q. p \<notin> index_paths index \<and> q \<in> index_paths index \<longrightarrow> q < p) paths"

lemma new_above_knownI:
  assumes "\<And>p q. p \<in> set paths \<Longrightarrow> q \<in> set paths \<Longrightarrow> p \<notin> index_paths index \<Longrightarrow> q \<in> index_paths index \<Longrightarrow> q < p"
  shows "new_above_known index paths"
proof -
  have "sorted_wrt (\<lambda>p q. p \<notin> index_paths index \<and> q \<in> index_paths index \<longrightarrow> q < p) ps" if "set ps \<subseteq> set paths" for ps
    using that by (induction ps) (auto intro: assms)
  then show ?thesis by (simp add: new_above_known_def)
qed

text \<open>What a loop of searches that queue leaves to be true of the rest.\<close>

definition searchable :: "index_entry list \<Rightarrow> bytes list \<Rightarrow> bool" where
  "searchable index paths \<longleftrightarrow> distinct (map ie_path index) \<and> distinct paths \<and>
     (\<forall>path \<in> set paths. hits index path) \<and> new_above_known index paths"

lemma searchable_clean: "clean_index index \<Longrightarrow> distinct paths \<Longrightarrow> new_above_known index paths \<Longrightarrow> searchable index paths"
  by (simp add: searchable_def clean_index_def hits_def sorted_ordered_around)

lemma searchable_hits: "searchable index (path # paths) \<Longrightarrow> hits index path"
  by (simp add: searchable_def)

lemma searchable_Nil: "searchable index [] \<longleftrightarrow> distinct (map ie_path index)"
  by (simp add: searchable_def new_above_known_def)

lemma searchable_next:
  assumes "searches_index ck" "searchable index (path # paths)"
  shows "searchable (case queue_blob ck index path i of None \<Rightarrow> index | Some index' \<Rightarrow> index') paths"
    and "index_map (case queue_blob ck index path i of None \<Rightarrow> index | Some index' \<Rightarrow> index') = (index_map index)(path \<mapsto> i)"
    and "queue_blob ck index path i = None \<longleftrightarrow> index_map index path = Some i"
proof -
  have distinct: "distinct (map ie_path index)" using assms(2) by (simp add: searchable_def)
  note exact = queue_blob_exact[OF assms(1) distinct searchable_hits[OF assms(2)]]
  show "queue_blob ck index path i = None \<longleftrightarrow> index_map index path = Some i"
    using exact by (cases "queue_blob ck index path i") auto
  show "index_map (case queue_blob ck index path i of None \<Rightarrow> index | Some index' \<Rightarrow> index') = (index_map index)(path \<mapsto> i)"
    using exact by (auto simp: fun_eq_iff split: option.split)
  have rest: "searchable index paths" using assms(2) by (simp add: searchable_def new_above_known_def)
  show "searchable (case queue_blob ck index path i of None \<Rightarrow> index | Some index' \<Rightarrow> index') paths"
  proof (cases "queue_blob ck index path i")
    case (Some index')
    note facts = exact(2)[OF Some]
    show ?thesis
    proof (cases "path \<in> index_paths index")
      case True
      with facts have "map ie_path index' = map ie_path index" "index_paths index' = index_paths index" by auto
      with Some rest show ?thesis by (simp add: searchable_def new_above_known_def hits_def)
    next
      case False
      have fresh: "path \<notin> set paths" and later: "\<forall>q \<in> set paths. q \<in> index_paths index \<longrightarrow> q < path"
        using assms(2) False by (auto simp: searchable_def new_above_known_def)
      have "hits index' q" if "q \<in> set paths" for q
        using that rest fresh later facts False by (auto simp: searchable_def hits_def ordered_around_snoc)
      moreover have "new_above_known index' paths"
        using rest fresh facts unfolding searchable_def new_above_known_def
        by (auto intro: sorted_wrt_mono_rel[rotated])
      moreover have "distinct (map ie_path index')" "distinct paths" using rest facts unfolding searchable_def by blast+
      ultimately show ?thesis using Some by (simp add: searchable_def)
    qed
  qed (use rest in simp)
qed

end
