(* ===== verification/Staging_Deposits.thy ===== *)
theory Staging_Deposits
  imports Staging
begin

text \<open>
  \<open>stage_deposits\<close> of \<open>staging.rs\<close>: what is queued, when the index stays an index, and a run that leaves
  none. At the end a concrete checkout, whose index is searched as the Rust library searches.
\<close>

section \<open>The loop over the deposits\<close>

lemma stage_record_Ok:
  "stage_record ck (index, staged) d r = (Ok acc', r') \<longleftrightarrow> (\<exists>i. ck_write_blob ck (dr_pem_bytes d) r = (Ok i, r') \<and>
     acc' = (case queue_blob ck index (dr_repository_path d) i of
       None \<Rightarrow> (index, staged) | Some ix \<Rightarrow> (ix, staged @ [dr_repository_path d])))"
  unfolding stage_record_def fst_conv snd_conv by (auto simp: action_simps)

lemma stage_records_exact:
  assumes ck: "searches_index ck" "keeps_index ck"
    and "act_fold (stage_record ck) (index, staged) records r = (Ok (index', staged'), r')"
    and "searchable index (map dr_repository_path records)"
  shows "\<exists>ids. list_all2 (\<lambda>d i. gr_find_blob (gx_objects (ck_gix ck) r') i = Ok (dr_pem_bytes d)) records ids \<and>
    index_map index' = index_map index ++ map_of (zip (map dr_repository_path records) ids) \<and> distinct (map ie_path index') \<and>
    staged' = staged @ map fst (filter (\<lambda>(p, i). index_map index p \<noteq> Some i) (zip (map dr_repository_path records) ids)) \<and>
    (staged' = staged \<longrightarrow> index' = index) \<and>
    same_view ck r r' \<and> ck_open_index ck r' = ck_open_index ck r \<and> ck_index_or_empty ck r' = ck_index_or_empty ck r"
  using assms(3,4)
proof (induction records arbitrary: index staged r)
  case Nil
  then show ?case by (auto simp: action_simps searchable_Nil same_view_def intro!: exI[of _ "[]"])
next
  case (Cons d records)
  let ?p = "dr_repository_path d"
  from Cons.prems(1) obtain acc r1 where first: "stage_record ck (index, staged) d r = (Ok acc, r1)"
    and rest: "act_fold (stage_record ck) acc records r1 = (Ok (index', staged'), r')"
    by (auto simp: action_simps)
  from first obtain i where blob: "ck_write_blob ck (dr_pem_bytes d) r = (Ok i, r1)"
    and acc: "acc = (case queue_blob ck index ?p i of None \<Rightarrow> (index, staged) | Some ix \<Rightarrow> (ix, staged @ [?p]))"
    unfolding stage_record_Ok by (elim exE conjE)
  let ?index1 = "case queue_blob ck index ?p i of None \<Rightarrow> index | Some ix \<Rightarrow> ix"
  let ?staged1 = "if index_map index ?p = Some i then staged else staged @ [?p]"
  have searchable: "searchable index (?p # map dr_repository_path records)" using Cons.prems(2) by simp
  note step = searchable_next[OF ck(1) searchable, where i = i]
  have "acc = (?index1, ?staged1)" using acc step(3) by (cases "queue_blob ck index ?p i") auto
  with rest have "act_fold (stage_record ck) (?index1, ?staged1) records r1 = (Ok (index', staged'), r')" by simp
  from Cons.IH[OF this step(1)] obtain ids where ids:
    "list_all2 (\<lambda>d i. gr_find_blob (gx_objects (ck_gix ck) r') i = Ok (dr_pem_bytes d)) records ids"
    "index_map index' = index_map ?index1 ++ map_of (zip (map dr_repository_path records) ids)" "distinct (map ie_path index')"
    "staged' = ?staged1 @ map fst (filter (\<lambda>(p, i). index_map ?index1 p \<noteq> Some i) (zip (map dr_repository_path records) ids))"
    "staged' = ?staged1 \<longrightarrow> index' = ?index1"
    "same_view ck r1 r'" "ck_open_index ck r' = ck_open_index ck r1" "ck_index_or_empty ck r' = ck_index_or_empty ck r1"
    by blast
  have view: "same_view ck r r1" "ck_open_index ck r1 = ck_open_index ck r" "ck_index_or_empty ck r1 = ck_index_or_empty ck r"
    "gr_find_blob (gx_objects (ck_gix ck) r1) i = Ok (dr_pem_bytes d)"
    using ck(2) blob by (simp_all add: keeps_index_def)
  have fresh: "?p \<notin> set (map dr_repository_path records)" using searchable by (simp add: searchable_def)
  then have "filter (\<lambda>(p, i). index_map ?index1 p \<noteq> Some i) (zip (map dr_repository_path records) ids) =
      filter (\<lambda>(p, i). index_map index p \<noteq> Some i) (zip (map dr_repository_path records) ids)"
    unfolding step(2) by (intro filter_cong) (auto dest!: set_zip_leftD split: if_splits)
  note staged' = ids(4)[unfolded this]
  have "map_of (zip (map dr_repository_path records) ids) ?p = None"
    using fresh by (auto simp: map_of_eq_None_iff dest!: set_zip_leftD)
  then have placed: "index_map index' = index_map index ++ map_of (zip (map dr_repository_path (d # records)) (i # ids))"
    using ids(2) unfolding step(2) by (auto simp: fun_eq_iff map_add_def split: option.split)
  have idle: "staged' = staged \<longrightarrow> index' = index"
    using staged' ids(5) step(3) by (auto split: if_splits)
  have "gr_find_blob (gx_objects (ck_gix ck) r') i = Ok (dr_pem_bytes d)"
    using ids(6) view(4) by (simp add: same_view_def extends_def)
  with ids(1) have blobs: "list_all2 (\<lambda>d i. gr_find_blob (gx_objects (ck_gix ck) r') i = Ok (dr_pem_bytes d)) (d # records) (i # ids)"
    by simp
  have "staged' = staged @ map fst (filter (\<lambda>(p, i). index_map index p \<noteq> Some i) (zip (map dr_repository_path (d # records)) (i # ids)))"
    using staged' by simp
  then show ?case
    using blobs placed idle ids(3) same_view_trans[OF view(1) ids(6)] ids(7,8) view(2,3)
    by (intro exI[of _ "i # ids"]) (simp only: simp_thms)
qed

text \<open>C14: a run that queues the deposits leaves a clean index that holds every deposit under a blob of its bytes and
  every other path as it was, and reports exactly the paths whose entry it changed. This is so where the deposits have
  distinct paths and none that the index has comes after a smaller one it lacks; C17 shows what happens elsewhere.\<close>

theorem staged_deposits_exact:
  assumes ck: "searches_index ck" "keeps_index ck"
    and run: "stage_deposits ck (r, fs) = (Ok staged, (r', fs'))"
    and worktree: "gx_workdir (ck_gix ck) r = Some worktree" "enumerate_deposits fs worktree = Ok records"
    and index: "ck_open_index ck r = Ok index" "clean_index index"
    and records: "distinct (map dr_repository_path records)" "new_above_known index (map dr_repository_path records)"
  shows "fs' = fs \<and> (\<exists>index'. ck_open_index ck r' = Ok index' \<and> clean_index index' \<and>
    (\<forall>d \<in> set records. \<exists>i. index_map index' (dr_repository_path d) = Some i \<and>
       gr_find_blob (gx_objects (ck_gix ck) r') i = Ok (dr_pem_bytes d)) \<and>
    (\<forall>path. path \<notin> dr_repository_path ` set records \<longrightarrow> index_map index' path = index_map index path) \<and>
    staged = filter (\<lambda>path. index_map index' path \<noteq> index_map index path) (map dr_repository_path records))"
proof (cases "records = []")
  case True
  with run worktree index show ?thesis by (auto simp: stage_deposits_def action_simps)
next
  case False
  let ?paths = "map dr_repository_path records"
  obtain index1 r1 where looped: "act_fold (stage_record ck) (index, []) records r = (Ok (index1, staged), r1)"
    and "fs' = fs" and finish: "if staged = [] then r' = r1
      else ck_write_index ck write_options_used (ck_sort_entries ck index1) r1 = (Ok (), r')"
    using run worktree index(1) False by (auto simp: stage_deposits_def action_simps split: if_splits)
  obtain ids where ids: "list_all2 (\<lambda>d i. gr_find_blob (gx_objects (ck_gix ck) r1) i = Ok (dr_pem_bytes d)) records ids"
    "index_map index1 = index_map index ++ map_of (zip ?paths ids)" "distinct (map ie_path index1)"
    "staged = map fst (filter (\<lambda>(p, i). index_map index p \<noteq> Some i) (zip ?paths ids))"
    "staged = [] \<longrightarrow> index1 = index" "ck_open_index ck r1 = ck_open_index ck r"
    using stage_records_exact[OF ck looped searchable_clean[OF index(2) records]] by auto
  have "\<exists>index'. ck_open_index ck r' = Ok index' \<and> clean_index index' \<and> index_map index' = index_map index1 \<and>
      gx_objects (ck_gix ck) r' = gx_objects (ck_gix ck) r1"
  proof (cases "staged = []")
    case True
    with ids finish index show ?thesis by auto
  next
    case False
    with finish ck(2) index_map_sorted[OF ck(1) ids(3)] show ?thesis by (auto simp: keeps_index_def)
  qed
  then obtain index' where index': "ck_open_index ck r' = Ok index'" "clean_index index'" "index_map index' = index_map index1"
    "gx_objects (ck_gix ck) r' = gx_objects (ck_gix ck) r1" by blast
  have lengths: "length ids = length records" using ids(1) by (auto dest: list_all2_lengthD)
  have placed: "index_map index' (dr_repository_path (records ! k)) = Some (ids ! k)" if "k < length records" for k
  proof -
    have "map_of (zip ?paths ids) (?paths ! k) = Some (ids ! k)"
      using that lengths records(1) by (intro map_of_zip_nth) auto
    with that show ?thesis by (simp add: index'(3) ids(2))
  qed
  have "index_map index' path = index_map index path" if "path \<notin> set ?paths" for path
  proof -
    have "map_of (zip ?paths ids) path = None" using that by (auto simp: map_of_eq_None_iff dest!: set_zip_leftD)
    then show ?thesis by (simp add: index'(3) ids(2) map_add_def)
  qed
  moreover have "staged = filter (\<lambda>path. index_map index' path \<noteq> index_map index path) ?paths"
  proof -
    have "filter (\<lambda>(p, i). index_map index p \<noteq> Some i) (zip ?paths ids) =
        filter (\<lambda>(p, i). index_map index' p \<noteq> index_map index p) (zip ?paths ids)"
      using placed lengths by (intro filter_cong) (auto simp: in_set_zip)
    then show ?thesis
      using lengths filter_map[of "\<lambda>path. index_map index' path \<noteq> index_map index path" fst "zip ?paths ids"]
      by (simp add: ids(4) comp_def split_def)
  qed
  moreover have "\<exists>i. index_map index' (dr_repository_path d) = Some i \<and>
      gr_find_blob (gx_objects (ck_gix ck) r') i = Ok (dr_pem_bytes d)" if "d \<in> set records" for d
    using that placed ids(1) index'(4) by (auto simp: in_set_conv_nth list_all2_conv_all_nth)
  ultimately show ?thesis using index'(1,2) \<open>fs' = fs\<close> by auto
qed

section \<open>Searching by bisection\<close>

text \<open>\<open>slice::binary_search_by\<close> of the Rust standard library, as \<open>gix\<close> searches an index: it halves the list without
  stopping at a hit, and sees of each entry whether it is larger than the path.\<close>

fun bisect :: "(nat \<Rightarrow> bool) \<Rightarrow> nat \<Rightarrow> nat \<Rightarrow> nat" where
  "bisect is_greater base len =
     (if len \<le> 1 then base
      else let half = len div 2 in bisect is_greater (if is_greater (base + half) then base else base + half) (len - half))"

declare bisect.simps [simp del]

definition rust_binary_search :: "index_entry list \<Rightarrow> bytes \<Rightarrow> nat option" where
  "rust_binary_search index path =
     (if index = [] then None
      else let k = bisect (\<lambda>k. path < ie_path (index ! k)) 0 (length index)
        in if ie_path (index ! k) = path then Some k else None)"

lemma bisect_bounds: "0 < len \<Longrightarrow> base \<le> bisect is_greater base len \<and> bisect is_greater base len < base + len"
proof (induction is_greater base len rule: bisect.induct)
  case (1 is_greater base len)
  show ?case
  proof (cases "len \<le> 1")
    case True
    with 1(2) show ?thesis by (simp add: bisect.simps)
  next
    case False
    let ?half = "len div 2"
    let ?base = "if is_greater (base + ?half) then base else base + ?half"
    have "?half < len" using 1(2) by simp
    with 1(1)[OF False refl] have "?base \<le> bisect is_greater ?base (len - ?half) \<and>
        bisect is_greater ?base (len - ?half) < ?base + (len - ?half)" by simp
    moreover have "bisect is_greater base len = bisect is_greater ?base (len - ?half)"
      using False by (simp add: bisect.simps[of _ _ len] Let_def)
    moreover have "base \<le> ?base" "?base + (len - ?half) \<le> base + len" using \<open>?half < len\<close> by auto
    ultimately show ?thesis by linarith
  qed
qed

lemma bisect_finds:
  fixes keys :: "nat \<Rightarrow> 'k :: linorder"
  assumes "\<And>i j. i < j \<Longrightarrow> j < bound \<Longrightarrow> (x \<le> keys i \<longrightarrow> x \<le> keys j) \<and> (x < keys i \<longrightarrow> x < keys j)"
  shows "base + len \<le> bound \<Longrightarrow> base \<le> k \<Longrightarrow> k < base + len \<Longrightarrow> keys k = x \<Longrightarrow>
    keys (bisect (\<lambda>i. x < keys i) base len) = x"
proof (induction "\<lambda>i. x < keys i" base len arbitrary: k rule: bisect.induct)
  case (1 base len)
  show ?case
  proof (cases "len \<le> 1")
    case True
    with 1(3,4,5) have "k = base" by linarith
    with True 1(5) show ?thesis by (simp add: bisect.simps)
  next
    case False
    let ?half = "len div 2"
    let ?base = "if x < keys (base + ?half) then base else base + ?half"
    have half: "?half < len" "0 < ?half" "?half \<le> len - ?half" using False by auto
    have "\<exists>k'. ?base \<le> k' \<and> k' < ?base + (len - ?half) \<and> keys k' = x"
    proof (cases "x < keys (base + ?half)")
      case True
      then have "k < base + ?half"
        using assms[of "base + ?half" k] 1(2,4,5) half(1) by (metis leI le_less_trans less_irrefl less_le_trans order_le_less)
      with True 1(3,5) half show ?thesis by (intro exI[of _ k]) auto
    next
      case False
      show ?thesis
      proof (cases "k < base + ?half")
        case True
        then have "x \<le> keys (base + ?half)" using assms[of k "base + ?half"] 1(2,5) half(1) by auto
        with False have "keys (base + ?half) = x" by simp
        with False half show ?thesis by (intro exI[of _ "base + ?half"]) auto
      next
        case not_below: False
        with False 1(4,5) half show ?thesis by (intro exI[of _ k]) auto
      qed
    qed
    then obtain k' where k': "?base \<le> k'" "k' < ?base + (len - ?half)" "keys k' = x" by blast
    have "?base + (len - ?half) \<le> bound" using 1(2) half by auto
    from 1(1)[OF False refl this k'] have "keys (bisect (\<lambda>i. x < keys i) ?base (len - ?half)) = x" .
    then show ?thesis using False by (simp add: bisect.simps[of _ _ len] Let_def)
  qed
qed

lemma rust_binary_search_some: "rust_binary_search index path = Some k \<Longrightarrow> k < length index \<and> ie_path (index ! k) = path"
  using bisect_bounds[of "length index" 0 "\<lambda>k. path < ie_path (index ! k)"]
  by (auto simp: rust_binary_search_def Let_def split: if_splits)

lemma rust_binary_search_none:
  assumes "ordered_around path (map ie_path index)" "rust_binary_search index path = None"
  shows "path \<notin> index_paths index"
proof
  assume "path \<in> index_paths index"
  then obtain k where k: "k < length index" "ie_path (index ! k) = path" by (auto simp: index_paths_def in_set_conv_nth)
  have "(path \<le> ie_path (index ! i) \<longrightarrow> path \<le> ie_path (index ! j)) \<and> (path < ie_path (index ! i) \<longrightarrow> path < ie_path (index ! j))"
    if "i < j" "j < length index" for i j
    using assms(1) that by (simp add: ordered_around_def sorted_wrt_iff_nth_less)
  from bisect_finds[where keys = "\<lambda>i. ie_path (index ! i)", OF this, where base = 0 and len = "length index" and k = k] k
  have "ie_path (index ! bisect (\<lambda>i. path < ie_path (index ! i)) 0 (length index)) = path" by simp
  with assms(2) k(1) show False by (auto simp: rust_binary_search_def Let_def split: if_splits)
qed

section \<open>A concrete checkout\<close>

text \<open>The object store of \<open>Seal\<close> beside an index, searched as the Rust library does.\<close>

definition toy_checkout :: "(toy_store \<times> index_entry list) checkout" where
  "toy_checkout =
     \<lparr>ck_gix = \<lparr>gx_objects = \<lambda>r. gx_objects toy_store_gix (fst r), gx_common_dir = \<lambda>_. ''/w/.git'', gx_workdir = \<lambda>_. Some ''/w'',
        gx_open = \<lambda>_. Err ''no repository'', gx_modules = \<lambda>_. Err ''no modules''\<rparr>,
      ck_write_blob = \<lambda>bs. on_fst (write_blob toy_writer bs),
      ck_head_commit = \<lambda>r. and_then (ok_or ''no branch'' (ts_references (fst r) ''refs/heads/main''))
        (gr_find_commit (gx_objects toy_store_gix (fst r))),
      ck_open_index = \<lambda>r. Ok (snd r), ck_index_or_empty = \<lambda>r. Ok (snd r),
      ck_write_index = \<lambda>_ index r. (Ok (), (fst r, index)),
      ck_entry_index = rust_binary_search, ck_sort_entries = sort_key ie_path,
      ck_files = \<lparr>write_failure = \<lambda>_ _ _. None, create_failure = \<lambda>_ _. None, remove_failure = \<lambda>_ _. None\<rparr>,
      ck_is_dir = \<lambda>fs path. is_ok (fs_read_dir fs path),
      ck_remove_dir_all = \<lambda>directory fs. (Ok (), fs
        \<lparr>fs_is_file := \<lambda>path. fs_is_file fs path \<and> \<not> below directory path,
         fs_read := \<lambda>path. if below directory path then Err (NotFound []) else fs_read fs path,
         fs_read_dir := \<lambda>path. if path = directory \<or> below directory path then Err (NotFound []) else fs_read_dir fs path\<rparr>)\<rparr>"

lemma toy_checkout_searches: "searches_index toy_checkout"
  using rust_binary_search_some rust_binary_search_none by (simp add: searches_index_def toy_checkout_def)

lemma toy_blob_view:
  assumes "r' = r\<lparr>ts_blobs := ts_blobs r @ [bs]\<rparr>"
  shows "extends (gx_objects toy_store_gix r) (gx_objects toy_store_gix r')"
    "gr_find_blob (gx_objects toy_store_gix r') (toy_id (length (ts_blobs r))) = Ok bs"
    "gr_find_commit (gx_objects toy_store_gix r') = gr_find_commit (gx_objects toy_store_gix r)"
    "gr_display (gx_objects toy_store_gix r') = gr_display (gx_objects toy_store_gix r)"
proof -
  have "write_blob toy_writer bs r = (Ok (toy_id (length (ts_blobs r))), r')" by (simp add: toy_writer_def assms)
  then show "extends (gx_objects toy_store_gix r) (gx_objects toy_store_gix r')"
    "gr_find_blob (gx_objects toy_store_gix r') (toy_id (length (ts_blobs r))) = Ok bs"
    using toy_writer_sound by (simp_all add: sound_writer_def sound_blobs_def adds_objects_def)
qed (simp_all add: toy_store_gix_def assms)

lemma toy_checkout_keeps: "keeps_index toy_checkout"
  by (simp add: keeps_index_def same_view_def toy_checkout_def on_fst_def toy_writer_def toy_blob_view)

definition toy_index_entry :: "bytes \<Rightarrow> nat \<Rightarrow> index_entry" where
  "toy_index_entry path n = \<lparr>ie_path = path, ie_id = toy_id n, ie_stat = TakenStat [], ie_flags = 0, ie_mode = REGULAR_FILE_MODE\<rparr>"

definition toy_deposit_disk :: file_system where
  "toy_deposit_disk =
     \<lparr>fs_read_dir = \<lambda>path. if path = ''/w/.tydence/ltv/certs'' then Ok [Ok ''/w/.tydence/ltv/certs/x.cer'']
        else if path = ''/w/.tydence/ltv/crls'' then Ok [Ok ''/w/.tydence/ltv/crls/y.crl''] else Err (NotFound []),
      fs_is_file = \<lambda>path. path = ''/w/.tydence/ltv/certs/x.cer'' \<or> path = ''/w/.tydence/ltv/crls/y.crl'',
      fs_read = \<lambda>path. if path = ''/w/.tydence/ltv/certs/x.cer'' then Ok ''chain''
        else if path = ''/w/.tydence/ltv/crls/y.crl'' then Ok ''list'' else Err (NotFound []),
      fs_display = \<lambda>path. path\<rparr>"

definition toy_deposits :: "deposit_record list" where
  "toy_deposits = [\<lparr>dr_kind = ChainDeposit, dr_repository_path = LTV_CERTS_PATH @ ''/x.cer'', dr_pem_bytes = ''chain''\<rparr>,
     \<lparr>dr_kind = CrlDeposit, dr_repository_path = LTV_CRLS_PATH @ ''/y.crl'', dr_pem_bytes = ''list''\<rparr>]"

lemma toy_deposits_enumerate: "enumerate_deposits toy_deposit_disk ''/w'' = Ok toy_deposits"
proof -
  have "from_utf8 ''x.cer'' = Ok ''x.cer''" "from_utf8 ''y.crl'' = Ok ''y.crl''"
    by (simp_all add: from_utf8_valid is_utf8_ascii)
  then show ?thesis
    by (simp add: enumerate_deposits_def RECORD_LAYOUTS_def enumerate_directory_def path_join_def layout_defs toy_deposit_disk_def
      starts_with_def ends_with_def strip_suffix_def read_deposit_def deposit_file_name_def path_file_name_def Let_def toy_deposits_def)
qed

definition toy_git :: "index_entry list \<Rightarrow> toy_store \<times> index_entry list" where
  "toy_git index = (\<lparr>ts_blobs = [''config'', ''old''], ts_trees = [], ts_commits = [], ts_references = \<lambda>_. None\<rparr>, index)"

definition toy_index :: "index_entry list" where
  "toy_index = [toy_index_entry CONFIG_PATH 0]"

definition toy_crl_index :: "index_entry list" where
  "toy_crl_index = [toy_index_entry CONFIG_PATH 0, toy_index_entry (LTV_CRLS_PATH @ ''/y.crl'') 1]"

lemma toy_paths_order: "CONFIG_PATH < LTV_CERTS_PATH @ rest" "CONFIG_PATH < LTV_CRLS_PATH @ rest"
  "LTV_CERTS_PATH @ rest < LTV_CRLS_PATH @ rest'"
  by (simp_all add: layout_defs list_less_def lexord_simps less_char_def)

text \<open>The search for the second path compares with the entry just pushed and goes past the hit.\<close>

lemma toy_search_misses:
  "rust_binary_search toy_crl_index (LTV_CERTS_PATH @ ''/x.cer'') = None"
  "rust_binary_search (toy_crl_index @ [pushed_entry (LTV_CERTS_PATH @ ''/x.cer'') i]) (LTV_CRLS_PATH @ ''/y.crl'') = None"
  using toy_paths_order toy_paths_order[THEN less_imp_neq]
  by (simp_all add: rust_binary_search_def toy_crl_index_def toy_index_entry_def pushed_entry_def bisect.simps Let_def not_less_iff_gr_or_eq)

definition toy_pushed :: "index_entry list" where
  "toy_pushed = [pushed_entry (LTV_CERTS_PATH @ ''/x.cer'') (toy_id 2), pushed_entry (LTV_CRLS_PATH @ ''/y.crl'') (toy_id 3)]"

lemma toy_stages:
  assumes "rust_binary_search index (LTV_CERTS_PATH @ ''/x.cer'') = None"
    "rust_binary_search (index @ [pushed_entry (LTV_CERTS_PATH @ ''/x.cer'') (toy_id 2)]) (LTV_CRLS_PATH @ ''/y.crl'') = None"
  shows "\<exists>r'. stage_deposits toy_checkout (toy_git index, toy_deposit_disk) =
     (Ok [LTV_CERTS_PATH @ ''/x.cer'', LTV_CRLS_PATH @ ''/y.crl''], (r', toy_deposit_disk)) \<and>
     ck_open_index toy_checkout r' = Ok (sort_key ie_path (index @ toy_pushed))"
proof -
  have parts: "gx_workdir (ck_gix toy_checkout) r = Some ''/w''" "ck_open_index toy_checkout (toy_git index) = Ok index"
    "ck_write_blob toy_checkout bs r = (Ok (toy_id (length (ts_blobs (fst r)))), ((fst r)\<lparr>ts_blobs := ts_blobs (fst r) @ [bs]\<rparr>, snd r))"
    "ck_entry_index toy_checkout = rust_binary_search" "ck_sort_entries toy_checkout = sort_key ie_path"
    "ck_write_index toy_checkout options index r = (Ok (), (fst r, index))" "ck_open_index toy_checkout r = Ok (snd r)"
    for r index options bs
    by (simp_all add: toy_checkout_def toy_git_def on_fst_def toy_writer_def)
  show ?thesis
    using assms
    by (simp add: stage_deposits_def action_defs parts toy_deposits_enumerate toy_deposits_def stage_record_def queue_blob_def
      toy_git_def toy_pushed_def numeral_3_eq_3 numeral_2_eq_2)
qed

lemma toy_crl_index_clean: "clean_index toy_crl_index"
  using toy_paths_order by (auto simp: clean_index_def toy_crl_index_def toy_index_entry_def intro: less_imp_le dest: less_imp_neq)

lemma staged_deposits_exact_witness:
  "\<exists>r' index'. stage_deposits toy_checkout (toy_git toy_index, toy_deposit_disk) =
       (Ok [LTV_CERTS_PATH @ ''/x.cer'', LTV_CRLS_PATH @ ''/y.crl''], (r', toy_deposit_disk)) \<and>
     ck_open_index toy_checkout r' = Ok index' \<and> clean_index index' \<and> index_map index' CONFIG_PATH = Some (toy_id 0)"
proof -
  have "rust_binary_search toy_index (LTV_CERTS_PATH @ ''/x.cer'') = None"
    "rust_binary_search (toy_index @ [pushed_entry (LTV_CERTS_PATH @ ''/x.cer'') (toy_id 2)]) (LTV_CRLS_PATH @ ''/y.crl'') = None"
    using toy_paths_order toy_paths_order[THEN less_imp_neq]
    by (simp_all add: rust_binary_search_def toy_index_def toy_index_entry_def pushed_entry_def bisect.simps Let_def not_less_iff_gr_or_eq)
  from toy_stages[OF this] obtain r' where run: "stage_deposits toy_checkout (toy_git toy_index, toy_deposit_disk) =
      (Ok [LTV_CERTS_PATH @ ''/x.cer'', LTV_CRLS_PATH @ ''/y.crl''], (r', toy_deposit_disk))" by blast
  have repository: "gx_workdir (ck_gix toy_checkout) (toy_git toy_index) = Some ''/w''"
    "ck_open_index toy_checkout (toy_git toy_index) = Ok toy_index" "clean_index toy_index"
    by (simp_all add: toy_checkout_def toy_git_def toy_index_def clean_index_def)
  have paths: "distinct (map dr_repository_path toy_deposits)" "new_above_known toy_index (map dr_repository_path toy_deposits)"
    "CONFIG_PATH \<notin> dr_repository_path ` set toy_deposits"
    by (simp_all add: toy_deposits_def new_above_known_def index_paths_def toy_index_def toy_index_entry_def layout_defs)
  from staged_deposits_exact[OF toy_checkout_searches toy_checkout_keeps run repository(1) toy_deposits_enumerate repository(2,3) paths(1,2)]
    paths(3) run show ?thesis
    by (auto simp: toy_index_def toy_index_entry_def index_map_def)
qed

text \<open>C17: two deposits can leave an index that is not one: the first one, new, is pushed behind the sorted entries, and
  the search for the second one, which the index has, then misses it, so that it is pushed a second time.\<close>

theorem staging_can_duplicate_an_entry:
  "\<exists>(ck :: (toy_store \<times> index_entry list) checkout) r fs index staged r' index'.
     searches_index ck \<and> keeps_index ck \<and> ck_open_index ck r = Ok index \<and> clean_index index \<and>
     stage_deposits ck (r, fs) = (Ok staged, (r', fs)) \<and> ck_open_index ck r' = Ok index' \<and>
     filter (\<lambda>e. ie_path e = LTV_CRLS_PATH @ ''/y.crl'') index' \<noteq> [] \<and> \<not> distinct (map ie_path index')"
proof -
  let ?index = "sort_key ie_path (toy_crl_index @ toy_pushed)"
  obtain r' where run: "stage_deposits toy_checkout (toy_git toy_crl_index, toy_deposit_disk) =
      (Ok [LTV_CERTS_PATH @ ''/x.cer'', LTV_CRLS_PATH @ ''/y.crl''], (r', toy_deposit_disk))"
    and index: "ck_open_index toy_checkout r' = Ok ?index"
    using toy_stages[OF toy_search_misses] by blast
  have "\<not> distinct (map ie_path (toy_crl_index @ toy_pushed))" by (simp add: toy_pushed_def toy_crl_index_def toy_index_entry_def pushed_entry_def)
  moreover have "mset (map ie_path ?index) = mset (map ie_path (toy_crl_index @ toy_pushed))" by simp
  ultimately have "\<not> distinct (map ie_path ?index)" by (metis mset_eq_imp_distinct_iff)
  moreover have "filter (\<lambda>e. ie_path e = LTV_CRLS_PATH @ ''/y.crl'') ?index \<noteq> []"
    by (simp add: filter_empty_conv toy_pushed_def toy_crl_index_def toy_index_entry_def)
  moreover have "ck_open_index toy_checkout (toy_git toy_crl_index) = Ok toy_crl_index" by (simp add: toy_checkout_def toy_git_def)
  ultimately show ?thesis
    using toy_checkout_searches toy_checkout_keeps toy_crl_index_clean run index by blast
qed

end
