(* ===== verification/Staging_Sync.thy ===== *)
theory Staging_Sync
  imports Staging_Deposits
begin

text \<open>
  \<open>sync_artifacts\<close>, \<open>staged_artifacts\<close> and \<open>drop_artifacts\<close> of \<open>staging.rs\<close>: the checkout agrees with HEAD
  after a synchronisation, a failed one can be repeated, and a drop leaves the stamped state.
\<close>

section \<open>Paths in the working tree\<close>

lemma is_stamp_artifact_iff: "is_stamp_artifact path \<longleftrightarrow> path = MANIFEST_PATH \<or> below TOKENS_PATH path"
proof (cases "strip_prefix TOKENS_PATH path")
  case None
  then have "\<not> below TOKENS_PATH path" by (auto simp: below_def)
  with None show ?thesis by (simp add: is_stamp_artifact_def)
next
  case (Some rest)
  then have "path = TOKENS_PATH @ rest" by (simp add: strip_prefix_iff)
  with Some show ?thesis by (cases rest) (auto simp: is_stamp_artifact_def below_def)
qed

lemma stamp_artifact_relative: "is_stamp_artifact path \<Longrightarrow> \<not> starts_with ''/'' path"
  by (auto simp: is_stamp_artifact_def starts_with_iff layout_defs split: option.splits)

text \<open>Every sealed file is below \<open>.tydence\<close>.\<close>

lemma sealed_child_Ok:
  "sealed_child r directory found maybe_child = Ok found' \<longleftrightarrow> (\<exists>child. maybe_child = Ok child \<and>
     found' = found @ (if gr_is_blob r (te_mode child)
       then [(directory @ ''/'' @ gr_display r (te_filename child), te_object_id child)] else []))"
  by (auto simp: sealed_child_def result_simps)

lemma sealed_directory_paths:
  assumes "sealed_directory r head_tree found directory = Ok found'" "f \<in> set found'"
  shows "f \<in> set found \<or> below directory (fst f)"
proof -
  have children: "f \<in> set found \<or> below directory (fst f)" if "try_fold (sealed_child r directory) found children = Ok found'" for children
    using that assms(2)
  proof (induction children arbitrary: found)
    case (Cons c children)
    then obtain found1 where "sealed_child r directory found c = Ok found1" "try_fold (sealed_child r directory) found1 children = Ok found'"
      by (auto simp: result_simps)
    with Cons.IH[OF this(2)] Cons.prems(2) show ?case
      by (auto simp: sealed_child_Ok below_def split: if_splits)
  qed simp
  with assms show ?thesis
    by (auto simp: sealed_directory_def result_simps split: option.splits if_splits)
qed

lemma sealed_files_paths:
  assumes "sealed_files ck r = Ok found" "f \<in> set found"
  shows "fst f = MANIFEST_PATH \<or> below TOKENS_PATH (fst f) \<or> below LTV_CERTS_PATH (fst f) \<or> below LTV_CRLS_PATH (fst f)"
  using assms
  by (auto simp: sealed_files_def Let_def result_simps dest!: sealed_directory_paths split: option.splits if_splits)

lemma sealed_files_relative:
  assumes "sealed_files ck r = Ok found" "f \<in> set found"
  shows "\<not> starts_with ''/'' (fst f)"
  using sealed_files_paths[OF assms] by (auto simp: starts_with_iff below_def layout_defs)

lemma ltv_below_artifacts:
  assumes "below LTV_CERTS_PATH q \<or> below LTV_CRLS_PATH q" "is_stamp_artifact p"
  shows "q < p"
  using assms
  by (auto simp: is_stamp_artifact_iff below_def layout_defs list_less_def lexord_simps less_char_def)

text \<open>The index a drop leaves, when it holds the LTV records that HEAD seals, can be synchronised: the manifest and the
  tokens, which are looked up first, are larger than the records.\<close>

lemma dropped_new_above_known:
  assumes "sealed_files ck r = Ok found" "\<And>path. path \<in> index_paths index \<Longrightarrow> \<not> is_stamp_artifact path"
    "\<And>path. path \<in> fst ` set found \<Longrightarrow> \<not> is_stamp_artifact path \<Longrightarrow> path \<in> index_paths index"
  shows "new_above_known index (map fst found)"
proof (rule new_above_knownI)
  fix p q assume "p \<in> set (map fst found)" "q \<in> set (map fst found)" "p \<notin> index_paths index" "q \<in> index_paths index"
  then have "is_stamp_artifact p" "\<not> is_stamp_artifact q" "q \<in> fst ` set found" using assms(2,3) by auto
  moreover from this(2,3) have "below LTV_CERTS_PATH q \<or> below LTV_CRLS_PATH q"
    using sealed_files_paths[OF assms(1)] by (auto simp: is_stamp_artifact_iff)
  ultimately show "q < p" using ltv_below_artifacts by blast
qed

section \<open>Writing the sealed files\<close>

lemma kept_outside_mono: "kept_outside P fs fs' \<Longrightarrow> P \<subseteq> Q \<Longrightarrow> kept_outside Q fs fs'"
  by (auto simp: kept_outside_def)

lemma sync_file_Ok:
  assumes "sync_file ck worktree (index, changed) f s = (Ok acc, s')"
  obtains bs where "gr_find_blob (gx_objects (ck_gix ck) (fst s)) (snd f) = Ok bs" "fst s' = fst s"
    "file_content (snd s') = (file_content (snd s))(path_join worktree (fst f) \<mapsto> bs)"
    "acc = (case queue_blob ck index (fst f) (snd f) of None \<Rightarrow> (index, changed) | Some index' \<Rightarrow> (index', True))"
proof -
  let ?path = "path_join worktree (fst f)"
  let ?create = "case path_parent ?path of None \<Rightarrow> act_return ()
    | Some parent \<Rightarrow> on_snd (act_map_err (artifact_failure (fst f)) (create_dir_all (ck_files ck) parent))"
  from assms obtain u s1 bs v s2 where made: "?create s = (Ok u, s1)"
    and blob: "gr_find_blob (gx_objects (ck_gix ck) (fst s1)) (snd f) = Ok bs"
    and written: "on_snd (act_map_err (artifact_failure (fst f)) (write_file (ck_files ck) ?path bs)) s1 = (Ok v, s2)"
    and acc: "s' = s2" "acc = (case queue_blob ck index (fst f) (snd f) of None \<Rightarrow> (index, changed) | Some index' \<Rightarrow> (index', True))"
    by (auto simp: sync_file_def Let_def act_bind_Ok act_return_eq result_simps)
  have "fst s1 = fst s \<and> file_content (snd s1) = file_content (snd s)"
    using made create_dir_all_content[of "ck_files ck"] by (auto simp: action_simps split: option.splits) (metis snd_conv)+
  moreover have "fst s2 = fst s1 \<and> file_content (snd s2) = (file_content (snd s1))(?path \<mapsto> bs)"
    using written by (auto simp: action_simps write_file_def fun_eq_iff split: option.splits)
  ultimately show thesis using that blob acc by simp
qed

lemma sync_files_exact:
  assumes "searches_index ck"
    and "act_fold (sync_file ck worktree) (index, changed) found s = (Ok (index', changed'), s')"
    and "searchable index (map fst found)"
    and "\<And>f. f \<in> set found \<Longrightarrow> \<not> starts_with ''/'' (fst f)"
  shows "fst s' = fst s \<and>
    (\<forall>f \<in> set found. \<exists>bs. gr_find_blob (gx_objects (ck_gix ck) (fst s)) (snd f) = Ok bs \<and>
      file_content (snd s') (path_join worktree (fst f)) = Some bs) \<and>
    kept_outside (path_join worktree ` fst ` set found) (snd s) (snd s') \<and>
    index_map index' = index_map index ++ map_of found \<and> distinct (map ie_path index') \<and>
    (\<not> changed' \<longrightarrow> \<not> changed \<and> index' = index)"
  using assms(2-)
proof (induction found arbitrary: index changed s)
  case Nil
  then show ?case by (auto simp: action_simps searchable_Nil kept_outside_def)
next
  case (Cons f found)
  from Cons.prems(1) obtain acc s1 where first: "sync_file ck worktree (index, changed) f s = (Ok acc, s1)"
    and rest: "act_fold (sync_file ck worktree) acc found s1 = (Ok (index', changed'), s')"
    by (auto simp: action_simps)
  obtain bs where bs: "gr_find_blob (gx_objects (ck_gix ck) (fst s)) (snd f) = Ok bs" "fst s1 = fst s"
    "file_content (snd s1) = (file_content (snd s))(path_join worktree (fst f) \<mapsto> bs)"
    and acc: "acc = (case queue_blob ck index (fst f) (snd f) of None \<Rightarrow> (index, changed) | Some index' \<Rightarrow> (index', True))"
    by (rule sync_file_Ok[OF first])
  let ?q = "queue_blob ck index (fst f) (snd f)"
  let ?index1 = "case ?q of None \<Rightarrow> index | Some index' \<Rightarrow> index'"
  have searchable: "searchable index (fst f # map fst found)" using Cons.prems(2) by simp
  note step = searchable_next[OF assms(1) searchable, where i = "snd f"]
  have "acc = (?index1, changed \<or> ?q \<noteq> None)" using acc by (cases ?q) auto
  with rest have "act_fold (sync_file ck worktree) (?index1, changed \<or> ?q \<noteq> None) found s1 = (Ok (index', changed'), s')" by simp
  from Cons.IH[OF this step(1) Cons.prems(3)] have later: "fst s' = fst s1"
    "\<forall>f \<in> set found. \<exists>bs. gr_find_blob (gx_objects (ck_gix ck) (fst s1)) (snd f) = Ok bs \<and>
      file_content (snd s') (path_join worktree (fst f)) = Some bs"
    "kept_outside (path_join worktree ` fst ` set found) (snd s1) (snd s')"
    "index_map index' = index_map ?index1 ++ map_of found" "distinct (map ie_path index')"
    "\<not> changed' \<longrightarrow> \<not> (changed \<or> ?q \<noteq> None) \<and> index' = ?index1"
    by simp_all
  have "path_join worktree (fst f) \<notin> path_join worktree ` fst ` set found"
  proof
    assume "path_join worktree (fst f) \<in> path_join worktree ` fst ` set found"
    then obtain g where g: "g \<in> set found" "path_join worktree (fst f) = path_join worktree (fst g)" by auto
    with Cons.prems(3)[of f] Cons.prems(3)[of g] have "fst f = fst g" by (simp add: path_join_inject)
    with searchable g(1) show False by (simp add: searchable_def)
  qed
  then have here: "file_content (snd s') (path_join worktree (fst f)) = Some bs"
    using later(3) bs(3) by (simp add: kept_outside_def)
  have "fst f \<notin> fst ` set found" using searchable by (simp add: searchable_def)
  then have "map_of found (fst f) = None" by (simp add: map_of_eq_None_iff)
  then have "index_map index' = index_map index ++ map_of (f # found)"
    unfolding later(4) step(2) by (cases f) (auto simp: fun_eq_iff map_add_def split: option.split)
  moreover have "kept_outside (path_join worktree ` fst ` set (f # found)) (snd s) (snd s')"
    using later(3) bs(3) by (auto simp: kept_outside_def)
  moreover have "\<forall>f \<in> set (f # found). \<exists>bs. gr_find_blob (gx_objects (ck_gix ck) (fst s)) (snd f) = Ok bs \<and>
      file_content (snd s') (path_join worktree (fst f)) = Some bs"
    using here bs(1,2) later(2) by auto
  moreover have "\<not> changed' \<longrightarrow> \<not> changed \<and> index' = index" using later(6) by auto
  moreover have "fst s' = fst s" using later(1) bs(2) by simp
  ultimately show ?case using later(5) by (simp only: simp_thms)
qed

section \<open>Removing the stale files\<close>

lemma remove_stales:
  assumes "act_fold (remove_stale ck worktree) u stale fs = (Ok v, fs')"
  shows "fs_is_file fs' path \<longleftrightarrow> fs_is_file fs path \<and> path \<notin> path_join worktree ` set stale"
    and "kept_outside (path_join worktree ` set stale) fs fs'"
  using assms
proof (induction stale arbitrary: u fs)
  case (Cons p stale)
  {
    case 1
    then obtain w fs1 where step: "remove_stale ck worktree u p fs = (Ok w, fs1)" "act_fold (remove_stale ck worktree) w stale fs1 = (Ok v, fs')"
      by (auto simp: action_simps)
    from Cons.IH(1)[OF step(2)] step(1) show ?case
      by (auto simp: remove_stale_def Let_def action_simps remove_file_def set_content_def split: if_splits option.splits)
  next
    case 2
    then obtain w fs1 where step: "remove_stale ck worktree u p fs = (Ok w, fs1)" "act_fold (remove_stale ck worktree) w stale fs1 = (Ok v, fs')"
      by (auto simp: action_simps)
    from Cons.IH(2)[OF step(2)] step(1) show ?case
      by (auto simp: remove_stale_def Let_def action_simps remove_file_def kept_outside_def split: if_splits option.splits)
  }
qed (simp_all add: action_simps kept_outside_def)

lemma index_map_filter: "index_map (filter (\<lambda>e. Q (ie_path e)) index) path = (if Q path then index_map index path else None)"
  by (induction index) (auto simp: index_map_def)

lemma clean_filter: "clean_index index \<Longrightarrow> clean_index (filter Q index)"
  by (simp add: clean_index_def sorted_filter distinct_map_filter)

section \<open>The checkout agrees with HEAD\<close>

definition file_at :: "file_system \<Rightarrow> string \<Rightarrow> string \<Rightarrow> bytes option" where
  "file_at fs worktree path = file_content fs (path_join worktree path)"

text \<open>The checkout and HEAD agree on what the stamp manages; the rest of the index is the one given.\<close>

definition agrees_with_head ::
  "'r checkout \<Rightarrow> string \<Rightarrow> (string \<times> object_id) list \<Rightarrow> index_entry list \<Rightarrow> 'r \<times> file_system \<Rightarrow> bool" where
  "agrees_with_head ck worktree found index s \<longleftrightarrow>
     (\<forall>f \<in> set found. \<exists>bs. gr_find_blob (gx_objects (ck_gix ck) (fst s)) (snd f) = Ok bs \<and> file_at (snd s) worktree (fst f) = Some bs) \<and>
     (\<forall>path. is_stamp_artifact path \<and> path \<in> index_paths index \<and> path \<notin> fst ` set found \<longrightarrow>
        \<not> fs_is_file (snd s) (path_join worktree path)) \<and>
     (\<exists>index'. ck_open_index ck (fst s) = Ok index' \<and> clean_index index' \<and>
        (\<forall>path. index_map index' path = (case map_of found path of Some i \<Rightarrow> Some i
           | None \<Rightarrow> if is_stamp_artifact path then None else index_map index path)))"

text \<open>Given what the loop over the sealed files leaves in the index: what is stale, and what is kept.\<close>

lemma stale_paths_set:
  assumes looped: "index_map index1 = index_map index ++ map_of found"
    and spelled: "\<And>path. path \<in> index_paths index \<Longrightarrow> is_stamp_artifact path \<Longrightarrow> gr_display (gx_objects (ck_gix ck) r) path = path"
  shows "set (stale_paths ck r found index1) = {path \<in> index_paths index. is_stale found path}"
    "index_paths index1 = index_paths index \<union> fst ` set found"
proof -
  have "path \<notin> index_paths index1 \<longleftrightarrow> path \<notin> index_paths index \<and> path \<notin> fst ` set found" for path
    unfolding index_map_None[symmetric] looped map_add_None by (auto simp: map_of_eq_None_iff)
  then show paths: "index_paths index1 = index_paths index \<union> fst ` set found" by blast
  then have "set (filter (is_stale found) (map ie_path index1)) = {path \<in> index_paths index. is_stale found path}"
    by (auto simp: index_paths_def is_stale_def)
  moreover have "gr_display (gx_objects (ck_gix ck) r) ` {path \<in> index_paths index. is_stale found path} =
      {path \<in> index_paths index. is_stale found path}"
    using spelled by (force simp: is_stale_def)
  ultimately show "set (stale_paths ck r found index1) = {path \<in> index_paths index. is_stale found path}"
    by (simp add: stale_paths_def)
qed

lemma index_map_kept:
  assumes looped: "index_map index1 = index_map index ++ map_of found"
  shows "index_map (if stale_paths ck r found index1 \<noteq> [] then without_stale found index1 else index1) path =
    (case map_of found path of Some i \<Rightarrow> Some i | None \<Rightarrow> if is_stamp_artifact path then None else index_map index path)"
proof -
  have "index_map index1 path = None" if "stale_paths ck r found index1 = []" "is_stale found path"
    using that unfolding index_map_None by (auto simp: stale_paths_def filter_empty_conv index_paths_def)
  then have "index_map (if stale_paths ck r found index1 \<noteq> [] then without_stale found index1 else index1) path =
      (if is_stale found path then None else index_map index1 path)"
    using index_map_filter[of "\<lambda>path. \<not> is_stale found path" index1 path] by (auto simp: without_stale_def)
  then show ?thesis
    by (auto simp: looped is_stale_def map_add_def map_of_eq_None_iff dest: map_of_SomeD split: option.split)
      (metis image_eqI fst_conv map_of_SomeD)
qed

text \<open>The three parts of a run that returns: the files are written, the stale ones removed, the index is written.\<close>

lemma sync_run_parts:
  assumes "searches_index ck" "sync_artifacts ck (r, fs) = (Ok (), (r', fs'))"
    and "gx_workdir (ck_gix ck) r = Some worktree" "sealed_files ck r = Ok found" "distinct (map fst found)"
    and "ck_open_index ck r = Ok index" "clean_index index" "new_above_known index (map fst found)"
  obtains index1 changed fs1 where
    "\<forall>f \<in> set found. \<exists>bs. gr_find_blob (gx_objects (ck_gix ck) r) (snd f) = Ok bs \<and> file_at fs1 worktree (fst f) = Some bs"
    "kept_outside (path_join worktree ` fst ` set found) fs fs1"
    "index_map index1 = index_map index ++ map_of found" "distinct (map ie_path index1)" "\<not> changed \<longrightarrow> index1 = index"
    "act_fold (remove_stale ck worktree) () (stale_paths ck r found index1) fs1 = (Ok (), fs')"
    "if stale_paths ck r found index1 \<noteq> [] \<or> changed
     then ck_write_index ck write_options_used (ck_sort_entries ck
       (if stale_paths ck r found index1 \<noteq> [] then without_stale found index1 else index1)) r = (Ok (), r') else r' = r"
proof -
  obtain index1 changed s1 where written: "act_fold (sync_file ck worktree) (index, False) found (r, fs) = (Ok (index1, changed), s1)"
    using assms(2,3,4,6) by (auto simp: sync_artifacts_def action_simps)
  from sync_files_exact[OF assms(1) this searchable_clean[OF assms(7,5,8)] sealed_files_relative[OF assms(4)]]
  have files: "fst s1 = r" "\<forall>f \<in> set found. \<exists>bs. gr_find_blob (gx_objects (ck_gix ck) r) (snd f) = Ok bs \<and>
      file_at (snd s1) worktree (fst f) = Some bs"
    "kept_outside (path_join worktree ` fst ` set found) fs (snd s1)"
    "index_map index1 = index_map index ++ map_of found" "distinct (map ie_path index1)" "\<not> changed \<longrightarrow> index1 = index"
    by (auto simp: file_at_def)
  have "act_fold (remove_stale ck worktree) () (stale_paths ck r found index1) (snd s1) = (Ok (), fs') \<and>
    (if stale_paths ck r found index1 \<noteq> [] \<or> changed
     then ck_write_index ck write_options_used (ck_sort_entries ck
       (if stale_paths ck r found index1 \<noteq> [] then without_stale found index1 else index1)) r = (Ok (), r') else r' = r)"
    using assms(2,3,4,6) written files(1)
    by (cases s1) (auto simp: sync_artifacts_def action_simps Let_def split: if_splits)
  then show thesis by (intro that[OF files(2-6)]) simp_all
qed

text \<open>C12: a synchronisation that returns leaves a checkout that agrees with HEAD: every sealed file has the bytes of
  its blob in the working tree and its blob in the index, artifacts the seal does not have are gone from both, and
  the rest of the index and all other files are as before. This is so where the sealed paths are distinct, none that
  the index has comes after a smaller one it lacks, and the artifacts in the index are spelled in UTF-8; an index that
  holds the sealed LTV records and no artifact, as a drop leaves it, is one.\<close>

theorem sync_agrees:
  assumes ck: "searches_index ck" "keeps_index ck"
    and run: "sync_artifacts ck (r, fs) = (Ok (), (r', fs'))"
    and head: "gx_workdir (ck_gix ck) r = Some worktree" "sealed_files ck r = Ok found" "distinct (map fst found)"
    and index: "ck_open_index ck r = Ok index" "clean_index index" "new_above_known index (map fst found)"
    and spelled: "\<And>path. path \<in> index_paths index \<Longrightarrow> is_stamp_artifact path \<Longrightarrow> gr_display (gx_objects (ck_gix ck) r) path = path"
  shows "agrees_with_head ck worktree found index (r', fs') \<and>
    kept_outside (path_join worktree ` (fst ` set found \<union> {path \<in> index_paths index. is_stamp_artifact path})) fs fs'"
proof -
  obtain index1 changed fs1 where
    files: "\<forall>f \<in> set found. \<exists>bs. gr_find_blob (gx_objects (ck_gix ck) r) (snd f) = Ok bs \<and> file_at fs1 worktree (fst f) = Some bs"
      "kept_outside (path_join worktree ` fst ` set found) fs fs1"
    and looped: "index_map index1 = index_map index ++ map_of found" "distinct (map ie_path index1)" "\<not> changed \<longrightarrow> index1 = index"
    and removed: "act_fold (remove_stale ck worktree) () (stale_paths ck r found index1) fs1 = (Ok (), fs')"
    and finish: "if stale_paths ck r found index1 \<noteq> [] \<or> changed
      then ck_write_index ck write_options_used (ck_sort_entries ck
        (if stale_paths ck r found index1 \<noteq> [] then without_stale found index1 else index1)) r = (Ok (), r') else r' = r"
    using sync_run_parts[OF ck(1) run head index] by metis
  note stale = stale_paths_set(1)[OF looped(1) spelled]
  have bytes: "file_at fs' worktree (fst f) = file_at fs1 worktree (fst f)" if f: "f \<in> set found" for f
  proof -
    have "path_join worktree (fst f) \<notin> path_join worktree ` set (stale_paths ck r found index1)"
      using stale sealed_files_relative[OF head(2) f] f by (auto simp: is_stale_def path_join_inject stamp_artifact_relative)
    with remove_stales(2)[OF removed] show ?thesis by (simp add: kept_outside_def file_at_def)
  qed
  have gone: "\<not> fs_is_file fs' (path_join worktree path)" if "path \<in> index_paths index" "is_stale found path" for path
    using remove_stales(1)[OF removed, of "path_join worktree path"] stale that by simp
  let ?managed = "path_join worktree ` (fst ` set found \<union> {path \<in> index_paths index. is_stamp_artifact path})"
  have "kept_outside ?managed fs fs1" by (rule kept_outside_mono[OF files(2)]) blast
  moreover have "kept_outside ?managed fs1 fs'"
    by (rule kept_outside_mono[OF remove_stales(2)[OF removed]]) (use stale in \<open>auto simp: is_stale_def\<close>)
  ultimately have "kept_outside ?managed fs fs'" by (rule disk.transitive)
  moreover have "\<exists>index'. ck_open_index ck r' = Ok index' \<and> clean_index index' \<and>
    index_map index' = index_map (if stale_paths ck r found index1 \<noteq> [] then without_stale found index1 else index1)"
  proof (cases "stale_paths ck r found index1 \<noteq> [] \<or> changed")
    case True
    have "distinct (map ie_path (if stale_paths ck r found index1 \<noteq> [] then without_stale found index1 else index1))"
      using looped(2) by (simp add: distinct_map_filter without_stale_def)
    with True finish ck(2) index_map_sorted[OF ck(1)] show ?thesis by (auto simp: keeps_index_def)
  qed (use finish index(1,2) looped(3) in auto)
  moreover have "gx_objects (ck_gix ck) r' = gx_objects (ck_gix ck) r"
    using finish ck(2) by (auto simp: keeps_index_def split: if_splits)
  ultimately show ?thesis
    using files(1) bytes gone unfolding agrees_with_head_def index_map_kept[OF looped(1)] by (auto simp: is_stale_def)
qed

section \<open>A failed synchronisation can be repeated\<close>

text \<open>The repository as the synchronisation reads it.\<close>

definition reads_same :: "'r checkout \<Rightarrow> 'r \<Rightarrow> 'r \<Rightarrow> bool" where
  "reads_same ck r r' \<longleftrightarrow> gx_objects (ck_gix ck) r' = gx_objects (ck_gix ck) r \<and> gx_workdir (ck_gix ck) r' = gx_workdir (ck_gix ck) r \<and>
     ck_head_commit ck r' = ck_head_commit ck r \<and> ck_open_index ck r' = ck_open_index ck r"

interpretation reading: state_preorder "\<lambda>s t. reads_same ck (fst s) (fst t)" for ck
  by unfold_locales (simp_all add: reads_same_def)

lemma on_snd_reads_same: "act_within (\<lambda>s t. reads_same ck (fst s) (fst t)) (on_snd m)"
  by (simp add: act_within_def on_snd_def reads_same_def split_def)

lemma sync_failed:
  fixes ck :: "'r checkout"
  assumes "keeps_index ck" "sync_artifacts ck (r, fs) = (Err e, (r1, fs1))"
  shows "reads_same ck r r1"
proof -
  let ?R = "\<lambda>s t :: 'r \<times> file_system. reads_same ck (fst s) (fst t)"
  have "act_within ?R (sync_file ck worktree acc f)" for worktree acc f
    unfolding sync_file_def Let_def
    by (intro reading.bound reading.pure on_snd_reads_same) (auto intro: reading.pure on_snd_reads_same split: option.split)
  then have loop: "act_within ?R (act_fold (sync_file ck worktree) acc found)" for worktree acc found
    by (intro reading.folded)
  have finish: "fails_within ?R (on_fst (act_map_err IndexFailure (ck_write_index ck options index)))" for options index
  proof -
    have "reads_same ck r r'" if "ck_write_index ck options index r = (Err e, r')" for r e r'
      using assms(1) that unfolding keeps_index_def reads_same_def same_view_def by (metis sum.distinct(1))
    then show ?thesis by (auto simp: fails_within_def on_fst_def act_map_err_Err split: prod.splits)
  qed
  have "fails_within ?R (sync_artifacts ck)"
    unfolding sync_artifacts_def
    by (intro reading.failing reading.pure loop on_snd_reads_same) (auto simp: split_def intro!: reading.failing reading.pure on_snd_reads_same finish reading.never_failing[OF reading.pure(2)])
  then show ?thesis using assms(2) by (auto dest: fails_withinD)
qed

text \<open>Where nothing fails and the sealed blobs can be read, the loops end well.\<close>

definition never_fails :: "file_writer \<Rightarrow> bool" where
  "never_fails fw \<longleftrightarrow> (\<forall>fs path bs. write_failure fw fs path bs = None \<and> create_failure fw fs path = None \<and> remove_failure fw fs path = None)"

lemma sync_files_succeed:
  assumes "never_fails (ck_files ck)"
    and "\<And>f. f \<in> set found \<Longrightarrow> \<exists>bs. gr_find_blob (gx_objects (ck_gix ck) r) (snd f) = Ok bs"
  shows "\<exists>acc' fs'. act_fold (sync_file ck worktree) acc found (r, fs) = (Ok acc', (r, fs'))"
  using assms(2)
proof (induction found arbitrary: acc fs)
  case (Cons f found)
  obtain bs where "gr_find_blob (gx_objects (ck_gix ck) r) (snd f) = Ok bs" using Cons.prems[of f] by auto
  then have "\<exists>acc1 fs1. sync_file ck worktree acc f (r, fs) = (Ok acc1, (r, fs1))"
    using assms(1)
    by (simp add: sync_file_def Let_def never_fails_def create_dir_all_def write_file_def action_defs split: option.split)
  then obtain acc1 fs1 where "sync_file ck worktree acc f (r, fs) = (Ok acc1, (r, fs1))" by blast
  moreover obtain acc' fs' where "act_fold (sync_file ck worktree) acc1 found (r, fs1) = (Ok acc', (r, fs'))"
    using Cons.IH[of acc1 fs1] Cons.prems by auto
  ultimately show ?case by (auto simp: act_bind_def)
qed (simp add: action_simps)

lemma remove_stales_succeed:
  assumes "never_fails (ck_files ck)"
  shows "\<exists>fs'. act_fold (remove_stale ck worktree) () stale fs = (Ok (), fs')"
proof (induction stale arbitrary: fs)
  case (Cons p stale)
  have "\<exists>fs1. remove_stale ck worktree () p fs = (Ok (), fs1)"
    using assms by (simp add: remove_stale_def Let_def never_fails_def remove_file_def action_defs)
  then obtain fs1 where "remove_stale ck worktree () p fs = (Ok (), fs1)" by blast
  with Cons.IH[of fs1] show ?case by (auto simp: act_bind_def)
qed (simp add: action_simps)

lemma sync_succeeds:
  assumes "gx_workdir (ck_gix ck) r = Some worktree" "sealed_files ck r = Ok found" "ck_open_index ck r = Ok index"
    and "\<And>f. f \<in> set found \<Longrightarrow> \<exists>bs. gr_find_blob (gx_objects (ck_gix ck) r) (snd f) = Ok bs"
    and "never_fails (ck_files ck)" "\<And>options index. \<exists>r'. ck_write_index ck options index r = (Ok (), r')"
  shows "\<exists>r' fs'. sync_artifacts ck (r, fs) = (Ok (), (r', fs'))"
proof -
  obtain index1 changed fs1 where looped: "act_fold (sync_file ck worktree) (index, False) found (r, fs) = (Ok (index1, changed), (r, fs1))"
    using sync_files_succeed[of ck found r worktree "(index, False)" fs] assms(4,5) by auto
  let ?stale = "stale_paths ck r found index1"
  obtain fs2 where "act_fold (remove_stale ck worktree) () ?stale fs1 = (Ok (), fs2)"
    using remove_stales_succeed[of ck worktree ?stale fs1] assms(5) by blast
  moreover have "fst (ck_write_index ck options ix r) = Ok ()" for options ix
    using assms(6)[of options ix] by auto
  ultimately show ?thesis
    using assms(1-3) looped
    by (simp add: sync_artifacts_def act_bind_def act_return_def on_snd_def) (auto simp: on_fst_def act_map_err_def act_return_def Let_def split_def)
qed

lemma agrees_with_head_tools:
  "agrees_with_head (ck\<lparr>ck_files := fw, ck_write_index := w\<rparr>) = agrees_with_head ck"
  "sealed_files (ck\<lparr>ck_files := fw, ck_write_index := w\<rparr>) = sealed_files ck"
  "searches_index (ck\<lparr>ck_files := fw, ck_write_index := w\<rparr>) = searches_index ck"
  by (simp_all add: agrees_with_head_def sealed_files_def searches_index_def fun_eq_iff)

text \<open>C13: a synchronisation that failed anywhere can be repeated: once the disk and the index can be written, the
  second run returns and the checkout agrees with HEAD, as if the first run had not been. The index and the sealed
  paths are as for C12, and the sealed blobs can be read.\<close>

theorem sync_converges:
  assumes ck: "searches_index ck" "keeps_index ck"
    and failed: "sync_artifacts ck (r, fs) = (Err e, (r1, fs1))"
    and head: "gx_workdir (ck_gix ck) r = Some worktree" "sealed_files ck r = Ok found" "distinct (map fst found)"
    and index: "ck_open_index ck r = Ok index" "clean_index index" "new_above_known index (map fst found)"
    and spelled: "\<And>path. path \<in> index_paths index \<Longrightarrow> is_stamp_artifact path \<Longrightarrow> gr_display (gx_objects (ck_gix ck) r) path = path"
    and readable: "\<And>f. f \<in> set found \<Longrightarrow> \<exists>bs. gr_find_blob (gx_objects (ck_gix ck) r) (snd f) = Ok bs"
    and repaired: "ck' = ck\<lparr>ck_files := fw, ck_write_index := w\<rparr>" "keeps_index ck'" "never_fails fw"
      "\<And>options index r. \<exists>r'. w options index r = (Ok (), r')"
  shows "\<exists>r' fs'. sync_artifacts ck' (r1, fs1) = (Ok (), (r', fs')) \<and> agrees_with_head ck worktree found index (r', fs')"
proof -
  have same: "gx_objects (ck_gix ck) r1 = gx_objects (ck_gix ck) r" "gx_workdir (ck_gix ck) r1 = Some worktree"
    "ck_open_index ck r1 = Ok index" "ck_head_commit ck r1 = ck_head_commit ck r"
    using sync_failed[OF ck(2) failed] head(1) index(1) by (simp_all add: reads_same_def)
  then have found: "sealed_files ck r1 = Ok found" using head(2) by (simp add: sealed_files_def)
  have tools: "ck_gix ck' = ck_gix ck" "ck_open_index ck' = ck_open_index ck" "ck_files ck' = fw" "ck_write_index ck' = w"
    "sealed_files ck' = sealed_files ck" "searches_index ck'" "agrees_with_head ck' = agrees_with_head ck"
    using ck(1) by (simp_all add: repaired(1) agrees_with_head_tools)
  have "\<exists>r' fs'. sync_artifacts ck' (r1, fs1) = (Ok (), (r', fs'))"
    by (rule sync_succeeds[of ck' r1 worktree found index]) (use same found readable repaired(3,4) in \<open>simp_all add: tools\<close>)
  then obtain r' fs' where run: "sync_artifacts ck' (r1, fs1) = (Ok (), (r', fs'))" by blast
  have "agrees_with_head ck' worktree found index (r', fs')"
    using sync_agrees[OF tools(6) repaired(2) run, of worktree found index] head index same found spelled by (simp add: tools)
  with run show ?thesis by (auto simp: tools)
qed

section \<open>Leaving the stamped state\<close>

text \<open>What removing a directory does: what is below it is gone, other files are kept.\<close>

definition removes_directories :: "'r checkout \<Rightarrow> bool" where
  "removes_directories ck \<longleftrightarrow> (\<forall>directory fs x fs'. ck_remove_dir_all ck directory fs = (x, fs') \<longrightarrow>
     kept_outside {path. below directory path} fs fs' \<and>
     (\<forall>path. fs_is_file fs' path \<longrightarrow> fs_is_file fs path) \<and> (x = Ok () \<longrightarrow> \<not> ck_is_dir ck fs' directory)) \<and>
     (\<forall>fs path content directory. path \<noteq> directory \<longrightarrow> ck_is_dir ck (set_content path content fs) directory = ck_is_dir ck fs directory)"

lemma fs_is_file_set [simp]: "fs_is_file (set_content path content fs) path' = (if path' = path then is_ok content else fs_is_file fs path')"
  by (simp add: set_content_def)

lemma drop_manifest_file_Ok:
  assumes "drop_manifest_file ck worktree fs = (Ok found, fs')"
  shows "found = (if fs_is_file fs (path_join worktree MANIFEST_PATH) then [MANIFEST_PATH] else [])"
    "\<not> fs_is_file fs' (path_join worktree MANIFEST_PATH)" "kept_outside {path_join worktree MANIFEST_PATH} fs fs'"
    "removes_directories ck \<Longrightarrow> ck_is_dir ck fs' (path_join worktree TOKENS_PATH) = ck_is_dir ck fs (path_join worktree TOKENS_PATH)"
proof -
  have "path_join worktree MANIFEST_PATH \<noteq> path_join worktree TOKENS_PATH"
    by (subst path_join_inject) (simp_all add: layout_defs starts_with_iff)
  with assms show "found = (if fs_is_file fs (path_join worktree MANIFEST_PATH) then [MANIFEST_PATH] else [])"
    "\<not> fs_is_file fs' (path_join worktree MANIFEST_PATH)" "kept_outside {path_join worktree MANIFEST_PATH} fs fs'"
    "removes_directories ck \<Longrightarrow> ck_is_dir ck fs' (path_join worktree TOKENS_PATH) = ck_is_dir ck fs (path_join worktree TOKENS_PATH)"
    by (auto simp: drop_manifest_file_def Let_def action_simps remove_file_def removes_directories_def kept_outside_def
      split: if_splits option.splits)
qed

lemma drop_tokens_directory_Ok:
  assumes "drop_tokens_directory ck worktree fs = (Ok found, fs')" "removes_directories ck"
  shows "found = (if ck_is_dir ck fs (path_join worktree TOKENS_PATH) then [TOKENS_PATH @ ''/''] else [])"
    "\<not> ck_is_dir ck fs' (path_join worktree TOKENS_PATH)" "fs_is_file fs' path \<Longrightarrow> fs_is_file fs path"
    "kept_outside {path. below (path_join worktree TOKENS_PATH) path} fs fs'"
  using assms
  by (auto simp: drop_tokens_directory_def Let_def action_simps removes_directories_def disk.reflexive split: if_splits)

lemma distinct_remdups_adj: "sorted xs \<Longrightarrow> distinct (remdups_adj xs)"
  by (induction xs rule: remdups_adj.induct) auto

lemma dropped_index:
  assumes "keeps_index ck" "ck_open_index ck r = Ok index" "staged_artifacts ck r = Ok spotted"
    "if spotted \<noteq> [] then drop_from_index ck r = (Ok (), r') else r' = r"
  shows "ck_open_index ck r' = Ok (filter (\<lambda>e. \<not> is_stamp_artifact (ie_path e)) index)" "staged_artifacts ck r' = Ok []"
    "set spotted = gr_display (gx_objects (ck_gix ck) r) ` {path \<in> index_paths index. is_stamp_artifact path}"
    "gx_workdir (ck_gix ck) r' = gx_workdir (ck_gix ck) r"
proof -
  have index: "ck_index_or_empty ck r = Ok index" using assms(1,2) by (simp add: keeps_index_def)
  with assms(3) have spotted: "spotted = map (gr_display (gx_objects (ck_gix ck) r)) (filter is_stamp_artifact (map ie_path index))"
    by (simp add: staged_artifacts_def)
  then show "set spotted = gr_display (gx_objects (ck_gix ck) r) ` {path \<in> index_paths index. is_stamp_artifact path}"
    by (simp add: index_paths_def)
  have "ck_open_index ck r' = Ok (filter (\<lambda>e. \<not> is_stamp_artifact (ie_path e)) index) \<and> gx_workdir (ck_gix ck) r' = gx_workdir (ck_gix ck) r"
  proof (cases "spotted = []")
    case True
    then have "\<forall>e \<in> set index. \<not> is_stamp_artifact (ie_path e)" using spotted by (simp add: filter_empty_conv)
    with True assms(2,4) show ?thesis by (simp add: filter_id_conv)
  next
    case False
    with assms(2,4) have "ck_write_index ck write_options_used (filter (\<lambda>e. \<not> is_stamp_artifact (ie_path e)) index) r = (Ok (), r')"
      by (auto simp: drop_from_index_def action_simps)
    with assms(1) show ?thesis by (auto simp: keeps_index_def same_view_def)
  qed
  then show opened: "ck_open_index ck r' = Ok (filter (\<lambda>e. \<not> is_stamp_artifact (ie_path e)) index)"
    and "gx_workdir (ck_gix ck) r' = gx_workdir (ck_gix ck) r" by simp_all
  have "ck_index_or_empty ck r' = Ok (filter (\<lambda>e. \<not> is_stamp_artifact (ie_path e)) index)"
    using assms(1) opened by (simp add: keeps_index_def)
  then show "staged_artifacts ck r' = Ok []"
    by (simp add: staged_artifacts_def filter_empty_conv)
qed

text \<open>C15: a drop that returns leaves no stamp artifact in the index, no manifest file and no token directory in the
  working tree, keeps every other entry of the index and every other file, the configuration and the LTV records
  among them, and reports each artifact it found once, in order.\<close>

theorem drop_leaves_stamped_state:
  assumes "keeps_index ck" "removes_directories ck"
    and run: "drop_artifacts ck (r, fs) = (Ok dropped, (r', fs'))"
    and worktree: "gx_workdir (ck_gix ck) r = Some worktree" and index: "ck_open_index ck r = Ok index"
  shows "staged_artifacts ck r' = Ok [] \<and> \<not> fs_is_file fs' (path_join worktree MANIFEST_PATH) \<and>
    \<not> ck_is_dir ck fs' (path_join worktree TOKENS_PATH) \<and>
    ck_open_index ck r' = Ok (filter (\<lambda>e. \<not> is_stamp_artifact (ie_path e)) index) \<and>
    kept_outside (insert (path_join worktree MANIFEST_PATH) {path. below (path_join worktree TOKENS_PATH) path}) fs fs' \<and>
    sorted dropped \<and> distinct dropped \<and>
    set dropped = gr_display (gx_objects (ck_gix ck) r) ` {path \<in> index_paths index. is_stamp_artifact path} \<union>
      (if fs_is_file fs (path_join worktree MANIFEST_PATH) then {MANIFEST_PATH} else {}) \<union>
      (if ck_is_dir ck fs (path_join worktree TOKENS_PATH) then {TOKENS_PATH @ ''/''} else {})"
proof -
  obtain spotted r1 worktree' fs1 found1 found2 where spotted: "staged_artifacts ck r = Ok spotted"
    and first: "if spotted \<noteq> [] then drop_from_index ck r = (Ok (), r1) else r1 = r"
    and workdir: "gx_workdir (ck_gix ck) r1 = Some worktree'"
    and files: "drop_manifest_file ck worktree' fs = (Ok found1, fs1)" "drop_tokens_directory ck worktree' fs1 = (Ok found2, fs')"
    and result: "r' = r1" "dropped = remdups_adj (sort (spotted @ found1 @ found2))"
    using run by (auto simp: drop_artifacts_def action_simps result_simps split: if_splits)
  note dropped = dropped_index[OF assms(1) index spotted first]
  have here: "worktree' = worktree" using dropped(4) workdir worktree by simp
  note manifest = drop_manifest_file_Ok[OF files(1)[unfolded here]]
    and tokens = drop_tokens_directory_Ok[OF files(2)[unfolded here] assms(2)]
  let ?gone = "insert (path_join worktree MANIFEST_PATH) {path. below (path_join worktree TOKENS_PATH) path}"
  have "kept_outside ?gone fs fs1" "kept_outside ?gone fs1 fs'"
    by (rule kept_outside_mono[OF manifest(3)], blast) (rule kept_outside_mono[OF tokens(4)], blast)
  then have kept: "kept_outside ?gone fs fs'" by (rule disk.transitive)
  have "sorted dropped" "distinct dropped"
    unfolding result(2) by (simp_all add: distinct_remdups_adj)
  with kept dropped manifest tokens assms(2) show ?thesis
    unfolding result by auto
qed

section \<open>A concrete checkout of a stamp\<close>

text \<open>The sealed commit of \<open>Seal\<close> is checked out with the token of an earlier stamp in its index.\<close>

definition toy_stale_index :: "index_entry list" where
  "toy_stale_index = [toy_index_entry CONFIG_PATH 0, toy_index_entry (TOKENS_PATH @ ''/old.tsr'') 1]"

definition toy_stale_git :: "toy_store \<times> index_entry list" where
  "toy_stale_git = (toy_sealed, toy_stale_index)"

text \<open>A branch stamped again after a drop: its index holds the LTV record that HEAD seals, from before, and no artifact.\<close>

definition toy_resealed :: toy_store where
  "toy_resealed = toy_sealed
     \<lparr>ts_blobs := ts_blobs toy_sealed @ [''list''],
      ts_trees := ts_trees toy_unsealed @ [[(LTV_CRLS_PATH @ ''/y.crl'', REGULAR_FILE_MODE, toy_id 4),
        (TOKENS_PATH @ ''/b.tsr'', REGULAR_FILE_MODE, toy_id 3), (MANIFEST_PATH, REGULAR_FILE_MODE, toy_id 2)]]\<rparr>"

definition toy_dropped_git :: "toy_store \<times> index_entry list" where
  "toy_dropped_git = (toy_resealed, toy_crl_index)"

definition toy_sealed_files :: "(string \<times> object_id) list" where
  "toy_sealed_files = [(MANIFEST_PATH, toy_id 2), (TOKENS_PATH @ ''/b.tsr'', toy_id 3), (LTV_CRLS_PATH @ ''/y.crl'', toy_id 4)]"

lemma toy_dropped_git_seals: "sealed_files toy_checkout toy_dropped_git = Ok toy_sealed_files"
  by (simp add: sealed_files_def toy_checkout_def toy_dropped_git_def toy_store_gix_def toy_resealed_def toy_sealed_def toy_unsealed_def
    nth_object_def stamp_commit_def toy_seal_def toy_find_tree_def split_once_None[THEN iffD2] toy_sealed_tree_def layout_defs below_iff
    Let_def sealed_directory_def sealed_child_def toy_sealed_files_def toy_id_def toy_children_def List.map_filter_def numeral_eq_Suc)

lemma toy_checkout_reads:
  "gx_workdir (ck_gix toy_checkout) r = Some ''/w''" "ck_open_index toy_checkout r = Ok (snd r)"
  "gr_display (gx_objects (ck_gix toy_checkout) r) path = path"
  by (simp_all add: toy_checkout_def toy_store_gix_def)

lemma toy_dropped_git_reads:
  "ck_open_index toy_checkout toy_dropped_git = Ok toy_crl_index"
  "f \<in> set toy_sealed_files \<Longrightarrow> \<exists>bs. gr_find_blob (gx_objects (ck_gix toy_checkout) toy_dropped_git) (snd f) = Ok bs"
  by (auto simp: toy_checkout_def toy_dropped_git_def toy_store_gix_def toy_sealed_files_def toy_resealed_def toy_sealed_def nth_object_def)

lemma toy_dropped_index_ok:
  "distinct (map fst toy_sealed_files)" "new_above_known toy_crl_index (map fst toy_sealed_files)"
proof -
  show "new_above_known toy_crl_index (map fst toy_sealed_files)"
    by (rule dropped_new_above_known[OF toy_dropped_git_seals])
      (auto simp: toy_sealed_files_def index_paths_def toy_crl_index_def toy_index_entry_def is_stamp_artifact_iff below_def layout_defs)
qed (simp add: toy_sealed_files_def layout_defs)

lemma toy_checkout_never_fails: "never_fails (ck_files toy_checkout)" "\<exists>r'. ck_write_index toy_checkout options index r = (Ok (), r')"
  by (simp_all add: never_fails_def toy_checkout_def)

lemma sync_agrees_witness:
  "\<exists>r' fs'. sync_artifacts toy_checkout (toy_dropped_git, toy_deposit_disk) = (Ok (), (r', fs')) \<and>
     agrees_with_head toy_checkout ''/w'' toy_sealed_files toy_crl_index (r', fs')"
proof -
  obtain r' fs' where run: "sync_artifacts toy_checkout (toy_dropped_git, toy_deposit_disk) = (Ok (), (r', fs'))"
    using sync_succeeds[OF toy_checkout_reads(1) toy_dropped_git_seals toy_dropped_git_reads toy_checkout_never_fails] by blast
  from sync_agrees[OF toy_checkout_searches toy_checkout_keeps run toy_checkout_reads(1) toy_dropped_git_seals toy_dropped_index_ok(1)
      toy_dropped_git_reads(1) toy_crl_index_clean toy_dropped_index_ok(2) toy_checkout_reads(3)] run
  show ?thesis by blast
qed

definition toy_full_disk :: file_writer where
  "toy_full_disk = \<lparr>write_failure = \<lambda>fs path bs. Some (OtherIo ''disk full'', fs_read fs path), create_failure = \<lambda>_ _. None, remove_failure = \<lambda>_ _. None\<rparr>"

lemma sync_converges_witness:
  "\<exists>e r1 fs1 r' fs'. sync_artifacts (toy_checkout\<lparr>ck_files := toy_full_disk\<rparr>) (toy_dropped_git, toy_deposit_disk) = (Err e, (r1, fs1)) \<and>
     sync_artifacts toy_checkout (r1, fs1) = (Ok (), (r', fs')) \<and> agrees_with_head toy_checkout ''/w'' toy_sealed_files toy_crl_index (r', fs')"
proof -
  let ?ck = "toy_checkout\<lparr>ck_files := toy_full_disk\<rparr>"
  have tools: "searches_index ?ck" "keeps_index ?ck" "sealed_files ?ck toy_dropped_git = Ok toy_sealed_files"
    using toy_checkout_searches toy_checkout_keeps toy_dropped_git_seals by (simp_all add: searches_index_def keeps_index_def same_view_def sealed_files_def)
  have "\<exists>e s1. act_fold (sync_file ?ck ''/w'') (toy_crl_index, False) toy_sealed_files (toy_dropped_git, toy_deposit_disk) = (Err e, s1)"
  proof -
    obtain bs where "gr_find_blob (gx_objects (ck_gix toy_checkout) toy_dropped_git) (toy_id 2) = Ok bs"
      using toy_dropped_git_reads(2)[of "(MANIFEST_PATH, toy_id 2)"] by (auto simp: toy_sealed_files_def)
    then show ?thesis
      by (auto simp: toy_sealed_files_def sync_file_def Let_def toy_full_disk_def create_dir_all_def write_file_def action_defs split: option.split)
  qed
  then obtain e r1 fs1 where failed: "sync_artifacts ?ck (toy_dropped_git, toy_deposit_disk) = (Err e, (r1, fs1))"
    using toy_checkout_reads(1) toy_dropped_git_reads(1) tools(3) by (auto simp: sync_artifacts_def act_bind_def)
  have repaired: "toy_checkout = ?ck\<lparr>ck_files := ck_files toy_checkout, ck_write_index := ck_write_index toy_checkout\<rparr>"
    by (simp add: toy_checkout_def)
  have reads: "gx_workdir (ck_gix ?ck) toy_dropped_git = Some ''/w''" "ck_open_index ?ck toy_dropped_git = Ok toy_crl_index"
    "gr_display (gx_objects (ck_gix ?ck) toy_dropped_git) path = path"
    "f \<in> set toy_sealed_files \<Longrightarrow> \<exists>bs. gr_find_blob (gx_objects (ck_gix ?ck) toy_dropped_git) (snd f) = Ok bs" for path f
    using toy_checkout_reads toy_dropped_git_reads by simp_all
  have agrees: "agrees_with_head ?ck = agrees_with_head toy_checkout" by (simp add: agrees_with_head_def fun_eq_iff)
  from sync_converges[OF tools(1,2) failed reads(1) tools(3) toy_dropped_index_ok(1) reads(2) toy_crl_index_clean toy_dropped_index_ok(2) reads(3,4)
      repaired toy_checkout_keeps toy_checkout_never_fails] failed
  show ?thesis unfolding agrees by blast
qed

definition toy_stamped_disk :: file_system where
  "toy_stamped_disk =
     \<lparr>fs_read_dir = \<lambda>path. if path = ''/w/.tydence/tokens'' then Ok [Ok ''/w/.tydence/tokens/old.tsr''] else Err (NotFound []),
      fs_is_file = \<lambda>path. path = ''/w/.tydence/manifest'' \<or> path = ''/w/.tydence/tokens/old.tsr'',
      fs_read = \<lambda>path. if path = ''/w/.tydence/manifest'' then Ok ''old'' else Err (NotFound []),
      fs_display = \<lambda>path. path\<rparr>"

lemma toy_checkout_removes: "removes_directories toy_checkout"
  by (auto simp: removes_directories_def toy_checkout_def kept_outside_def file_content_def set_content_def)

lemma toy_drops:
  "\<exists>dropped r' fs'. drop_artifacts toy_checkout (toy_stale_git, toy_stamped_disk) = (Ok dropped, (r', fs'))"
proof -
  have reads: "gx_workdir (ck_gix toy_checkout) r = Some ''/w''" "ck_open_index toy_checkout r = Ok (snd r)"
    "ck_index_or_empty toy_checkout r = Ok (snd r)" for r by (simp_all add: toy_checkout_def)
  have "\<exists>r1. drop_from_index toy_checkout r = (Ok (), r1)" for r
    by (simp add: drop_from_index_def act_bind_def act_map_err_def reads) (simp add: toy_checkout_def)
  moreover have "\<exists>xs fs1. drop_manifest_file toy_checkout worktree fs = (Ok xs, fs1)" for worktree fs
    by (simp add: drop_manifest_file_def Let_def action_defs remove_file_def) (simp add: toy_checkout_def action_defs)
  moreover have "\<exists>xs fs1. drop_tokens_directory toy_checkout worktree fs = (Ok xs, fs1)" for worktree fs
    by (simp add: drop_tokens_directory_def Let_def action_defs) (simp add: toy_checkout_def action_defs)
  ultimately obtain r1 xs fs1 ys fs2 where "drop_from_index toy_checkout toy_stale_git = (Ok (), r1)"
    "drop_manifest_file toy_checkout ''/w'' toy_stamped_disk = (Ok xs, fs1)" "drop_tokens_directory toy_checkout ''/w'' fs1 = (Ok ys, fs2)"
    by metis
  then show ?thesis
    by (simp add: drop_artifacts_def staged_artifacts_def reads action_defs)
qed

lemma toy_stale_git_reads: "ck_open_index toy_checkout toy_stale_git = Ok toy_stale_index"
  by (simp add: toy_checkout_reads toy_stale_git_def)

lemma drop_leaves_stamped_state_witness:
  "\<exists>dropped r' fs'. drop_artifacts toy_checkout (toy_stale_git, toy_stamped_disk) = (Ok dropped, (r', fs')) \<and>
     staged_artifacts toy_checkout r' = Ok [] \<and> \<not> fs_is_file fs' ''/w/.tydence/manifest'' \<and> TOKENS_PATH @ ''/old.tsr'' \<in> set dropped"
proof -
  have paths: "path_join ''/w'' MANIFEST_PATH = ''/w/.tydence/manifest''" "path_join ''/w'' TOKENS_PATH = ''/w/.tydence/tokens''"
    by (simp_all add: path_join_def layout_defs starts_with_def ends_with_def strip_suffix_def)
  obtain dropped r' fs' where run: "drop_artifacts toy_checkout (toy_stale_git, toy_stamped_disk) = (Ok dropped, (r', fs'))"
    using toy_drops by blast
  note left = drop_leaves_stamped_state[OF toy_checkout_keeps toy_checkout_removes run toy_checkout_reads(1) toy_stale_git_reads]
  have "TOKENS_PATH @ ''/old.tsr'' \<in> {path \<in> index_paths toy_stale_index. is_stamp_artifact path}"
    by (simp add: index_paths_def toy_stale_index_def toy_index_entry_def is_stamp_artifact_def layout_defs)
  then have "TOKENS_PATH @ ''/old.tsr'' \<in> set dropped" using left by (simp add: toy_checkout_reads(3))
  moreover have "staged_artifacts toy_checkout r' = Ok []" "\<not> fs_is_file fs' ''/w/.tydence/manifest''"
    using left unfolding paths by simp_all
  ultimately show ?thesis using run by blast
qed

end
