(* ===== verification/Causes.thy ===== *)
theory Causes
  imports Create Staging Repository_Audit
begin

text \<open>
  What stands behind an error: the chain of \<open>std::error::Error::source\<close> of each error type of the library, as the
  texts its links display, the nearest first. An error of a third-party crate is kept as its text; what such an error
  names as its own sources is a parameter.
\<close>

record error_formats =
  ef_formats :: debug_formats
  ef_lossy :: "bytes \<Rightarrow> string"
  ef_deeper :: "string \<Rightarrow> string list"

text \<open>A boxed error of another crate, and what stands behind it.\<close>

definition boxed :: "error_formats \<Rightarrow> string \<Rightarrow> string list" where
  "boxed ef source = source # ef_deeper ef source"

abbreviation ef_text :: "error_formats \<Rightarrow> string \<Rightarrow> string" where
  "ef_text ef \<equiv> debug_text (ef_formats ef)"

abbreviation ef_moment :: "error_formats \<Rightarrow> system_time \<Rightarrow> string" where
  "ef_moment ef \<equiv> debug_moment (ef_formats ef)"

section \<open>Reading and judging\<close>

fun trust_error_causes :: "error_formats \<Rightarrow> trust_error \<Rightarrow> string list" where
  "trust_error_causes ef (TrustUnreadable _ source) = boxed ef source"
| "trust_error_causes ef (TrustMalformed _ source) = boxed ef source"
| "trust_error_causes ef (TrustEmpty _) = []"
| "trust_error_causes ef TrustPanic = []"

fun deposit_error_causes :: "error_formats \<Rightarrow> deposit_error \<Rightarrow> string list" where
  "deposit_error_causes ef (ForeignDeposit _) = []"
| "deposit_error_causes ef (UnreadableDeposit _ source) = boxed ef source"

fun claims_error_causes :: "error_formats \<Rightarrow> claims_error \<Rightarrow> string list" where
  "claims_error_causes ef (ClaimObjectAccess _ source) = boxed ef source"
| "claims_error_causes ef (ForeignStampArtifact _ _) = []"

fun snapshot_error_causes :: "error_formats \<Rightarrow> snapshot_error \<Rightarrow> string list" where
  "snapshot_error_causes ef (SnapshotObjectAccess _ source) = boxed ef source"
| "snapshot_error_causes ef (MalformedGitmodules source) = boxed ef source"
| "snapshot_error_causes ef _ = []"

fun path_error_causes :: "error_formats \<Rightarrow> path_error \<Rightarrow> string list" where
  "path_error_causes ef (RevocationFailure cause) = [revocation_error_display (ef_moment ef) cause]"
| "path_error_causes ef _ = []"

fun token_error_causes :: "error_formats \<Rightarrow> token_error \<Rightarrow> string list" where
  "token_error_causes ef (Malformed source) = boxed ef source"
| "token_error_causes ef (MalformedTrustInput source) = boxed ef source"
| "token_error_causes ef (UnsupportedSignature cause) = [normalize_error_display cause]"
| "token_error_causes ef (UntrustedChain cause) = path_error_display (ef_moment ef) cause # path_error_causes ef cause"
| "token_error_causes ef _ = []"

fun stamp_error_causes :: "error_formats \<Rightarrow> stamp_error \<Rightarrow> string list" where
  "stamp_error_causes ef (UnreadableManifest source) = [utf8_error_display source]"
| "stamp_error_causes ef (ManifestFailure cause) = [manifest_error_display cause]"
| "stamp_error_causes ef (TreeFailure cause) = [tree_error_display (ef_lossy ef) cause]"
| "stamp_error_causes ef (BindingFailure cause) = [binding_error_display cause]"
| "stamp_error_causes ef NoTokens = []"
| "stamp_error_causes ef (AllTokensRejected _) = []"

fun unresolvable_causes :: "error_formats \<Rightarrow> unresolvable_cause \<Rightarrow> string list" where
  "unresolvable_causes ef InPredecessorRepository =
     [''the bound stamp lives in a predecessor repository; supplying its artifacts from outside is not supported yet'']"
| "unresolvable_causes ef (BadCommitHex source) = boxed ef source"
| "unresolvable_causes ef (UnreadableBoundClaim cause) = claims_error_display (ef_text ef) cause # claims_error_causes ef cause"

fun claim_failure_causes :: "error_formats \<Rightarrow> claim_failure \<Rightarrow> string list" where
  "claim_failure_causes ef (ClaimUnreadable source) = boxed ef source"
| "claim_failure_causes ef (UnresolvableBinding _ source) = unresolvable_causes ef source"
| "claim_failure_causes ef (ArtifactsFailure cause) = claims_error_display (ef_text ef) cause # claims_error_causes ef cause"
| "claim_failure_causes ef (SnapshotFailure cause) =
     snapshot_error_display (debug_bytes (ef_formats ef)) cause # snapshot_error_causes ef cause"
| "claim_failure_causes ef (VerdictFailure cause) = stamp_error_display (ef_lossy ef) (ef_moment ef) cause # stamp_error_causes ef cause"

fun audit_error_causes :: "error_formats \<Rightarrow> audit_error \<Rightarrow> string list" where
  "audit_error_causes ef (AuditObjectAccess source) = boxed ef source"
| "audit_error_causes ef (AuditWorktree _ source) = boxed ef source"
| "audit_error_causes ef (AuditClaims cause) = claims_error_display (ef_text ef) cause # claims_error_causes ef cause"
| "audit_error_causes ef (AuditMaterial cause) =
     trust_error_display (ef_text ef) cause # trust_error_causes ef cause"
| "audit_error_causes ef (ForeignLtvRecord _ _) = []"

section \<open>Stamping\<close>

fun tsp_error_causes :: "error_formats \<Rightarrow> tsp_error \<Rightarrow> string list" where
  "tsp_error_causes ef (RequestEncoding source) = boxed ef source"
| "tsp_error_causes ef (TransportError source) = boxed ef source"
| "tsp_error_causes ef (MalformedResponse source) = boxed ef source"
| "tsp_error_causes ef _ = []"

fun ltv_error_causes :: "error_formats \<Rightarrow> ltv_error \<Rightarrow> string list" where
  "ltv_error_causes ef (LtvMalformedToken source) = boxed ef source"
| "ltv_error_causes ef (MalformedDistributionPoints source) = boxed ef source"
| "ltv_error_causes ef (LtvEncoding source) = boxed ef source"
| "ltv_error_causes ef (MalformedChainFile _ source) = boxed ef source"
| "ltv_error_causes ef (CrlUnavailable _ source) = boxed ef source"
| "ltv_error_causes ef (MalformedCrl source) = boxed ef source"
| "ltv_error_causes ef (LtvFilesystem _ source) = boxed ef (io_text source)"
| "ltv_error_causes ef _ = []"

fun bind_error_causes :: "error_formats \<Rightarrow> bind_error \<Rightarrow> string list" where
  "bind_error_causes ef (BindClaim cause) = claims_error_display (ef_text ef) cause # claims_error_causes ef cause"
| "bind_error_causes ef (UnderivableEdges cause) = [binding_error_display cause]"
| "bind_error_causes ef (BindUnorderable cause) = [order_error_display cause]"

text \<open>The boxed cause of a site's failure: the anchor's and the supplement's errors are texts here.\<close>

fun site_cause_causes :: "error_formats \<Rightarrow> site_cause \<Rightarrow> string list" where
  "site_cause_causes ef (AnchorFailed source) = boxed ef source"
| "site_cause_causes ef (SupplementFailed source) = boxed ef source"
| "site_cause_causes ef (TokenRefused cause) = token_error_display (ef_moment ef) cause # token_error_causes ef cause"

fun acquire_error_causes :: "error_formats \<Rightarrow> acquire_error \<Rightarrow> string list" where
  "acquire_error_causes ef (SiteFailed failure) = site_cause_causes ef (sf_cause failure)"
| "acquire_error_causes ef _ = []"

fun seal_error_causes :: "error_formats \<Rightarrow> seal_error \<Rightarrow> string list" where
  "seal_error_causes ef (TreeEdit source) = boxed ef source"
| "seal_error_causes ef (ObjectWrite source) = boxed ef source"
| "seal_error_causes ef (ReferenceUpdate source) = boxed ef source"

fun create_error_causes :: "error_formats \<Rightarrow> create_error \<Rightarrow> string list" where
  "create_error_causes ef (CreateObjectAccess source) = boxed ef source"
| "create_error_causes ef (UnreadableConfig source) = boxed ef source"
| "create_error_causes ef (ConfigFailure cause) = [config_error_display cause]"
| "create_error_causes ef (LtvFailure cause) =
     ltv_error_display (ef_text ef) (path_text (ef_formats ef)) cause # ltv_error_causes ef cause"
| "create_error_causes ef (CreateSnapshot cause) =
     snapshot_error_display (debug_bytes (ef_formats ef)) cause # snapshot_error_causes ef cause"
| "create_error_causes ef (CreateBind cause) = bind_error_display (ef_text ef) cause # bind_error_causes ef cause"
| "create_error_causes ef (CreateUnprintable cause) = [unprintable_display (ef_text ef) cause]"
| "create_error_causes ef (AcquireFailure cause) =
     acquire_error_display (ef_text ef) (ef_moment ef) cause # acquire_error_causes ef cause"
| "create_error_causes ef (SealFailure cause) = seal_error_display cause # seal_error_causes ef cause"
| "create_error_causes ef BareRepository = []"
| "create_error_causes ef MissingConfig = []"
| "create_error_causes ef CreatePanic = []"

section \<open>The checkout\<close>

fun staging_error_causes :: "error_formats \<Rightarrow> staging_error \<Rightarrow> string list" where
  "staging_error_causes ef StagingBareRepository = []"
| "staging_error_causes ef (DepositsFailure cause) =
     deposit_error_display (ef_text ef) cause # deposit_error_causes ef cause"
| "staging_error_causes ef (IndexFailure source) = boxed ef source"
| "staging_error_causes ef (ObjectsFailure source) = boxed ef source"
| "staging_error_causes ef (WorktreeFailure _ source) = boxed ef source"

end
