(* ===== verification/Panics.thy ===== *)
theory Panics
  imports Create Repository_Audit
begin

text \<open>
  Which panics the library can reach: creating a stamp panics only where \<open>load_pem_chain\<close> does, and an audit only
  where \<open>load_pem_chain\<close> panics on more than line ends. The other \<open>expect\<close> calls of these paths are never reached.
\<close>

section \<open>Errors that do not occur\<close>

definition avoids :: "'e \<Rightarrow> ('s, 'e, 'a) action \<Rightarrow> bool" where
  "avoids e m \<longleftrightarrow> (\<forall>s. fst (m s) \<noteq> Err e)"

named_theorems avoids_intros \<open>how an error is avoided by the combinators\<close>

lemma avoids_pure [avoids_intros]: "avoids e (act_return x)"
  by (simp add: avoids_def act_return_def)

lemma avoids_lift [avoids_intros]: "x \<noteq> Err e \<Longrightarrow> avoids e (act_lift x)"
  by (simp add: avoids_def act_lift_def)

lemma avoids_read [avoids_intros]: "(\<And>s. f s \<noteq> Err e) \<Longrightarrow> avoids e (\<lambda>s. (f s, s))"
  by (simp add: avoids_def)

lemma avoids_bind [avoids_intros]: "avoids e m \<Longrightarrow> (\<And>x. avoids e (f x)) \<Longrightarrow> avoids e (act_bind m f)"
  unfolding avoids_def by (auto simp: act_bind_def split: prod.splits sum.splits) (metis fst_conv)+

lemma avoids_map_err [avoids_intros]: "(\<And>d. g d = e \<Longrightarrow> avoids d m) \<Longrightarrow> avoids e (act_map_err g m)"
  unfolding avoids_def by (auto simp: act_map_err_def result_simps split: prod.splits) (metis fst_conv)

lemma avoids_parts [avoids_intros]: "avoids e m \<Longrightarrow> avoids e (on_fst m)" "avoids e n \<Longrightarrow> avoids e (on_snd n)"
  unfolding avoids_def by (auto simp: on_fst_def on_snd_def split: prod.splits) (metis fst_conv)+

lemma avoids_fold [avoids_intros]: "(\<And>acc x. avoids e (f acc x)) \<Longrightarrow> avoids e (act_fold f acc xs)"
  by (induction xs arbitrary: acc) (simp_all add: avoids_pure avoids_bind)

lemma avoidsD: "avoids e m \<Longrightarrow> m s \<noteq> (Err e, t)"
  unfolding avoids_def by (metis fst_conv)

lemma try_fold_avoids: "(\<And>acc x. f acc x \<noteq> Err e) \<Longrightarrow> try_fold f acc xs \<noteq> Err e"
  by (induction xs arbitrary: acc) (auto simp: result_simps)

section \<open>Creating\<close>

lemma issuer_key_no_panic: "issuer_key tools name \<noteq> Err LtvPanic"
  by (auto simp: issuer_key_def result_simps)

lemma fetched_crl_no_panic: "fetched_crl_of tools fetched_bytes \<noteq> Err LtvPanic"
  using issuer_key_no_panic
  by (auto simp: fetched_crl_of_def crl_der_of_def result_simps split: if_splits prod.splits)

lemma fetch_no_panic: "avoids LtvPanic (fetch_chain_crls tools chain)"
proof -
  have "distribution_uris tools certificate \<noteq> Err LtvPanic" for certificate
    by (auto simp: distribution_uris_def result_simps split: option.splits)
  moreover have "avoids LtvPanic (try_uris tools subject None uris)" if "uris \<noteq> []" for subject uris
    unfolding avoids_def by (intro allI try_uris_never_panics disjI1 that fetched_crl_no_panic)
  ultimately have "avoids LtvPanic (fetch_crl tools certificate)" for certificate
    unfolding fetch_crl_def Let_def by (auto intro!: avoids_intros split: option.split)
  then show ?thesis unfolding fetch_chain_crls_def by (intro avoids_intros)
qed

lemma record_no_panic:
  "avoids LtvPanic (materialize_record_directories tools worktree)" "avoids LtvPanic (write_text_file tools path content)"
  "avoids LtvPanic (record_chain_crls tools worktree crls)" "avoids LtvPanic (ltv_record tools worktree h)"
proof -
  show directories: "avoids LtvPanic (materialize_record_directories tools worktree)"
    unfolding materialize_record_directories_def Let_def by (intro avoids_intros) simp
  show written: "avoids LtvPanic (write_text_file tools path content)" for path content
    unfolding write_text_file_def by (intro avoids_intros) simp
  show recorded: "avoids LtvPanic (record_chain_crls tools worktree crls)" for crls
    unfolding record_chain_crls_def by (intro avoids_intros written) (auto simp: result_simps)
  show "avoids LtvPanic (ltv_record tools worktree h)"
    unfolding ltv_record_def by (intro avoids_intros directories written recorded)
qed

text \<open>A harvest never panics, so that no panic is taken for the failure of a site.\<close>

lemma harvest_no_panic: "avoids LtvPanic (ltv_harvest tools token_bytes)"
proof -
  have "token_chain tools token_bytes \<noteq> Err LtvPanic"
    by (auto simp: token_chain_def signed_chain_def result_simps dest!: traverse_eq_InlD
      split: list.splits option.splits signer_identifier.splits certificate_choice.splits if_splits)
  moreover have "traverse (\<lambda>certificate. map_err LtvEncoding (certificate_to_pem (lt_codec tools) certificate)) chain \<noteq> Err LtvPanic" for chain
    by (auto dest: traverse_eq_InlD simp: result_simps)
  ultimately show ?thesis
    unfolding ltv_harvest_def
    by (auto intro!: avoids_intros fetch_no_panic simp: issuer_key_no_panic split: prod.split)
qed

lemma refresh_no_panic:
  assumes "\<And>bs. load_pem_chain (lt_pem tools) bs \<noteq> None"
  shows "avoids LtvPanic (ltv_refresh tools worktree)"
proof -
  have "load_chain_file tools file_path pem_bytes \<noteq> Err LtvPanic" for file_path pem_bytes
    using assms by (auto simp: load_chain_file_def result_simps split: if_splits)
  then have "avoids LtvPanic (refresh_chain tools worktree records maybe_entry)" for records maybe_entry
    unfolding refresh_chain_def
    by (intro avoids_intros fetch_no_panic record_no_panic) (auto simp: result_simps)
  then have "avoids LtvPanic (act_bind (on_fst (materialize_record_directories tools worktree)) (\<lambda>_.
      act_fold (refresh_chain tools worktree) records entries))" for records entries
    by (intro avoids_intros record_no_panic)
  then show ?thesis
    unfolding avoids_def by (auto simp: ltv_refresh_def Let_def split: sum.split io_error.split)
qed

definition create_panics :: "create_error \<Rightarrow> bool" where
  "create_panics e \<longleftrightarrow> e = CreatePanic \<or> e = LtvFailure LtvPanic"

lemma create_run_panics:
  assumes "create_run ct inputs s = Some (Err e, s')" "create_panics e"
  shows "\<exists>bs. load_pem_chain (lt_pem (ct_ltv ct)) bs = None"
proof (rule ccontr)
  assume "\<nexists>bs. load_pem_chain (lt_pem (ct_ltv ct)) bs = None"
  then have refresh: "avoids LtvPanic (ltv_refresh (ct_ltv ct) worktree)" for worktree using refresh_no_panic[of "ct_ltv ct"] by simp
  have "avoids e (apply_ltv_records gw base_tree_id records)" for gw :: "('r, 'ed) git_writer" and base_tree_id records
    unfolding apply_ltv_records_def mirror_file_def using assms(2)
    by (auto intro!: avoids_intros simp: create_panics_def result_simps)
  moreover have "read_config r i \<noteq> Err e" for r i
    using assms(2) read_config_fail by (auto simp: create_panics_def read_config_def result_simps split: if_splits)
  ultimately have prepares: "avoids e (prepare ct inputs)"
    unfolding prepare_def using assms(2) refresh
    by (intro avoids_intros) (auto simp: create_panics_def result_simps)
  have deposits: "avoids (LtvFailure LtvPanic) (act_fold (deposit_harvest (ct_ltv ct) worktree) harvests tokens)" for worktree harvests tokens
    unfolding deposit_harvest_def by (intro avoids_intros record_no_panic) (auto simp: result_simps intro: record_no_panic)
  have gathers: "gather_tokens ct inputs worktree records cfg manifest_text s1 \<noteq> (Err e, s2)" for worktree records cfg manifest_text s1 s2
  proof -
    have "avoids (LtvFailure LtvPanic) (acquire_harvesting ct i)" for i
      unfolding avoids_def by (auto simp: acquire_harvesting_def result_simps split: prod.splits)
    then have "avoids (LtvFailure LtvPanic) (gather_tokens ct inputs worktree records cfg manifest_text)"
      unfolding gather_tokens_def by (auto intro!: avoids_intros deposits split: prod.split)
    then show ?thesis
      using gather_tokens_kept[of ct inputs worktree records cfg manifest_text s1 "Err e" s2] assms(2)
      by (auto simp: create_panics_def dest: avoidsD)
  qed
  from assms(1) show False
  proof (cases rule: create_run_cases)
    case (Unfixed wt records content_tree_id cfg e')
    then show False using assms(2)
      by (auto simp: create_panics_def fix_manifest_def result_simps split: option.splits sum.splits)
  next
    case (Sealing wt records content_tree_id cfg s1 manifest_text acquired s2 x r2)
    then show False using assms(2) by (cases x) (auto simp: create_panics_def)
  qed (use gathers avoidsD[OF prepares] in auto)
qed

section \<open>Auditing\<close>

text \<open>The documented panic of \<open>load_pem_chain\<close> is on input that holds nothing but line ends.\<close>

definition panics_beyond_line_ends :: "pem \<Rightarrow> bool" where
  "panics_beyond_line_ends pm \<longleftrightarrow> (\<exists>bs. load_pem_chain pm bs = None \<and> \<not> set bs \<subseteq> {CHR 0x0A, CHR 0x0D})"

lemma certificates_from_pem_panics:
  "certificates_from_pem pm c pem_bytes description = Err TrustPanic \<Longrightarrow> panics_beyond_line_ends pm"
  using certificates_from_pem_no_panic[of pm] unfolding panics_beyond_line_ends_def by blast

lemma absorb_panics: "absorb pm c m deposit = Err (AuditMaterial TrustPanic) \<Longrightarrow> panics_beyond_line_ends pm"
  by (auto simp: absorb_def crl_from_pem_def result_simps split: deposit_kind.splits if_splits prod.splits
    dest: certificates_from_pem_panics)

lemma audit_run_panics:
  assumes "audit_run a repository inputs = Some (Err (AuditMaterial TrustPanic))"
  shows "panics_beyond_line_ends (au_pem a)"
proof (rule ccontr)
  assume fine: "\<not> panics_beyond_line_ends (au_pem a)"
  let ?panic = "AuditMaterial TrustPanic"
  have absorbs: "absorb (au_pem a) (au_cms a) m deposit \<noteq> Err ?panic" for m deposit
    using fine absorb_panics by blast
  have failure: "?panic \<noteq> worktree_failure e" for e by (cases e) simp_all
  have tree: "audit_tree_of r i \<noteq> Err ?panic" for r i
    by (auto simp: audit_tree_of_def result_simps)
  have "sealed_records r i layout \<noteq> Err ?panic" for r i layout
    using tree
    by (auto simp: sealed_records_def read_sealed_record_def result_simps Let_def split: option.splits if_splits dest!: traverse_eq_InlD)
  then have "and_then (sealed_records r i layout) (try_fold (absorb (au_pem a) (au_cms a)) m) \<noteq> Err ?panic" for r i layout m
    using try_fold_avoids[of "absorb (au_pem a) (au_cms a)" ?panic, OF absorbs] by (auto simp: result_simps)
  then have "try_fold (gather_tree_material (au_pem a) (au_cms a) r) m ids \<noteq> Err ?panic" for r m ids
    unfolding gather_tree_material_def by (intro try_fold_avoids)
  moreover have "blob_at r i path \<noteq> Err ?panic" for r i path
    using tree by (auto simp: blob_at_def result_simps split: option.splits if_splits)
  then have "gather_deposit (au_pem a) (au_cms a) r i state deposit \<noteq> Err ?panic" for r i state deposit
    using absorbs by (auto simp: gather_deposit_def result_simps)
  then have "gather_worktree_material (au_pem a) (au_cms a) fs r inputs m \<noteq> Err ?panic" for fs r m
    using try_fold_avoids[of "gather_deposit (au_pem a) (au_cms a) r (aud_start_id inputs)" ?panic]
      failure
    by (auto simp: gather_worktree_material_def result_simps split: option.split)
  ultimately have "gather_material a repository inputs claiming \<noteq> Err ?panic" for claiming
    by (auto simp: gather_material_def result_simps Let_def simp del: try_fold.simps)
  with assms show False
    by (auto simp: audit_run_def split: option.splits sum.splits)
qed

end
