(* ===== verification/Command_Line.thy ===== *)
theory Command_Line
  imports Causes Staging_Sync Panics "HOL-Library.Word"
begin

text \<open>
  \<open>crates/tydence-cli/src/main.rs\<close>: the four commands over a repository, what they print and how they exit. The
  state is the repository, the file system and the world. A command that fails returns its error to \<open>main\<close>, which
  reports it; its lines up to there are printed already. A panic of the library unwinds past \<open>main\<close>: nothing is
  reported and no exit code is chosen. \<open>None\<close> where a walk of the library does not end.
\<close>

section \<open>Arguments\<close>

record anchor_args =
  anchor_files :: "string list"

record stamp_args =
  sa_profile :: string
  sa_anchors :: anchor_args
  sa_amend :: bool
  sa_message :: "string option"

record verify_args =
  va_anchors :: anchor_args
  va_commit :: "string option"

datatype command = Stamp stamp_args | Verify verify_args | Precommit | DropArtifacts

record cli =
  cli_directory :: string
  cli_command :: command

section \<open>Output and failures\<close>

text \<open>A line of the standard output, and one of the standard error.\<close>

datatype line = Printed string | Reported string

text \<open>\<open>Box<dyn Error>\<close>: a text of the command line itself, an error of \<open>gix\<close>, or one of the library.\<close>

datatype failure_cause =
  CliMessage string
  | CliGit string
  | CliTrust trust_error
  | CliCreate create_error
  | CliAudit audit_error
  | CliStaging staging_error

fun failure_display :: "error_formats \<Rightarrow> failure_cause \<Rightarrow> string" where
  "failure_display ef (CliMessage message) = message"
| "failure_display ef (CliGit cause) = cause"
| "failure_display ef (CliTrust cause) = trust_error_display (ef_text ef) cause"
| "failure_display ef (CliCreate cause) = create_error_display (ef_formats ef) cause"
| "failure_display ef (CliAudit cause) = audit_error_display (ef_text ef) cause"
| "failure_display ef (CliStaging cause) = staging_error_display (ef_text ef) cause"

fun failure_causes :: "error_formats \<Rightarrow> failure_cause \<Rightarrow> string list" where
  "failure_causes ef (CliMessage _) = []"
| "failure_causes ef (CliGit cause) = ef_deeper ef cause"
| "failure_causes ef (CliTrust cause) = trust_error_causes ef cause"
| "failure_causes ef (CliCreate cause) = create_error_causes ef cause"
| "failure_causes ef (CliAudit cause) = audit_error_causes ef cause"
| "failure_causes ef (CliStaging cause) = staging_error_causes ef cause"

definition report :: "error_formats \<Rightarrow> failure_cause \<Rightarrow> line list" where
  "report ef error =
     Reported (''tydence: '' @ failure_display ef error) #
     map (\<lambda>cause. Reported (''  caused by: '' @ cause)) (failure_causes ef error)"

text \<open>\<open>ExitCode\<close>: what was judged or done, evidence that failed, and an operation that did.\<close>

abbreviation (input) SUCCESS :: nat where "SUCCESS \<equiv> 0"

type_synonym 'a outcome = "(failure_cause, 'a) result"

section \<open>What the commands run on\<close>

text \<open>The library's parameters, with the file system as it is at the moment of the call; the rest of \<open>gix\<close> the command
  line calls; the environment's \<open>HOME\<close>; and the formatter of \<open>gix::date\<close>. The checkout and the stamping share the
  repository layer.\<close>

record ('r, 'ed, 'w, 'env, 'resp) shell =
  sh_creator :: "('r, 'ed, 'w \<times> 'env, 'resp, site) creator"
  sh_checkout :: "'r checkout"
  sh_environment :: "'env stamp_environment"
  sh_http :: "('w, 'resp) http_client"
  sh_formats :: error_formats
  sh_from_hex :: "bytes \<Rightarrow> (string, object_id) result"
  sh_discover :: "string \<Rightarrow> (string, 'r) result"
  sh_home :: "string option"
  sh_configured :: "'r \<Rightarrow> bytes list option"
  sh_head_ref :: "'r \<Rightarrow> (string, bytes option) result"
  sh_head_id :: "'r \<Rightarrow> (string, object_id) result"
  sh_rev_parse :: "'r \<Rightarrow> string \<Rightarrow> (string, object_id) result"
  sh_peel_to_commit :: "'r \<Rightarrow> object_id \<Rightarrow> (string, object_id) result"
  sh_message_raw :: "'r \<Rightarrow> object_id \<Rightarrow> (string, bytes) result"
  sh_author :: "'r \<Rightarrow> (string, string) result option"
  sh_committer :: "'r \<Rightarrow> (string, string) result option"
  sh_to_owned :: "string \<Rightarrow> (string, string) result"
  sh_iso8601 :: "int \<Rightarrow> (string, string) result"

abbreviation sh_gix :: "('r, 'ed, 'w, 'env, 'resp) shell \<Rightarrow> 'r gix" where
  "sh_gix sh \<equiv> ct_gix (sh_creator sh)"

abbreviation sh_writer :: "('r, 'ed, 'w, 'env, 'resp) shell \<Rightarrow> ('r, 'ed) git_writer" where
  "sh_writer sh \<equiv> ct_writer (sh_creator sh)"

abbreviation sh_objects :: "('r, 'ed, 'w, 'env, 'resp) shell \<Rightarrow> 'r \<Rightarrow> git_repository" where
  "sh_objects sh \<equiv> gx_objects (sh_gix sh)"

definition stamping :: "('r, 'ed, 'w, 'env, 'resp) shell \<Rightarrow> ('r, 'ed, 'w \<times> 'env, 'resp, site) creator" where
  "stamping sh = (sh_creator sh)\<lparr>ct_anchors := live_anchors (lt_cms (ct_ltv (sh_creator sh))) (sh_environment sh) (sh_http sh)
     (tsp_error_display (ef_text (sh_formats sh)) (ef_moment (sh_formats sh)))\<rparr>"

definition auditing :: "('r, 'ed, 'w, 'env, 'resp) shell \<Rightarrow> file_system \<Rightarrow> 'r auditor" where
  "auditing sh fs =
     (let ct = sh_creator sh in
      \<lparr>au_gix = ct_gix ct, au_table = ct_table ct, au_digests = ct_digests ct, au_pki = lt_pki (ct_ltv ct),
       au_cms = lt_cms (ct_ltv ct), au_pem = lt_pem (ct_ltv ct), au_files = fs, au_from_hex = sh_from_hex sh\<rparr>)"

definition checkout_used :: "('r, 'ed, 'w, 'env, 'resp) shell \<Rightarrow> 'r checkout" where
  "checkout_used sh = (sh_checkout sh)\<lparr>ck_gix := sh_gix sh\<rparr>"

section \<open>Anchors\<close>

definition expand_home :: "string option \<Rightarrow> string \<Rightarrow> string" where
  "expand_home home path =
     (case (strip_prefix ''~/'' path, home) of
        (Some below_home, Some home) \<Rightarrow> path_join home below_home
      | _ \<Rightarrow> path)"

definition configured_anchor_paths :: "('r, 'ed, 'w, 'env, 'resp) shell \<Rightarrow> 'r \<Rightarrow> string list" where
  "configured_anchor_paths sh repository =
     map (\<lambda>configured. expand_home (sh_home sh) (gr_display (sh_objects sh repository) configured))
       (case sh_configured sh repository of None \<Rightarrow> [] | Some configured \<Rightarrow> configured)"

definition extend_anchors ::
  "('r, 'ed, 'w, 'env, 'resp) shell \<Rightarrow> file_system \<Rightarrow> bytes list \<Rightarrow> string \<Rightarrow> bytes list outcome" where
  "extend_anchors sh fs anchors path =
     (let tools = ct_ltv (sh_creator sh) in
      and_then (map_err CliTrust (load_anchor_file (lt_pem tools) (lt_cms tools) fs path)) (\<lambda>loaded. Ok (anchors @ loaded)))"

definition load_anchors ::
  "('r, 'ed, 'w, 'env, 'resp) shell \<Rightarrow> 'r \<Rightarrow> file_system \<Rightarrow> anchor_args \<Rightarrow> bytes list outcome" where
  "load_anchors sh repository fs args =
     and_then (try_fold (extend_anchors sh fs) [] (configured_anchor_paths sh repository)) (\<lambda>anchors.
     and_then (try_fold (extend_anchors sh fs) anchors (anchor_files args)) (\<lambda>anchors.
     if anchors = []
     then Err (CliMessage
       ''no trust anchors supplied: name PEM files with `git config --add tydence.anchor <path>` or pass --anchor'')
     else Ok anchors))"

section \<open>The request to stamp\<close>

definition signature_of ::
  "(string \<Rightarrow> (string, string) result) \<Rightarrow> (string, string) result option \<Rightarrow> string \<Rightarrow> string outcome" where
  "signature_of to_owned maybe_identity role =
     and_then (ok_or (CliMessage (''no '' @ role @ '' identity; configure user.name and user.email'')) maybe_identity) (\<lambda>identity.
     and_then (map_err CliGit identity) (\<lambda>identity. map_err CliGit (to_owned identity)))"

definition decode_tip_message :: "bytes \<Rightarrow> string outcome" where
  "decode_tip_message raw_message =
     (case from_utf8 raw_message of
        Ok message \<Rightarrow> Ok message
      | Err _ \<Rightarrow> Err (CliMessage (''the tip'' @ (CHR 0x27 # ''s message is not UTF-8 text; pass --message''))))"

definition stamp_parent_ids :: "bool \<Rightarrow> object_id \<Rightarrow> object_id list \<Rightarrow> object_id list" where
  "stamp_parent_ids amend head_id head_parent_ids = (if amend then head_parent_ids else [head_id])"

definition stamp_message ::
  "('r, 'ed, 'w, 'env, 'resp) shell \<Rightarrow> 'r \<Rightarrow> object_id \<Rightarrow> stamp_args \<Rightarrow> string outcome" where
  "stamp_message sh repository head_id args =
     (case (sa_message args, sa_amend args) of
        (Some message, _) \<Rightarrow> Ok message
      | (None, True) \<Rightarrow> and_then (map_err CliGit (sh_message_raw sh repository head_id)) decode_tip_message
      | (None, False) \<Rightarrow> Ok (''Stamp with profile '' @ sa_profile args))"

definition stamp_request ::
  "('r, 'ed, 'w, 'env, 'resp) shell \<Rightarrow> 'r \<Rightarrow> file_system \<Rightarrow> stamp_args \<Rightarrow> create_inputs outcome" where
  "stamp_request sh repository fs args =
     and_then (load_anchors sh repository fs (sa_anchors args)) (\<lambda>anchor_certificates.
     and_then (map_err CliGit (sh_head_ref sh repository)) (\<lambda>maybe_head_ref.
     and_then (ok_or (CliMessage ''HEAD is detached; stamping moves a branch, check one out first'') maybe_head_ref) (\<lambda>head_ref.
     and_then (map_err CliGit (sh_head_id sh repository)) (\<lambda>head_id.
     and_then (map_err CliGit (gr_find_commit (sh_objects sh repository) head_id)) (\<lambda>head_commit.
     and_then (map_err CliGit (gc_tree_id head_commit)) (\<lambda>base_tree_id.
     and_then (signature_of (sh_to_owned sh) (sh_author sh repository) ''author'') (\<lambda>author.
     and_then (signature_of (sh_to_owned sh) (sh_committer sh repository) ''committer'') (\<lambda>committer.
     and_then (stamp_message sh repository head_id args) (\<lambda>message.
     Ok \<lparr>cr_base_tree_id = base_tree_id, cr_profile_name = sa_profile args, cr_anchor_certificates = anchor_certificates,
         cr_parent_ids = stamp_parent_ids (sa_amend args) head_id (gc_parents head_commit), cr_message = message,
         cr_author = author, cr_committer = committer, cr_reference_name = gr_display (sh_objects sh repository) head_ref,
         cr_expected = MustExistAndMatch head_id\<rparr>)))))))))"

section \<open>Stamping\<close>

definition warning_line :: "error_formats \<Rightarrow> site_failure \<Rightarrow> line" where
  "warning_line ef warning =
     Reported (''tydence: warning: site '' @ sf_site_name warning @ '' skipped: '' @
       site_cause_display (ef_moment ef) (sf_cause warning))"

definition sealed_line :: "object_id \<Rightarrow> string \<Rightarrow> line" where
  "sealed_line commit_id reference_name = Printed (''sealed '' @ commit_id @ '' on '' @ reference_name)"

definition converge_checkout :: "'r checkout \<Rightarrow> ('r \<times> file_system, failure_cause, string list) action" where
  "converge_checkout ck =
     act_bind (act_map_err CliStaging (sync_artifacts ck)) (\<lambda>_. act_map_err CliStaging (stage_deposits ck))"

definition queued_lines :: "string list \<Rightarrow> line list" where
  "queued_lines queued =
     (if queued = [] then []
      else [Printed ''queued LTV deposits the manifest could not yet cover:''] @ map (\<lambda>path. Printed (''  '' @ path)) queued @
        [Printed ''seal them promptly with a follow-up stamp or an ordinary commit''])"

text \<open>The dash of one message, in UTF-8.\<close>

definition EM_DASH :: string where "EM_DASH = [CHR 0xE2, CHR 0x80, CHR 0x94]"

text \<open>The stamp is sealed: what is left converges the checkout, and its failure exits 2.\<close>

definition after_seal ::
  "('r, 'ed, 'w, 'env, 'resp) shell \<Rightarrow> 'r \<times> file_system \<Rightarrow> line list \<times> nat \<times> 'r \<times> file_system" where
  "after_seal sh s =
     (case converge_checkout (checkout_used sh) s of
        (Err cause, s) \<Rightarrow>
          (report (sh_formats sh) cause @
           [Reported (''tydence: the stamp is sealed; only the checkout did not converge to it '' @ EM_DASH @
              '' fix the cause, then run `git restore --source=HEAD --staged --worktree -- .tydence`'')], 2, s)
      | (Ok queued, s) \<Rightarrow> (queued_lines queued, SUCCESS, s))"

type_synonym ('r, 'w) ran = "(line list \<times> nat outcome \<times> ('r, 'w) creation) option"

definition stamp ::
  "('r, 'ed, 'w, 'env, 'resp) shell \<Rightarrow> stamp_args \<Rightarrow> ('r, 'w \<times> 'env) creation \<Rightarrow> ('r, 'w \<times> 'env) ran" where
  "stamp sh args s =
     (case stamp_request sh (fst s) (fst (snd s)) args of
        Err e \<Rightarrow> Some ([], Err e, s)
      | Ok inputs \<Rightarrow>
          (case create_run (stamping sh) inputs s of
             None \<Rightarrow> None
           | Some (Err e, s) \<Rightarrow> Some ([], Err (CliCreate e), s)
           | Some (Ok created, (r, fs, w)) \<Rightarrow>
               (case after_seal sh (r, fs) of (lines, code, (r, fs)) \<Rightarrow>
                  Some (map (warning_line (sh_formats sh)) (cs_warnings created) @
                    [sealed_line (cs_commit_id created) (cr_reference_name inputs)] @ lines, Ok code, (r, fs, w)))))"

section \<open>Verifying\<close>

text \<open>A moment is in nanoseconds since the epoch; \<open>as_secs() as i64\<close> reads whole seconds as a signed 64-bit integer.\<close>

definition format_moment ::
  "(int \<Rightarrow> (string, string) result) \<Rightarrow> (system_time \<Rightarrow> string) \<Rightarrow> system_time \<Rightarrow> string" where
  "format_moment iso8601 debug_time moment =
     (if 0 \<le> moment
      then (case iso8601 (sint (word_of_int (moment div 1000000000) :: 64 word)) of Ok formatted \<Rightarrow> formatted | Err _ \<Rightarrow> debug_time moment)
      else ''before 1970-01-01T00:00:00+00:00'')"

definition accepted_text :: "('r, 'ed, 'w, 'env, 'resp) shell \<Rightarrow> accepted_token \<Rightarrow> string" where
  "accepted_text sh token =
     at_site token @ '' at '' @ format_moment (sh_iso8601 sh) (ef_moment (sh_formats sh)) (ts_gen_time (at_summary token))"

definition verdict_lines :: "('r, 'ed, 'w, 'env, 'resp) shell \<Rightarrow> claim_verdict \<Rightarrow> line list" where
  "verdict_lines sh verdict =
     (let ef = sh_formats sh in
      case cv_outcome verdict of
        Ok summary \<Rightarrow>
          [Printed (''PASS '' @ cv_commit_id verdict @ '' ('' @
             join_with '', '' (map (accepted_text sh) (sum_accepted summary)) @ '')''),
           Printed (''  manifest '' @ payload_hashes_display (sum_manifest_hashes summary))] @
          map (\<lambda>rejection. Printed (''  note: token '' @ rt_site rejection @ '' rejected: '' @
            token_error_display (ef_moment ef) (rt_cause rejection))) (sum_rejected summary)
      | Err failure \<Rightarrow>
          [Printed (''FAIL '' @ cv_commit_id verdict @ '': '' @
             claim_failure_display (ef_text ef) (ef_lossy ef) (ef_moment ef) failure)])"

definition verify_start :: "('r, 'ed, 'w, 'env, 'resp) shell \<Rightarrow> 'r \<Rightarrow> verify_args \<Rightarrow> object_id outcome" where
  "verify_start sh repository args =
     (case va_commit args of
        Some revision \<Rightarrow>
          and_then (map_err CliGit (sh_rev_parse sh repository revision)) (\<lambda>object_id.
          map_err CliGit (sh_peel_to_commit sh repository object_id))
      | None \<Rightarrow> map_err CliGit (sh_head_id sh repository))"

definition audit_request ::
  "('r, 'ed, 'w, 'env, 'resp) shell \<Rightarrow> 'r \<Rightarrow> file_system \<Rightarrow> verify_args \<Rightarrow> audit_inputs outcome" where
  "audit_request sh repository fs args =
     and_then (load_anchors sh repository fs (va_anchors args)) (\<lambda>anchor_certificates.
     and_then (verify_start sh repository args) (\<lambda>start_id.
     Ok \<lparr>aud_start_id = start_id, aud_anchor_certificates = anchor_certificates, aud_worktree = gx_workdir (sh_gix sh) repository\<rparr>))"

definition passes :: "claim_verdict \<Rightarrow> bool" where
  "passes verdict = (case cv_outcome verdict of Ok _ \<Rightarrow> True | Err _ \<Rightarrow> False)"

definition audit_lines :: "('r, 'ed, 'w, 'env, 'resp) shell \<Rightarrow> object_id \<Rightarrow> audit \<Rightarrow> line list" where
  "audit_lines sh start_id audit =
     (if audit_verdicts audit = [] then [Printed (''no stamp claim behind '' @ start_id @ '': nothing is proven'')]
      else
        (if start_is_claiming audit then []
         else [Printed (start_id @ '' is not itself a stamp; judging the nearest stamps behind it (content since then rests on git integrity alone)'')]) @
        concat (map (verdict_lines sh) (audit_verdicts audit)) @
        map (\<lambda>path. Printed (''note: unsealed LTV deposit: '' @ path)) (unsealed_deposits audit) @
        (if unsealed_deposits audit = [] then []
         else [Printed ''note: seal the deposits with a follow-up stamp or an ordinary commit'']))"

definition audit_code :: "audit \<Rightarrow> nat" where
  "audit_code audit =
     (if audit_verdicts audit = [] then 1 else if list_all passes (audit_verdicts audit) then SUCCESS else 1)"

definition verify ::
  "('r, 'ed, 'w, 'env, 'resp) shell \<Rightarrow> verify_args \<Rightarrow> 'r \<Rightarrow> file_system \<Rightarrow> (line list \<times> nat outcome) option" where
  "verify sh args repository fs =
     (case audit_request sh repository fs args of
        Err e \<Rightarrow> Some ([], Err e)
      | Ok inputs \<Rightarrow>
          (case audit_run (auditing sh fs) repository inputs of
             None \<Rightarrow> None
           | Some (Err e) \<Rightarrow> Some ([], Err (CliAudit e))
           | Some (Ok audit) \<Rightarrow> Some (audit_lines sh (aud_start_id inputs) audit, Ok (audit_code audit))))"

section \<open>Around a commit\<close>

definition precommit :: "'r checkout \<Rightarrow> 'r \<Rightarrow> line list \<times> nat outcome" where
  "precommit ck repository =
     (case staged_artifacts ck repository of
        Err e \<Rightarrow> ([], Err (CliStaging e))
      | Ok staged \<Rightarrow>
          if staged = [] then ([], Ok SUCCESS)
          else ([Reported ''tydence: the index holds stamp artifacts:''] @ map (\<lambda>path. Reported (''  '' @ path)) staged @
            [Reported ''tydence: only `tydence stamp` seals stamp commits; run `tydence drop` to make the next commit an ordinary one''],
            Ok 1))"

definition drop_command :: "'r checkout \<Rightarrow> 'r \<times> file_system \<Rightarrow> line list \<times> nat outcome \<times> 'r \<times> file_system" where
  "drop_command ck s =
     (case drop_artifacts ck s of
        (Err e, s) \<Rightarrow> ([], Err (CliStaging e), s)
      | (Ok dropped, s) \<Rightarrow>
          (if dropped = [] then [Printed ''nothing to drop'']
           else Printed ''dropped stamp artifacts:'' # map (\<lambda>path. Printed (''  '' @ path)) dropped, Ok SUCCESS, s))"

section \<open>The program\<close>

definition run_command ::
  "('r, 'ed, 'w, 'env, 'resp) shell \<Rightarrow> command \<Rightarrow> ('r, 'w \<times> 'env) creation \<Rightarrow> ('r, 'w \<times> 'env) ran" where
  "run_command sh command s =
     (case command of
        Stamp args \<Rightarrow> stamp sh args s
      | Verify args \<Rightarrow> map_option (\<lambda>(lines, outcome). (lines, outcome, s)) (verify sh args (fst s) (fst (snd s)))
      | Precommit \<Rightarrow> (case precommit (checkout_used sh) (fst s) of (lines, outcome) \<Rightarrow> Some (lines, outcome, s))
      | DropArtifacts \<Rightarrow>
          (case drop_command (checkout_used sh) (fst s, fst (snd s)) of (lines, outcome, (r, fs)) \<Rightarrow>
             Some (lines, outcome, (r, fs, snd (snd s)))))"

text \<open>How the program ends: with the exit code \<open>main\<close> returns, or in a panic, which \<open>main\<close> does not catch.\<close>

datatype ending = Exited nat | Panicked

text \<open>The failures of the model that stand for a panic of the library.\<close>

definition panics :: "failure_cause \<Rightarrow> bool" where
  "panics cause \<longleftrightarrow> cause = CliTrust TrustPanic \<or> cause = CliAudit (AuditMaterial TrustPanic) \<or>
     (\<exists>e. cause = CliCreate e \<and> create_panics e)"

text \<open>\<open>main\<close> once the repository is open: an error is reported after what the command printed, and exits 2.\<close>

definition ended :: "error_formats \<Rightarrow> line list \<Rightarrow> nat outcome \<Rightarrow> line list \<times> ending" where
  "ended ef lines result =
     (case result of
        Ok code \<Rightarrow> (lines, Exited code)
      | Err e \<Rightarrow> if panics e then (lines, Panicked) else (lines @ report ef e, Exited 2))"

definition main_command ::
  "('r, 'ed, 'w, 'env, 'resp) shell \<Rightarrow> command \<Rightarrow> ('r, 'w \<times> 'env) creation
    \<Rightarrow> (line list \<times> ending \<times> ('r, 'w \<times> 'env) creation) option" where
  "main_command sh command s =
     map_option (\<lambda>(lines, outcome, s). case ended (sh_formats sh) lines outcome of (lines, ending) \<Rightarrow> (lines, ending, s))
       (run_command sh command s)"

definition main ::
  "('r, 'ed, 'w, 'env, 'resp) shell \<Rightarrow> cli \<Rightarrow> file_system \<times> 'w \<times> 'env
    \<Rightarrow> (line list \<times> ending \<times> ('r, 'w \<times> 'env) creation option) option" where
  "main sh args s =
     (case sh_discover sh (cli_directory args) of
        Err e \<Rightarrow> Some (report (sh_formats sh) (CliGit e), Exited 2, None)
      | Ok repository \<Rightarrow>
          map_option (\<lambda>(lines, ending, s). (lines, ending, Some s)) (main_command sh (cli_command args) (repository, s)))"

lemma main_command_Some:
  "main_command sh command s = Some (lines, ending, s') \<longleftrightarrow>
     (\<exists>printed result. run_command sh command s = Some (printed, result, s') \<and> ended (sh_formats sh) printed result = (lines, ending))"
proof (cases "run_command sh command s")
  case (Some ran)
  obtain printed result t where "ran = (printed, result, t)" by (cases ran)
  with Some show ?thesis by (cases "ended (sh_formats sh) printed result") (auto simp: main_command_def)
qed (simp add: main_command_def)

lemma ended_simps [simp]:
  "ended ef lines (Ok code) = (lines, Exited code)"
  "ended ef lines (Err e) = (if panics e then (lines, Panicked) else (lines @ report ef e, Exited 2))"
  by (simp_all add: ended_def)

lemma not_panics [simp]: "\<not> panics (CliMessage m)" "\<not> panics (CliGit m)" "\<not> panics (CliStaging se)"
  by (simp_all add: panics_def)

text \<open>A request panics only where the panic of \<open>load_pem_chain\<close> is not the documented one.\<close>

lemma load_anchors_panics:
  assumes "load_anchors sh r fs args = Err e" "panics e"
  shows "panics_beyond_line_ends (lt_pem (ct_ltv (sh_creator sh)))"
proof (rule ccontr)
  assume fine: "\<not> panics_beyond_line_ends (lt_pem (ct_ltv (sh_creator sh)))"
  have "load_anchor_file (lt_pem (ct_ltv (sh_creator sh))) c fs path \<noteq> Err TrustPanic" for c path
    using fine certificates_from_pem_panics by (auto simp: load_anchor_file_def result_simps split: io_error.splits)
  then have "extend_anchors sh fs anchors path \<noteq> Err e" for anchors path
    using assms(2) by (auto simp: extend_anchors_def result_simps Let_def panics_def)
  then have "try_fold (extend_anchors sh fs) anchors paths \<noteq> Err e" for anchors paths by (rule try_fold_avoids)
  with assms show False
    by (auto simp: load_anchors_def result_simps simp del: try_fold.simps split: if_splits)
qed

section \<open>What the exit code tells of the branch\<close>

text \<open>Writing blobs and the index leaves the references alone.\<close>

definition same_references :: "('r, 'ed) git_writer \<Rightarrow> 'r \<Rightarrow> 'r \<Rightarrow> bool" where
  "same_references gw r r' \<longleftrightarrow> references gw r' = references gw r"

definition keeps_references :: "('r, 'ed) git_writer \<Rightarrow> 'r checkout \<Rightarrow> bool" where
  "keeps_references gw ck \<longleftrightarrow> (\<forall>bs. act_within (same_references gw) (ck_write_blob ck bs)) \<and>
     (\<forall>options index. act_within (same_references gw) (ck_write_index ck options index))"

interpretation branches: state_preorder "same_references gw" for gw
  by unfold_locales (simp_all add: same_references_def)

interpretation branches_on_disk: state_preorder "\<lambda>s t. same_references gw (fst s) (fst t)" for gw
  by unfold_locales (simp_all add: same_references_def)

lemma converge_keeps_references:
  assumes "keeps_references gw ck"
  shows "act_within (\<lambda>s t. same_references gw (fst s) (fst t)) (converge_checkout ck)"
proof -
  have writes: "act_within (same_references gw) (ck_write_blob ck bs)"
    "act_within (same_references gw) (ck_write_index ck options index)" for bs options index
    using assms by (simp_all add: keeps_references_def)
  have "act_within (\<lambda>s t. same_references gw (fst s) (fst t)) (sync_file ck worktree acc f)" for worktree acc f
    unfolding sync_file_def Let_def
    by (intro branches_on_disk.bound branches_on_disk.pure branches.on_parts) (auto split: option.split intro!: branches.on_parts)
  then have "act_within (\<lambda>s t. same_references gw (fst s) (fst t)) (sync_artifacts ck)"
    unfolding sync_artifacts_def Let_def
    by (auto intro!: branches_on_disk.bound branches_on_disk.pure branches_on_disk.folded branches.on_parts branches.renamed writes split: prod.split)
  moreover have "act_within (same_references gw) (stage_record ck acc deposit)" for acc deposit
    unfolding stage_record_def by (intro branches.bound branches.renamed branches.pure writes)
  then have "act_within (\<lambda>s t. same_references gw (fst s) (fst t)) (stage_deposits ck)"
    unfolding stage_deposits_def
    by (auto intro!: branches_on_disk.bound branches_on_disk.pure branches.folded branches.on_parts branches.renamed writes split: prod.split)
  ultimately show ?thesis
    unfolding converge_checkout_def by (intro branches_on_disk.bound branches_on_disk.renamed)
qed

lemma report_only_reports: "sealed_line commit_id reference_name \<notin> set (report ef error)"
  by (auto simp: report_def sealed_line_def)

lemma after_seal_ends:
  assumes "keeps_references gw (checkout_used sh)" "after_seal sh (r, fs) = (lines, code, (r', fs'))"
  shows "references gw r' = references gw r" "code = 0 \<or> code = 2" "code = 0 \<longleftrightarrow> is_ok (fst (converge_checkout (checkout_used sh) (r, fs)))"
proof -
  obtain x s1 where run: "converge_checkout (checkout_used sh) (r, fs) = (x, s1)" by (metis surj_pair)
  with assms(2) have "s1 = (r', fs')" "code = 0 \<or> code = 2" "code = 0 \<longleftrightarrow> is_ok x"
    by (auto simp: after_seal_def split: sum.splits)
  with act_withinD[OF converge_keeps_references[OF assms(1)] run] run
  show "references gw r' = references gw r" "code = 0 \<or> code = 2"
    "code = 0 \<longleftrightarrow> is_ok (fst (converge_checkout (checkout_used sh) (r, fs)))"
    by (simp_all add: same_references_def)
qed

lemma stamp_request_Ok:
  assumes "stamp_request sh r fs args = Ok inputs"
  obtains head_ref head_id where "sh_head_ref sh r = Ok (Some head_ref)" "sh_head_id sh r = Ok head_id"
    "cr_reference_name inputs = gr_display (sh_objects sh r) head_ref" "cr_expected inputs = MustExistAndMatch head_id"
    "cr_anchor_certificates inputs \<noteq> []"
  using assms by (auto simp: stamp_request_def load_anchors_def result_simps split: if_splits)

lemma signature_no_panic: "panics e \<Longrightarrow> signature_of to_owned maybe_identity role \<noteq> Err e"
  by (auto simp: signature_of_def result_simps)

lemma message_no_panic: "panics e \<Longrightarrow> stamp_message sh r head_id args \<noteq> Err e"
proof -
  have "decode_tip_message raw_message = Err e \<Longrightarrow> \<not> panics e" for raw_message
    by (cases "from_utf8 raw_message") (auto simp: decode_tip_message_def)
  then show "panics e \<Longrightarrow> stamp_message sh r head_id args \<noteq> Err e"
    by (auto simp: stamp_message_def result_simps split: option.splits bool.splits)
qed

lemma stamp_request_panics:
  assumes "stamp_request sh r fs args = Err e" "panics e"
  shows "\<exists>bs. load_pem_chain (lt_pem (ct_ltv (sh_creator sh))) bs = None"
proof (cases "load_anchors sh r fs (sa_anchors args)")
  case (Inl e')
  with assms have "panics_beyond_line_ends (lt_pem (ct_ltv (sh_creator sh)))" by (intro load_anchors_panics[of sh r fs _ e]) (auto simp: stamp_request_def)
  then show ?thesis by (auto simp: panics_beyond_line_ends_def)
next
  case (Inr anchors)
  with assms have False
    by (auto simp: stamp_request_def and_then_eq_Inl map_err_eq_Inl ok_or_eq_Inl signature_no_panic message_no_panic)
  then show ?thesis ..
qed

text \<open>C7: how a stamp ends and what it printed tell where the branch stands. Either the sealed line was printed, the
  checked out branch moved from the tip that was stamped to the commit of that line and no other reference moved, and
  the exit is 0 or, where only the checkout did not converge, 2; or no such line was printed, every reference stands,
  and the exit is 2 or the program panicked, which it does only where \<open>load_pem_chain\<close> does. A stamp never exits with
  the verdict 1.\<close>

theorem stamp_exit_tells_the_branch:
  assumes "sound_writer (sh_gix sh) (sh_writer sh)" "keeps_references (sh_writer sh) (checkout_used sh)"
    and run: "main_command sh (Stamp args) (r, fs, w) = Some (lines, ending, (r', fs', w'))"
  shows "(\<exists>head_ref head_id name commit_id. sh_head_ref sh r = Ok (Some head_ref) \<and> sh_head_id sh r = Ok head_id \<and>
      full_name (sh_writer sh) (gr_display (sh_objects sh r) head_ref) = Ok name \<and>
      references (sh_writer sh) r name = Some head_id \<and>
      references (sh_writer sh) r' = (references (sh_writer sh) r)(name := Some commit_id) \<and>
      sealed_line commit_id (gr_display (sh_objects sh r) head_ref) \<in> set lines \<and>
      (ending = Exited 0 \<or> ending = Exited 2)) \<or>
    ((ending = Exited 2 \<or> ending = Panicked \<and> (\<exists>bs. load_pem_chain (lt_pem (ct_ltv (sh_creator sh))) bs = None)) \<and>
      references (sh_writer sh) r' = references (sh_writer sh) r \<and>
      (\<forall>commit_id name. sealed_line commit_id name \<notin> set lines))"
proof -
  from run obtain lines0 result where ran: "stamp sh args (r, fs, w) = Some (lines0, result, (r', fs', w'))"
    and ended: "ended (sh_formats sh) lines0 result = (lines, ending)"
    by (auto simp: main_command_Some run_command_def)
  have failed: ?thesis if "result = Err e" "lines0 = []" "references (sh_writer sh) r' = references (sh_writer sh) r"
    "panics e \<Longrightarrow> \<exists>bs. load_pem_chain (lt_pem (ct_ltv (sh_creator sh))) bs = None" for e
    using that ended report_only_reports[of _ _ "sh_formats sh" e] by (auto split: if_splits)
  show ?thesis
  proof (cases "stamp_request sh r fs args")
    case (Inl e)
    with ran have "result = Err e" "lines0 = []" "r' = r" by (simp_all add: stamp_def)
    with failed[of e] stamp_request_panics[OF Inl] show ?thesis by simp
  next
    case (Inr inputs)
    with ran obtain created s1 where creating: "create_run (stamping sh) inputs (r, fs, w) = Some (created, s1)"
      by (auto simp: stamp_def split: option.splits)
    have "sound_writer (ct_gix (stamping sh)) (ct_writer (stamping sh))" using assms(1) by (simp add: stamping_def)
    note moved = create_run_references[OF this creating]
    show ?thesis
    proof (cases created)
      case (Inl e)
      with ran Inr creating have "result = Err (CliCreate e)" "lines0 = []" "s1 = (r', fs', w')" by (auto simp: stamp_def)
      moreover have "\<exists>bs. load_pem_chain (lt_pem (ct_ltv (sh_creator sh))) bs = None" if "panics (CliCreate e)"
        using that create_run_panics[OF creating[unfolded Inl]] by (simp add: panics_def stamping_def)
      ultimately show ?thesis using failed[of "CliCreate e"] moved Inl by (simp add: stamping_def)
    next
      case (Inr made)
      obtain r1 fs1 w1 where s1: "s1 = (r1, fs1, w1)" by (metis prod_cases3)
      obtain more code1 r2 fs2 where after: "after_seal sh (r1, fs1) = (more, code1, (r2, fs2))" by (metis prod_cases4)
      with ran creating Inr \<open>stamp_request sh r fs args = Ok inputs\<close> s1
      have sealed: "lines0 = map (warning_line (sh_formats sh)) (cs_warnings made) @ [sealed_line (cs_commit_id made) (cr_reference_name inputs)] @ more"
        "result = Ok code1" "r' = r2" by (auto simp: stamp_def)
      obtain head_ref head_id where head: "sh_head_ref sh r = Ok (Some head_ref)" "sh_head_id sh r = Ok head_id"
        "cr_reference_name inputs = gr_display (sh_objects sh r) head_ref" "cr_expected inputs = MustExistAndMatch head_id"
        using stamp_request_Ok[OF \<open>stamp_request sh r fs args = Ok inputs\<close>] .
      from moved Inr s1 obtain name where "full_name (sh_writer sh) (cr_reference_name inputs) = Ok name"
        "references (sh_writer sh) r1 = (references (sh_writer sh) r)(name := Some (cs_commit_id made))"
        "references (sh_writer sh) r name = Some head_id"
        by (auto simp: stamping_def head(4))
      moreover note after_seal_ends(1,2)[OF assms(2) after]
      ultimately show ?thesis using head sealed ended by auto
    qed
  qed
qed

text \<open>The panic is reached: an empty chain file among the LTV records, on which \<open>load_pem_chain\<close> panics, ends a stamp
  without a report and without an exit code.\<close>

lemma empty_chain_file_panics_stamp:
  assumes "stamp_request sh r fs args = Ok inputs" "gx_workdir (sh_gix sh) r = Some worktree"
    and "fs_read_dir fs (path_join worktree LTV_CERTS_PATH) = Ok (Ok file_path # others)"
      "chain_record_name file_path = Some record_name" "file_content fs file_path = Some []"
      "create_failure (lt_writer (ct_ltv (sh_creator sh))) = (\<lambda>_ _. None)" "load_pem_chain (lt_pem (ct_ltv (sh_creator sh))) [] = None"
  shows "\<exists>s'. main_command sh (Stamp args) (r, fs, w) = Some ([], Panicked, s')"
proof -
  have tools: "ct_ltv (stamping sh) = ct_ltv (sh_creator sh)" "ct_gix (stamping sh) = sh_gix sh" by (simp_all add: stamping_def)
  obtain t where "ltv_refresh (ct_ltv (sh_creator sh)) worktree (fs, w) = (Err LtvPanic, t)"
    using refresh_panics[OF assms(3-7), of w] by (metis prod.collapse)
  then have "prepare (stamping sh) inputs (r, fs, w) = (Err (LtvFailure LtvPanic), (r, t))"
    using assms(2) by (simp add: prepare_def act_bind_def act_map_err_def on_snd_def tools)
  then have "create_run (stamping sh) inputs (r, fs, w) = Some (Err (LtvFailure LtvPanic), (r, t))" by (simp add: create_run_def)
  with assms(1) show ?thesis
    by (intro exI[of _ "(r, t)"]) (simp add: main_command_def run_command_def stamp_def panics_def create_panics_def)
qed

section \<open>What the exit code tells of the stamps\<close>

text \<open>The claims a verification is about.\<close>

definition claims_behind :: "git_repository \<Rightarrow> object_id \<Rightarrow> object_id set" where
  "claims_behind r start_id = {c. open_line r {start_id} c \<and> carries_manifest r c}"

lemma audit_request_Ok:
  assumes "audit_request sh r fs args = Ok inputs"
  shows "aud_anchor_certificates inputs \<noteq> []" "verify_start sh r args = Ok (aud_start_id inputs)"
  using assms by (auto simp: audit_request_def load_anchors_def result_simps split: if_splits)

lemma audit_request_panics:
  "audit_request sh r fs args = Err e \<Longrightarrow> panics e \<Longrightarrow> panics_beyond_line_ends (lt_pem (ct_ltv (sh_creator sh)))"
  using load_anchors_panics[of sh r fs "va_anchors args" e]
  by (auto simp: audit_request_def verify_start_def result_simps split: option.splits)

lemma passes_iff: "passes v \<longleftrightarrow> (\<exists>summary. cv_outcome v = Ok summary)"
  by (auto simp: passes_def split: sum.splits)

lemma audit_code_0: "audit_code audit = 0 \<longleftrightarrow> audit_verdicts audit \<noteq> [] \<and> list_all passes (audit_verdicts audit)"
  by (simp add: audit_code_def)

lemma failure_is_printed:
  assumes "v \<in> set (audit_verdicts audit)" "cv_outcome v = Err failure"
  shows "Printed (''FAIL '' @ cv_commit_id v @ '': '' @ claim_failure_display (ef_text (sh_formats sh)) (ef_lossy (sh_formats sh))
      (ef_moment (sh_formats sh)) failure) \<in> set (audit_lines sh start_id audit)"
    (is "?line \<in> _")
proof -
  have "?line \<in> set (verdict_lines sh v)" using assms(2) by (simp add: verdict_lines_def Let_def)
  with assms(1) have "?line \<in> set (concat (map (verdict_lines sh) (audit_verdicts audit)))" "audit_verdicts audit \<noteq> []" by auto
  then show ?thesis unfolding audit_lines_def by simp
qed

text \<open>C8: the exit code of a verification is its verdict: 0 exactly where there is a stamp claim behind the start and
  every nearest claim passes under the anchors that were supplied and the material gathered, of which there is at
  least one; 1 where no claim is there or one fails, and each failure is printed; 2 where the verification could not
  be made. It panics only where \<open>load_pem_chain\<close> panics on more than line ends, which it is not known to do. Nothing
  is changed.\<close>

theorem verify_exit_is_the_verdict:
  assumes "main_command sh (Verify args) (r, fs, w) = Some (lines, ending, s')"
  shows "s' = (r, fs, w) \<and>
    (ending = Exited 2 \<and> ((\<exists>e. audit_request sh r fs args = Err e) \<or>
       (\<exists>inputs e. audit_request sh r fs args = Ok inputs \<and> audit_run (auditing sh fs) r inputs = Some (Err e))) \<or>
     (\<exists>inputs trust. audit_request sh r fs args = Ok inputs \<and> aud_anchor_certificates inputs \<noteq> [] \<and>
       td_anchor_certificates trust = aud_anchor_certificates inputs \<and>
       ending = Exited (if claims_behind (sh_objects sh r) (aud_start_id inputs) \<noteq> {} \<and>
           (\<forall>c \<in> claims_behind (sh_objects sh r) (aud_start_id inputs).
              \<exists>summary. judge_claim (auditing sh fs) r trust c = Some (Ok summary)) then 0 else 1) \<and>
       (\<forall>c \<in> claims_behind (sh_objects sh r) (aud_start_id inputs). \<forall>failure.
          judge_claim (auditing sh fs) r trust c = Some (Err failure) \<longrightarrow>
          Printed (''FAIL '' @ c @ '': '' @ claim_failure_display (ef_text (sh_formats sh)) (ef_lossy (sh_formats sh))
            (ef_moment (sh_formats sh)) failure) \<in> set lines)) \<or>
     (ending = Panicked \<and> (\<exists>bs. load_pem_chain (lt_pem (ct_ltv (sh_creator sh))) bs = None \<and> \<not> set bs \<subseteq> {CHR 0x0A, CHR 0x0D})))"
proof -
  let ?pem = "lt_pem (ct_ltv (sh_creator sh))"
  from assms obtain printed result where ran: "verify sh args r fs = Some (printed, result)" "s' = (r, fs, w)"
    and ended: "ended (sh_formats sh) printed result = (lines, ending)"
    by (auto simp: main_command_Some run_command_def)
  consider (refused) e where "audit_request sh r fs args = Err e" "result = Err e"
    | (failed) inputs e where "audit_request sh r fs args = Ok inputs" "audit_run (auditing sh fs) r inputs = Some (Err e)" "result = Err (CliAudit e)"
    | (judged) inputs audit where "audit_request sh r fs args = Ok inputs" "audit_run (auditing sh fs) r inputs = Some (Ok audit)"
        "result = Ok (audit_code audit)" "printed = audit_lines sh (aud_start_id inputs) audit"
    using ran(1) by (auto simp: verify_def split: sum.splits option.splits)
  then show ?thesis
  proof cases
    case (judged inputs audit)
    have "gx_objects (au_gix (auditing sh fs)) r = sh_objects sh r" by (simp add: auditing_def Let_def)
    with audited_claims[OF judged(2)] obtain trust where trust: "td_anchor_certificates trust = aud_anchor_certificates inputs"
      and ids: "cv_commit_id ` set (audit_verdicts audit) = claims_behind (sh_objects sh r) (aud_start_id inputs)"
      and outcome: "\<forall>v \<in> set (audit_verdicts audit). judge_claim (auditing sh fs) r trust (cv_commit_id v) = Some (cv_outcome v)"
      unfolding claims_behind_def by (elim exE conjE) simp
    have "audit_code audit = (if claims_behind (sh_objects sh r) (aud_start_id inputs) \<noteq> {} \<and>
        (\<forall>c \<in> claims_behind (sh_objects sh r) (aud_start_id inputs). \<exists>summary. judge_claim (auditing sh fs) r trust c = Some (Ok summary))
        then 0 else 1)"
      using outcome unfolding ids[symmetric] by (auto simp: audit_code_def list_all_iff passes_iff)
    then have "ending = Exited (if claims_behind (sh_objects sh r) (aud_start_id inputs) \<noteq> {} \<and>
        (\<forall>c \<in> claims_behind (sh_objects sh r) (aud_start_id inputs). \<exists>summary. judge_claim (auditing sh fs) r trust c = Some (Ok summary))
        then 0 else 1)"
      using ended judged(3) by simp
    moreover have "Printed (''FAIL '' @ c @ '': '' @ claim_failure_display (ef_text (sh_formats sh)) (ef_lossy (sh_formats sh))
        (ef_moment (sh_formats sh)) failure) \<in> set lines"
      if "c \<in> claims_behind (sh_objects sh r) (aud_start_id inputs)" "judge_claim (auditing sh fs) r trust c = Some (Err failure)" for c failure
    proof -
      from that(1) obtain v where v: "v \<in> set (audit_verdicts audit)" "c = cv_commit_id v" unfolding ids[symmetric] by blast
      with that(2) outcome have "cv_outcome v = Err failure" by auto
      have "lines = audit_lines sh (aud_start_id inputs) audit" using ended judged(3,4) by simp
      with failure_is_printed[OF v(1) \<open>cv_outcome v = Err failure\<close>] v(2) show ?thesis by simp
    qed
    ultimately show ?thesis using judged(1) ran(2) trust audit_request_Ok(1)[OF judged(1)] by blast
  next
    case (refused e)
    with ran(2) ended audit_request_panics[OF refused(1)] show ?thesis
      by (auto simp: panics_beyond_line_ends_def split: if_splits)
  next
    case (failed inputs e)
    have "panics_beyond_line_ends ?pem" if "panics (CliAudit e)"
      using audit_run_panics[of "auditing sh fs" r inputs] failed(2) that by (simp add: panics_def auditing_def Let_def)
    with failed ran(2) ended show ?thesis
      by (auto simp: panics_beyond_line_ends_def split: if_splits)
  qed
qed

section \<open>Around an ordinary commit\<close>

text \<open>The check of a commit reads only the index.\<close>

lemma main_precommit:
  "main_command sh Precommit s =
     (case precommit (checkout_used sh) (fst s) of (printed, result) \<Rightarrow>
        (case ended (sh_formats sh) printed result of (lines, ending) \<Rightarrow> Some (lines, ending, s)))"
  by (simp add: main_command_def run_command_def split: prod.split)

lemma staged_artifacts_Nil: "staged_artifacts ck r = Ok [] \<Longrightarrow> precommit ck r = ([], Ok SUCCESS)"
  by (simp add: precommit_def)

lemma drop_artifacts_unstages:
  assumes "keeps_index ck" "drop_artifacts ck (r, fs) = (Ok dropped, (r', fs'))"
  shows "staged_artifacts ck r' = Ok []"
proof -
  obtain spotted r1 where spotted: "staged_artifacts ck r = Ok spotted" "r' = r1"
    and first: "if spotted \<noteq> [] then drop_from_index ck r = (Ok (), r1) else r1 = r"
    using assms(2) by (auto simp: drop_artifacts_def action_simps result_simps split: if_splits)
  show ?thesis
  proof (cases "spotted = []")
    case False
    with first obtain index where "ck_open_index ck r = Ok index" by (auto simp: drop_from_index_def action_simps result_simps)
    from dropped_index(2)[OF assms(1) this spotted(1) first] spotted(2) show ?thesis by simp
  qed (use first spotted in simp)
qed

text \<open>The manifest and the tokens an index holds.\<close>

definition artifacts_in :: "index_entry list \<Rightarrow> bytes set" where
  "artifacts_in index = {path \<in> index_paths index. path = MANIFEST_PATH \<or> below TOKENS_PATH path}"

lemma staged_artifacts_Ok:
  "staged_artifacts ck r = Ok staged \<longleftrightarrow> (\<exists>index. ck_index_or_empty ck r = Ok index \<and>
     staged = map (gr_display (gx_objects (ck_gix ck) r)) (filter is_stamp_artifact (map ie_path index)))"
  by (auto simp: staged_artifacts_def result_simps)

lemma artifacts_in_filter: "set (filter is_stamp_artifact (map ie_path index)) = artifacts_in index"
  "filter is_stamp_artifact (map ie_path index) = [] \<longleftrightarrow> artifacts_in index = {}"
  by (auto simp: artifacts_in_def index_paths_def is_stamp_artifact_iff filter_empty_conv)

lemma precommit_ends:
  assumes "main_command sh Precommit s = Some (lines, ending, t)"
  shows "t = s \<and> (case ck_index_or_empty (checkout_used sh) (fst s) of
      Err e \<Rightarrow> ending = Exited 2
    | Ok index \<Rightarrow> ending = Exited (if artifacts_in index = {} then 0 else 1) \<and> (artifacts_in index = {} \<longrightarrow> lines = []) \<and>
        (\<forall>path \<in> artifacts_in index. Reported (''  '' @ gr_display (sh_objects sh (fst s)) path) \<in> set lines))"
proof (cases "ck_index_or_empty (checkout_used sh) (fst s)")
  case (Inl e)
  with assms show ?thesis by (auto simp: main_precommit precommit_def staged_artifacts_def)
next
  case (Inr index)
  have gix: "ck_gix (checkout_used sh) = sh_gix sh" by (simp add: checkout_used_def)
  obtain paths where paths: "filter is_stamp_artifact (map ie_path index) = paths" "set paths = artifacts_in index"
    "paths = [] \<longleftrightarrow> artifacts_in index = {}"
    using artifacts_in_filter by metis
  with Inr have "staged_artifacts (checkout_used sh) (fst s) = Ok (map (gr_display (sh_objects sh (fst s))) paths)"
    by (simp add: staged_artifacts_def gix)
  with assms Inr paths(2,3) show ?thesis
    by (cases "paths = []") (auto simp: main_precommit precommit_def)
qed

text \<open>C16: a commit is refused exactly while the index holds a manifest or a token, each of which is then named, and a
  drop that exits 0 leaves an index without any, so that the next commit is an ordinary one: the check then exits 0
  and prints nothing. The check changes nothing, and exits 2 where the index cannot be read.\<close>

theorem drop_opens_the_commit:
  assumes "keeps_index (checkout_used sh)" "main_command sh Precommit s = Some (lines, ending, t)"
  shows "t = s \<and>
    (case ck_index_or_empty (checkout_used sh) (fst s) of
       Err e \<Rightarrow> ending = Exited 2
     | Ok index \<Rightarrow> ending = Exited (if artifacts_in index = {} then 0 else 1) \<and> (artifacts_in index = {} \<longrightarrow> lines = []) \<and>
         (\<forall>path \<in> artifacts_in index. Reported (''  '' @ gr_display (sh_objects sh (fst s)) path) \<in> set lines)) \<and>
    (\<forall>dropped s'. main_command sh DropArtifacts s = Some (dropped, Exited 0, s') \<longrightarrow>
       (\<exists>index. ck_index_or_empty (checkout_used sh) (fst s') = Ok index \<and> artifacts_in index = {}) \<and>
       main_command sh Precommit s' = Some ([], Exited 0, s'))"
proof (intro conjI allI impI)
  note ends = precommit_ends[OF assms(2)]
  from ends show "t = s" by simp
  from ends show "case ck_index_or_empty (checkout_used sh) (fst s) of
       Err e \<Rightarrow> ending = Exited 2
     | Ok index \<Rightarrow> ending = Exited (if artifacts_in index = {} then 0 else 1) \<and> (artifacts_in index = {} \<longrightarrow> lines = []) \<and>
         (\<forall>path \<in> artifacts_in index. Reported (''  '' @ gr_display (sh_objects sh (fst s)) path) \<in> set lines)" by (rule conjunct2)
next
  fix dropped s' assume "main_command sh DropArtifacts s = Some (dropped, Exited 0, s')"
  then obtain printed result where "drop_command (checkout_used sh) (fst s, fst (snd s)) = (printed, Ok 0, (fst s', fst (snd s')))"
    by (auto simp: main_command_Some run_command_def ended_def split: prod.splits sum.splits if_splits)
  then obtain found where "drop_artifacts (checkout_used sh) (fst s, fst (snd s)) = (Ok found, (fst s', fst (snd s')))"
    by (auto simp: drop_command_def split: prod.splits sum.splits)
  note none = drop_artifacts_unstages[OF assms(1) this]
  then obtain index where "ck_index_or_empty (checkout_used sh) (fst s') = Ok index" "filter is_stamp_artifact (map ie_path index) = []"
    unfolding staged_artifacts_Ok by auto
  then show "\<exists>index. ck_index_or_empty (checkout_used sh) (fst s') = Ok index \<and> artifacts_in index = {}"
    by (simp only: artifacts_in_filter) blast
  from staged_artifacts_Nil[OF none] show "main_command sh Precommit s' = Some ([], Exited 0, s')"
    by (simp add: main_precommit)
qed

end
