(* ===== verification/Command_Line_Example.thy ===== *)
theory Command_Line_Example
  imports Command_Line Create_Example
begin

text \<open>
  The commands run to their end: a stamp over the branch of \<open>Create_Example\<close> through live anchors, a verification of the
  stamped commit of \<open>Repository_Audit\<close>, and a drop in the checkout of \<open>Staging_Sync\<close>. They show that what the
  theorems about the command line assume can hold.
\<close>

section \<open>A concrete environment\<close>

text \<open>An authority that echoes the request, and a clock that stands at the time of its tokens.\<close>

definition toy_echo :: "(nat, string \<times> bytes) http_client" where
  "toy_echo =
     \<lparr>http_get = \<lambda>_ w _. (Err (HttpFailed ''no resource''), w),
      http_post = \<lambda>_ w _ _ request. (Ok (''Application/Timestamp-Reply; v=1'', request), w),
      resp_header = \<lambda>response _. Some (fst response), header_to_str = Some,
      read_to_vec = \<lambda>w response _. (Ok (snd response), w), http_debug = \<lambda>s. s\<rparr>"

definition toy_clock :: "nat stamp_environment" where
  "toy_clock = toy_environment\<lparr>now := \<lambda>_. 50\<rparr>"

definition toy_formats :: error_formats where
  "toy_formats =
     \<lparr>ef_formats = \<lparr>debug_text = \<lambda>s. s, path_text = \<lambda>s. s, debug_bytes = \<lambda>s. s, debug_moment = \<lambda>_. []\<rparr>,
      ef_lossy = \<lambda>s. s, ef_deeper = \<lambda>_. []\<rparr>"

definition toy_shell ::
  "('r, 'ed, nat \<times> nat, string \<times> bytes, site) creator \<Rightarrow> 'r checkout \<Rightarrow> object_id \<Rightarrow> ('r, 'ed, nat, nat, string \<times> bytes) shell" where
  "toy_shell ct ck head_id =
     \<lparr>sh_creator = ct, sh_checkout = ck, sh_environment = toy_clock, sh_http = toy_echo, sh_formats = toy_formats,
      sh_from_hex = Ok, sh_discover = \<lambda>_. Err ''no repository'', sh_home = Some ''/home'', sh_configured = \<lambda>_. None,
      sh_head_ref = \<lambda>_. Ok (Some ''refs/heads/main''), sh_head_id = \<lambda>_. Ok head_id, sh_rev_parse = \<lambda>_ revision. Ok revision,
      sh_peel_to_commit = \<lambda>_ i. Ok i, sh_message_raw = \<lambda>_ _. Ok ''base'', sh_author = \<lambda>_. Some (Ok ''a''),
      sh_committer = \<lambda>_. Some (Ok ''a''), sh_to_owned = Ok, sh_iso8601 = \<lambda>_. Ok ''1970-01-01T00:00:00+00:00''\<rparr>"

definition toy_echo_anchors :: "(nat \<times> nat, site) anchor_maker" where
  "toy_echo_anchors = live_anchors toy_cms toy_clock toy_echo (tsp_error_display (ef_text toy_formats) (ef_moment toy_formats))"

lemma toy_live: "answers_toy_token toy_echo_anchors"
proof -
  have "exchange toy_echo (https_transport_new network url) request = (Ok request, https_transport_new network url)" for network url request
    by (simp add: exchange_def with_interrupt_retry_def retry_loop.simps exchange_once_def read_body_def toy_echo_def
      https_transport_new_def declared_content_type_def INTERRUPT_RETRIES_def MAX_RESPONSE_BYTES_def toy_reply Let_def)
  then have "fst (acquire_token toy_cms toy_clock (exchange toy_echo) (live_anchor network environment sample_site) payload) = Ok toy_token"
    for network environment payload
    by (simp add: acquire_token_def toy_clock_def toy_environment_def live_anchor_def encode_nonce_def build_request_def
      nonce_content_def unsigned_part_def toy_cms_def eval_nat_numeral accept_response_def ensure_granted_def
      toy_content_info_def toy_signed_data_def toy_tst_info_def toy_any_def ensure_plausible_gen_time_def
      MAX_GEN_TIME_DIVERGENCE_def matches_sent_imprint_def is_absent_or_null_parameter_def listed_def
      result_simps sample_site_def toy_token_def)
  then show ?thesis
    unfolding answers_toy_token_def toy_echo_anchors_def live_anchors_def
    by (simp add: split_beta)
qed

section \<open>A stamp\<close>

text \<open>The index is locked: the stamp is sealed, and only the checkout does not follow.\<close>

definition toy_locked :: "toy_store checkout" where
  "toy_locked =
     \<lparr>ck_gix = toy_store_gix, ck_write_blob = write_blob toy_writer, ck_head_commit = \<lambda>_. Err ''locked'',
      ck_open_index = \<lambda>_. Err ''locked'', ck_index_or_empty = \<lambda>_. Err ''locked'', ck_write_index = \<lambda>_ _ r. (Err ''locked'', r),
      ck_entry_index = rust_binary_search, ck_sort_entries = sort_key ie_path, ck_files = ck_files toy_checkout,
      ck_is_dir = ck_is_dir toy_checkout, ck_remove_dir_all = ck_remove_dir_all toy_checkout\<rparr>"

definition toy_stamping_shell :: "(toy_store, toy_files, nat, nat, string \<times> bytes) shell" where
  "toy_stamping_shell = toy_shell (toy_creator_of toy_echo_anchors) toy_locked (toy_id 0)"

definition toy_stamp_args :: stamp_args where
  "toy_stamp_args =
     \<lparr>sa_profile = ''p'', sa_anchors = \<lparr>anchor_files = [''/root.pem'']\<rparr>, sa_amend = False, sa_message = Some ''stamp''\<rparr>"

lemma toy_loads_root: "load_anchor_file (lt_pem (toy_ltv :: 'w toy_tools)) (lt_cms (toy_ltv :: 'w toy_tools)) (toy_disk chain_file) ''/root.pem'' = Ok [''root'']"
  by (simp add: load_anchor_file_def certificates_from_pem_def toy_ltv_def toy_disk_def toy_cms_def toy_root_def toy_certificate_def
    is_ascii_whitespace_def)

lemma toy_request: "stamp_request toy_stamping_shell toy_unstamped (toy_disk ''chain'') toy_stamp_args = Ok toy_create"
  by (simp add: toy_loads_root stamp_request_def load_anchors_def configured_anchor_paths_def extend_anchors_def toy_stamping_shell_def toy_shell_def
    toy_creator_parts toy_stamp_args_def toy_store_gix_def toy_unstamped_def nth_object_def signature_of_def stamp_message_def
    stamp_parent_ids_def toy_create_def)

lemma toy_keeps_references: "keeps_references toy_writer (checkout_used toy_stamping_shell)"
  by (simp add: keeps_references_def act_within_def same_references_def checkout_used_def toy_stamping_shell_def toy_shell_def
    toy_locked_def toy_writer_def)

lemma stamp_exit_tells_the_branch_witness:
  "\<exists>lines ending r' fs' w' commit_id. main_command toy_stamping_shell (Stamp toy_stamp_args) (toy_unstamped, toy_disk ''chain'', (0, 0)) =
       Some (lines, ending, (r', fs', w')) \<and> ending \<in> {Exited 0, Exited 2} \<and> ts_references r' = [''refs/heads/main'' \<mapsto> commit_id] \<and>
     sealed_line commit_id ''refs/heads/main'' \<in> set lines"
proof -
  let ?s = "(toy_unstamped, toy_disk ''chain'', (0 :: nat, 0 :: nat))"
  have stamping: "stamping toy_stamping_shell = toy_creator_of toy_echo_anchors"
    by (simp add: stamping_def toy_stamping_shell_def toy_shell_def toy_creator_of_def toy_echo_anchors_def toy_ltv_def)
  obtain created s1 where created: "create_run (toy_creator_of toy_echo_anchors) toy_create ?s = Some (Ok created, s1)"
    using toy_stamps[OF toy_live] by blast
  obtain lines ending r' fs' w' where run: "main_command toy_stamping_shell (Stamp toy_stamp_args) ?s = Some (lines, ending, (r', fs', w'))"
    and sealed: "sealed_line (cs_commit_id created) (cr_reference_name toy_create) \<in> set lines"
    using created toy_request
    by (cases s1; cases "after_seal toy_stamping_shell (fst s1, fst (snd s1))")
      (auto simp: main_command_def run_command_def stamp_def stamping)
  have sound: "sound_writer (sh_gix toy_stamping_shell) (sh_writer toy_stamping_shell)"
    "keeps_references (sh_writer toy_stamping_shell) (checkout_used toy_stamping_shell)"
    using toy_writer_sound toy_keeps_references by (simp_all add: toy_stamping_shell_def toy_shell_def toy_creator_parts)
  from stamp_exit_tells_the_branch[OF sound run] sealed run show ?thesis
    by (auto simp: toy_stamping_shell_def toy_shell_def toy_creator_parts toy_writer_def toy_unstamped_def toy_store_gix_def)
qed

section \<open>A verification\<close>

definition toy_read_only :: "('r, unit) git_writer" where
  "toy_read_only =
     \<lparr>edit_tree = \<lambda>_ _. Err ''read only'', ed_remove = \<lambda>_ _. Err ''read only'', ed_upsert_blob = \<lambda>_ _ _. Err ''read only'',
      ed_files = \<lambda>_ _. None, write_blob = \<lambda>_ r. (Err ''read only'', r), write_tree = \<lambda>_ r. (Err ''read only'', r),
      write_commit = \<lambda>_ r. (Err ''read only'', r), full_name = Ok, edit_reference = \<lambda>_ r. (Err ''read only'', r),
      references = \<lambda>_ _. None\<rparr>"

definition toy_reader :: "'r gix \<Rightarrow> ('r, unit, nat \<times> nat, string \<times> bytes, site) creator" where
  "toy_reader g =
     \<lparr>ct_gix = g, ct_writer = toy_read_only, ct_ltv = toy_ltv\<lparr>lt_pem := au_pem toy_auditor\<rparr>, ct_table = [(0, 32)],
      ct_digests = toy_digests, ct_anchors = toy_echo_anchors, ct_debug = ef_formats toy_formats\<rparr>"

definition toy_unused :: "unit checkout" where
  "toy_unused =
     \<lparr>ck_gix = au_gix toy_auditor, ck_write_blob = \<lambda>_ r. (Err ''read only'', r), ck_head_commit = \<lambda>_. Err ''unborn'',
      ck_open_index = \<lambda>_. Ok [], ck_index_or_empty = \<lambda>_. Ok [], ck_write_index = \<lambda>_ _ r. (Err ''read only'', r),
      ck_entry_index = rust_binary_search, ck_sort_entries = sort_key ie_path, ck_files = ck_files toy_checkout,
      ck_is_dir = ck_is_dir toy_checkout, ck_remove_dir_all = ck_remove_dir_all toy_checkout\<rparr>"

definition toy_verifying_shell :: "(unit, unit, nat, nat, string \<times> bytes) shell" where
  "toy_verifying_shell = toy_shell (toy_reader (au_gix toy_auditor)) toy_unused ''c1''"

definition toy_verify_args :: verify_args where
  "toy_verify_args = \<lparr>va_anchors = \<lparr>anchor_files = [''/root.pem'']\<rparr>, va_commit = Some ''c1''\<rparr>"

lemma verify_exit_is_the_verdict_witness:
  "\<exists>lines trust summary. main_command toy_verifying_shell (Verify toy_verify_args) ((), toy_files, (0, 0)) = Some (lines, Exited 0, ((), toy_files, (0, 0))) \<and>
     judge_claim toy_auditor () trust ''c1'' = Some (Ok summary)"
proof -
  let ?s = "((), toy_files, (0 :: nat, 0 :: nat))"
  have auditor: "auditing toy_verifying_shell toy_files = toy_auditor"
    by (simp add: auditing_def toy_verifying_shell_def toy_shell_def toy_reader_def toy_ltv_def Let_def) (simp add: toy_auditor_def)
  have request: "audit_request toy_verifying_shell () toy_files toy_verify_args = Ok toy_audit_inputs"
    by (simp add: audit_request_def load_anchors_def configured_anchor_paths_def extend_anchors_def toy_verifying_shell_def toy_shell_def
      toy_reader_def toy_verify_args_def verify_start_def load_anchor_file_def certificates_from_pem_def toy_ltv_def toy_files_def
      toy_auditor_def is_ascii_whitespace_def toy_cms_def toy_root_def toy_certificate_def toy_audit_inputs_def)
  obtain summary where audited: "audit_run toy_auditor () toy_audit_inputs = Some (Ok
     \<lparr>start_is_claiming = True, audit_verdicts = [\<lparr>cv_commit_id = ''c1'', cv_outcome = Ok summary\<rparr>],
      unsealed_deposits = [''.tydence/ltv/crls/x.crl'']\<rparr>)" using toy_audited by blast
  then obtain lines where run: "main_command toy_verifying_shell (Verify toy_verify_args) ?s = Some (lines, Exited 0, ?s)"
    by (simp add: main_command_def run_command_def verify_def request auditor audit_code_def passes_def)
  from audited_claims[OF audited] have "''c1'' \<in> claims_behind (gx_objects (au_gix toy_auditor) ()) ''c1''"
    by (auto simp: claims_behind_def toy_audit_inputs_def)
  moreover have "sh_objects toy_verifying_shell = gx_objects (au_gix toy_auditor)"
    by (simp add: toy_verifying_shell_def toy_shell_def toy_reader_def)
  ultimately show ?thesis
    using verify_exit_is_the_verdict[OF run] run auditor request by (fastforce simp: toy_audit_inputs_def split: if_splits)
qed

section \<open>A drop\<close>

definition toy_dropping_shell :: "(toy_store \<times> index_entry list, unit, nat, nat, string \<times> bytes) shell" where
  "toy_dropping_shell = toy_shell (toy_reader (ck_gix toy_checkout)) toy_checkout (toy_id 0)"

lemma drop_opens_the_commit_witness:
  "\<exists>lines dropped s'. main_command toy_dropping_shell Precommit (toy_stale_git, toy_stamped_disk, (0, 0)) =
       Some (lines, Exited 1, (toy_stale_git, toy_stamped_disk, (0, 0))) \<and>
     Reported (''  '' @ TOKENS_PATH @ ''/old.tsr'') \<in> set lines \<and>
     main_command toy_dropping_shell DropArtifacts (toy_stale_git, toy_stamped_disk, (0, 0)) = Some (dropped, Exited 0, s') \<and>
     main_command toy_dropping_shell Precommit s' = Some ([], Exited 0, s')"
proof -
  let ?s = "(toy_stale_git, toy_stamped_disk, (0 :: nat, 0 :: nat))"
  have used: "checkout_used toy_dropping_shell = toy_checkout"
    by (simp add: checkout_used_def toy_dropping_shell_def toy_shell_def toy_reader_def)
  have "staged_artifacts toy_checkout toy_stale_git = Ok [TOKENS_PATH @ ''/old.tsr'']"
    by (simp add: staged_artifacts_def toy_checkout_def toy_stale_git_def toy_stale_index_def toy_index_entry_def is_stamp_artifact_def
      layout_defs toy_store_gix_def)
  then obtain lines where refused: "main_command toy_dropping_shell Precommit ?s = Some (lines, Exited 1, ?s)"
    by (simp add: main_precommit precommit_def used)
  obtain found r' fs' where "drop_artifacts toy_checkout (toy_stale_git, toy_stamped_disk) = (Ok found, (r', fs'))" using toy_drops by blast
  then obtain dropped s' where run: "main_command toy_dropping_shell DropArtifacts ?s = Some (dropped, Exited 0, s')"
    by (simp add: main_command_def run_command_def drop_command_def used)
  have "keeps_index (checkout_used toy_dropping_shell)" using toy_checkout_keeps by (simp add: used)
  note opens = drop_opens_the_commit[OF this refused]
  have "ck_index_or_empty (checkout_used toy_dropping_shell) toy_stale_git = Ok toy_stale_index" "sh_gix toy_dropping_shell = ck_gix toy_checkout"
    by (simp_all add: used toy_checkout_def toy_stale_git_def) (simp add: toy_dropping_shell_def toy_shell_def toy_reader_def toy_checkout_def)
  moreover have "TOKENS_PATH @ ''/old.tsr'' \<in> artifacts_in toy_stale_index"
    by (simp add: artifacts_in_def index_paths_def toy_stale_index_def toy_index_entry_def below_def)
  ultimately have "Reported (''  '' @ TOKENS_PATH @ ''/old.tsr'') \<in> set lines" using opens by (auto simp: toy_checkout_reads(3))
  then show ?thesis using opens run refused by blast
qed

end
