(* ===== verification/Spec2Isabelle.thy ===== *)
theory Spec2Isabelle
  imports Manifest_Canonical Binding_Order Config Tree_Agreement Binding_Verify Chain_Path Token Stamp_Verdict Tsp
    Claims Bind Snapshot Acquire Trust_Files Repository_Audit Bind_Verified
    Transport Ltv Trailers Snapshot_Types Create_Verified Create_Example Created_Audit Staging_Sync Causes Command_Line Command_Line_Example
begin

text \<open>
  A verification library for tydence, a tool that seals the content of a Git repository under RFC 3161
  timestamps (\<open>crates/tydence\<close>, \<open>crates/tydence-ucd\<close>, \<open>crates/tydence-cli\<close>). A stamp is a commit that carries a
  manifest, the text listing every file of its tree under a SHA-256 and SHA3-256 double hash and the earlier
  stamps it renews, and the timestamp tokens that authorities signed over that manifest. Verification walks the
  history to the nearest stamps and judges each one, fail-closed.

  The theories follow the program's modules; paths are under \<open>crates/tydence/src\<close> unless they say otherwise.

  \<^item> \<open>Prelude\<close>, \<open>Strings\<close>, \<open>Codec\<close>, \<open>Ordered_Map\<close>: what the components share. Fallible code
    returns \<open>('e, 'a) result\<close>, the sum with \<open>Err\<close> on the left; \<open>and_then\<close> is the question mark
    operator, \<open>traverse\<close>, \<open>try_fold\<close> and \<open>try_each\<close> are loops that return early. Texts and byte
    strings are both lists of characters below 256; \<open>Utf8\<close> models \<open>std::str::from_utf8\<close>. \<open>Codec\<close> is the
    contract of a partial inverse, interpreted on the path and the hexadecimal encodings; \<open>Ordered_Map\<close> is the
    contract of \<open>BTreeMap\<close>, interpreted on the sorted association lists that stand for it.
  \<^item> \<open>Ucd\<close>: \<open>crates/tydence-ucd/src/parse.rs\<close>, \<open>select.rs\<close> and \<open>expand.rs\<close>, the macro that turns the pinned
    Unicode file into the literal of a table.
    \<open>Path_Encoding\<close>: \<open>manifest/path.rs\<close>. \<open>Hex\<close>: \<open>hex.rs\<close>. Elsewhere the table is a parameter,
    any sorted range table that covers the ASCII controls (\<open>ascii_table\<close>).
  \<^item> \<open>Manifest_Model\<close>, \<open>Manifest_Parse\<close>, \<open>Manifest_Canonical\<close>: \<open>manifest/model.rs\<close>, \<open>hash.rs\<close> and
    \<open>parse.rs\<close>. The parser accepts exactly the serialisations of canonical manifests; an \<open>expect\<close> of the source
    is a branch \<open>ExpectPanic\<close>, shown unreachable. Sizes are bounded by \<open>2 ^ 64\<close>.
  \<^item> \<open>Binding_Order\<close>: \<open>manifest/order.rs\<close>, the canonical order of binding groups, against the greedy
    reference order. \<open>Binding_Verify\<close>: \<open>verify/binding.rs\<close>.
  \<^item> \<open>Config\<close>: \<open>config.rs\<close>. \<open>Tree_Agreement\<close>: \<open>verify/tree.rs\<close>.
  \<^item> \<open>X509\<close>, \<open>Revocation\<close>, \<open>Chain_Path\<close>: \<open>verify/x509.rs\<close>, \<open>revocation.rs\<close> and \<open>path.rs\<close>. The loop of
    \<open>validate_chain\<close> runs at most eight times by its own bound, and the locale \<open>bounded_walk\<close> gives the meaning of
    such a loop.
  \<^item> \<open>Tsp\<close>: \<open>tsp.rs\<close> and the structures of \<open>ess.rs\<close>, the client of a timestamp authority: the request, the
    screening of the response, the anchor. \<open>Token\<close>: \<open>verify/token.rs\<close>. What the crates \<open>der\<close>, \<open>cms\<close>, \<open>x509_tsp\<close>,
    \<open>sha2\<close> and \<open>signature\<close> do is a parameter, the records \<open>cms\<close> and \<open>pki\<close> of functions.
  \<^item> \<open>Stamp_Verdict\<close>: \<open>verify/stamp.rs\<close>, the four checks together.
  \<^item> \<open>Claims\<close>: \<open>layout.rs\<close> and \<open>claims.rs\<close>, the walk to the nearest claims. The object database of the crate
    \<open>gix\<close> is a parameter, the record \<open>git_repository\<close>. The walk is a \<open>partial_function\<close>, \<open>None\<close> being a walk that
    never ends; \<open>nearest_claims_walk_ends\<close> shows that it ends on every finite history, cyclic or not.
    \<open>Bind\<close>: \<open>stamp/bind.rs\<close>, the binding set of a new stamp.
  \<^item> \<open>Worklist\<close>: a loop over a stack of pending items that may grow, \<open>drain\<close>, with the facts a client of
    such a loop needs in the locales \<open>worklist\<close> and \<open>ranked_worklist\<close>. \<open>Files\<close>: paths and the file system,
    the record \<open>file_system\<close> of functions.
  \<^item> \<open>Snapshot\<close>: \<open>snapshot.rs\<close>, the enumeration of a tree and of its submodules. Repositories are
    values of any type that the record \<open>gix\<close> of functions opens and reads. The walk is a \<open>drain\<close>, without a bound
    in the code: a chain of gitlinks never repeats a tree id, so it ends where finitely many ids can be placed.
    \<open>Snapshot_Types\<close>: its entries are well-formed and have distinct paths, which a created stamp rests on.
  \<^item> \<open>Acquire\<close>: \<open>stamp/acquire.rs\<close>, the tokens of one stamp; the anchors act on a world of any type.
  \<^item> \<open>Trust_Files\<close>: \<open>trust.rs\<close> and \<open>deposits.rs\<close>, trust material in files; the PEM decoders are the record
    \<open>pem\<close>.
  \<^item> \<open>Repository_Audit\<close>: \<open>audit.rs\<close>, the walk, the snapshot, the artifacts and the verdict together.
    \<open>Bind_Verified\<close>: the groups that \<open>stamp/bind.rs\<close> lists pass the checks of \<open>verify/binding.rs\<close>.
  \<^item> \<open>Effects\<close>: actions on a state that may fail (\<open>act_bind\<close>, \<open>act_fold\<close>), files that are written, and the
    contract of a keyed store, interpreted on them. \<open>Transport\<close>: \<open>transport.rs\<close>; the client \<open>ureq\<close> acts on a network
    of any type, and an interrupted request is made at most 33 times. \<open>Ltv\<close>: \<open>stamp/ltv.rs\<close>, where a panic of
    \<open>load_pem_chain\<close> is the branch \<open>LtvPanic\<close>. \<open>Trailers\<close>: the commit message of \<open>stamp/create.rs\<close>.
  \<^item> \<open>Seal\<close>: \<open>stamp/seal.rs\<close>, the stamp tree, the commit and the move of the branch. What writes to the repository
    is the record \<open>git_writer\<close>; \<open>sound_writer\<close> says what \<open>gix\<close> documents of it: objects are added and read back, an
    editor removes and places paths, a reference moves under its expectation. \<open>Create\<close>: the rest of
    \<open>stamp/create.rs\<close>, the flow from the refresh of the records to the moved branch, over a state of repository,
    files and world. \<open>Create_Verified\<close>: what a creation writes is what \<open>verify/stamp.rs\<close> accepts.
    \<open>Create_Example\<close>: one creation run to its end.
  \<^item> \<open>Sealed_Tree\<close>: the seal leaves the snapshot alone, \<open>stamp/seal.rs\<close> against \<open>snapshot.rs\<close>, where the content keeps
    clear of the places of the artifacts; \<open>faithful_editor\<close> says that a tree lists the files of the editor that read or
    wrote it. \<open>Created_Audit\<close>: so what \<open>stamp/create.rs\<close> creates passes \<open>audit.rs\<close>, and an
    example of content in such a place, whose stamp does not.
  \<^item> \<open>Staging\<close>, \<open>Staging_Deposits\<close>, \<open>Staging_Sync\<close>: \<open>staging.rs\<close>, the index and the working tree around a
    stamp. The index is the list of its entries; the record \<open>checkout\<close> holds what \<open>gix\<close> and the system do.
    \<open>searches_index\<close> promises a search where the entries compare with the path in order only, as a bisection needs; the
    code also searches lists it has appended to, and \<open>staging_can_duplicate_an_entry\<close> shows what that can leave. The
    theorems about queueing and synchronising therefore ask that no path the index has comes after a smaller one it
    lacks (\<open>new_above_known\<close>). A stamp after a drop satisfies this where the index holds the LTV records that are
    sealed (\<open>dropped_new_above_known\<close>); new records that sort before known ones of the same run do not.

  \<^item> \<open>Causes\<close>: the \<open>source\<close> methods of the error types, as the texts of the chain behind an error. \<open>Command_Line\<close>:
    \<open>crates/tydence-cli/src/main.rs\<close>, the four commands: what each reads and calls, the lines it prints and its exit
    code. The record \<open>shell\<close> holds the rest of \<open>gix\<close>, the environment and the clock. A panic of the library is an
    error value of the model which no caller handles; \<open>ended\<close> neither reports it nor gives it an exit code (\<open>Panicked\<close>).
    \<open>Panics\<close>: where that can happen; a harvest never panics, so that no panic passes for the failure of a site.
    \<open>Command_Line_Example\<close>: a stamp through live anchors, a verification and a drop run to their end.

  Not modelled: the parsing of command line arguments, which the crate \<open>clap\<close> derives; \<open>OsEnvironment\<close>, the system's
  clock and randomness (the record \<open>stamp_environment\<close>); the derived \<open>Debug\<close> formats, which are parameters of the
  displays. \<open>lib.rs\<close> and \<open>manifest/mod.rs\<close> only declare and re-export modules.
\<close>

end
